(* ===== verification/Prelude.thy ===== *)
theory Prelude
  imports Main "HOL-Library.Word" "HOL-Library.Char_ord"
begin

text \<open>
  Shared vocabulary of the development: the machine integer types of the C++ sources, the
  little-endian views that \<open>memcpy\<close> into an integer gives on AArch64, text as the bytes a
  \<open>char*\<close> holds, and the list and word lemmas that the component theories have in common.
  The collections \<open>len_simps\<close> and \<open>le_simps\<close> gather what the byte-level proofs rewrite with.
\<close>

unbundle bit_operations_syntax

type_synonym byte = "8 word"
type_synonym u8 = "8 word"
type_synonym u16 = "16 word"
type_synonym u32 = "32 word"
type_synonym u64 = "64 word"

named_theorems len_simps \<open>length equations of encoders and buffers\<close>
named_theorems le_simps \<open>little-endian reading and writing\<close>

subsection \<open>Text and bytes\<close>

text \<open>A C string literal is the list of its characters; on the wire it is a list of bytes.\<close>

definition text_bytes :: "string \<Rightarrow> byte list" where
  "text_bytes s = map (\<lambda>c. of_char c) s"

lemma length_text_bytes [simp, len_simps]: "length (text_bytes s) = length s"
  by (simp add: text_bytes_def)

lemma text_bytes_append [simp]: "text_bytes (s @ t) = text_bytes s @ text_bytes t"
  by (simp add: text_bytes_def)

lemma text_bytes_Nil [simp]: "text_bytes [] = []"
  by (simp add: text_bytes_def)

subsection \<open>Little-endian integers\<close>

text \<open>The value that \<open>memcpy(&v, p, k)\<close> leaves in a \<open>k\<close>-byte unsigned integer.\<close>

fun le_nat :: "byte list \<Rightarrow> nat" where
  "le_nat [] = 0"
| "le_nat (b # bs) = unat b + 256 * le_nat bs"

text \<open>The \<open>k\<close> bytes of an integer in memory order.\<close>

fun le_bytes :: "nat \<Rightarrow> nat \<Rightarrow> byte list" where
  "le_bytes 0 n = []"
| "le_bytes (Suc k) n = word_of_nat n # le_bytes k (n div 256)"

lemma length_le_bytes [simp, len_simps]: "length (le_bytes k n) = k"
  by (induction k arbitrary: n) auto

lemma byte_less: "unat (b :: byte) < 256"
  using unsigned_less [of b, where 'a = nat] by simp

lemma unat_byte_of_nat [simp]: "unat (word_of_nat n :: byte) = n mod 256"
  by (simp add: unat_of_nat)

lemma le_nat_le_bytes [le_simps]: "le_nat (le_bytes k n) = n mod 256 ^ k"
proof (induction k arbitrary: n)
  case 0
  then show ?case by simp
next
  case (Suc k)
  have "n mod (256 * 256 ^ k) = 256 * (n div 256 mod 256 ^ k) + n mod 256"
    by (rule mod_mult2_eq)
  then show ?case using Suc by simp
qed

lemma le_nat_less: "le_nat bs < 256 ^ length bs"
proof (induction bs)
  case Nil
  then show ?case by simp
next
  case (Cons b bs)
  have "unat b < 256" by (rule byte_less)
  then have "unat b + 256 * le_nat bs < 256 * (le_nat bs + 1)"
    by simp
  also have "\<dots> \<le> 256 * 256 ^ length bs"
    using Cons by (intro mult_le_mono) auto
  finally show ?case by simp
qed

lemma le_nat_inj: "length xs = length ys \<Longrightarrow> le_nat xs = le_nat ys \<Longrightarrow> xs = ys"
proof (induction xs ys rule: list_induct2)
  case Nil
  then show ?case by simp
next
  case (Cons x xs y ys)
  have b: "unat x < 256" "unat y < 256"
    by (rule byte_less)+
  have e: "unat x + 256 * le_nat xs = unat y + 256 * le_nat ys"
    using Cons.prems by simp
  have "(unat x + 256 * le_nat xs) mod 256 = (unat y + 256 * le_nat ys) mod 256"
    using e by simp
  then have "unat x = unat y" using b by simp
  with e have "le_nat xs = le_nat ys" by simp
  with Cons.IH \<open>unat x = unat y\<close> show ?case by (simp add: word_unat_eq_iff)
qed

subsection \<open>Bits of a little-endian integer\<close>

lemma bit_byte_plus: "bit (unat (b :: byte) + 256 * k) n \<longleftrightarrow> (if n < 8 then bit b n else bit k (n - 8))"
proof (cases "n < 8")
  case True
  have "(256::nat) = 2 ^ n * 2 ^ (8 - n)"
    using True by (simp flip: power_add)
  then have "unat b + 256 * k = unat b + 2 ^ (8 - n) * k * 2 ^ n"
    by (metis mult.assoc mult.commute)
  then have "(unat b + 256 * k) div 2 ^ n = unat b div 2 ^ n + 2 ^ (8 - n) * k"
    by (simp only:) simp
  moreover have "even ((2::nat) ^ (8 - n) * k)"
    using True by simp
  ultimately have "bit (unat b + 256 * k) n \<longleftrightarrow> bit (unat b) n"
    by (simp add: bit_iff_odd)
  also have "\<dots> \<longleftrightarrow> bit b n"
    using True by (simp add: bit_unsigned_iff)
  finally show ?thesis using True by simp
next
  case False
  then have "(2::nat) ^ n = 256 * 2 ^ (n - 8)"
    using power_add [of "2::nat" 8 "n - 8"] by simp
  then have "(unat b + 256 * k) div 2 ^ n = (unat b + 256 * k) div 256 div 2 ^ (n - 8)"
    by (simp only: div_mult2_eq)
  also have "(unat b + 256 * k) div 256 = k"
    using byte_less [of b] by simp
  finally show ?thesis using False by (simp add: bit_iff_odd)
qed

lemma bit_le_nat: "bit (le_nat xs) n \<longleftrightarrow> n < 8 * length xs \<and> bit (xs ! (n div 8)) (n mod 8)"
proof (induction xs arbitrary: n)
  case Nil
  then show ?case by simp
next
  case (Cons b bs)
  show ?case
  proof (cases "n < 8")
    case True
    then show ?thesis by (simp add: bit_byte_plus)
  next
    case False
    then have "n div 8 = Suc ((n - 8) div 8)" and "n mod 8 = (n - 8) mod 8"
      by (simp_all add: le_div_geq le_mod_geq)
    with False Cons.IH [of "n - 8"] show ?thesis
      by (auto simp: bit_byte_plus)
  qed
qed

subsection \<open>Digits of machine words\<close>

lemma unat_and_15: "unat (v AND 15 :: 'a::len word) = unat v mod 16" if "4 \<le> LENGTH('a)"
proof -
  have "v AND 15 = take_bit 4 v"
    by (simp add: take_bit_eq_mask mask_numeral)
  moreover have "unat (take_bit 4 v) = take_bit 4 (unat v)"
    using that by (subst unsigned_take_bit_eq) simp_all
  ultimately show ?thesis by (simp add: take_bit_eq_mod)
qed

lemma unat_shift_4: "unat (drop_bit 4 v :: 'a::len word) = unat v div 16"
proof -
  have "unat (drop_bit 4 v) = drop_bit 4 (take_bit LENGTH('a) (unat v))"
    by (rule unsigned_drop_bit_eq)
  moreover have "take_bit LENGTH('a) (unat v) = unat v"
    by (rule take_bit_nat_eq_self) (rule unsigned_less)
  ultimately show ?thesis by (simp only: drop_bit_eq_div) simp
qed

subsection \<open>Lists\<close>

lemma take_drop_take: "a \<le> b \<Longrightarrow> take a xs @ take (b - a) (drop a xs) = take b xs"
  by (metis le_add_diff_inverse take_add)

lemma nth_take_drop: "i < k \<Longrightarrow> a + k \<le> length xs \<Longrightarrow> take k (drop a xs) ! i = xs ! (a + i)"
  by simp

lemma take_drop_eq_iff:
  "a + k \<le> length xs \<Longrightarrow> b + k \<le> length xs \<Longrightarrow>
   take k (drop a xs) = take k (drop b xs) \<longleftrightarrow> (\<forall>i<k. xs ! (a + i) = xs ! (b + i))"
  by (auto simp: list_eq_iff_nth_eq)

lemma take_Suc_snoc: "n < length xs \<Longrightarrow> take (Suc n) xs = take n xs @ [xs ! n]"
  by (rule take_Suc_conv_app_nth)

lemma concat_map_snoc: "concat (map f (xs @ [x])) = concat (map f xs) @ f x"
  by simp

subsection \<open>Options as results that may fault\<close>

lemma bind_eq_SomeE:
  assumes "Option.bind x f = Some y"
  obtains z where "x = Some z" and "f z = Some y"
  using assms by (cases x) auto

end
