(* ===== verification/Lz4_Block.thy ===== *)
theory Lz4_Block
  imports Prelude
begin

text \<open>
  \<open>trace/include/lz4_block.h\<close>: the block compressor behind every trace file and socket. Pointers
  are offsets: \<open>ip\<close>, \<open>anchor\<close>, \<open>ref\<close> into the source (its length is \<open>srcSize\<close>), \<open>op\<close> is the length
  of the output so far. Every read and every store is checked against its buffer in the model and
  is a \<open>Fault\<close> outside, so that the theorems can say that none happens. The hash table is the
  thread-local \<open>htab\<close>: it is an argument and a result, never cleared, and arbitrary at the start.
\<close>

subsection \<open>Reads, hashing, the match loops\<close>

definition lz4_compress_bound :: "nat \<Rightarrow> nat" where
  "lz4_compress_bound n = n + n div 255 + 16"

definition lz4_read32 :: "byte list \<Rightarrow> nat \<Rightarrow> u32 option" where
  "lz4_read32 src p =
     (if p + 4 \<le> length src then Some (word_of_nat (le_nat (take 4 (drop p src)))) else None)"

definition lz4_read64 :: "byte list \<Rightarrow> nat \<Rightarrow> u64 option" where
  "lz4_read64 src p =
     (if p + 8 \<le> length src then Some (word_of_nat (le_nat (take 8 (drop p src)))) else None)"

definition lz4_read8 :: "byte list \<Rightarrow> nat \<Rightarrow> byte option" where
  "lz4_read8 src p = (if p < length src then Some (src ! p) else None)"

definition hash4 :: "u32 \<Rightarrow> u32" where
  "hash4 v = drop_bit 16 (v * 2654435761)"

text \<open>\<open>__builtin_ctzll\<close> of a nonzero word.\<close>

definition ctzll :: "u64 \<Rightarrow> nat" where
  "ctzll w = length (takeWhile (\<lambda>i. \<not> bit w i) [0..<64])"

type_synonym htab = "u32 \<Rightarrow> nat"

text \<open>
  The accelerated search. In one round \<open>ip\<close> is the old \<open>fwd\<close>, \<open>fwd\<close> moves on by \<open>step\<close>, the next
  \<open>step\<close> is \<open>searchLimit++ >> 6\<close>; \<open>cand\<close> is \<open>htab[hash4(*ip)]\<close> before it is overwritten by \<open>ip\<close>.
  \<open>Some (ht, None)\<close> is the jump to \<open>_last_literals\<close>.
\<close>

function lz4_find_match ::
    "byte list \<Rightarrow> nat \<Rightarrow> htab \<Rightarrow> nat \<Rightarrow> nat \<Rightarrow> nat \<Rightarrow> (htab \<times> (nat \<times> nat) option) option" where
  "lz4_find_match src mflimit htab fwd step searchLimit =
     (if fwd + step > mflimit then Some (htab, None)
      else (case lz4_read32 src fwd of
        None \<Rightarrow> None
      | Some v \<Rightarrow>
         (if \<not> htab (hash4 v) < fwd
          then lz4_find_match src mflimit (htab(hash4 v := fwd))
                 (fwd + step) (searchLimit div 64) (searchLimit + 1)
          else (case lz4_read32 src (htab (hash4 v)) of
            None \<Rightarrow> None
          | Some r \<Rightarrow>
             if r \<noteq> v \<or> fwd - htab (hash4 v) > 0xFFFF
             then lz4_find_match src mflimit (htab(hash4 v := fwd))
                    (fwd + step) (searchLimit div 64) (searchLimit + 1)
             else Some (htab(hash4 v := fwd), Some (fwd, htab (hash4 v)))))))"
  by pat_completeness auto
termination
  by (relation "measures [\<lambda>(src, m, ht, fwd, step, sl). Suc m - fwd,
                          \<lambda>(src, m, ht, fwd, step, sl). if step = 0 then Suc (64 - sl) else 0]")
     auto

declare lz4_find_match.simps [simp del]

text \<open>The byte loop \<open>while (ip < matchlimit && *ip == *ref)\<close>.\<close>

function lz4_extend1 :: "byte list \<Rightarrow> nat \<Rightarrow> nat \<Rightarrow> nat \<Rightarrow> nat option" where
  "lz4_extend1 src matchlimit ip ref =
     (if ip < matchlimit
      then (case lz4_read8 src ip of
              None \<Rightarrow> None
            | Some a \<Rightarrow>
              (case lz4_read8 src ref of
                None \<Rightarrow> None
              | Some b \<Rightarrow>
                  if a = b then lz4_extend1 src matchlimit (ip + 1) (ref + 1) else Some ip))
      else Some ip)"
  by pat_completeness auto
termination
  by (relation "measure (\<lambda>(src, m, ip, ref). m - ip)") auto

declare lz4_extend1.simps [simp del]

text \<open>The 8-byte fast path, then the byte loop.\<close>

function lz4_extend :: "byte list \<Rightarrow> nat \<Rightarrow> nat \<Rightarrow> nat \<Rightarrow> nat option" where
  "lz4_extend src matchlimit ip ref =
     (if ip + 8 \<le> matchlimit
      then (case lz4_read64 src ip of
              None \<Rightarrow> None
            | Some a \<Rightarrow>
              (case lz4_read64 src ref of
                None \<Rightarrow> None
              | Some b \<Rightarrow>
                  if a XOR b \<noteq> 0 then Some (ip + ctzll (a XOR b) div 8)
                  else lz4_extend src matchlimit (ip + 8) (ref + 8)))
      else lz4_extend1 src matchlimit ip ref)"
  by pat_completeness auto
termination
  by (relation "measure (\<lambda>(src, m, ip, ref). m - ip)") auto

declare lz4_extend.simps [simp del]

subsection \<open>Emitting sequences\<close>

datatype 'a lz4_step = Fault | Return0 | Next 'a

definition lz4_put :: "nat \<Rightarrow> byte list \<Rightarrow> byte list \<Rightarrow> byte list lz4_step" where
  "lz4_put maxOut out bs = (if length out + length bs \<le> maxOut then Next (out @ bs) else Fault)"

text \<open>\<open>for (; n >= 255; n -= 255) *op++ = 255; *op++ = (uint8_t)n;\<close>\<close>

function lz4_len_ext :: "nat \<Rightarrow> byte list" where
  "lz4_len_ext n = (if n \<ge> 255 then 255 # lz4_len_ext (n - 255) else [word_of_nat n])"
  by pat_completeness auto
termination
  by (relation "measure id") auto

declare lz4_len_ext.simps [simp del]

text \<open>The token's literal half and the extension of the literal length.\<close>

definition lz4_lit_header :: "nat \<Rightarrow> byte list" where
  "lz4_lit_header litLen =
     (if litLen \<ge> 15 then 0xF0 # lz4_len_ext (litLen - 15)
      else [push_bit 4 (word_of_nat litLen)])"

definition lz4_encode_literals ::
    "byte list \<Rightarrow> nat \<Rightarrow> nat \<Rightarrow> nat \<Rightarrow> byte list \<Rightarrow> byte list lz4_step" where
  "lz4_encode_literals src maxOut anchor ip out =
     (let litLen = ip - anchor in
      if length out + 1 + litLen + litLen div 255 + 16 > maxOut then Return0
      else if anchor + litLen > length src then Fault
      else lz4_put maxOut out (lz4_lit_header litLen @ take litLen (drop anchor src)))"

text \<open>The match length: into the low half of the token at \<open>tok\<close>, the rest appended.\<close>

definition lz4_encode_ml :: "nat \<Rightarrow> nat \<Rightarrow> nat \<Rightarrow> byte list \<Rightarrow> byte list lz4_step" where
  "lz4_encode_ml maxOut tok ml out =
     (if ml \<ge> 15
      then (let n = ml - 15; out' = out[tok := out ! tok OR 0x0F] in
            if length out' + n div 255 + 2 > maxOut then Return0
            else lz4_put maxOut out' (lz4_len_ext n))
      else Next (out[tok := out ! tok OR word_of_nat ml]))"

definition lz4_sequence ::
    "byte list \<Rightarrow> nat \<Rightarrow> nat \<Rightarrow> nat \<Rightarrow> nat \<Rightarrow> byte list \<Rightarrow> (byte list \<times> nat) lz4_step" where
  "lz4_sequence src maxOut anchor ip ref out =
     (let tok = length out; matchlimit = length src - 5 in
      case lz4_encode_literals src maxOut anchor ip out of
        Fault \<Rightarrow> Fault
      | Return0 \<Rightarrow> Return0
      | Next out1 \<Rightarrow>
        (case lz4_put maxOut out1 (le_bytes 2 (ip - ref)) of
          Fault \<Rightarrow> Fault
        | Return0 \<Rightarrow> Return0
        | Next out2 \<Rightarrow>
          (case lz4_extend src matchlimit (ip + 4) (ref + 4) of
            None \<Rightarrow> Fault
          | Some ip' \<Rightarrow>
            (case lz4_encode_ml maxOut tok (ip' - (ip + 4)) out2 of
              Fault \<Rightarrow> Fault
            | Return0 \<Rightarrow> Return0
            | Next out3 \<Rightarrow> Next (out3, ip')))))"

definition lz4_last_literals :: "byte list \<Rightarrow> nat \<Rightarrow> nat \<Rightarrow> byte list \<Rightarrow> byte list lz4_step" where
  "lz4_last_literals src maxOut anchor out =
     (let lastRun = length src - anchor in
      if length out + lastRun + 1 + lastRun div 255 > maxOut then Return0
      else lz4_put maxOut out (lz4_lit_header lastRun @ drop anchor src))"

text \<open>\<open>return 0\<close> is the empty output, \<open>return (int)(op - dst)\<close> the output written.\<close>

definition lz4_return :: "htab \<Rightarrow> byte list lz4_step \<Rightarrow> (htab \<times> byte list) option" where
  "lz4_return htab r =
     (case r of Fault \<Rightarrow> None | Return0 \<Rightarrow> Some (htab, []) | Next out \<Rightarrow> Some (htab, out))"

subsection \<open>Progress of the loops\<close>

lemma lz4_find_match_ge:
  "lz4_find_match src m ht fwd step sl = Some (ht', Some (ip, ref)) \<Longrightarrow> fwd \<le> ip \<and> ref < ip \<and> ip \<le> m"
proof (induction src m ht fwd step sl rule: lz4_find_match.induct)
  case (1 src m ht fwd step sl)
  note IH = "1.IH"
  show ?case
    using "1.prems" IH
    by (subst (asm) (1) lz4_find_match.simps)
       (fastforce split: if_splits option.splits)
qed

lemma lz4_extend1_ge: "lz4_extend1 src m ip ref = Some e \<Longrightarrow> ip \<le> e"
proof (induction src m ip ref rule: lz4_extend1.induct)
  case (1 src m ip ref)
  show ?case
    using "1.prems" "1.IH"
    by (subst (asm) (1) lz4_extend1.simps) (fastforce split: if_splits option.splits)
qed

lemma lz4_extend_ge: "lz4_extend src m ip ref = Some e \<Longrightarrow> ip \<le> e"
proof (induction src m ip ref rule: lz4_extend.induct)
  case (1 src m ip ref)
  show ?case
    using "1.prems" "1.IH"
    by (subst (asm) (1) lz4_extend.simps)
       (fastforce split: if_splits option.splits dest: lz4_extend1_ge)
qed

lemma lz4_sequence_ge: "lz4_sequence src mo anchor ip ref out = Next (out', ip') \<Longrightarrow> ip + 4 \<le> ip'"
  by (auto simp: lz4_sequence_def Let_def split: lz4_step.splits option.splits dest: lz4_extend_ge)

subsection \<open>The compressor\<close>

function lz4_loop ::
    "byte list \<Rightarrow> nat \<Rightarrow> htab \<Rightarrow> nat \<Rightarrow> nat \<Rightarrow> byte list \<Rightarrow> (htab \<times> byte list) option" where
  "lz4_loop src maxOut htab ip anchor out =
     (let mflimit = length src - 12 in
      case lz4_find_match src mflimit htab ip 1 64 of
        None \<Rightarrow> None
      | Some (htab1, None) \<Rightarrow> lz4_return htab1 (lz4_last_literals src maxOut anchor out)
      | Some (htab1, Some (ip1, ref)) \<Rightarrow>
        (case lz4_sequence src maxOut anchor ip1 ref out of
          Fault \<Rightarrow> None
        | Return0 \<Rightarrow> Some (htab1, [])
        | Next (out1, ip2) \<Rightarrow>
          if ip2 \<ge> mflimit then lz4_return htab1 (lz4_last_literals src maxOut ip2 out1)
          else (case lz4_read32 src (ip2 - 2) of
                  None \<Rightarrow> None
                | Some v \<Rightarrow>
                    lz4_loop src maxOut (htab1(hash4 v := ip2 - 2)) ip2 ip2 out1)))"
  by pat_completeness auto
termination
  by (relation "measure (\<lambda>(src, mo, ht, ip, anchor, out). length src - ip)")
     (auto dest!: lz4_find_match_ge lz4_sequence_ge)

declare lz4_loop.simps [simp del]

definition lz4_compress_block :: "byte list \<Rightarrow> nat \<Rightarrow> htab \<Rightarrow> (htab \<times> byte list) option" where
  "lz4_compress_block src maxOut htab =
     (if src = [] \<or> maxOut = 0 then Some (htab, [])
      else if length src < 13 then lz4_return htab (lz4_last_literals src maxOut 0 [])
      else (case lz4_read32 src 0 of
              None \<Rightarrow> None
            | Some v \<Rightarrow> lz4_loop src maxOut (htab(hash4 v := 0)) 1 0 []))"

end
