(* ===== verification/Lz4_Extend.thy ===== *)
theory Lz4_Extend
  imports Lz4_Block
begin

text \<open>
  The forward extension of a match in \<open>lz4_block.h\<close>: the loop that compares eight bytes at a time
  and counts trailing zeros of the difference gives what the byte loop gives, and what the byte
  loop gives is the longest common run inside \<open>matchlimit\<close>. No read leaves the source.
\<close>

subsection \<open>Trailing zeros of a difference\<close>

lemma ctzll_between:
  assumes "\<And>i. i < a \<Longrightarrow> \<not> bit w i" and "bit w p" and "p < 64" and "a \<le> 64"
  shows "a \<le> ctzll w \<and> ctzll w \<le> p"
proof
  show "a \<le> ctzll w"
    unfolding ctzll_def using assms(1,4) by (intro length_takeWhile_less_P_nth) auto
  show "ctzll w \<le> p"
  proof (rule ccontr)
    assume "\<not> ctzll w \<le> p"
    then have "p < length (takeWhile (\<lambda>i. \<not> bit w i) [0..<64])" by (simp add: ctzll_def)
    then have "\<not> bit w ([0..<64] ! p)"
      by (metis nth_mem set_takeWhileD takeWhile_nth)
    with assms show False by simp
  qed
qed

text \<open>Eight trailing zero bits of the difference are one equal byte.\<close>

lemma ctzll_first_diff:
  assumes "length xs = 8" and "length ys = 8" and "d < 8"
    and eq: "\<And>i. i < d \<Longrightarrow> xs ! i = ys ! i" and ne: "xs ! d \<noteq> ys ! d"
  shows "ctzll (word_of_nat (le_nat xs) XOR word_of_nat (le_nat ys)) div 8 = d"
proof -
  define w :: u64 where "w = word_of_nat (le_nat xs) XOR word_of_nat (le_nat ys)"
  have bit_w: "bit w n \<longleftrightarrow> bit (xs ! (n div 8)) (n mod 8) \<noteq> bit (ys ! (n div 8)) (n mod 8)"
    if "n < 64" for n
    using that assms(1,2) by (auto simp: w_def bit_xor_iff bit_of_nat_iff bit_le_nat)
  from ne obtain j where j: "bit (xs ! d) j \<noteq> bit (ys ! d) j" and "j < 8"
    using bit_word_eqI [of "xs ! d" "ys ! d"] by auto
  have "8 * d \<le> ctzll w \<and> ctzll w \<le> 8 * d + j"
  proof (rule ctzll_between)
    fix i assume "i < 8 * d"
    then have "i div 8 < d" by (simp add: less_mult_imp_div_less mult.commute)
    moreover have "i < 64" using \<open>i < 8 * d\<close> \<open>d < 8\<close> by simp
    ultimately show "\<not> bit w i" using eq bit_w by simp
  next
    have "(8 * d + j) div 8 = d" "(8 * d + j) mod 8 = j" using \<open>j < 8\<close> by simp_all
    moreover have "8 * d + j < 64" using \<open>j < 8\<close> \<open>d < 8\<close> by simp
    ultimately show "bit w (8 * d + j)" using bit_w j by simp
  qed (use \<open>j < 8\<close> \<open>d < 8\<close> in auto)
  with \<open>j < 8\<close> have "ctzll w div 8 = d" by linarith
  then show ?thesis unfolding w_def .
qed

subsection \<open>The byte loop\<close>

lemma lz4_extend1_run:
  assumes "ip + k \<le> m" and "m \<le> length src" and "ref \<le> ip"
    and "\<And>i. i < k \<Longrightarrow> src ! (ip + i) = src ! (ref + i)"
  shows "lz4_extend1 src m ip ref = lz4_extend1 src m (ip + k) (ref + k)"
  using assms
proof (induction k arbitrary: ip ref)
  case 0
  then show ?case by simp
next
  case (Suc k)
  have "src ! (Suc ip + i) = src ! (Suc ref + i)" if "i < k" for i
    using Suc.prems(4) [of "Suc i"] that by simp
  then have "lz4_extend1 src m (Suc ip) (Suc ref) = lz4_extend1 src m (Suc ip + k) (Suc ref + k)"
    using Suc.prems by (intro Suc.IH) auto
  moreover have "src ! ip = src ! ref" using Suc.prems(4) [of 0] by simp
  ultimately show ?case
    using Suc.prems by (subst lz4_extend1.simps) (simp add: lz4_read8_def)
qed

lemma lz4_extend1_stop:
  assumes "ip < m" and "m \<le> length src" and "ref \<le> ip" and "src ! ip \<noteq> src ! ref"
  shows "lz4_extend1 src m ip ref = Some ip"
  using assms by (subst lz4_extend1.simps) (simp add: lz4_read8_def)

text \<open>The longest common run from two positions, inside a limit.\<close>

definition match_end :: "byte list \<Rightarrow> nat \<Rightarrow> nat \<Rightarrow> nat \<Rightarrow> nat \<Rightarrow> bool" where
  "match_end src m ip ref e \<longleftrightarrow>
     ip \<le> e \<and> e \<le> max ip m \<and> (\<forall>i < e - ip. src ! (ip + i) = src ! (ref + i)) \<and>
     (e < m \<longrightarrow> src ! e \<noteq> src ! (ref + (e - ip)))"

lemma lz4_extend1_spec:
  assumes "m \<le> length src" and "ref \<le> ip"
  shows "\<exists>e. lz4_extend1 src m ip ref = Some e \<and> match_end src m ip ref e"
  using assms
proof (induction "m - ip" arbitrary: ip ref)
  case 0
  then show ?case by (subst lz4_extend1.simps) (simp add: match_end_def)
next
  case (Suc n)
  show ?case
  proof (cases "src ! ip = src ! ref")
    case True
    have n: "n = m - Suc ip" using Suc.hyps(2) by simp
    obtain e where e: "lz4_extend1 src m (Suc ip) (Suc ref) = Some e"
      and me: "match_end src m (Suc ip) (Suc ref) e"
      using Suc.hyps(1) [OF n Suc.prems(1), of "Suc ref"] Suc.prems(2) by auto
    have "src ! (ip + i) = src ! (ref + i)" if "i < e - ip" for i
      using me that True by (cases i) (auto simp: match_end_def)
    moreover have "ip \<le> e" "e \<le> max ip m" "ref + (e - ip) = Suc ref + (e - Suc ip)"
      using me Suc.hyps(2) by (auto simp: match_end_def)
    ultimately have "match_end src m ip ref e"
      using me by (simp add: match_end_def)
    moreover have "ip < m" using Suc.hyps(2) by simp
    then have "lz4_extend1 src m ip ref = Some e"
      using e True Suc.prems by (subst lz4_extend1.simps) (simp add: lz4_read8_def)
    ultimately show ?thesis by blast
  next
    case False
    with Suc show ?thesis
      using lz4_extend1_stop [of ip m src ref] by (auto simp: match_end_def)
  qed
qed

subsection \<open>The fast path\<close>

lemma word_of_le_nat_eq_iff:
  assumes "length xs = 8" and "length ys = 8"
  shows "(word_of_nat (le_nat xs) :: u64) = word_of_nat (le_nat ys) \<longleftrightarrow> xs = ys"
proof
  assume "(word_of_nat (le_nat xs) :: u64) = word_of_nat (le_nat ys)"
  then have "le_nat xs mod 2 ^ 64 = le_nat ys mod 2 ^ 64"
    by (simp add: word_of_nat_eq_iff take_bit_eq_mod)
  moreover have "le_nat xs < 2 ^ 64" "le_nat ys < 2 ^ 64"
    using le_nat_less [of xs] le_nat_less [of ys] assms by simp_all
  ultimately show "xs = ys" using le_nat_inj assms by simp
qed simp

lemma xor_word_eq_0_iff: "(a XOR b :: 'a::len word) = 0 \<longleftrightarrow> a = b"
  by (metis xor.assoc xor.right_neutral xor_self_eq xor.left_neutral)

lemma first_diff:
  assumes "length xs = length ys" and "xs \<noteq> ys"
  obtains d where "d < length xs" and "xs ! d \<noteq> ys ! d" and "\<And>i. i < d \<Longrightarrow> xs ! i = ys ! i"
proof -
  let ?P = "\<lambda>d. d < length xs \<and> xs ! d \<noteq> ys ! d"
  from assms obtain d where "?P d" by (auto simp: list_eq_iff_nth_eq)
  then have "?P (LEAST d. ?P d)" by (rule LeastI)
  moreover have "xs ! i = ys ! i" if "i < (LEAST d. ?P d)" for i
    using not_less_Least [OF that] that \<open>?P (LEAST d. ?P d)\<close> by auto
  ultimately show thesis using that by blast
qed

text \<open>One round of the 8-byte loop does what the byte loop does.\<close>

lemma lz4_extend_fast_stop:
  assumes "ip + 8 \<le> m" and "m \<le> length src" and "ref \<le> ip"
    and xs: "xs = take 8 (drop ip src)" and ys: "ys = take 8 (drop ref src)" and "xs \<noteq> ys"
  shows "lz4_extend1 src m ip ref =
    Some (ip + ctzll (word_of_nat (le_nat xs) XOR word_of_nat (le_nat ys)) div 8)"
proof -
  have len: "length xs = 8" "length ys = 8" using assms by auto
  then obtain d where "d < length xs" and ne: "xs ! d \<noteq> ys ! d"
    and eq: "\<And>i. i < d \<Longrightarrow> xs ! i = ys ! i"
    using first_diff [of xs ys] assms by metis
  then have d: "d < 8" using len by simp
  have nth: "xs ! i = src ! (ip + i)" "ys ! i = src ! (ref + i)" if "i < 8" for i
    using that assms by simp_all
  have "lz4_extend1 src m ip ref = lz4_extend1 src m (ip + d) (ref + d)"
    using assms d eq nth by (intro lz4_extend1_run) auto
  also have "\<dots> = Some (ip + d)"
    using assms d ne nth by (intro lz4_extend1_stop) auto
  finally show ?thesis
    using ctzll_first_diff [OF len d eq ne] by simp
qed

lemma lz4_extend_eq_extend1:
  "m \<le> length src \<Longrightarrow> ref \<le> ip \<Longrightarrow> lz4_extend src m ip ref = lz4_extend1 src m ip ref"
proof (induction src m ip ref rule: lz4_extend.induct)
  case (1 src m ip ref)
  define xs where "xs = take 8 (drop ip src)"
  define ys where "ys = take 8 (drop ref src)"
  show ?case
  proof (cases "ip + 8 \<le> m")
    case True
    have rd: "lz4_read64 src ip = Some (word_of_nat (le_nat xs))"
      "lz4_read64 src ref = Some (word_of_nat (le_nat ys))"
      using True "1.prems" by (auto simp: lz4_read64_def xs_def ys_def)
    have len: "length xs = 8" "length ys = 8"
      using True "1.prems" by (auto simp: xs_def ys_def)
    show ?thesis
    proof (cases "xs = ys")
      case False
      with len have "(word_of_nat (le_nat xs) XOR word_of_nat (le_nat ys) :: u64) \<noteq> 0"
        by (simp add: xor_word_eq_0_iff word_of_le_nat_eq_iff)
      with False True "1.prems" rd show ?thesis
        by (subst lz4_extend.simps) (simp add: lz4_extend_fast_stop xs_def ys_def)
    next
      case eq: True
      then have "src ! (ip + i) = src ! (ref + i)" if "i < 8" for i
        using that True "1.prems" unfolding xs_def ys_def by (subst (asm) take_drop_eq_iff) auto
      then have "lz4_extend1 src m ip ref = lz4_extend1 src m (ip + 8) (ref + 8)"
        using True "1.prems" by (intro lz4_extend1_run) auto
      moreover have "lz4_extend src m (ip + 8) (ref + 8) = lz4_extend1 src m (ip + 8) (ref + 8)"
        using "1.prems" by (intro "1.IH" [OF True rd]) (auto simp: eq)
      ultimately show ?thesis
        using True rd eq by (subst lz4_extend.simps) simp
    qed
  next
    case False
    then show ?thesis by (subst lz4_extend.simps) simp
  qed
qed

lemma lz4_extend_spec:
  assumes "m \<le> length src" and "ref \<le> ip"
  shows "\<exists>e. lz4_extend src m ip ref = Some e \<and> match_end src m ip ref e"
  using lz4_extend1_spec [OF assms] lz4_extend_eq_extend1 [OF assms] by simp

end
