(* ===== verification/Lz4_Format.thy ===== *)
theory Lz4_Format
  imports Lz4_Block
begin

text \<open>
  The block format between the compressor and the decoder: a block is a list of sequences (literals
  and a back reference) and final literals. \<open>expand\<close> is what a block means; \<open>enc_block\<close> is how it is
  laid out in bytes. The decoder is the fallback decoder of \<open>tools/trace_receiver.py\<close>, with Python's
  slice assignment, negative indices and \<open>IndexError\<close>s written out.
\<close>

subsection \<open>Sequences and their meaning\<close>

datatype lz4_seq = Seq (seq_lits: "byte list") (seq_off: nat) (seq_len: nat)

fun copy_match :: "byte list \<Rightarrow> nat \<Rightarrow> nat \<Rightarrow> byte list" where
  "copy_match out off 0 = out"
| "copy_match out off (Suc k) = copy_match (out @ [out ! (length out - off)]) off k"

fun expand :: "byte list \<Rightarrow> lz4_seq list \<Rightarrow> byte list" where
  "expand out [] = out"
| "expand out (Seq l off m # ss) = expand (copy_match (out @ l) off m) ss"

text \<open>A sequence can be decoded after \<open>out\<close>: the reference points into what is already there.\<close>

fun seqs_ok :: "byte list \<Rightarrow> lz4_seq list \<Rightarrow> bool" where
  "seqs_ok out [] = True"
| "seqs_ok out (Seq l off m # ss) =
     (0 < off \<and> off \<le> 65535 \<and> off \<le> length out + length l \<and> 4 \<le> m \<and>
      seqs_ok (copy_match (out @ l) off m) ss)"

definition ext_bytes :: "nat \<Rightarrow> byte list" where
  "ext_bytes n = (if n \<ge> 15 then lz4_len_ext (n - 15) else [])"

definition token :: "nat \<Rightarrow> nat \<Rightarrow> byte" where
  "token a b = push_bit 4 (word_of_nat (min a 15)) OR word_of_nat (min b 15)"

fun enc_seq :: "lz4_seq \<Rightarrow> byte list" where
  "enc_seq (Seq l off m) =
     token (length l) (m - 4) # ext_bytes (length l) @ l @ le_bytes 2 off @ ext_bytes (m - 4)"

definition enc_last :: "byte list \<Rightarrow> byte list" where
  "enc_last l = token (length l) 0 # ext_bytes (length l) @ l"

definition enc_seqs :: "lz4_seq list \<Rightarrow> byte list" where
  "enc_seqs ss = concat (map enc_seq ss)"

lemma enc_seqs_simps [simp]:
  "enc_seqs [] = []" "enc_seqs (s # ss) = enc_seq s @ enc_seqs ss"
  "enc_seqs (ss @ [s]) = enc_seqs ss @ enc_seq s"
  by (simp_all add: enc_seqs_def)

lemma length_copy_match [simp, len_simps]: "length (copy_match out off k) = length out + k"
  by (induction k arbitrary: out) auto

lemma copy_match_take:
  assumes "off \<le> a" and "0 < off" and "a + k \<le> length src"
    and "\<forall>i<k. src ! (a + i) = src ! (a - off + i)"
  shows "copy_match (take a src) off k = take (a + k) src"
  using assms
proof (induction k arbitrary: a)
  case 0
  then show ?case by simp
next
  case (Suc k)
  have "take a src ! (length (take a src) - off) = src ! (a - off)"
    using Suc.prems by simp
  also have "\<dots> = src ! a" using Suc.prems(4) [rule_format, of 0] by simp
  finally have "take a src @ [take a src ! (length (take a src) - off)] = take (Suc a) src"
    using Suc.prems by (simp add: take_Suc_snoc)
  moreover have "\<forall>i<k. src ! (Suc a + i) = src ! (Suc a - off + i)"
  proof (intro allI impI)
    fix i assume "i < k"
    then show "src ! (Suc a + i) = src ! (Suc a - off + i)"
      using Suc.prems(4) [rule_format, of "Suc i"] Suc.prems(1) by (simp add: Suc_diff_le)
  qed
  ultimately show ?case using Suc.IH [of "Suc a"] Suc.prems by simp
qed

lemma expand_snoc: "expand out (ss @ [Seq l off m]) = copy_match (expand out ss @ l) off m"
  by (induction out ss rule: expand.induct) auto

lemma seqs_ok_snoc:
  "seqs_ok out (ss @ [Seq l off m]) \<longleftrightarrow>
     seqs_ok out ss \<and> 0 < off \<and> off \<le> 65535 \<and> off \<le> length (expand out ss) + length l \<and> 4 \<le> m"
  by (induction out ss rule: seqs_ok.induct) auto

lemma length_expand_ge: "length out \<le> length (expand out ss)"
proof (induction out ss rule: expand.induct)
  case (2 out l off m ss)
  then show ?case by simp
qed simp

subsection \<open>The decoder of the receiver\<close>

datatype py_error = IndexError | ValueError

text \<open>\<open>while si < slen: b = src[si]; si += 1; n += b; if b != 255: break\<close>\<close>

function py_len_ext :: "byte list \<Rightarrow> nat \<Rightarrow> nat \<Rightarrow> nat \<times> nat" where
  "py_len_ext src si n =
     (if si < length src
      then (if src ! si \<noteq> 255 then (si + 1, n + unat (src ! si))
            else py_len_ext src (si + 1) (n + unat (src ! si)))
      else (si, n))"
  by pat_completeness auto
termination
  by (relation "measure (\<lambda>(src, si, n). length src - si)") auto

declare py_len_ext.simps [simp del]

lemma py_len_ext_ge: "si \<le> fst (py_len_ext src si n)"
proof (induction src si n rule: py_len_ext.induct)
  case (1 src si n)
  then show ?case by (subst py_len_ext.simps) auto
qed

text \<open>\<open>dst[a:b] = xs\<close> on a \<open>bytearray\<close>, for \<open>a \<le> b\<close>, and \<open>dst[i]\<close> with Python's negative indices.\<close>

definition py_slice_assign :: "byte list \<Rightarrow> nat \<Rightarrow> nat \<Rightarrow> byte list \<Rightarrow> byte list" where
  "py_slice_assign dst a b xs = take a dst @ xs @ drop b dst"

definition py_get :: "byte list \<Rightarrow> int \<Rightarrow> py_error + byte" where
  "py_get dst i =
     (if 0 \<le> i \<and> i < int (length dst) then Inr (dst ! nat i)
      else if i < 0 \<and> - int (length dst) \<le> i then Inr (dst ! nat (int (length dst) + i))
      else Inl IndexError)"

text \<open>\<open>for i in range(ml): dst[di] = dst[match_pos + i]; di += 1\<close>\<close>

fun py_copy :: "byte list \<Rightarrow> nat \<Rightarrow> int \<Rightarrow> nat \<Rightarrow> py_error + byte list \<times> nat" where
  "py_copy dst di mp 0 = Inr (dst, di)"
| "py_copy dst di mp (Suc k) =
     (case py_get dst mp of
        Inl e \<Rightarrow> Inl e
      | Inr v \<Rightarrow> if di < length dst then py_copy (dst[di := v]) (di + 1) (mp + 1) k
                else Inl IndexError)"

function py_decode_loop :: "byte list \<Rightarrow> nat \<Rightarrow> byte list \<Rightarrow> nat \<Rightarrow> py_error + byte list" where
  "py_decode_loop src si dst di =
     (if si < length src then
        (let tok = src ! si;
             (si2, lit_len) = (if unat (drop_bit 4 tok) = 15 then py_len_ext src (si + 1) 15
                               else (si + 1, unat (drop_bit 4 tok)));
             dst1 = py_slice_assign dst di (di + lit_len) (take lit_len (drop si2 src));
             si3 = si2 + lit_len;
             di1 = di + lit_len in
         if si3 \<ge> length src then Inr (take di1 dst1)
         else if si3 + 1 \<ge> length src then Inl IndexError
         else (let offset = unat (src ! si3) + 256 * unat (src ! (si3 + 1)) in
           if offset = 0 then Inl ValueError
           else (let (si5, ml) = (if unat (tok AND 15) = 15
                                  then py_len_ext src (si3 + 2) (unat (tok AND 15) + 4)
                                  else (si3 + 2, unat (tok AND 15) + 4)) in
             case py_copy dst1 di1 (int di1 - int offset) ml of
               Inl e \<Rightarrow> Inl e
             | Inr (dst2, di2) \<Rightarrow> py_decode_loop src si5 dst2 di2)))
      else Inr (take di dst))"
  by pat_completeness auto
termination
proof (relation "measure (\<lambda>(src, si, dst, di). length src - si)", goal_cases)
  case 1
  then show ?case by simp
next
  case (2 src si dst di tok x si2 lit_len dst1 si3 di1 offset xa si5 ml xb dst2 di2)
  have "si2 = fst x" and "si5 = fst xa"
    using 2(4,13) by (metis fst_conv)+
  moreover have "si < fst x"
    using py_len_ext_ge [of "si + 1" src 15] unfolding 2(3) by auto
  moreover have "si3 \<le> fst xa"
    using py_len_ext_ge [of "si3 + 2" src "unat (tok AND 15) + 4"] unfolding 2(12) by auto
  ultimately show ?case using 2(1,6,8) by auto
qed

declare py_decode_loop.simps [simp del]

definition lz4_decompress_block_py :: "byte list \<Rightarrow> nat \<Rightarrow> py_error + byte list" where
  "lz4_decompress_block_py src original_size =
     py_decode_loop src 0 (replicate original_size 0) 0"

end
