(* ===== verification/Lz4_Encode.thy ===== *)
theory Lz4_Encode
  imports Lz4_Extend Lz4_Format
begin

text \<open>
  What the compressor writes: whatever the hash table holds, and as soon as the output buffer has
  \<open>lz4_compress_bound\<close> bytes, no access faults, the routine does not give up, and its output is the
  encoding of a decodable list of sequences that expands to the source.
\<close>

subsection \<open>The search\<close>

lemma word_of_le_nat_inj32:
  assumes "length xs = 4" and "length ys = 4"
    and "(word_of_nat (le_nat xs) :: u32) = word_of_nat (le_nat ys)"
  shows "xs = ys"
proof -
  have "le_nat xs mod 2 ^ 32 = le_nat ys mod 2 ^ 32"
    using assms(3) by (simp add: word_of_nat_eq_iff take_bit_eq_mod)
  moreover have "le_nat xs < 2 ^ 32" "le_nat ys < 2 ^ 32"
    using le_nat_less [of xs] le_nat_less [of ys] assms by simp_all
  ultimately show "xs = ys" using le_nat_inj assms by simp
qed

definition match_at :: "byte list \<Rightarrow> nat \<Rightarrow> nat \<Rightarrow> bool" where
  "match_at src ip ref \<longleftrightarrow>
     ref < ip \<and> ip - ref \<le> 65535 \<and> ip + 4 \<le> length src \<and> (\<forall>i<4. src ! (ip + i) = src ! (ref + i))"

lemma lz4_read32_match:
  assumes "lz4_read32 src ip = Some v" and "lz4_read32 src ref = Some v" and "ref < ip"
    and "ip - ref \<le> 65535"
  shows "match_at src ip ref"
proof -
  have len: "ip + 4 \<le> length src" "ref + 4 \<le> length src"
    using assms(1,2) by (auto simp: lz4_read32_def split: if_splits)
  have "take 4 (drop ip src) = take 4 (drop ref src)"
    using assms(1,2) len by (intro word_of_le_nat_inj32) (auto simp: lz4_read32_def)
  then have "\<forall>i<4. src ! (ip + i) = src ! (ref + i)"
    using len by (simp add: take_drop_eq_iff)
  with assms len show ?thesis by (simp add: match_at_def)
qed

lemma lz4_read32_ok: "p + 4 \<le> length src \<Longrightarrow> \<exists>v. lz4_read32 src p = Some v"
  by (simp add: lz4_read32_def)

lemma lz4_find_match_spec:
  "m + 12 \<le> length src \<Longrightarrow>
   \<exists>ht' r. lz4_find_match src m ht fwd step sl = Some (ht', r) \<and>
     (\<forall>ip ref. r = Some (ip, ref) \<longrightarrow> fwd \<le> ip \<and> ip \<le> m \<and> match_at src ip ref)"
proof (induction src m ht fwd step sl rule: lz4_find_match.induct)
  case (1 src m ht fwd step sl)
  show ?case
  proof (cases "fwd + step > m")
    case True
    then show ?thesis by (subst lz4_find_match.simps) simp
  next
    case False
    then obtain v where v: "lz4_read32 src fwd = Some v"
      using lz4_read32_ok [of fwd src] "1.prems" by auto
    show ?thesis
    proof (cases "ht (hash4 v) < fwd")
      case False
      with "1.IH"(1) [OF _ v] \<open>\<not> fwd + step > m\<close> "1.prems" v show ?thesis
        by (subst lz4_find_match.simps) fastforce
    next
      case True
      then obtain r where r: "lz4_read32 src (ht (hash4 v)) = Some r"
        using lz4_read32_ok [of "ht (hash4 v)" src] "1.prems" \<open>\<not> fwd + step > m\<close> by auto
      show ?thesis
      proof (cases "r \<noteq> v \<or> fwd - ht (hash4 v) > 0xFFFF")
        case c: True
        with "1.IH"(2) [OF _ v _ r] \<open>\<not> fwd + step > m\<close> "1.prems" v r True show ?thesis
          by (subst lz4_find_match.simps) fastforce
      next
        case c: False
        then have "match_at src fwd (ht (hash4 v))"
          using lz4_read32_match [OF v, of "ht (hash4 v)"] r True by simp
        with c v r True \<open>\<not> fwd + step > m\<close> show ?thesis
          by (subst lz4_find_match.simps) simp
      qed
    qed
  qed
qed

subsection \<open>Sizes of the encoded pieces\<close>

lemma length_lz4_len_ext [len_simps]: "length (lz4_len_ext n) = n div 255 + 1"
proof (induction n rule: lz4_len_ext.induct)
  case (1 n)
  then show ?case by (subst lz4_len_ext.simps) (simp add: le_div_geq)
qed

lemma lz4_lit_header_eq: "lz4_lit_header n = token n 0 # ext_bytes n"
  by (simp add: lz4_lit_header_def token_def ext_bytes_def min_def)

lemma length_ext_bytes: "length (ext_bytes n) \<le> n div 255 + 1"
  using div_le_mono [of "n - 15" n 255] by (simp add: ext_bytes_def len_simps)

lemma length_ext_bytes_le: "length (ext_bytes n) \<le> n"
proof (cases "n \<ge> 15")
  case True
  have "(n - 15) div 255 \<le> n - 15" by (rule div_le_dividend)
  with True show ?thesis by (simp add: ext_bytes_def len_simps)
qed (simp add: ext_bytes_def)

lemma div255_add: "a div 255 + b div 255 \<le> (a + b) div (255 :: nat)"
  by (subst div_add1_eq) simp

lemma token_or: "token a 0 OR word_of_nat (min b 15) = token a b"
  by (simp add: token_def)

subsection \<open>One sequence\<close>

lemma lz4_encode_ml_ok:
  assumes "length out + length rest + 1 + length (ext_bytes ml) \<le> maxOut"
    and "ml \<ge> 15 \<Longrightarrow> length out + length rest + 1 + (ml - 15) div 255 + 2 \<le> maxOut"
  shows "lz4_encode_ml maxOut (length out) ml (out @ token a 0 # rest) =
         Next (out @ token a ml # rest @ ext_bytes ml)"
proof (cases "ml \<ge> 15")
  case True
  then have "(out @ token a 0 # rest)[length out := (out @ token a 0 # rest) ! length out OR 0x0F]
      = out @ token a ml # rest"
    using token_or [of a ml] by (simp add: min_absorb2)
  with True assms show ?thesis
    by (simp add: lz4_encode_ml_def Let_def lz4_put_def ext_bytes_def len_simps)
next
  case False
  then show ?thesis
    using token_or [of a ml] by (simp add: lz4_encode_ml_def ext_bytes_def min_def)
qed

text \<open>The room that is left at every point: what is written so far against what is consumed.\<close>

definition budget :: "nat \<Rightarrow> nat \<Rightarrow> bool" where
  "budget written consumed \<longleftrightarrow> written \<le> consumed + consumed div 255"

lemma budget_seq:
  assumes "budget w a" and "a \<le> ip"
  shows "budget (w + 3 + length (ext_bytes (ip - a)) + (ip - a) + length (ext_bytes ml)) (ip + 4 + ml)"
proof -
  have "w \<le> a + a div 255" using assms by (simp add: budget_def)
  moreover have "length (ext_bytes (ip - a)) \<le> (ip - a) div 255 + 1" by (rule length_ext_bytes)
  moreover have "length (ext_bytes ml) \<le> ml" by (rule length_ext_bytes_le)
  moreover have "a div 255 + (ip - a) div 255 \<le> ip div 255"
    using div255_add [of a "ip - a"] assms(2) by simp
  moreover have "ip div 255 \<le> (ip + 4 + ml) div 255" by (rule div_le_mono) simp
  ultimately show ?thesis using assms(2) unfolding budget_def by linarith
qed

lemma budget_le_bound:
  assumes "budget w a" and "a \<le> n"
  shows "w \<le> n + n div 255"
proof -
  have "a div 255 \<le> n div 255" using assms(2) by (rule div_le_mono)
  with assms show ?thesis by (simp add: budget_def)
qed

lemma lz4_sequence_ok:
  assumes anchor: "anchor \<le> ip" and ip: "ip + 12 \<le> length src" and m: "match_at src ip ref"
    and budget: "budget (length out) anchor" and bound: "lz4_compress_bound (length src) \<le> maxOut"
  shows "\<exists>ml. lz4_sequence src maxOut anchor ip ref out =
      Next (out @ enc_seq (Seq (take (ip - anchor) (drop anchor src)) (ip - ref) (ml + 4)), ip + 4 + ml)
    \<and> ip + 4 + ml \<le> length src - 5 \<and> (\<forall>i<ml + 4. src ! (ip + i) = src ! (ref + i))
    \<and> budget (length (out @ enc_seq (Seq (take (ip - anchor) (drop anchor src)) (ip - ref) (ml + 4))))
        (ip + 4 + ml)"
proof -
  define lits where "lits = take (ip - anchor) (drop anchor src)"
  have lits: "length lits = ip - anchor" using anchor ip by (simp add: lits_def)
  obtain e where e: "lz4_extend src (length src - 5) (ip + 4) (ref + 4) = Some e"
    and me: "match_end src (length src - 5) (ip + 4) (ref + 4) e"
    using lz4_extend_spec [of "length src - 5" src "ref + 4" "ip + 4"] m by (auto simp: match_at_def)
  define ml where "ml = e - (ip + 4)"
  have e_eq: "e = ip + 4 + ml" and e_le: "e \<le> length src - 5"
    using me ip by (auto simp: match_end_def ml_def)
  have eq: "src ! (ip + i) = src ! (ref + i)" if "i < ml + 4" for i
  proof (cases "i < 4")
    case True
    then show ?thesis using m by (simp add: match_at_def)
  next
    case False
    have "\<forall>j<ml. src ! (ip + 4 + j) = src ! (ref + 4 + j)"
      using me by (simp add: match_end_def ml_def)
    then have "src ! (ip + 4 + (i - 4)) = src ! (ref + 4 + (i - 4))"
      using that False by (elim allE [of _ "i - 4"]) auto
    moreover have "ip + 4 + (i - 4) = ip + i" "ref + 4 + (i - 4) = ref + i"
      using False by simp_all
    ultimately show ?thesis by (simp only:)
  qed
  have len: "length (out @ enc_seq (Seq lits (ip - ref) (ml + 4))) =
      length out + 3 + length (ext_bytes (ip - anchor)) + (ip - anchor) + length (ext_bytes ml)"
    using lits by simp
  then have budget': "budget (length (out @ enc_seq (Seq lits (ip - ref) (ml + 4)))) (ip + 4 + ml)"
    using budget_seq [OF budget anchor, of ml] by (simp only: len)
  have n: "ip + 4 + ml \<le> length src - 5" using e_eq e_le by simp
  have le: "length out + 3 + length (ext_bytes (ip - anchor)) + (ip - anchor) + length (ext_bytes ml)
      \<le> maxOut - 11"
  proof -
    have "length out + 3 + length (ext_bytes (ip - anchor)) + (ip - anchor) + length (ext_bytes ml)
        \<le> (length src - 5) + (length src - 5) div 255"
      using budget_le_bound [OF budget' n] by (simp only: len)
    moreover have "(length src - 5) div 255 \<le> length src div 255" by (rule div_le_mono) simp
    ultimately show ?thesis using bound unfolding lz4_compress_bound_def by linarith
  qed
  have fits: "length out + 1 + (ip - anchor) + (ip - anchor) div 255 + 16 \<le> maxOut"
  proof -
    have "anchor div 255 + (ip - anchor) div 255 \<le> ip div 255"
      using div255_add [of anchor "ip - anchor"] anchor by simp
    moreover have "ip div 255 \<le> length src div 255" using ip by (intro div_le_mono) simp
    ultimately show ?thesis
      using budget anchor ip bound unfolding budget_def lz4_compress_bound_def by linarith
  qed
  have ml2: "length out + length (ext_bytes (ip - anchor)) + (ip - anchor) + 3 + (ml - 15) div 255 + 2
      \<le> maxOut" if "ml \<ge> 15"
  proof -
    have "length (ext_bytes ml) = (ml - 15) div 255 + 1"
      using that by (simp add: ext_bytes_def len_simps)
    moreover have "11 \<le> maxOut" using fits by linarith
    ultimately show ?thesis using le by linarith
  qed
  have "lz4_encode_literals src maxOut anchor ip out =
      Next (out @ token (ip - anchor) 0 # ext_bytes (ip - anchor) @ lits)"
  proof -
    have "lz4_put maxOut out (lz4_lit_header (ip - anchor) @ lits) =
        Next (out @ token (ip - anchor) 0 # ext_bytes (ip - anchor) @ lits)"
      using le fits lits by (simp add: lz4_put_def lz4_lit_header_eq)
    moreover have "\<not> length out + 1 + (ip - anchor) + (ip - anchor) div 255 + 16 > maxOut"
      "\<not> anchor + (ip - anchor) > length src"
      using fits anchor ip by auto
    ultimately show ?thesis
      unfolding lz4_encode_literals_def Let_def lits_def by (simp only: if_False)
  qed
  moreover have "lz4_encode_ml maxOut (length out) ml
      (out @ token (ip - anchor) 0 # (ext_bytes (ip - anchor) @ lits @ le_bytes 2 (ip - ref))) =
      Next (out @ token (ip - anchor) ml #
        (ext_bytes (ip - anchor) @ lits @ le_bytes 2 (ip - ref)) @ ext_bytes ml)"
    using le ml2 lits by (intro lz4_encode_ml_ok) auto
  ultimately have "lz4_sequence src maxOut anchor ip ref out =
      Next (out @ enc_seq (Seq lits (ip - ref) (ml + 4)), ip + 4 + ml)"
    using le e lits
    by (simp add: lz4_sequence_def Let_def lz4_put_def e_eq del: le_bytes.simps)
  then show ?thesis using n eq budget' unfolding lits_def by blast
qed

subsection \<open>The whole block\<close>

text \<open>A finished block: it fits, it can be decoded, it means the source, and (as the format asks of
  its writers) the last five bytes are literals.\<close>

definition block_for :: "byte list \<Rightarrow> byte list \<Rightarrow> bool" where
  "block_for src out \<longleftrightarrow>
     (\<exists>ss l. out = enc_seqs ss @ enc_last l \<and> seqs_ok [] ss \<and> expand [] ss @ l = src \<and>
        min 5 (length src) \<le> length l \<and> length out \<le> lz4_compress_bound (length src))"

lemma lz4_last_literals_ok:
  assumes "expand [] ss = take anchor src" and "seqs_ok [] ss"
    and "budget (length (enc_seqs ss)) anchor" and "anchor = 0 \<or> anchor + 5 \<le> length src"
    and bound: "lz4_compress_bound (length src) \<le> maxOut"
  shows "\<exists>out. lz4_last_literals src maxOut anchor (enc_seqs ss) = Next out \<and> block_for src out"
proof -
  let ?l = "drop anchor src"
  have a: "anchor \<le> length src" using assms(4) by auto
  have len: "length (enc_seqs ss @ enc_last ?l) \<le> lz4_compress_bound (length src) - 14"
  proof -
    have "length (enc_seqs ss @ enc_last ?l) =
        length (enc_seqs ss) + 1 + length (ext_bytes (length ?l)) + length ?l"
      by (simp add: enc_last_def)
    moreover have "anchor + length ?l = length src" using a by simp
    ultimately show ?thesis
      using assms(3) length_ext_bytes [of "length ?l"] div255_add [of anchor "length ?l"]
      unfolding budget_def lz4_compress_bound_def by linarith
  qed
  have "length (enc_seqs ss) + length ?l + 1 + length ?l div 255 \<le> maxOut"
    using assms(3) a bound div255_add [of anchor "length ?l"]
    by (simp add: budget_def lz4_compress_bound_def)
  then have "lz4_last_literals src maxOut anchor (enc_seqs ss) = Next (enc_seqs ss @ enc_last ?l)"
    using len bound
    by (simp add: lz4_last_literals_def Let_def lz4_put_def lz4_lit_header_eq enc_last_def)
  moreover have "block_for src (enc_seqs ss @ enc_last ?l)"
    unfolding block_for_def using assms(1,2,4) a len
    by (intro exI [of _ ss] exI [of _ ?l]) auto
  ultimately show ?thesis by blast
qed

lemma lz4_loop_ok:
  assumes "expand [] ss = take anchor src" and "seqs_ok [] ss"
    and "budget (length (enc_seqs ss)) anchor" and "anchor = 0 \<or> anchor + 5 \<le> length src"
    and "anchor \<le> ip" and "12 \<le> length src" and "lz4_compress_bound (length src) \<le> maxOut"
  shows "\<exists>ht' out. lz4_loop src maxOut ht ip anchor (enc_seqs ss) = Some (ht', out) \<and> block_for src out"
  using assms
proof (induction src maxOut ht ip anchor "enc_seqs ss" arbitrary: ss rule: lz4_loop.induct)
  case (1 src maxOut ht ip anchor)
  note last = lz4_last_literals_ok [OF "1.prems"(1,2,3,4,7)]
  obtain ht1 r where f: "lz4_find_match src (length src - 12) ht ip 1 64 = Some (ht1, r)"
    and fr: "\<And>ip1 ref. r = Some (ip1, ref) \<Longrightarrow>
               ip \<le> ip1 \<and> ip1 \<le> length src - 12 \<and> match_at src ip1 ref"
    using lz4_find_match_spec [of "length src - 12" src ht ip 1 64] "1.prems"(6) by auto
  show ?case
  proof (cases r)
    case None
    with f last show ?thesis
      by (subst lz4_loop.simps) (auto simp: lz4_return_def)
  next
    case (Some p)
    then obtain ip1 ref where r: "r = Some (ip1, ref)" by (cases p) auto
    then have ip1: "ip \<le> ip1" "ip1 + 12 \<le> length src" and m: "match_at src ip1 ref"
      using fr [OF r] "1.prems"(6) by auto
    have anchor: "anchor \<le> ip1" using ip1 "1.prems"(5) by simp
    let ?lits = "take (ip1 - anchor) (drop anchor src)"
    obtain ml where
      sq: "lz4_sequence src maxOut anchor ip1 ref (enc_seqs ss) =
             Next (enc_seqs ss @ enc_seq (Seq ?lits (ip1 - ref) (ml + 4)), ip1 + 4 + ml)"
      and e5: "ip1 + 4 + ml \<le> length src - 5"
      and run: "\<forall>i<ml + 4. src ! (ip1 + i) = src ! (ref + i)"
      and budget: "budget (length (enc_seqs ss @ enc_seq (Seq ?lits (ip1 - ref) (ml + 4)))) (ip1 + 4 + ml)"
      using lz4_sequence_ok [OF anchor ip1(2) m "1.prems"(3,7)] by blast
    let ?ss = "ss @ [Seq ?lits (ip1 - ref) (ml + 4)]"
    have off: "0 < ip1 - ref" "ip1 - ref \<le> ip1" "ip1 - ref \<le> 65535" "ip1 - (ip1 - ref) = ref"
      using m by (auto simp: match_at_def)
    have lits: "take anchor src @ ?lits = take ip1 src" using anchor by (rule take_drop_take)
    then have ex: "expand [] ?ss = take (ip1 + 4 + ml) src"
    proof -
      have "copy_match (take ip1 src) (ip1 - ref) (ml + 4) = take (ip1 + (ml + 4)) src"
        using run e5 ip1 off(4) by (intro copy_match_take [OF off(2,1)]) auto
      moreover have "ip1 + (ml + 4) = ip1 + 4 + ml" by simp
      ultimately show ?thesis
        using "1.prems"(1) lits by (simp only: expand_snoc)
    qed
    have ok: "seqs_ok [] ?ss"
      using "1.prems"(1,2) off anchor ip1 by (simp add: seqs_ok_snoc)
    have enc: "enc_seqs ?ss = enc_seqs ss @ enc_seq (Seq ?lits (ip1 - ref) (ml + 4))" by simp
    have budget': "budget (length (enc_seqs ?ss)) (ip1 + 4 + ml)" using budget enc by simp
    have a5: "ip1 + 4 + ml = 0 \<or> ip1 + 4 + ml + 5 \<le> length src" using e5 ip1 by simp
    show ?thesis
    proof (cases "ip1 + 4 + ml \<ge> length src - 12")
      case True
      with lz4_last_literals_ok [OF ex ok budget' a5 "1.prems"(7)] f r sq show ?thesis
        by (subst lz4_loop.simps) (auto simp: lz4_return_def simp flip: enc)
    next
      case False
      obtain v where v: "lz4_read32 src (ip1 + 4 + ml - 2) = Some v"
        using lz4_read32_ok [of "ip1 + 4 + ml - 2" src] False by fastforce
      have "\<exists>ht' out. lz4_loop src maxOut (ht1(hash4 v := ip1 + 4 + ml - 2)) (ip1 + 4 + ml)
              (ip1 + 4 + ml) (enc_seqs ?ss) = Some (ht', out) \<and> block_for src out"
        using False f r sq v ex ok budget' a5 "1.prems"(6,7)
        by (intro "1.hyps") (auto simp flip: enc)
      with False f r sq v show ?thesis
        by (subst lz4_loop.simps) (simp flip: enc)
    qed
  qed
qed

lemma lz4_compress_block_ok:
  assumes "src \<noteq> []" and "lz4_compress_bound (length src) \<le> maxOut"
  shows "\<exists>ht' out. lz4_compress_block src maxOut ht = Some (ht', out) \<and> block_for src out"
proof -
  have start: "expand [] [] = take 0 src" "seqs_ok [] []" "budget (length (enc_seqs [])) 0"
    by (simp_all add: budget_def)
  show ?thesis
  proof (cases "length src < 13")
    case True
    with lz4_last_literals_ok [OF start _ assms(2)] assms show ?thesis
      by (auto simp: lz4_compress_block_def lz4_return_def lz4_compress_bound_def)
  next
    case False
    then obtain v where v: "lz4_read32 src 0 = Some v"
      using lz4_read32_ok [of 0 src] by auto
    have "\<exists>ht' out. lz4_loop src maxOut (ht(hash4 v := 0)) 1 0 (enc_seqs []) = Some (ht', out)
            \<and> block_for src out"
      using start False assms by (intro lz4_loop_ok) auto
    with False v assms show ?thesis
      by (simp add: lz4_compress_block_def lz4_compress_bound_def)
  qed
qed

end
