(* ===== verification/Lz4_Roundtrip.thy ===== *)
theory Lz4_Roundtrip
  imports Lz4_Encode
begin

text \<open>
  The receiver reads back what the compressor wrote: on every encoding of decodable sequences the
  decoder of \<open>tools/trace_receiver.py\<close> raises nothing and returns their expansion. Together with
  \<open>Lz4_Encode\<close> this makes the pair a block codec, the interface the writers of trace frames use.
\<close>

subsection \<open>Reading the pieces of a block\<close>

lemma drop_eq_ConsD: "drop i xs = y # ys \<Longrightarrow> i < length xs \<and> xs ! i = y \<and> drop (Suc i) xs = ys"
  by (metis drop_Suc drop_all drop_eq_Nil2 hd_drop_conv_nth list.distinct(1) list.sel(1,3) not_le
      tl_drop)

lemma drop_eq_appendD: "drop i xs = ys @ zs \<Longrightarrow> drop (i + length ys) xs = zs"
  by (metis add.commute append_eq_conv_conj drop_drop)

lemma py_len_ext_lz4_len_ext:
  "drop si src = lz4_len_ext n @ rest \<Longrightarrow>
   py_len_ext src si a = (si + length (lz4_len_ext n), a + n)"
proof (induction n arbitrary: si a rule: lz4_len_ext.induct)
  case (1 n)
  show ?case
  proof (cases "n \<ge> 255")
    case True
    then have "drop si src = 255 # lz4_len_ext (n - 255) @ rest"
      using "1.prems" by (simp add: lz4_len_ext.simps [of n])
    note d = drop_eq_ConsD [OF this]
    then have "py_len_ext src (Suc si) (a + 255) =
        (Suc si + length (lz4_len_ext (n - 255)), a + 255 + (n - 255))"
      using "1.IH" True by blast
    with d True show ?thesis
      by (subst py_len_ext.simps) (simp add: lz4_len_ext.simps [of n])
  next
    case False
    then have "drop si src = word_of_nat n # rest"
      using "1.prems" by (simp add: lz4_len_ext.simps [of n])
    note d = drop_eq_ConsD [OF this]
    have "(word_of_nat n :: byte) \<noteq> 255"
    proof
      assume "(word_of_nat n :: byte) = 255"
      then have "unat (word_of_nat n :: byte) = 255" by simp
      with False show False by simp
    qed
    with d False show ?thesis
      by (subst py_len_ext.simps) (simp add: lz4_len_ext.simps [of n])
  qed
qed

lemma token_table: "list_all (\<lambda>x. list_all (\<lambda>y.
    unat (drop_bit 4 (token x y)) = x \<and> unat (token x y AND 15) = y) [0..<16]) [0..<16]"
  by code_simp

lemma unat_token [simp]:
  "unat (drop_bit 4 (token a b)) = min a 15" "unat (token a b AND 15) = min b 15"
proof -
  have "token a b = token (min a 15) (min b 15)" by (simp add: token_def)
  moreover have "min a 15 < 16" "min b 15 < 16" by simp_all
  ultimately show "unat (drop_bit 4 (token a b)) = min a 15" "unat (token a b AND 15) = min b 15"
    using token_table unfolding list_all_iff by simp_all
qed

text \<open>A nibble and its extension bytes give back the length; \<open>b\<close> is what the decoder adds to it.\<close>

lemma py_len_ext_bytes:
  assumes "drop si src = ext_bytes n @ rest"
  shows "(if min n 15 = 15 then py_len_ext src si (min n 15 + b) else (si, min n 15 + b)) =
         (si + length (ext_bytes n), n + b)"
proof (cases "n \<ge> 15")
  case True
  with assms py_len_ext_lz4_len_ext [of si src "n - 15" rest "15 + b"] show ?thesis
    by (simp add: ext_bytes_def min_absorb2)
next
  case False
  then show ?thesis by (simp add: ext_bytes_def min_def)
qed

subsection \<open>Copying\<close>

lemma length_py_slice_assign:
  "a + length xs \<le> length dst \<Longrightarrow> length (py_slice_assign dst a (a + length xs) xs) = length dst"
  by (simp add: py_slice_assign_def)

lemma take_py_slice_assign:
  "a + length xs \<le> length dst \<Longrightarrow>
   take (a + length xs) (py_slice_assign dst a (a + length xs) xs) = take a dst @ xs"
  by (simp add: py_slice_assign_def)

lemma py_copy_ok:
  assumes "0 < off" and "off \<le> di" and "di + k \<le> length dst"
  shows "\<exists>dst'. py_copy dst di (int di - int off) k = Inr (dst', di + k) \<and>
     length dst' = length dst \<and> take (di + k) dst' = copy_match (take di dst) off k"
  using assms
proof (induction k arbitrary: dst di)
  case 0
  then show ?case by simp
next
  case (Suc k)
  let ?v = "dst ! (di - off)"
  have get: "py_get dst (int di - int off) = Inr ?v"
    using Suc.prems by (simp add: py_get_def nat_diff_distrib)
  obtain dst' where d: "py_copy (dst[di := ?v]) (Suc di) (int (Suc di) - int off) k = Inr (dst', Suc di + k)"
    and len: "length dst' = length (dst[di := ?v])"
    and tk: "take (Suc di + k) dst' = copy_match (take (Suc di) (dst[di := ?v])) off k"
    using Suc.IH [of "Suc di" "dst[di := ?v]"] Suc.prems by auto
  have "take (Suc di) (dst[di := ?v]) = take di dst @ [take di dst ! (di - off)]"
    using Suc.prems by (simp add: take_Suc_snoc)
  moreover have "length (take di dst) = di" using Suc.prems by simp
  ultimately show ?case
    using get d len tk Suc.prems by (simp add: algebra_simps)
qed

subsection \<open>Decoding an encoding\<close>

text \<open>One round of the loop, along the path of the last sequence and along the path of a match.\<close>

lemma py_decode_round_last:
  assumes "si < length src"
    and "(if unat (drop_bit 4 (src ! si)) = 15 then py_len_ext src (si + 1) 15
          else (si + 1, unat (drop_bit 4 (src ! si)))) = (si2, n)"
    and "length src \<le> si2 + n"
  shows "py_decode_loop src si dst di =
    Inr (take (di + n) (py_slice_assign dst di (di + n) (take n (drop si2 src))))"
  using assms(1,3) by (subst py_decode_loop.simps) (simp only: Let_def assms(2) prod.case if_True)

lemma py_decode_round_match:
  assumes "si < length src"
    and "(if unat (drop_bit 4 (src ! si)) = 15 then py_len_ext src (si + 1) 15
          else (si + 1, unat (drop_bit 4 (src ! si)))) = (si2, n)"
    and "\<not> length src \<le> si2 + n" and "\<not> length src \<le> si2 + n + 1"
    and "unat (src ! (si2 + n)) + 256 * unat (src ! (si2 + n + 1)) = off" and "off \<noteq> 0"
    and "(if unat (src ! si AND 15) = 15 then py_len_ext src (si2 + n + 2) (unat (src ! si AND 15) + 4)
          else (si2 + n + 2, unat (src ! si AND 15) + 4)) = (si5, m)"
    and "py_copy (py_slice_assign dst di (di + n) (take n (drop si2 src))) (di + n)
           (int (di + n) - int off) m = Inr (dst2, di2)"
  shows "py_decode_loop src si dst di = py_decode_loop src si5 dst2 di2"
  by (subst py_decode_loop.simps) (simp only: Let_def assms prod.case if_True if_False sum.case)

lemma py_decode_last:
  assumes d: "drop si src = enc_last l" and "di + length l = length dst"
  shows "py_decode_loop src si dst di = Inr (take di dst @ l)"
proof -
  let ?si2 = "si + 1 + length (ext_bytes (length l))"
  note h = drop_eq_ConsD [OF d [unfolded enc_last_def]]
  then have tok: "src ! si = token (length l) 0" by simp
  have ext: "drop (Suc si) src = ext_bytes (length l) @ l" using h by simp
  have si2: "drop ?si2 src = l" using drop_eq_appendD [OF ext] by simp
  have len: "?si2 + length l = length src"
    using arg_cong [OF d, of length] h by (simp add: enc_last_def)
  have lit: "(if min (length l) 15 = 15 then py_len_ext src (si + 1) 15
              else (si + 1, min (length l) 15)) = (?si2, length l)"
    using py_len_ext_bytes [OF ext, of 0] by (auto split: if_splits)
  show ?thesis
  proof -
    have "py_decode_loop src si dst di =
        Inr (take (di + length l) (py_slice_assign dst di (di + length l) (take (length l) (drop ?si2 src))))"
      using lit h len unfolding unat_token [of "length l" 0, folded tok, symmetric]
      by (intro py_decode_round_last) auto
    then show ?thesis using si2 assms(2) take_py_slice_assign [of di l dst] by simp
  qed
qed

lemma py_decode_seq:
  assumes d: "drop si src = enc_seq (Seq l off m) @ rest" and "rest \<noteq> []"
    and ok: "0 < off" "off \<le> 65535" "off \<le> di + length l" "4 \<le> m"
    and room: "di + length l + m \<le> length dst"
  shows "\<exists>si' dst'. py_decode_loop src si dst di = py_decode_loop src si' dst' (di + length l + m)
     \<and> drop si' src = rest \<and> length dst' = length dst
     \<and> take (di + length l + m) dst' = copy_match (take di dst @ l) off m"
proof -
  let ?si2 = "si + 1 + length (ext_bytes (length l))"
  let ?si3 = "?si2 + length l"
  let ?si5 = "?si3 + 2 + length (ext_bytes (m - 4))"
  let ?dst1 = "py_slice_assign dst di (di + length l) l"
  note h = drop_eq_ConsD [OF d [unfolded enc_seq.simps append_Cons]]
  then have tok: "src ! si = token (length l) (m - 4)" by simp
  have ext: "drop (Suc si) src =
      ext_bytes (length l) @ l @ le_bytes 2 off @ ext_bytes (m - 4) @ rest" using h by simp
  have si2: "drop ?si2 src = l @ le_bytes 2 off @ ext_bytes (m - 4) @ rest"
    using drop_eq_appendD [OF ext] by simp
  have si3: "drop ?si3 src = le_bytes 2 off @ ext_bytes (m - 4) @ rest"
    using drop_eq_appendD [OF si2] by simp
  have si4: "drop (?si3 + 2) src = ext_bytes (m - 4) @ rest"
    using drop_eq_appendD [OF si3] by simp
  have si5: "drop ?si5 src = rest" using drop_eq_appendD [OF si4] by simp
  then have lt: "?si5 < length src" using assms(2) by (metis drop_all not_less)
  have b0: "src ! ?si3 = word_of_nat off" "src ! (?si3 + 1) = word_of_nat (off div 256)"
    using drop_eq_ConsD [of ?si3 src] si3 lt
    by (auto simp: numeral_2_eq_2 dest!: drop_eq_ConsD)
  have offset: "unat (src ! ?si3) + 256 * unat (src ! (?si3 + 1)) = off"
    using ok(2) unfolding b0 by simp
  have lit: "(if min (length l) 15 = 15 then py_len_ext src (si + 1) 15
              else (si + 1, min (length l) 15)) = (?si2, length l)"
    using py_len_ext_bytes [OF ext, of 0] by (auto split: if_splits)
  have ml: "(if min (m - 4) 15 = 15 then py_len_ext src (?si3 + 2) (min (m - 4) 15 + 4)
             else (?si3 + 2, min (m - 4) 15 + 4)) = (?si5, m)"
    using py_len_ext_bytes [OF si4, of 4] ok(4) by simp
  have len1: "length ?dst1 = length dst" and tk1: "take (di + length l) ?dst1 = take di dst @ l"
    using room by (simp_all add: length_py_slice_assign take_py_slice_assign)
  obtain dst' where cp: "py_copy ?dst1 (di + length l) (int (di + length l) - int off) m =
        Inr (dst', di + length l + m)"
    and "length dst' = length ?dst1"
    and "take (di + length l + m) dst' = copy_match (take (di + length l) ?dst1) off m"
    using py_copy_ok [OF ok(1,3), of m ?dst1] room len1 by auto
  moreover have "py_decode_loop src si dst di = py_decode_loop src ?si5 dst' (di + length l + m)"
    using h lt ok(1) cp si2 offset lit ml unfolding unat_token [of "length l" "m - 4", folded tok, symmetric]
    by (intro py_decode_round_match [where ?si2.0 = "?si2" and n = "length l" and m = m and off = off])
       auto
  ultimately show ?thesis using si5 len1 tk1 by metis
qed

lemma py_decode_enc:
  "drop si src = enc_seqs ss @ enc_last l \<Longrightarrow> seqs_ok (take di dst) ss \<Longrightarrow> di \<le> length dst \<Longrightarrow>
   length (expand (take di dst) ss) + length l = length dst \<Longrightarrow>
   py_decode_loop src si dst di = Inr (expand (take di dst) ss @ l)"
proof (induction ss arbitrary: si dst di)
  case Nil
  then show ?case by (simp add: py_decode_last)
next
  case (Cons s ss)
  obtain lits off m where s: "s = Seq lits off m" by (cases s)
  have d: "drop si src = enc_seq (Seq lits off m) @ (enc_seqs ss @ enc_last l)"
    using Cons.prems(1) s by simp
  have len: "length (take di dst) = di" using Cons.prems(3) by simp
  have "length (copy_match (take di dst @ lits) off m) \<le> length dst"
    using Cons.prems(4) s length_expand_ge [of "copy_match (take di dst @ lits) off m" ss] by simp
  then have room: "di + length lits + m \<le> length dst" using len by simp
  have ok: "0 < off" "off \<le> 65535" "off \<le> di + length lits" "4 \<le> m"
    using Cons.prems(2) s len by auto
  have "enc_seqs ss @ enc_last l \<noteq> []" by (simp add: enc_last_def)
  from py_decode_seq [OF d this ok room] obtain si' dst' where
    step: "py_decode_loop src si dst di = py_decode_loop src si' dst' (di + length lits + m)"
    and si': "drop si' src = enc_seqs ss @ enc_last l" and len': "length dst' = length dst"
    and tk: "take (di + length lits + m) dst' = copy_match (take di dst @ lits) off m"
    by blast
  have "py_decode_loop src si' dst' (di + length lits + m) =
      Inr (expand (take (di + length lits + m) dst') ss @ l)"
    using Cons.prems s tk room len' by (intro Cons.IH [OF si']) auto
  then show ?case using step tk s by simp
qed

lemma block_for_decodes:
  "block_for src out \<Longrightarrow> lz4_decompress_block_py out (length src) = Inr src"
  unfolding block_for_def lz4_decompress_block_py_def
  using py_decode_enc [of 0 out _ _ 0 "replicate (length src) 0"] by fastforce

lemma block_for_nonempty: "block_for src out \<Longrightarrow> out \<noteq> []"
  by (auto simp: block_for_def enc_last_def)

subsection \<open>The codec interface\<close>

text \<open>
  What the writers of frames rely on: a scratch buffer of \<open>bound\<close> bytes is always enough, the
  packed block is never empty and never larger than \<open>bound\<close>, and unpacking gives the block back.
\<close>

locale block_codec =
  fixes pack :: "byte list \<Rightarrow> nat \<Rightarrow> 's \<Rightarrow> ('s \<times> byte list) option"
    and unpack :: "byte list \<Rightarrow> nat \<Rightarrow> py_error + byte list"
    and bound :: "nat \<Rightarrow> nat"
  assumes pack_law: "src \<noteq> [] \<Longrightarrow> bound (length src) \<le> cap \<Longrightarrow>
      \<exists>s' out. pack src cap s = Some (s', out) \<and> out \<noteq> [] \<and> length out \<le> bound (length src)
        \<and> unpack out (length src) = Inr src"
    and bound_mono: "m \<le> n \<Longrightarrow> bound m \<le> bound n"
begin

lemma pack_in_scratch:
  assumes "src \<noteq> []" and "length src \<le> n" and "bound n \<le> cap"
  obtains s' out where "pack src cap s = Some (s', out)" and "out \<noteq> []"
    and "length out \<le> bound n" and "unpack out (length src) = Inr src"
proof -
  have "bound (length src) \<le> bound n" using assms(2) by (rule bound_mono)
  with pack_law [OF assms(1), of cap s] assms(3) that show thesis by fastforce
qed

lemma pack_inj:
  assumes "src \<noteq> []" and "src' \<noteq> []" and "length src = length src'"
    and "bound (length src) \<le> cap" and "bound (length src') \<le> cap'"
    and "pack src cap s = Some (t, out)" and "pack src' cap' s' = Some (t', out)"
  shows "src = src'"
  using pack_law [OF assms(1,4), of s] pack_law [OF assms(2,5), of s'] assms by auto

end

interpretation lz4: block_codec lz4_compress_block lz4_decompress_block_py lz4_compress_bound
proof
  fix src :: "byte list" and cap s
  assume "src \<noteq> []" and "lz4_compress_bound (length src) \<le> cap"
  with lz4_compress_block_ok obtain s' out
    where "lz4_compress_block src cap s = Some (s', out)" and b: "block_for src out" by blast
  moreover have "length out \<le> lz4_compress_bound (length src)"
    using b by (auto simp: block_for_def)
  ultimately show "\<exists>s' out. lz4_compress_block src cap s = Some (s', out) \<and> out \<noteq> [] \<and>
      length out \<le> lz4_compress_bound (length src) \<and> lz4_decompress_block_py out (length src) = Inr src"
    using block_for_decodes block_for_nonempty by blast
next
  fix m n :: nat assume "m \<le> n"
  then show "lz4_compress_bound m \<le> lz4_compress_bound n"
    by (simp add: lz4_compress_bound_def div_le_mono add_mono)
qed

subsection \<open>Properties\<close>

text \<open>C3 (the compressor and the receiver agree): for every non-empty source, every leftover content
  of the thread-local hash table and every output buffer of at least \<open>lz4_compress_bound\<close> bytes, the
  compressor reads and writes inside its buffers, returns a non-empty block within the bound, and
  the decoder of the receiver turns that block back into the source without an exception.\<close>

theorem lz4_block_roundtrip:
  assumes "src \<noteq> []" and "lz4_compress_bound (length src) \<le> maxOut"
  shows "\<exists>htab' out. lz4_compress_block src maxOut htab = Some (htab', out) \<and> out \<noteq> [] \<and>
    length out \<le> lz4_compress_bound (length src) \<and>
    lz4_decompress_block_py out (length src) = Inr src"
  using lz4.pack_law [OF assms] .

lemma lz4_block_roundtrip_witness:
  "\<exists>htab' out. lz4_compress_block (replicate 40 65) 56 (\<lambda>h. 7) = Some (htab', out) \<and> out \<noteq> [] \<and>
    length out \<le> lz4_compress_bound (length (replicate 40 (65 :: byte))) \<and>
    lz4_decompress_block_py out (length (replicate 40 (65 :: byte))) = Inr (replicate 40 65)"
  by (rule lz4_block_roundtrip) (simp_all add: lz4_compress_bound_def)

text \<open>C21 (the 8-byte fast path of the match extension): for a reference at or before the current
  position and a limit inside the source, comparing eight bytes at a time and counting trailing
  zeros returns exactly what the plain byte loop returns, and that is the end of the longest common
  run below the limit; neither loop reads outside the source.\<close>

theorem lz4_extend_fast_path:
  assumes "matchlimit \<le> length src" and "ref \<le> ip"
  shows "\<exists>e. lz4_extend src matchlimit ip ref = Some e \<and> lz4_extend1 src matchlimit ip ref = Some e \<and>
    ip \<le> e \<and> e \<le> max ip matchlimit \<and> (\<forall>i<e - ip. src ! (ip + i) = src ! (ref + i)) \<and>
    (e < matchlimit \<longrightarrow> src ! e \<noteq> src ! (ref + (e - ip)))"
  using lz4_extend1_spec [OF assms] lz4_extend_eq_extend1 [OF assms]
  unfolding match_end_def by fastforce

lemma lz4_extend_fast_path_witness:
  "\<exists>e. lz4_extend (replicate 30 65 @ [66]) 31 4 0 = Some e \<and>
    lz4_extend1 (replicate 30 65 @ [66]) 31 4 0 = Some e \<and>
    4 \<le> e \<and> e \<le> max 4 31 \<and>
    (\<forall>i<e - 4. (replicate 30 (65 :: byte) @ [66]) ! (4 + i) = (replicate 30 65 @ [66]) ! (0 + i)) \<and>
    (e < 31 \<longrightarrow> (replicate 30 (65 :: byte) @ [66]) ! e \<noteq> (replicate 30 65 @ [66]) ! (0 + (e - 4)))"
  by (rule lz4_extend_fast_path) simp_all

subsection \<open>The last literals\<close>

lemma len_ext_length: "length (lz4_len_ext n) = n div 255 + 1"
proof (induction n rule: lz4_len_ext.induct)
  case (1 n)
  then show ?case by (subst lz4_len_ext.simps) (auto simp: le_div_geq)
qed

lemma lit_header_length: "length (lz4_lit_header r) = 1 + r div 255 + (if 15 \<le> r mod 255 then 1 else 0)"
proof (cases "15 \<le> r")
  case False
  then show ?thesis by (simp add: lz4_lit_header_def)
next
  case True
  have "(r - 15) div 255 + 1 = r div 255 + (if 15 \<le> r mod 255 then 1 else 0)"
  proof -
    define q m where "q = r div 255" and "m = r mod 255"
    then have r: "r = 255 * q + m" "m < 255" by simp_all
    show ?thesis
    proof (cases "15 \<le> m")
      case True
      then have "(r - 15) div 255 = q" using r by (intro div_nat_eqI) simp_all
      then show ?thesis using True by (simp add: q_def m_def)
    next
      case False
      then have q: "1 \<le> q" using r \<open>15 \<le> r\<close> by (cases q) simp_all
      then have "255 * q = 255 * (q - 1) + 255" by (cases q) simp_all
      then have "(r - 15) div 255 = q - 1" using r False q by (intro div_nat_eqI) simp_all
      then show ?thesis using False q by (simp add: q_def m_def)
    qed
  qed
  with True show ?thesis by (simp add: lz4_lit_header_def len_ext_length)
qed

text \<open>C36 (the room for the last literals), for every source, anchor, output and buffer. With \<open>r\<close> bytes left, the final check
  asks for \<open>1 + r + r div 255\<close> bytes, and the code stores one byte more than that when \<open>r mod 255\<close> is at least 15. So it
  gives up when the room is less than what the check asks for, stores exactly one byte past the end of the buffer when the room is just
  that and \<open>r mod 255\<close> is at least 15, and otherwise appends the header and the literals within the buffer. No caller in the
  repository passes less than \<open>lz4_compress_bound\<close>.\<close>

theorem lz4_last_literals_overrun:
  "(let r = length src - anchor; asked = length out + 1 + r + r div 255; bytes = lz4_lit_header r @ drop anchor src in
    length (out @ bytes) = asked + (if 15 \<le> r mod 255 then 1 else 0) \<and>
    lz4_last_literals src maxOut anchor out =
      (if maxOut < asked then Return0
       else if maxOut = asked \<and> 15 \<le> r mod 255 then Fault
       else Next (out @ bytes)))"
proof -
  define r bytes where r: "r = length src - anchor" and bytes: "bytes = lz4_lit_header (length src - anchor) @ drop anchor src"
  have len: "length bytes = 1 + r + r div 255 + (if 15 \<le> r mod 255 then 1 else 0)"
    by (simp add: bytes r lit_header_length)
  have "lz4_last_literals src maxOut anchor out =
      (if length out + r + 1 + r div 255 > maxOut then Return0 else lz4_put maxOut out bytes)"
    by (simp only: lz4_last_literals_def Let_def r bytes)
  then show ?thesis unfolding Let_def r [symmetric] bytes [unfolded r [symmetric], symmetric]
    by (auto simp: lz4_put_def len)
qed

text \<open>The whole compressor reaches it: 15 literals, room for 16 bytes.\<close>

lemma compress_overruns_small_buffer:
  "lz4_compress_block [0, 1, 2, 3, 4, 5, 6, 7, 8, 9, 10, 11, 12, 13, 14] 16 (\<lambda>h. 100) = None"
  by (simp add: lz4_compress_block_def lz4_loop.simps [of "[0, 1, 2, 3, 4, 5, 6, 7, 8, 9, 10, 11, 12, 13, 14]"]
      lz4_find_match.simps [of "[0, 1, 2, 3, 4, 5, 6, 7, 8, 9, 10, 11, 12, 13, 14]"] lz4_read32_def hash4_def
      lz4_return_def lz4_last_literals_def lz4_put_def lz4_lit_header_def lz4_len_ext.simps Let_def)

end
