(* ===== verification/Frames.thy ===== *)
theory Frames
  imports Lz4_Roundtrip
begin

text \<open>
  The wire and file format: a frame is three little-endian 32-bit integers (compressed size,
  original size, thread id) and the packed block. \<open>decode_frames\<close> is the reader in
  \<open>tools/trace_receiver.py\<close>; the block decoder is an argument, because the script prefers the C
  extension \<open>lz4.block\<close> when it is installed, and the theorems instantiate it with the fallback.
\<close>

subsection \<open>Writing a frame\<close>

text \<open>\<open>uint32_t header[3] = {comp_size, pos, tid}\<close> as it lies in memory.\<close>

definition frame_header :: "nat \<Rightarrow> nat \<Rightarrow> u32 \<Rightarrow> byte list" where
  "frame_header comp_size orig_size tid =
     le_bytes 4 comp_size @ le_bytes 4 orig_size @ le_bytes 4 (unat tid)"

lemma length_frame_header [simp, len_simps]: "length (frame_header c n t) = 12"
  by (simp add: frame_header_def del: le_bytes.simps)

lemma frame_header_not_Nil [simp]: "frame_header c n t \<noteq> []"
  by (metis length_frame_header list.size(3) zero_neq_numeral)

record frame =
  fr_tid :: u32
  fr_comp :: "byte list"
  fr_data :: "byte list"

definition enc_frame :: "frame \<Rightarrow> byte list" where
  "enc_frame f = frame_header (length (fr_comp f)) (length (fr_data f)) (fr_tid f) @ fr_comp f"

definition enc_frames :: "frame list \<Rightarrow> byte list" where
  "enc_frames fs = concat (map enc_frame fs)"

lemma enc_frames_simps [simp]:
  "enc_frames [] = []" "enc_frames (f # fs) = enc_frame f @ enc_frames fs"
  "enc_frames (fs @ gs) = enc_frames fs @ enc_frames gs"
  by (simp_all add: enc_frames_def)

subsection \<open>Reading frames\<close>

definition FRAME_HEADER_SIZE :: nat where
  "FRAME_HEADER_SIZE = 12"

text \<open>
  \<open>read_fn(n)\<close> returns at most \<open>n\<close> bytes of what is left; the generator stops at the end of the
  data, at a truncated header, at the end frame, at a truncated body and at a corrupt block.
\<close>

function decode_frames ::
    "(byte list \<Rightarrow> nat \<Rightarrow> py_error + byte list) \<Rightarrow> byte list \<Rightarrow> (u32 \<times> byte list) list" where
  "decode_frames dec input =
     (let header = take FRAME_HEADER_SIZE input; rest = drop FRAME_HEADER_SIZE input in
      if length header = 0 then []
      else if length header < FRAME_HEADER_SIZE then []
      else (let comp_size = le_nat (take 4 header);
                orig_size = le_nat (take 4 (drop 4 header));
                tid = word_of_nat (le_nat (take 4 (drop 8 header))) in
        if comp_size = 0 then []
        else (let compressed = take comp_size rest in
          if length compressed < comp_size then []
          else (case dec compressed orig_size of
                  Inl e \<Rightarrow> []
                | Inr decompressed \<Rightarrow>
                    (tid, decompressed) # decode_frames dec (drop comp_size rest)))))"
  by pat_completeness auto
termination
  by (relation "measure (length \<circ> snd)") (auto simp: FRAME_HEADER_SIZE_def)

declare decode_frames.simps [simp del]

definition valid_frame :: "(byte list \<Rightarrow> nat \<Rightarrow> py_error + byte list) \<Rightarrow> frame \<Rightarrow> bool" where
  "valid_frame dec f \<longleftrightarrow>
     fr_comp f \<noteq> [] \<and> length (fr_comp f) < 2 ^ 32 \<and> length (fr_data f) < 2 ^ 32 \<and>
     dec (fr_comp f) (length (fr_data f)) = Inr (fr_data f)"

definition frame_out :: "frame \<Rightarrow> u32 \<times> byte list" where
  "frame_out f = (fr_tid f, fr_data f)"

text \<open>The fields of a header are read back.\<close>

lemma frame_header_fields:
  assumes "c < 2 ^ 32" and "n < 2 ^ 32"
  shows "le_nat (take 4 (frame_header c n t)) = c"
    and "le_nat (take 4 (drop 4 (frame_header c n t))) = n"
    and "word_of_nat (le_nat (take 4 (drop 8 (frame_header c n t)))) = t"
proof -
  have "unat t < 2 ^ 32" using unsigned_less [of t, where 'a = nat] by simp
  then show "le_nat (take 4 (frame_header c n t)) = c"
    "le_nat (take 4 (drop 4 (frame_header c n t))) = n"
    "word_of_nat (le_nat (take 4 (drop 8 (frame_header c n t)))) = t"
    using assms by (simp_all add: frame_header_def le_nat_le_bytes del: le_bytes.simps)
qed

lemma decode_frame:
  assumes "valid_frame dec f"
  shows "decode_frames dec (enc_frame f @ rest) = frame_out f # decode_frames dec rest"
proof -
  let ?h = "frame_header (length (fr_comp f)) (length (fr_data f)) (fr_tid f)"
  note v = assms [unfolded valid_frame_def]
  have "take 12 (enc_frame f @ rest) = ?h" and "drop 12 (enc_frame f @ rest) = fr_comp f @ rest"
    by (simp_all add: enc_frame_def)
  then show ?thesis
    using v frame_header_fields [of "length (fr_comp f)" "length (fr_data f)" "fr_tid f"]
    by (subst decode_frames.simps) (simp add: Let_def FRAME_HEADER_SIZE_def frame_out_def)
qed

lemma decode_enc_frames:
  "\<forall>f\<in>set fs. valid_frame dec f \<Longrightarrow>
   decode_frames dec (enc_frames fs @ rest) = map frame_out fs @ decode_frames dec rest"
  by (induction fs) (simp_all add: decode_frame)

lemma decode_frames_Nil [simp]: "decode_frames dec [] = []"
  by (subst decode_frames.simps) simp

lemma decode_all_frames:
  "\<forall>f\<in>set fs. valid_frame dec f \<Longrightarrow> decode_frames dec (enc_frames fs) = map frame_out fs"
  using decode_enc_frames [of fs dec "[]"] by simp

text \<open>The end frame of the TCP protocol stops the reader, whatever follows.\<close>

lemma decode_end_frame: "decode_frames dec (frame_header 0 0 0 @ rest) = []"
  using frame_header_fields(1) [of 0 0 0]
  by (subst decode_frames.simps) (simp add: Let_def FRAME_HEADER_SIZE_def)

text \<open>A frame that is cut anywhere gives nothing: the reader stops before it.\<close>

lemma decode_cut_frame:
  assumes v: "valid_frame dec f" and n: "n < length (enc_frame f)"
  shows "decode_frames dec (take n (enc_frame f)) = []"
proof (cases "n < 12")
  case True
  then show ?thesis
    by (subst decode_frames.simps) (simp add: Let_def FRAME_HEADER_SIZE_def)
next
  case False
  let ?h = "frame_header (length (fr_comp f)) (length (fr_data f)) (fr_tid f)"
  have "take 12 (take n (enc_frame f)) = ?h"
    and "drop 12 (take n (enc_frame f)) = take (n - 12) (fr_comp f)"
    using False by (simp_all add: enc_frame_def min_def drop_take)
  moreover have "n - 12 < length (fr_comp f)" using n False by (simp add: enc_frame_def)
  ultimately show ?thesis
    using v [unfolded valid_frame_def]
      frame_header_fields [of "length (fr_comp f)" "length (fr_data f)" "fr_tid f"]
    by (subst decode_frames.simps) (simp add: Let_def FRAME_HEADER_SIZE_def)
qed

text \<open>A file cut at any byte decodes to the frames that are complete.\<close>

lemma decode_prefix:
  "\<forall>f\<in>set fs. valid_frame dec f \<Longrightarrow>
   \<exists>k\<le>length fs. decode_frames dec (take n (enc_frames fs)) = map frame_out (take k fs) \<and>
     length (enc_frames (take k fs)) \<le> n \<and>
     (k < length fs \<longrightarrow> n < length (enc_frames (take (Suc k) fs)))"
proof (induction fs arbitrary: n)
  case Nil
  then show ?case by simp
next
  case (Cons f fs)
  show ?case
  proof (cases "n < length (enc_frame f)")
    case True
    then have "decode_frames dec (take n (enc_frames (f # fs))) = []"
      using Cons.prems by (simp add: decode_cut_frame)
    with True show ?thesis by (intro exI [of _ 0]) simp
  next
    case False
    have "\<forall>g\<in>set fs. valid_frame dec g" using Cons.prems by simp
    from Cons.IH [OF this, of "n - length (enc_frame f)"] obtain k where "k \<le> length fs"
      and d: "decode_frames dec (take (n - length (enc_frame f)) (enc_frames fs)) = map frame_out (take k fs)"
      and k: "length (enc_frames (take k fs)) \<le> n - length (enc_frame f)"
        "k < length fs \<longrightarrow> n - length (enc_frame f) < length (enc_frames (take (Suc k) fs))" by blast
    then show ?thesis
      using False Cons.prems by (intro exI [of _ "Suc k"]) (auto simp: decode_frame)
  qed
qed

subsection \<open>Properties\<close>

text \<open>C34 (truncated files): a file of complete frames that is cut at any byte, as a killed process
  leaves it, is decoded to the frames that are complete, in order and unchanged, and to nothing else.\<close>

theorem decode_truncated_file:
  assumes "\<forall>f\<in>set fs. valid_frame dec f"
  shows "\<exists>k\<le>length fs. decode_frames dec (take n (enc_frames fs)) = map frame_out (take k fs) \<and>
    length (enc_frames (take k fs)) \<le> n \<and>
    (k < length fs \<longrightarrow> n < length (enc_frames (take (Suc k) fs)))"
  using decode_prefix [OF assms] .

lemma decode_truncated_file_witness:
  "\<exists>k\<le>length [\<lparr>fr_tid = 7, fr_comp = [16, 65], fr_data = [65]\<rparr>].
     decode_frames lz4_decompress_block_py
       (take 13 (enc_frames [\<lparr>fr_tid = 7, fr_comp = [16, 65], fr_data = [65]\<rparr>])) =
     map frame_out (take k [\<lparr>fr_tid = 7, fr_comp = [16, 65], fr_data = [65]\<rparr>]) \<and>
     length (enc_frames (take k [\<lparr>fr_tid = 7, fr_comp = [16, 65], fr_data = [65]\<rparr>])) \<le> 13 \<and>
     (k < length [\<lparr>fr_tid = 7, fr_comp = [16, 65], fr_data = [65]\<rparr>] \<longrightarrow>
       13 < length (enc_frames (take (Suc k) [\<lparr>fr_tid = 7, fr_comp = [16, 65], fr_data = [65]\<rparr>])))"
proof (rule decode_truncated_file)
  have "unat (drop_bit 4 (16 :: byte)) = 1" "unat ((16 :: byte) AND 15) = 0" by simp_all
  then have "lz4_decompress_block_py [16, 65] 1 = Inr [65]"
    by (simp add: lz4_decompress_block_py_def py_decode_loop.simps py_slice_assign_def Let_def)
  then show "\<forall>f\<in>set [\<lparr>fr_tid = 7, fr_comp = [16, 65], fr_data = [65]\<rparr>].
      valid_frame lz4_decompress_block_py f"
    by (simp add: valid_frame_def)
qed

end
