(* ===== verification/Direct_Write.thy ===== *)
theory Direct_Write
  imports Frames
begin

text \<open>
  \<open>trace/include/DirectWriteBuf.h\<close>: the write buffer of a trace, here with everything that runs on
  the thread that owns it: local file mode (compress and write in \<open>flush\<close>), the crash handler's
  flush and close, and the raw system call loops. The background thread of the TCP mode is in
  \<open>Direct_Write_Bg\<close>. A mapped region is \<open>Some\<close> list of its bytes, \<open>nullptr\<close> is \<open>None\<close>; an access
  outside a region is the result \<open>None\<close>.
\<close>

subsection \<open>The kernel\<close>

text \<open>
  What a descriptor has taken so far, and what the next write calls return: a non-positive number
  is an error (or 0), a positive \<open>r\<close> is a short write of at most \<open>r\<close> bytes, and after the script
  every write is complete. \<open>env_htab\<close> is the compressor's thread-local table.
\<close>

record dw_env =
  env_out :: "byte list"
  env_script :: "int list"
  env_htab :: htab
  env_closed :: "int list"

definition inline_write :: "int \<Rightarrow> byte list \<Rightarrow> dw_env \<Rightarrow> int \<times> dw_env" where
  "inline_write fd data e =
     (if fd < 0 then (-9, e)
      else (case env_script e of
        [] \<Rightarrow> (int (length data), e\<lparr>env_out := env_out e @ data\<rparr>)
      | r # rs \<Rightarrow>
          if r \<le> 0 then (r, e\<lparr>env_script := rs\<rparr>)
          else (int (min (nat r) (length data)),
                e\<lparr>env_out := env_out e @ take (nat r) data, env_script := rs\<rparr>)))"

function write_all :: "int \<Rightarrow> byte list \<Rightarrow> dw_env \<Rightarrow> dw_env" where
  "write_all fd data e =
     (if data = [] then e
      else if fst (inline_write fd data e) \<le> 0 then snd (inline_write fd data e)
      else write_all fd (drop (nat (fst (inline_write fd data e))) data) (snd (inline_write fd data e)))"
  by pat_completeness auto
termination
  by (relation "measure (\<lambda>(fd, data, e). length data)")
     (auto simp: inline_write_def split: list.splits if_splits)

declare write_all.simps [simp del]

text \<open>\<open>send_all\<close> is the same loop over \<open>sendto\<close>.\<close>

definition send_all :: "int \<Rightarrow> byte list \<Rightarrow> dw_env \<Rightarrow> dw_env" where
  "send_all fd data e = write_all fd data e"

definition healthy :: "dw_env \<Rightarrow> bool" where
  "healthy e \<longleftrightarrow> (\<forall>r\<in>set (env_script e). 0 < r)"

lemma write_all_Nil [simp]: "write_all fd [] e = e"
  by (subst write_all.simps) simp

text \<open>Short writes are made up for: a healthy descriptor takes everything, in order.\<close>

lemma write_all_healthy:
  "0 \<le> fd \<Longrightarrow> healthy e \<Longrightarrow>
   \<exists>rs. write_all fd data e = e\<lparr>env_out := env_out e @ data, env_script := rs\<rparr> \<and>
     set rs \<subseteq> set (env_script e)"
proof (induction "length data" arbitrary: data e rule: less_induct)
  case less
  show ?case
  proof (cases "data = [] \<or> env_script e = []")
    case True
    then show ?thesis
    proof
      assume "data = []"
      then show ?thesis by (auto intro!: exI [of _ "env_script e"])
    next
      assume "env_script e = []"
      then show ?thesis
        using less.prems(1)
        by (subst write_all.simps) (auto simp: inline_write_def intro!: exI [of _ "[]"])
    qed
  next
    case False
    then obtain r rs where s: "env_script e = r # rs" by (meson neq_Nil_conv)
    then have r: "0 < r" using less.prems by (simp add: healthy_def)
    let ?e = "e\<lparr>env_out := env_out e @ take (nat r) data, env_script := rs\<rparr>"
    have "healthy ?e" using less.prems s by (simp add: healthy_def)
    moreover have "length (drop (nat r) data) < length data" using False r by simp
    ultimately obtain rs' where
      "write_all fd (drop (nat r) data) ?e =
         ?e\<lparr>env_out := env_out ?e @ drop (nat r) data, env_script := rs'\<rparr>"
      and "set rs' \<subseteq> set rs"
      using less.hyps less.prems(1) by fastforce
    moreover have "drop (min (nat r) (length data)) data = drop (nat r) data" by (simp add: min_def)
    ultimately show ?thesis
      using False r s less.prems(1)
      by (subst write_all.simps) (auto simp: inline_write_def intro!: exI [of _ rs'])
  qed
qed

text \<open>Whatever the kernel answers, what reaches the descriptor is a prefix of the data.\<close>

lemma inline_write_some:
  assumes "\<not> fst (inline_write fd data e) \<le> 0"
  obtains k rs where
    "inline_write fd data e = (int k, e\<lparr>env_out := env_out e @ take k data, env_script := rs\<rparr>)"
proof (cases "env_script e")
  case Nil
  then have "e\<lparr>env_out := env_out e @ data\<rparr> = e\<lparr>env_out := env_out e @ data, env_script := []\<rparr>"
    by simp
  with Nil assms that [of "length data" "[]"] show ?thesis
    by (simp add: inline_write_def split: if_splits)
next
  case (Cons r rs)
  have "take (min (nat r) (length data)) data = take (nat r) data" by (simp add: min_def)
  with Cons assms that [of "min (nat r) (length data)" rs] show ?thesis
    by (simp add: inline_write_def split: if_splits)
qed

lemma inline_write_none:
  assumes "fst (inline_write fd data e) \<le> 0" and "data \<noteq> []"
  obtains rs where "snd (inline_write fd data e) = e\<lparr>env_script := rs\<rparr>"
  using assms that [of "env_script e"] that [of "tl (env_script e)"]
  by (auto simp: inline_write_def min_def split: list.splits if_splits)

lemma write_all_prefix:
  "\<exists>n rs. write_all fd data e = e\<lparr>env_out := env_out e @ take n data, env_script := rs\<rparr>"
proof (induction fd data e rule: write_all.induct)
  case (1 fd data e)
  consider "data = []" | "data \<noteq> []" "fst (inline_write fd data e) \<le> 0"
    | "data \<noteq> []" "\<not> fst (inline_write fd data e) \<le> 0" by blast
  then show ?case
  proof cases
    case 1
    then show ?thesis by (auto intro!: exI [of _ 0] exI [of _ "env_script e"])
  next
    case 2
    obtain rs where "snd (inline_write fd data e) = e\<lparr>env_script := rs\<rparr>"
      using inline_write_none [OF 2(2,1)] .
    with 2 show ?thesis
      by (subst write_all.simps) (auto intro!: exI [of _ 0] exI [of _ rs])
  next
    case False: 3
    obtain k rs where k: "inline_write fd data e =
        (int k, e\<lparr>env_out := env_out e @ take k data, env_script := rs\<rparr>)"
      using inline_write_some [OF False(2)] .
    from 1 [unfolded k] False k obtain n rs' where
      "write_all fd (drop k data) (e\<lparr>env_out := env_out e @ take k data, env_script := rs\<rparr>) =
        e\<lparr>env_out := env_out e @ take k data @ take n (drop k data), env_script := rs'\<rparr>"
      by fastforce
    then have "write_all fd data e = e\<lparr>env_out := env_out e @ take (k + n) data, env_script := rs'\<rparr>"
      using False k by (subst write_all.simps) (simp add: take_add)
    then show ?thesis by blast
  qed
qed

subsection \<open>The buffer\<close>

datatype build = TRACE_DEBUG | TRACE_NO_CACHE | Release

fun DW_BUF_SIZE :: "build \<Rightarrow> nat" where
  "DW_BUF_SIZE TRACE_DEBUG = 256"
| "DW_BUF_SIZE TRACE_NO_CACHE = 128"
| "DW_BUF_SIZE Release = 20 * 1024 * 1024"

text \<open>
  The fields of \<open>DirectWriteBuf\<close>. \<open>dw_comp\<close> is the size of the mapped scratch buffer (its
  content is always written before it is read); \<open>dw_active\<close> and \<open>dw_bg_buf_idx\<close> are 0 or 1.
\<close>

record dwbuf =
  dw_buf0 :: "byte list option"
  dw_buf1 :: "byte list option"
  dw_comp :: "nat option"
  dw_pos :: nat
  dw_fd :: int
  dw_is_tcp :: bool
  dw_tid :: u32
  dw_active :: nat
  dw_bg_running :: bool
  dw_bg_pending :: bool
  dw_bg_shutdown :: bool
  dw_bg_idle :: bool
  dw_bg_buf_idx :: nat
  dw_bg_size :: nat

definition dw_initial :: dwbuf where
  "dw_initial = \<lparr>dw_buf0 = None, dw_buf1 = None, dw_comp = None, dw_pos = 0, dw_fd = -1,
     dw_is_tcp = False, dw_tid = 0, dw_active = 0, dw_bg_running = False, dw_bg_pending = False,
     dw_bg_shutdown = False, dw_bg_idle = True, dw_bg_buf_idx = 0, dw_bg_size = 0\<rparr>"

text \<open>\<open>mmap\<close> gives zeroed pages; the code does not look at its failure here.\<close>

definition init_lz4 :: "nat \<Rightarrow> int \<Rightarrow> u32 \<Rightarrow> dwbuf \<Rightarrow> dwbuf" where
  "init_lz4 cap fileFd gettid d =
     d\<lparr>dw_buf0 := Some (replicate cap 0), dw_comp := Some (lz4_compress_bound cap), dw_pos := 0,
       dw_active := 0, dw_fd := fileFd, dw_is_tcp := False, dw_tid := gettid\<rparr>"

definition init_tcp :: "nat \<Rightarrow> int \<Rightarrow> u32 \<Rightarrow> dwbuf \<Rightarrow> dwbuf" where
  "init_tcp cap clientFd gettid d =
     d\<lparr>dw_buf0 := Some (replicate cap 0), dw_buf1 := Some (replicate cap 0),
       dw_comp := Some (lz4_compress_bound cap), dw_pos := 0,
       dw_active := 0, dw_fd := clientFd, dw_is_tcp := True, dw_tid := gettid,
       dw_bg_pending := False, dw_bg_shutdown := False, dw_bg_idle := True,
       dw_bg_running := True\<rparr>"

text \<open>The port of \<open>setup_tcp_server\<close>; the socket calls are in \<open>Tcp_Server\<close>. \<open>atoi\<close> is the C library's.\<close>

definition DW_DEFAULT_PORT :: int where
  "DW_DEFAULT_PORT = 9876"

definition setup_tcp_port :: "(string \<Rightarrow> int) \<Rightarrow> string option \<Rightarrow> int" where
  "setup_tcp_port atoi spec =
     (let port = (case spec of None \<Rightarrow> DW_DEFAULT_PORT
                  | Some s \<Rightarrow> if s \<noteq> [] then atoi s else DW_DEFAULT_PORT) in
      if port \<le> 0 \<or> port > 65535 then DW_DEFAULT_PORT else port)"

subsection \<open>Copying into the buffer\<close>

text \<open>\<open>inline_memcpy\<close>: eight bytes at a time, then byte by byte.\<close>

definition store_bytes :: "byte list \<Rightarrow> nat \<Rightarrow> byte list \<Rightarrow> byte list option" where
  "store_bytes dst at bs =
     (if at + length bs \<le> length dst
      then Some (take at dst @ bs @ drop (at + length bs) dst) else None)"

fun inline_memcpy_tail :: "byte list \<Rightarrow> nat \<Rightarrow> byte list \<Rightarrow> byte list option" where
  "inline_memcpy_tail dst at [] = Some dst"
| "inline_memcpy_tail dst at (b # bs) =
     (case store_bytes dst at [b] of
        None \<Rightarrow> None
      | Some dst' \<Rightarrow> inline_memcpy_tail dst' (at + 1) bs)"

function inline_memcpy :: "byte list \<Rightarrow> nat \<Rightarrow> byte list \<Rightarrow> byte list option" where
  "inline_memcpy dst at src =
     (if length src \<ge> 8
      then (case store_bytes dst at (take 8 src) of
              None \<Rightarrow> None
            | Some dst' \<Rightarrow> inline_memcpy dst' (at + 8) (drop 8 src))
      else inline_memcpy_tail dst at src)"
  by pat_completeness auto
termination
  by (relation "measure (\<lambda>(d, a, s). length s)") auto

declare inline_memcpy.simps [simp del]

lemma length_store_bytes: "store_bytes dst at bs = Some dst' \<Longrightarrow> length dst' = length dst"
  by (auto simp: store_bytes_def split: if_splits)

lemma store_bytes_append:
  "Option.bind (store_bytes dst at xs) (\<lambda>d. store_bytes d (at + length xs) ys) =
   store_bytes dst at (xs @ ys)"
  by (auto simp: store_bytes_def ac_simps)

lemma inline_memcpy_tail_eq:
  "at \<le> length dst \<Longrightarrow> inline_memcpy_tail dst at bs = store_bytes dst at bs"
proof (induction bs arbitrary: dst at)
  case Nil
  then show ?case by (simp add: store_bytes_def)
next
  case (Cons b bs)
  show ?case
  proof (cases "store_bytes dst at [b]")
    case None
    then have "store_bytes dst at (b # bs) = None" by (auto simp: store_bytes_def split: if_splits)
    with None show ?thesis by simp
  next
    case (Some dst')
    then have "at + 1 \<le> length dst'"
      using length_store_bytes [OF Some] by (auto simp: store_bytes_def split: if_splits)
    with Some Cons.IH store_bytes_append [of dst at "[b]" bs] show ?thesis by simp
  qed
qed

lemma inline_memcpy_eq:
  "at \<le> length dst \<Longrightarrow> inline_memcpy dst at src = store_bytes dst at src"
proof (induction dst at src rule: inline_memcpy.induct)
  case (1 dst at src)
  show ?case
  proof (cases "length src \<ge> 8")
    case True
    show ?thesis
    proof (cases "store_bytes dst at (take 8 src)")
      case None
      then have "store_bytes dst at src = None" using True by (auto simp: store_bytes_def split: if_splits)
      with None True show ?thesis by (subst inline_memcpy.simps) simp
    next
      case (Some dst')
      then have "at + 8 \<le> length dst'"
        using True length_store_bytes [OF Some] by (auto simp: store_bytes_def split: if_splits)
      then have "inline_memcpy dst' (at + 8) (drop 8 src) = store_bytes dst' (at + 8) (drop 8 src)"
        using "1.IH" True Some by simp
      with Some True store_bytes_append [of dst at "take 8 src" "drop 8 src"] show ?thesis
        by (subst inline_memcpy.simps) (simp add: min_absorb2)
    qed
  next
    case False
    with 1 show ?thesis by (subst inline_memcpy.simps) (simp add: inline_memcpy_tail_eq)
  qed
qed

end
