(* ===== verification/Direct_Write_File.thy ===== *)
theory Direct_Write_File
  imports Direct_Write
begin

text \<open>
  The file mode of \<open>DirectWriteBuf\<close>: \<open>write\<close>, \<open>flush\<close>, \<open>destroy\<close> and the two routines of the crash
  handler, on a descriptor that \<open>bg_running\<close> does not hand to a worker. The abstraction is the
  stream of bytes: what the receiver decodes from the file, then what is still in the buffer.
\<close>

subsection \<open>The operations\<close>

text \<open>The section that \<open>flush\<close>, \<open>flushFromSignal\<close> and \<open>bg_worker\<close> share: compress, header, block.\<close>

definition dw_compress_write :: "dwbuf \<Rightarrow> byte list \<Rightarrow> nat \<Rightarrow> dw_env \<Rightarrow> dw_env option" where
  "dw_compress_write d buf sz e =
     (if sz > length buf then None
      else (case dw_comp d of
        None \<Rightarrow> None
      | Some room \<Rightarrow>
        (case lz4_compress_block (take sz buf) (lz4_compress_bound sz) (env_htab e) of
          None \<Rightarrow> None
        | Some (ht, out) \<Rightarrow>
            if length out > room then None
            else if out \<noteq> []
            then Some (write_all (dw_fd d) out
                   (write_all (dw_fd d) (frame_header (length out) sz (dw_tid d)) (e\<lparr>env_htab := ht\<rparr>)))
            else Some (e\<lparr>env_htab := ht\<rparr>))))"

text \<open>\<open>flush\<close> without a worker.\<close>

definition dw_flush :: "dwbuf \<Rightarrow> dw_env \<Rightarrow> (dwbuf \<times> dw_env) option" where
  "dw_flush d e =
     (if dw_pos d = 0 then Some (d, e)
      else (case dw_buf0 d of
        None \<Rightarrow> None
      | Some buf \<Rightarrow>
        (case dw_compress_write d buf (dw_pos d) e of
          None \<Rightarrow> None
        | Some e' \<Rightarrow> Some (d\<lparr>dw_pos := 0\<rparr>, e'))))"

definition flushFromSignal :: "dwbuf \<Rightarrow> dw_env \<Rightarrow> (dwbuf \<times> dw_env) option" where
  "flushFromSignal d e =
     (if dw_bg_running d \<or> dw_pos d = 0 \<or> dw_fd d < 0 then Some (d, e)
      else (case dw_buf0 d of
        None \<Rightarrow> None
      | Some buf \<Rightarrow>
        (case dw_compress_write d buf (dw_pos d) e of
          None \<Rightarrow> None
        | Some e' \<Rightarrow> Some (d\<lparr>dw_pos := 0\<rparr>, e'))))"

definition closeFromSignal :: "dwbuf \<Rightarrow> dw_env \<Rightarrow> dwbuf \<times> dw_env" where
  "closeFromSignal d e =
     (if dw_bg_running d \<or> dw_fd d < 0 then (d, e)
      else (d\<lparr>dw_fd := -1\<rparr>, e\<lparr>env_closed := env_closed e @ [dw_fd d]\<rparr>))"

text \<open>The chunk loop for data larger than the buffer. With capacity 0 it would not end.\<close>

function dw_write_chunks ::
    "nat \<Rightarrow> byte list \<Rightarrow> nat \<Rightarrow> dwbuf \<Rightarrow> dw_env \<Rightarrow> (dwbuf \<times> dw_env) option" where
  "dw_write_chunks cap data off d e =
     (if off < length data then
        (if cap = 0 then None
         else (case dw_buf0 d of
           None \<Rightarrow> None
         | Some cur \<Rightarrow>
           (case store_bytes cur 0 (take (min (length data - off) cap) (drop off data)) of
             None \<Rightarrow> None
           | Some cur' \<Rightarrow>
             (case dw_flush (d\<lparr>dw_buf0 := Some cur', dw_pos := min (length data - off) cap\<rparr>) e of
               None \<Rightarrow> None
             | Some (d', e') \<Rightarrow>
                 dw_write_chunks cap data (off + min (length data - off) cap) d' e'))))
      else Some (d, e))"
  by pat_completeness auto
termination
  by (relation "measure (\<lambda>(cap, data, off, d, e). length data - off)") auto

declare dw_write_chunks.simps [simp del]

text \<open>\<open>inline_memcpy(cur + at, data, len)\<close> into the current buffer.\<close>

definition dw_copy :: "nat \<Rightarrow> byte list \<Rightarrow> dwbuf \<Rightarrow> dwbuf option" where
  "dw_copy at data d =
     (case dw_buf0 d of
        None \<Rightarrow> None
      | Some cur \<Rightarrow> map_option (\<lambda>cur'. d\<lparr>dw_buf0 := Some cur'\<rparr>) (inline_memcpy cur at data))"

definition dw_write :: "nat \<Rightarrow> byte list \<Rightarrow> dwbuf \<Rightarrow> dw_env \<Rightarrow> (dwbuf \<times> dw_env) option" where
  "dw_write cap data d e =
     (if dw_pos d + length data \<le> cap
      then map_option (\<lambda>d'. (d'\<lparr>dw_pos := dw_pos d + length data\<rparr>, e)) (dw_copy (dw_pos d) data d)
      else (case dw_flush d e of
        None \<Rightarrow> None
      | Some (d1, e1) \<Rightarrow>
          if length data \<le> cap
          then map_option (\<lambda>d'. (d'\<lparr>dw_pos := length data\<rparr>, e1)) (dw_copy 0 data d1)
          else dw_write_chunks cap data 0 d1 e1))"

text \<open>\<open>destroy\<close> without a worker.\<close>

definition dw_destroy :: "dwbuf \<Rightarrow> dw_env \<Rightarrow> (dwbuf \<times> dw_env) option" where
  "dw_destroy d e =
     (if dw_buf0 d \<noteq> None
      then (case (if dw_pos d > 0 then dw_flush d e else Some (d, e)) of
              None \<Rightarrow> None
            | Some (d', e') \<Rightarrow> Some (d'\<lparr>dw_buf0 := None, dw_comp := None\<rparr>, e'))
      else Some (d, e))"

subsection \<open>The stream a file stands for\<close>

abbreviation dec_py :: "byte list \<Rightarrow> nat \<Rightarrow> py_error + byte list" where
  "dec_py \<equiv> lz4_decompress_block_py"

definition written :: "dw_env \<Rightarrow> byte list" where
  "written e = concat (map snd (decode_frames dec_py (env_out e)))"

definition dw_stream :: "dwbuf \<Rightarrow> dw_env \<Rightarrow> byte list" where
  "dw_stream d e = written e @ (case dw_buf0 d of None \<Rightarrow> [] | Some b \<Rightarrow> take (dw_pos d) b)"

text \<open>The file is a sequence of frames that decode, all of one thread.\<close>

definition file_ok :: "u32 \<Rightarrow> dw_env \<Rightarrow> bool" where
  "file_ok tid e \<longleftrightarrow> healthy e \<and>
     (\<exists>fs. env_out e = enc_frames fs \<and> (\<forall>f\<in>set fs. valid_frame dec_py f \<and> fr_tid f = tid))"

definition dw_ok :: "nat \<Rightarrow> dwbuf \<Rightarrow> dw_env \<Rightarrow> bool" where
  "dw_ok cap d e \<longleftrightarrow>
     0 < cap \<and> lz4_compress_bound cap < 2 ^ 32 \<and> \<not> dw_bg_running d \<and> 0 \<le> dw_fd d \<and>
     dw_comp d = Some (lz4_compress_bound cap) \<and> dw_pos d \<le> cap \<and>
     (\<exists>b. dw_buf0 d = Some b \<and> length b = cap) \<and> file_ok (dw_tid d) e"

lemma file_ok_tids:
  assumes "file_ok tid e"
  shows "\<forall>p\<in>set (decode_frames dec_py (env_out e)). fst p = tid"
  using assms by (auto simp: file_ok_def decode_all_frames frame_out_def)

lemma compress_write_ok:
  assumes fd: "0 \<le> dw_fd d" and comp: "dw_comp d = Some (lz4_compress_bound cap)"
    and cap: "lz4_compress_bound cap < 2 ^ 32" and sz: "0 < sz" "sz \<le> cap" "sz \<le> length buf"
    and ok: "file_ok (dw_tid d) e"
  shows "\<exists>e'. dw_compress_write d buf sz e = Some e' \<and> file_ok (dw_tid d) e' \<and>
     env_closed e' = env_closed e \<and> written e' = written e @ take sz buf"
proof -
  let ?src = "take sz buf"
  have len: "length ?src = sz" and ne: "?src \<noteq> []" using sz by auto
  obtain ht out where pk: "lz4_compress_block ?src (lz4_compress_bound sz) (env_htab e) = Some (ht, out)"
    and out: "out \<noteq> []" "length out \<le> lz4_compress_bound cap"
    and up: "dec_py out sz = Inr ?src"
    using lz4.pack_law [OF ne, of "lz4_compress_bound sz" "env_htab e"]
      lz4.bound_mono [OF sz(2)] len by fastforce
  let ?f = "\<lparr>fr_tid = dw_tid d, fr_comp = out, fr_data = ?src\<rparr>"
  let ?hd = "frame_header (length out) sz (dw_tid d)"
  obtain fs where fs: "env_out e = enc_frames fs"
    "\<forall>f\<in>set fs. valid_frame dec_py f \<and> fr_tid f = dw_tid d" and h: "healthy e"
    using ok by (auto simp: file_ok_def)
  have h1: "healthy (e\<lparr>env_htab := ht\<rparr>)" using h by (simp add: healthy_def)
  obtain rs where w1: "write_all (dw_fd d) ?hd (e\<lparr>env_htab := ht\<rparr>) =
      e\<lparr>env_htab := ht, env_out := env_out e @ ?hd, env_script := rs\<rparr>" and "set rs \<subseteq> set (env_script e)"
    using write_all_healthy [OF fd h1, of ?hd] by auto
  then have "healthy (e\<lparr>env_htab := ht, env_out := env_out e @ ?hd, env_script := rs\<rparr>)"
    using h by (auto simp: healthy_def)
  from write_all_healthy [OF fd this, of out] obtain rs' where
    w2: "write_all (dw_fd d) out (e\<lparr>env_htab := ht, env_out := env_out e @ ?hd, env_script := rs\<rparr>) =
      e\<lparr>env_htab := ht, env_out := env_out e @ ?hd @ out, env_script := rs'\<rparr>" and "set rs' \<subseteq> set rs"
    by auto
  let ?e' = "e\<lparr>env_htab := ht, env_out := env_out e @ ?hd @ out, env_script := rs'\<rparr>"
  have out': "env_out ?e' = enc_frames (fs @ [?f])"
    using fs sz by (simp add: enc_frame_def)
  have "sz < 2 ^ 32" using sz(2) cap by (simp add: lz4_compress_bound_def)
  then have v: "valid_frame dec_py ?f"
    using out up cap sz by (simp add: valid_frame_def)
  have "file_ok (dw_tid d) ?e'"
    unfolding file_ok_def
  proof (intro conjI exI)
    show "healthy ?e'"
      using h \<open>set rs \<subseteq> set (env_script e)\<close> \<open>set rs' \<subseteq> set rs\<close> by (auto simp: healthy_def)
    show "env_out ?e' = enc_frames (fs @ [?f])" by (rule out')
  qed (use fs v in auto)
  moreover have "written ?e' = written e @ ?src"
  proof -
    have "decode_frames dec_py (env_out ?e') = map frame_out (fs @ [?f])"
      unfolding out' by (rule decode_all_frames) (use fs v in auto)
    moreover have "decode_frames dec_py (env_out e) = map frame_out fs"
      unfolding fs(1) by (rule decode_all_frames) (use fs in auto)
    ultimately show ?thesis by (simp add: written_def frame_out_def)
  qed
  moreover have "dw_compress_write d buf sz e = Some ?e'"
    using sz comp pk out w1 w2 by (simp add: dw_compress_write_def)
  ultimately show ?thesis by (intro exI [of _ ?e']) simp
qed

lemma flush_ok:
  assumes "dw_ok cap d e"
  shows "\<exists>e'. dw_flush d e = Some (d\<lparr>dw_pos := 0\<rparr>, e') \<and> dw_ok cap (d\<lparr>dw_pos := 0\<rparr>) e' \<and>
     env_closed e' = env_closed e \<and> written e' = dw_stream d e"
proof -
  obtain b where b: "dw_buf0 d = Some b" "length b = cap" using assms by (auto simp: dw_ok_def)
  show ?thesis
  proof (cases "dw_pos d = 0")
    case True
    have "d\<lparr>dw_pos := 0\<rparr> = d" using True [symmetric] by simp
    with True b assms show ?thesis by (auto simp: dw_flush_def dw_stream_def dw_ok_def)
  next
    case False
    with assms b obtain e' where "dw_compress_write d b (dw_pos d) e = Some e'"
      and "file_ok (dw_tid d) e'" and "env_closed e' = env_closed e"
      and "written e' = written e @ take (dw_pos d) b"
      using compress_write_ok [of d cap "dw_pos d" b e] by (auto simp: dw_ok_def)
    with False b assms show ?thesis by (auto simp: dw_flush_def dw_ok_def dw_stream_def)
  qed
qed

lemma copy_ok:
  assumes "dw_buf0 d = Some b" and "at + length data \<le> length b"
  shows "dw_copy at data d =
    Some (d\<lparr>dw_buf0 := Some (take at b @ data @ drop (at + length data) b)\<rparr>)"
  using assms by (simp add: dw_copy_def inline_memcpy_eq store_bytes_def)

text \<open>A full or partial chunk that fills the buffer and is flushed at once.\<close>

lemma chunk_flush_ok:
  assumes "dw_ok cap d e" and "dw_pos d = 0" and "length c \<le> cap" and "dw_buf0 d = Some b"
  shows "\<exists>d' e'. dw_flush (d\<lparr>dw_buf0 := Some (c @ drop (length c) b), dw_pos := length c\<rparr>) e = Some (d', e')
     \<and> dw_ok cap d' e' \<and> dw_pos d' = 0 \<and> env_closed e' = env_closed e \<and> dw_tid d' = dw_tid d
     \<and> written e' = written e @ c"
proof -
  let ?d = "d\<lparr>dw_buf0 := Some (c @ drop (length c) b), dw_pos := length c\<rparr>"
  have "dw_ok cap ?d e" using assms by (auto simp: dw_ok_def)
  from flush_ok [OF this] show ?thesis by (auto simp: dw_stream_def)
qed

lemma write_chunks_ok:
  "dw_ok cap d e \<Longrightarrow> dw_pos d = 0 \<Longrightarrow>
   \<exists>d' e'. dw_write_chunks cap data off d e = Some (d', e') \<and> dw_ok cap d' e' \<and> dw_pos d' = 0 \<and>
     env_closed e' = env_closed e \<and> dw_tid d' = dw_tid d \<and> written e' = written e @ drop off data"
proof (induction "length data - off" arbitrary: off d e rule: less_induct)
  case less
  show ?case
  proof (cases "off < length data")
    case False
    with less.prems show ?thesis by (subst dw_write_chunks.simps) simp
  next
    case True
    let ?k = "min (length data - off) cap"
    let ?c = "take ?k (drop off data)"
    obtain b where b: "dw_buf0 d = Some b" "length b = cap" "0 < cap"
      using less.prems by (auto simp: dw_ok_def)
    have lc: "length ?c = ?k" by simp
    obtain d1 e1 where
      f: "dw_flush (d\<lparr>dw_buf0 := Some (?c @ drop (length ?c) b), dw_pos := length ?c\<rparr>) e = Some (d1, e1)"
      and ok1: "dw_ok cap d1 e1" "dw_pos d1 = 0" and c1: "env_closed e1 = env_closed e"
      and t1: "dw_tid d1 = dw_tid d" and s1: "written e1 = written e @ ?c"
      using chunk_flush_ok [OF less.prems, of ?c b] b(1) by auto
    have "length data - (off + ?k) < length data - off" using True b(3) by simp
    from less.hyps [OF this ok1] obtain d2 e2 where
      g: "dw_write_chunks cap data (off + ?k) d1 e1 = Some (d2, e2)" and "dw_ok cap d2 e2"
      and "dw_pos d2 = 0" and "env_closed e2 = env_closed e1" and "dw_tid d2 = dw_tid d1"
      and s2: "written e2 = written e1 @ drop (off + ?k) data" by blast
    moreover have "written e2 = written e @ drop off data"
      using s1 s2 append_take_drop_id [of ?k "drop off data"] by (simp add: add.commute del: append_take_drop_id)
    moreover have "dw_write_chunks cap data off d e = Some (d2, e2)"
      using True b f g lc
      by (subst dw_write_chunks.simps) (simp add: store_bytes_def del: length_take)
    ultimately show ?thesis using c1 t1 by auto
  qed
qed

lemma write_ok:
  assumes "dw_ok cap d e"
  shows "\<exists>d' e'. dw_write cap data d e = Some (d', e') \<and> dw_ok cap d' e' \<and>
     env_closed e' = env_closed e \<and> dw_tid d' = dw_tid d \<and> dw_stream d' e' = dw_stream d e @ data"
proof -
  obtain b where b: "dw_buf0 d = Some b" "length b = cap" using assms by (auto simp: dw_ok_def)
  show ?thesis
  proof (cases "dw_pos d + length data \<le> cap")
    case True
    with assms b show ?thesis
      by (auto simp: dw_write_def copy_ok dw_ok_def dw_stream_def)
  next
    case False
    obtain e1 where f: "dw_flush d e = Some (d\<lparr>dw_pos := 0\<rparr>, e1)"
      and ok1: "dw_ok cap (d\<lparr>dw_pos := 0\<rparr>) e1" and c1: "env_closed e1 = env_closed e"
      and s1: "written e1 = dw_stream d e"
      using flush_ok [OF assms] by blast
    show ?thesis
    proof (cases "length data \<le> cap")
      case le: True
      with False f ok1 c1 s1 b show ?thesis
        by (auto simp: dw_write_def copy_ok dw_ok_def dw_stream_def)
    next
      case gt: False
      obtain d2 e2 where "dw_write_chunks cap data 0 (d\<lparr>dw_pos := 0\<rparr>) e1 = Some (d2, e2)"
        and "dw_ok cap d2 e2" and "dw_pos d2 = 0" and "env_closed e2 = env_closed e1"
        and "dw_tid d2 = dw_tid d" and "written e2 = written e1 @ data"
        using write_chunks_ok [OF ok1, of data 0] by auto
      with False gt f c1 s1 show ?thesis
        by (auto simp: dw_write_def dw_stream_def dw_ok_def)
    qed
  qed
qed

text \<open>In file mode the crash flush does what \<open>flush\<close> does.\<close>

lemma flushFromSignal_eq_flush: "dw_ok cap d e \<Longrightarrow> flushFromSignal d e = dw_flush d e"
  by (auto simp: flushFromSignal_def dw_flush_def dw_ok_def)

lemma destroy_ok:
  assumes "dw_ok cap d e"
  shows "\<exists>d' e'. dw_destroy d e = Some (d', e') \<and> dw_buf0 d' = None \<and> dw_comp d' = None \<and>
     dw_pos d' = 0 \<and> written e' = dw_stream d e \<and> file_ok (dw_tid d) e'"
proof -
  obtain e1 where f: "dw_flush d e = Some (d\<lparr>dw_pos := 0\<rparr>, e1)"
    and ok1: "dw_ok cap (d\<lparr>dw_pos := 0\<rparr>) e1" and s1: "written e1 = dw_stream d e"
    using flush_ok [OF assms] by blast
  obtain b where b: "dw_buf0 d = Some b" using assms by (auto simp: dw_ok_def)
  show ?thesis
  proof (cases "dw_pos d = 0")
    case True
    with b assms show ?thesis by (auto simp: dw_destroy_def dw_stream_def dw_ok_def)
  next
    case False
    with f b s1 ok1 show ?thesis by (auto simp: dw_destroy_def dw_ok_def)
  qed
qed

subsection \<open>The buffer as a byte sink\<close>

text \<open>
  What the trace writers use: a sink that takes bytes in order, whose stream a flush does not
  change. Its clients hand over one line at a time.
\<close>

locale byte_sink =
  fixes put :: "byte list \<Rightarrow> 's \<Rightarrow> 's option"
    and sync :: "'s \<Rightarrow> 's option"
    and stream :: "'s \<Rightarrow> byte list"
    and ok :: "'s \<Rightarrow> bool"
  assumes put_law: "ok s \<Longrightarrow> \<exists>s'. put x s = Some s' \<and> ok s' \<and> stream s' = stream s @ x"
    and sync_law: "ok s \<Longrightarrow> \<exists>s'. sync s = Some s' \<and> ok s' \<and> stream s' = stream s"
begin

lemma put_lines:
  "ok s \<Longrightarrow> \<exists>s'. fold (\<lambda>x r. Option.bind r (put x)) xs (Some s) = Some s' \<and> ok s' \<and>
     stream s' = stream s @ concat xs"
proof (induction xs arbitrary: s)
  case Nil
  then show ?case by simp
next
  case (Cons x xs)
  from put_law [OF Cons.prems, of x] obtain s1
    where "put x s = Some s1" "ok s1" "stream s1 = stream s @ x" by blast
  with Cons.IH [of s1] show ?case by auto
qed

text \<open>Flushing early changes nothing a reader of the finished stream can see.\<close>

lemma put_sync_put:
  assumes "ok s"
  shows "\<exists>s' t'. Option.bind (Option.bind (put x s) sync) (put y) = Some s' \<and>
     Option.bind (put x s) (put y) = Some t' \<and> stream s' = stream t'"
proof -
  from put_law [OF assms, of x] obtain s1
    where s1: "put x s = Some s1" "ok s1" "stream s1 = stream s @ x" by blast
  from sync_law [OF s1(2)] obtain s2 where s2: "sync s1 = Some s2" "ok s2" "stream s2 = stream s1"
    by blast
  from put_law [OF s2(2), of y] put_law [OF s1(2), of y] s1 s2 show ?thesis by auto
qed

end

interpretation dwf: byte_sink "\<lambda>x (d, e). dw_write cap x d e" "\<lambda>(d, e). dw_flush d e"
  "\<lambda>(d, e). dw_stream d e" "\<lambda>(d, e). dw_ok cap d e" for cap
proof
  fix s :: "dwbuf \<times> dw_env" and x
  obtain d e where s: "s = (d, e)" by (cases s)
  assume "case s of (d, e) \<Rightarrow> dw_ok cap d e"
  then have ok: "dw_ok cap d e" by (simp add: s)
  from write_ok [OF ok, of x] s
  show "\<exists>s'. (case s of (d, e) \<Rightarrow> dw_write cap x d e) = Some s' \<and>
      (case s' of (d, e) \<Rightarrow> dw_ok cap d e) \<and>
      (case s' of (d, e) \<Rightarrow> dw_stream d e) = (case s of (d, e) \<Rightarrow> dw_stream d e) @ x"
    by auto
  from flush_ok [OF ok] s
  show "\<exists>s'. (case s of (d, e) \<Rightarrow> dw_flush d e) = Some s' \<and>
      (case s' of (d, e) \<Rightarrow> dw_ok cap d e) \<and>
      (case s' of (d, e) \<Rightarrow> dw_stream d e) = (case s of (d, e) \<Rightarrow> dw_stream d e)"
    by (auto simp: dw_stream_def dw_ok_def)
qed

subsection \<open>A whole trace\<close>

datatype dw_op = DWrite "byte list" | DFlush | DSignalFlush

fun dw_step :: "nat \<Rightarrow> dw_op \<Rightarrow> dwbuf \<times> dw_env \<Rightarrow> (dwbuf \<times> dw_env) option" where
  "dw_step cap (DWrite x) (d, e) = dw_write cap x d e"
| "dw_step cap DFlush (d, e) = dw_flush d e"
| "dw_step cap DSignalFlush (d, e) = flushFromSignal d e"

fun op_bytes :: "dw_op \<Rightarrow> byte list" where
  "op_bytes (DWrite x) = x"
| "op_bytes _ = []"

definition dw_run :: "nat \<Rightarrow> dw_op list \<Rightarrow> dwbuf \<times> dw_env \<Rightarrow> (dwbuf \<times> dw_env) option" where
  "dw_run cap ops s = fold (\<lambda>x r. Option.bind r (dw_step cap x)) ops (Some s)"

lemma dw_step_ok:
  assumes "dw_ok cap d e"
  shows "\<exists>d' e'. dw_step cap x (d, e) = Some (d', e') \<and> dw_ok cap d' e' \<and> dw_tid d' = dw_tid d \<and>
     dw_stream d' e' = dw_stream d e @ op_bytes x"
proof (cases x)
  case (DWrite data)
  with write_ok [OF assms, of data] show ?thesis by auto
qed (use flush_ok [OF assms] flushFromSignal_eq_flush [OF assms] in
      \<open>auto simp: dw_stream_def dw_ok_def\<close>)

lemma dw_run_ok:
  "dw_ok cap d e \<Longrightarrow> \<exists>d' e'. dw_run cap ops (d, e) = Some (d', e') \<and> dw_ok cap d' e' \<and>
     dw_tid d' = dw_tid d \<and> dw_stream d' e' = dw_stream d e @ concat (map op_bytes ops)"
proof (induction ops arbitrary: d e)
  case Nil
  then show ?case by (simp add: dw_run_def)
next
  case (Cons x ops)
  from dw_step_ok [OF Cons.prems, of x] obtain d1 e1 where
    "dw_step cap x (d, e) = Some (d1, e1)" "dw_ok cap d1 e1" "dw_tid d1 = dw_tid d"
    "dw_stream d1 e1 = dw_stream d e @ op_bytes x" by blast
  with Cons.IH [of d1 e1] show ?case by (auto simp: dw_run_def)
qed

definition dw_env_fresh :: "int list \<Rightarrow> htab \<Rightarrow> dw_env" where
  "dw_env_fresh script ht = \<lparr>env_out = [], env_script = script, env_htab = ht, env_closed = []\<rparr>"

lemma init_lz4_ok:
  assumes "0 < cap" and "lz4_compress_bound cap < 2 ^ 32" and "0 \<le> fd" and "\<forall>r\<in>set script. 0 < r"
  shows "dw_ok cap (init_lz4 cap fd tid dw_initial) (dw_env_fresh script ht)"
    and "dw_stream (init_lz4 cap fd tid dw_initial) (dw_env_fresh script ht) = []"
  using assms
  by (auto simp: dw_ok_def init_lz4_def dw_initial_def dw_env_fresh_def file_ok_def healthy_def
      dw_stream_def written_def intro!: exI [of _ "[]"])

lemma DW_BUF_SIZE_ok: "0 < DW_BUF_SIZE b \<and> lz4_compress_bound (DW_BUF_SIZE b) < 2 ^ 32"
  by (cases b) (simp_all add: lz4_compress_bound_def)

subsection \<open>Properties\<close>

text \<open>C1 (no byte of a trace file is lost, repeated or moved): in every build, for every sequence of
  writes (of any length), explicit flushes and crash-handler flushes, with a kernel that may answer
  any write call with a short write, the code stays inside its buffers, and after \<open>destroy\<close> the
  receiver decodes from the file exactly the concatenation of what was written, every frame under
  the thread id of the buffer; both mappings are released.\<close>

theorem trace_file_lossless:
  assumes "0 \<le> fd" and "\<forall>r\<in>set script. 0 < r"
  shows "\<exists>d e d' e'. dw_run (DW_BUF_SIZE b) ops
      (init_lz4 (DW_BUF_SIZE b) fd tid dw_initial, dw_env_fresh script ht) = Some (d, e) \<and>
    dw_destroy d e = Some (d', e') \<and> dw_buf0 d' = None \<and> dw_comp d' = None \<and>
    concat (map snd (decode_frames lz4_decompress_block_py (env_out e'))) = concat (map op_bytes ops) \<and>
    (\<forall>p\<in>set (decode_frames lz4_decompress_block_py (env_out e')). fst p = tid)"
proof -
  let ?cap = "DW_BUF_SIZE b"
  have cap: "0 < ?cap" "lz4_compress_bound ?cap < 2 ^ 32" using DW_BUF_SIZE_ok by auto
  note init = init_lz4_ok [OF cap assms, of tid ht]
  from dw_run_ok [OF init(1), of ops] obtain d e where
    run: "dw_run ?cap ops (init_lz4 ?cap fd tid dw_initial, dw_env_fresh script ht) = Some (d, e)"
    and ok: "dw_ok ?cap d e" and tid: "dw_tid d = tid"
    and st: "dw_stream d e = concat (map op_bytes ops)"
    using init(2) by (auto simp: init_lz4_def)
  from destroy_ok [OF ok] obtain d' e' where des: "dw_destroy d e = Some (d', e')"
    "dw_buf0 d' = None" "dw_comp d' = None" "written e' = dw_stream d e" "file_ok (dw_tid d) e'"
    by blast
  with run st tid show ?thesis
    using file_ok_tids [OF des(5)] by (auto simp: written_def)
qed

lemma trace_file_lossless_witness:
  "\<exists>d e d' e'. dw_run (DW_BUF_SIZE TRACE_NO_CACHE) [DWrite (replicate 300 65), DSignalFlush, DWrite [66]]
      (init_lz4 (DW_BUF_SIZE TRACE_NO_CACHE) 3 7 dw_initial, dw_env_fresh [5, 1] (\<lambda>h. 9)) = Some (d, e) \<and>
    dw_destroy d e = Some (d', e') \<and> dw_buf0 d' = None \<and> dw_comp d' = None \<and>
    concat (map snd (decode_frames lz4_decompress_block_py (env_out e'))) =
      concat (map op_bytes [DWrite (replicate 300 65), DSignalFlush, DWrite [66]]) \<and>
    (\<forall>p\<in>set (decode_frames lz4_decompress_block_py (env_out e')). fst p = 7)"
  by (rule trace_file_lossless) simp_all

text \<open>C16 (the crash handler salvages everything): for any buffer state of a running file trace, the
  signal-time flush and close neither take the worker's path nor fault; what a reader decodes from
  the closed file is the whole stream so far, and the descriptor is closed once.\<close>

theorem crash_salvage_complete:
  assumes "dw_ok cap d e"
  shows "\<exists>d1 e1 d2 e2. flushFromSignal d e = Some (d1, e1) \<and> closeFromSignal d1 e1 = (d2, e2) \<and>
    concat (map snd (decode_frames lz4_decompress_block_py (env_out e2))) = dw_stream d e \<and>
    dw_fd d2 = -1 \<and> env_closed e2 = env_closed e @ [dw_fd d] \<and>
    flushFromSignal d2 e2 = Some (d2, e2) \<and> closeFromSignal d2 e2 = (d2, e2)"
proof -
  obtain e1 where f: "dw_flush d e = Some (d\<lparr>dw_pos := 0\<rparr>, e1)"
    and "env_closed e1 = env_closed e" and "written e1 = dw_stream d e"
    using flush_ok [OF assms] by blast
  moreover have "\<not> dw_bg_running d" "\<not> dw_fd d < 0" using assms by (auto simp: dw_ok_def)
  ultimately show ?thesis
    using flushFromSignal_eq_flush [OF assms]
    by (simp add: closeFromSignal_def flushFromSignal_def written_def)
qed

lemma crash_salvage_complete_witness:
  "\<exists>d1 e1 d2 e2. flushFromSignal ((init_lz4 128 3 7 dw_initial)\<lparr>dw_pos := 5\<rparr>) (dw_env_fresh [] (\<lambda>h. 0)) = Some (d1, e1) \<and>
    closeFromSignal d1 e1 = (d2, e2) \<and>
    concat (map snd (decode_frames lz4_decompress_block_py (env_out e2))) =
      dw_stream ((init_lz4 128 3 7 dw_initial)\<lparr>dw_pos := 5\<rparr>) (dw_env_fresh [] (\<lambda>h. 0)) \<and>
    dw_fd d2 = -1 \<and> env_closed e2 = env_closed (dw_env_fresh [] (\<lambda>h. 0)) @
      [dw_fd ((init_lz4 128 3 7 dw_initial)\<lparr>dw_pos := 5\<rparr>)] \<and>
    flushFromSignal d2 e2 = Some (d2, e2) \<and> closeFromSignal d2 e2 = (d2, e2)"
  by (rule crash_salvage_complete [of 128])
     (use init_lz4_ok(1) [of 128 3 "[]" 7 "\<lambda>h. 0"] in \<open>simp add: dw_ok_def lz4_compress_bound_def\<close>)

text \<open>The hand-written copy: the 8-byte loop with its byte tail stores the same bytes at the same
  place as one block copy, and faults exactly when the block copy would leave the buffer.\<close>

theorem inline_memcpy_is_copy:
  assumes "at \<le> length dst"
  shows "inline_memcpy dst at data =
    (if at + length data \<le> length dst
     then Some (take at dst @ data @ drop (at + length data) dst) else None)"
  using inline_memcpy_eq [OF assms, of data] by (simp add: store_bytes_def)

lemma inline_memcpy_is_copy_witness:
  "inline_memcpy (replicate 20 0) 3 (replicate 11 (1 :: byte)) =
    (if 3 + length (replicate 11 (1 :: byte)) \<le> length (replicate 20 (0 :: byte))
     then Some (take 3 (replicate 20 0) @ replicate 11 1 @ drop (3 + length (replicate 11 (1 :: byte)))
       (replicate 20 0)) else None)"
  by (rule inline_memcpy_is_copy) simp

end
