(* ===== verification/Direct_Write_Bg.thy ===== *)
theory Direct_Write_Bg
  imports Direct_Write_File
begin

text \<open>
  The TCP mode of \<open>DirectWriteBuf\<close>: the thread that traces fills one of two buffers while a worker
  compresses and sends the other. Each section under \<open>bg_mtx\<close> is one atomic step. A wait on the
  condition variable tests its condition and otherwise puts the thread to sleep; a sleeping thread takes no
  step until the other one notifies it, then it tests again. Spurious wake-ups are steps of their own. A send
  takes any non-empty part of what is left of the header or of the block, or fails, and then \<open>send_all\<close> gives
  up on the rest of that part and the worker goes on. Other buffers, of this thread or another, send on the
  same socket under \<open>g_tcp_send_mutex\<close>: their frames are steps of the environment.
\<close>

subsection \<open>State\<close>

text \<open>Where the tracing thread is: what it does after the flush it is in. \<open>PSleep\<close> and \<open>PIdleSleep\<close> are the waits of
  \<open>flush\<close> and \<open>destroy\<close>, \<open>WSleep\<close> is the wait of the worker.\<close>

datatype after_flush = KDone | KCopy "byte list" | KChunk "byte list" nat | KDestroy

datatype prod_pc = PRun | PFlush after_flush | PSleep after_flush | PCont after_flush | PIdleSleep | PNotify | PJoin | PEnd

datatype work_pc = WTop | WSleep | WWork nat nat | WLock frame | WSend frame nat | WDone | WExit

datatype holder = Mine | Other frame nat

record bg_state =
  bg_d :: dwbuf
  bg_pc :: prod_pc
  bg_w :: work_pc
  bg_todo :: "dw_op list"
  bg_wire :: "byte list"
  bg_mutex :: "holder option"
  bg_htab :: htab
  bg_fault :: bool
  bg_sent :: "(bool \<times> frame) list"
  bg_taken :: "byte list"
  bg_failed :: bool
  bg_resumed :: bool

text \<open>Ghosts, which no step reads: \<open>bg_sent\<close>, the frames whose sending is over, marked when they are this buffer's;
  \<open>bg_taken\<close>, what the buffer has accepted; \<open>bg_failed\<close>, a send has failed; \<open>bg_resumed\<close>, bytes went out after that.\<close>

definition dw_buf :: "dwbuf \<Rightarrow> nat \<Rightarrow> byte list option" where
  "dw_buf d i = (if i = 0 then dw_buf0 d else dw_buf1 d)"

definition dw_set_buf :: "nat \<Rightarrow> byte list \<Rightarrow> dwbuf \<Rightarrow> dwbuf" where
  "dw_set_buf i b d = (if i = 0 then d\<lparr>dw_buf0 := Some b\<rparr> else d\<lparr>dw_buf1 := Some b\<rparr>)"

text \<open>\<open>cur = bufs[active]\<close>, copy, set the position.\<close>

definition dw_copy_cur :: "nat \<Rightarrow> byte list \<Rightarrow> dwbuf \<Rightarrow> dwbuf option" where
  "dw_copy_cur at data d =
     (case dw_buf d (dw_active d) of
        None \<Rightarrow> None
      | Some cur \<Rightarrow> map_option (\<lambda>cur'. dw_set_buf (dw_active d) cur' d\<lparr>dw_pos := at + length data\<rparr>)
                      (inline_memcpy cur at data))"

text \<open>The locked section of \<open>flush\<close>.\<close>

definition dw_handoff :: "dwbuf \<Rightarrow> dwbuf" where
  "dw_handoff d = d\<lparr>dw_bg_buf_idx := dw_active d, dw_bg_size := dw_pos d, dw_bg_idle := False,
     dw_bg_pending := True, dw_active := 1 - dw_active d, dw_pos := 0\<rparr>"

text \<open>The unlocked section of \<open>bg_worker\<close> up to the send: \<open>Some (ht, None)\<close> is \<open>comp_size <= 0\<close>.\<close>

definition bg_compress :: "dwbuf \<Rightarrow> nat \<Rightarrow> nat \<Rightarrow> htab \<Rightarrow> (htab \<times> frame option) option" where
  "bg_compress d idx sz ht =
     (case dw_buf d idx of
        None \<Rightarrow> None
      | Some b \<Rightarrow>
        (if sz > length b then None
         else (case dw_comp d of
           None \<Rightarrow> None
         | Some room \<Rightarrow>
           (case lz4_compress_block (take sz b) (lz4_compress_bound sz) ht of
             None \<Rightarrow> None
           | Some (ht', out) \<Rightarrow>
               if length out > room then None
               else if out \<noteq> []
               then Some (ht', Some \<lparr>fr_tid = dw_tid d, fr_comp = out, fr_data = take sz b\<rparr>)
               else Some (ht', None)))))"

text \<open>The end of \<open>destroy\<close> once the worker is joined.\<close>

definition dw_release :: "dwbuf \<Rightarrow> dwbuf" where
  "dw_release d = d\<lparr>dw_bg_running := False, dw_buf0 := None, dw_buf1 := None, dw_comp := None\<rparr>"

subsection \<open>Steps\<close>

text \<open>\<open>notify_one\<close> and \<open>notify_all\<close>: two threads use the condition variable, so each wakes the other one if it waits.\<close>

definition notify_worker :: "work_pc \<Rightarrow> work_pc" where
  "notify_worker w = (if w = WSleep then WTop else w)"

definition notify_tracer :: "prod_pc \<Rightarrow> prod_pc" where
  "notify_tracer pc = (case pc of PSleep k \<Rightarrow> PFlush k | PIdleSleep \<Rightarrow> PCont KDestroy | _ \<Rightarrow> pc)"

text \<open>The locked section of \<open>flush\<close> after the wait, and the end of the worker's loop.\<close>

definition flush_section :: "after_flush \<Rightarrow> bg_state \<Rightarrow> bg_state" where
  "flush_section k s = s\<lparr>bg_pc := PCont k, bg_d := dw_handoff (bg_d s), bg_w := notify_worker (bg_w s)\<rparr>"

definition idle_section :: "bg_state \<Rightarrow> bg_state" where
  "idle_section s = s\<lparr>bg_w := WTop, bg_d := bg_d s\<lparr>dw_bg_idle := True\<rparr>, bg_pc := notify_tracer (bg_pc s)\<rparr>"

text \<open>Bytes on the wire.\<close>

definition put_wire :: "byte list \<Rightarrow> bg_state \<Rightarrow> bg_state" where
  "put_wire bs s = s\<lparr>bg_wire := bg_wire s @ bs, bg_resumed := bg_resumed s \<or> bg_failed s\<rparr>"

text \<open>Where a failed send leaves the position: behind the header, or behind the block.\<close>

definition give_up :: "frame \<Rightarrow> nat \<Rightarrow> nat" where
  "give_up f n = (if n < 12 then 12 else length (enc_frame f))"

definition put_step :: "nat \<Rightarrow> byte list \<Rightarrow> prod_pc \<Rightarrow> dw_op list \<Rightarrow> bg_state \<Rightarrow> bg_state" where
  "put_step at data pc todo s =
     (case dw_copy_cur at data (bg_d s) of
        None \<Rightarrow> s\<lparr>bg_fault := True\<rparr>
      | Some d' \<Rightarrow> s\<lparr>bg_d := d', bg_pc := pc, bg_todo := todo, bg_taken := bg_taken s @ data\<rparr>)"

inductive prod_step :: "nat \<Rightarrow> bg_state \<Rightarrow> bg_state \<Rightarrow> bool" for cap where
  write_fits: "bg_pc s = PRun \<Longrightarrow> bg_todo s = DWrite x # xs \<Longrightarrow> dw_pos (bg_d s) + length x \<le> cap \<Longrightarrow>
    prod_step cap s (put_step (dw_pos (bg_d s)) x PRun xs s)"
| write_over: "bg_pc s = PRun \<Longrightarrow> bg_todo s = DWrite x # xs \<Longrightarrow> \<not> dw_pos (bg_d s) + length x \<le> cap \<Longrightarrow>
    prod_step cap s (s\<lparr>bg_pc := PFlush (if length x \<le> cap then KCopy x else KChunk x 0), bg_todo := xs\<rparr>)"
| call_flush: "bg_pc s = PRun \<Longrightarrow> bg_todo s = DFlush # xs \<Longrightarrow>
    prod_step cap s (s\<lparr>bg_pc := PFlush KDone, bg_todo := xs\<rparr>)"
| signal_flush: "bg_pc s = PRun \<Longrightarrow> bg_todo s = DSignalFlush # xs \<Longrightarrow>
    flushFromSignal (bg_d s) e = Some (d', e') \<Longrightarrow>
    prod_step cap s (s\<lparr>bg_d := d', bg_todo := xs\<rparr>)"
| call_destroy: "bg_pc s = PRun \<Longrightarrow> bg_todo s = [] \<Longrightarrow> prod_step cap s (s\<lparr>bg_pc := PFlush KDestroy\<rparr>)"
| flush_empty: "bg_pc s = PFlush k \<Longrightarrow> dw_pos (bg_d s) = 0 \<Longrightarrow> prod_step cap s (s\<lparr>bg_pc := PCont k\<rparr>)"
| flush_handoff: "bg_pc s = PFlush k \<Longrightarrow> dw_pos (bg_d s) \<noteq> 0 \<Longrightarrow> dw_bg_idle (bg_d s) \<Longrightarrow>
    prod_step cap s (flush_section k s)"
| flush_wait: "bg_pc s = PFlush k \<Longrightarrow> dw_pos (bg_d s) \<noteq> 0 \<Longrightarrow> \<not> dw_bg_idle (bg_d s) \<Longrightarrow>
    prod_step cap s (s\<lparr>bg_pc := PSleep k\<rparr>)"
| flush_done: "bg_pc s = PCont KDone \<Longrightarrow> prod_step cap s (s\<lparr>bg_pc := PRun\<rparr>)"
| copy_first: "bg_pc s = PCont (KCopy x) \<Longrightarrow> prod_step cap s (put_step 0 x PRun (bg_todo s) s)"
| chunk: "bg_pc s = PCont (KChunk x off) \<Longrightarrow> off < length x \<Longrightarrow>
    prod_step cap s (put_step 0 (take (min (length x - off) cap) (drop off x))
      (PFlush (KChunk x (off + min (length x - off) cap))) (bg_todo s) s)"
| chunk_end: "bg_pc s = PCont (KChunk x off) \<Longrightarrow> \<not> off < length x \<Longrightarrow> prod_step cap s (s\<lparr>bg_pc := PRun\<rparr>)"
| shutdown: "bg_pc s = PCont KDestroy \<Longrightarrow> dw_bg_idle (bg_d s) \<Longrightarrow>
    prod_step cap s (s\<lparr>bg_pc := PNotify, bg_d := bg_d s\<lparr>dw_bg_shutdown := True\<rparr>\<rparr>)"
| destroy_wait: "bg_pc s = PCont KDestroy \<Longrightarrow> \<not> dw_bg_idle (bg_d s) \<Longrightarrow> prod_step cap s (s\<lparr>bg_pc := PIdleSleep\<rparr>)"
| notify_shutdown: "bg_pc s = PNotify \<Longrightarrow> prod_step cap s (s\<lparr>bg_pc := PJoin, bg_w := notify_worker (bg_w s)\<rparr>)"
| join: "bg_pc s = PJoin \<Longrightarrow> bg_w s = WExit \<Longrightarrow>
    prod_step cap s (s\<lparr>bg_pc := PEnd, bg_d := dw_release (bg_d s)\<rparr>)"

inductive work_step :: "bg_state \<Rightarrow> bg_state \<Rightarrow> bool" where
  wake: "bg_w s = WTop \<Longrightarrow> dw_bg_pending (bg_d s) \<Longrightarrow>
    work_step s (s\<lparr>bg_w := WWork (dw_bg_buf_idx (bg_d s)) (dw_bg_size (bg_d s)),
      bg_d := bg_d s\<lparr>dw_bg_pending := False\<rparr>\<rparr>)"
| leave: "bg_w s = WTop \<Longrightarrow> dw_bg_shutdown (bg_d s) \<Longrightarrow> \<not> dw_bg_pending (bg_d s) \<Longrightarrow>
    work_step s (s\<lparr>bg_w := WExit\<rparr>)"
| work_wait: "bg_w s = WTop \<Longrightarrow> \<not> dw_bg_shutdown (bg_d s) \<Longrightarrow> \<not> dw_bg_pending (bg_d s) \<Longrightarrow>
    work_step s (s\<lparr>bg_w := WSleep\<rparr>)"
| compress_fault: "bg_w s = WWork idx sz \<Longrightarrow> bg_compress (bg_d s) idx sz (bg_htab s) = None \<Longrightarrow>
    work_step s (s\<lparr>bg_fault := True\<rparr>)"
| compress_empty: "bg_w s = WWork idx sz \<Longrightarrow> bg_compress (bg_d s) idx sz (bg_htab s) = Some (ht, None) \<Longrightarrow>
    work_step s (s\<lparr>bg_w := WDone, bg_htab := ht\<rparr>)"
| compress_frame: "bg_w s = WWork idx sz \<Longrightarrow> bg_compress (bg_d s) idx sz (bg_htab s) = Some (ht, Some f) \<Longrightarrow>
    work_step s (s\<lparr>bg_w := WLock f, bg_htab := ht\<rparr>)"
| lock: "bg_w s = WLock f \<Longrightarrow> bg_mutex s = None \<Longrightarrow>
    work_step s (s\<lparr>bg_w := WSend f 0, bg_mutex := Some Mine\<rparr>)"
| send: "bg_w s = WSend f n \<Longrightarrow> 0 < k \<Longrightarrow> n + k \<le> (if n < 12 then 12 else length (enc_frame f)) \<Longrightarrow>
    work_step s ((put_wire (take k (drop n (enc_frame f))) s)\<lparr>bg_w := WSend f (n + k)\<rparr>)"
| send_failed: "bg_w s = WSend f n \<Longrightarrow> n \<noteq> length (enc_frame f) \<Longrightarrow>
    work_step s (s\<lparr>bg_w := WSend f (give_up f n), bg_failed := True\<rparr>)"
| unlock: "bg_w s = WSend f n \<Longrightarrow> n = length (enc_frame f) \<Longrightarrow>
    work_step s (s\<lparr>bg_w := WDone, bg_mutex := None, bg_sent := bg_sent s @ [(True, f)]\<rparr>)"
| idle: "bg_w s = WDone \<Longrightarrow> work_step s (idle_section s)"

text \<open>A wait may end without a notification.\<close>

inductive spurious_step :: "bg_state \<Rightarrow> bg_state \<Rightarrow> bool" where
  spurious_tracer: "spurious_step s (s\<lparr>bg_pc := notify_tracer (bg_pc s)\<rparr>)"
| spurious_worker: "spurious_step s (s\<lparr>bg_w := notify_worker (bg_w s)\<rparr>)"

text \<open>The workers of the other buffers on the same socket; a session of the same thread has the same id.\<close>

inductive other_step :: "bg_state \<Rightarrow> bg_state \<Rightarrow> bool" where
  other_lock: "bg_mutex s = None \<Longrightarrow> valid_frame dec_py f \<Longrightarrow>
    other_step s (s\<lparr>bg_mutex := Some (Other f 0)\<rparr>)"
| other_send: "bg_mutex s = Some (Other f n) \<Longrightarrow> 0 < k \<Longrightarrow>
    n + k \<le> (if n < 12 then 12 else length (enc_frame f)) \<Longrightarrow>
    other_step s ((put_wire (take k (drop n (enc_frame f))) s)\<lparr>bg_mutex := Some (Other f (n + k))\<rparr>)"
| other_failed: "bg_mutex s = Some (Other f n) \<Longrightarrow> n \<noteq> length (enc_frame f) \<Longrightarrow>
    other_step s (s\<lparr>bg_mutex := Some (Other f (give_up f n)), bg_failed := True\<rparr>)"
| other_unlock: "bg_mutex s = Some (Other f n) \<Longrightarrow> n = length (enc_frame f) \<Longrightarrow>
    other_step s (s\<lparr>bg_mutex := None, bg_sent := bg_sent s @ [(False, f)]\<rparr>)"

definition bg_step :: "nat \<Rightarrow> bg_state \<Rightarrow> bg_state \<Rightarrow> bool" where
  "bg_step cap s s' \<longleftrightarrow> prod_step cap s s' \<or> work_step s s' \<or> other_step s s' \<or> spurious_step s s'"

inductive bg_reach :: "nat \<Rightarrow> bg_state \<Rightarrow> bg_state \<Rightarrow> bool" for cap s where
  start: "bg_reach cap s s"
| next_step: "bg_reach cap s s' \<Longrightarrow> bg_step cap s' s'' \<Longrightarrow> bg_reach cap s s''"

definition bg_start :: "nat \<Rightarrow> int \<Rightarrow> u32 \<Rightarrow> htab \<Rightarrow> dw_op list \<Rightarrow> bg_state" where
  "bg_start cap fd tid ht ops =
     \<lparr>bg_d = init_tcp cap fd tid dw_initial, bg_pc = PRun, bg_w = WTop, bg_todo = ops, bg_wire = [],
      bg_mutex = None, bg_htab = ht, bg_fault = False, bg_sent = [], bg_taken = [], bg_failed = False, bg_resumed = False\<rparr>"

subsection \<open>The invariant\<close>

text \<open>The data of this buffer's frames.\<close>

definition own :: "(bool \<times> frame) list \<Rightarrow> byte list" where
  "own fs = concat (map (\<lambda>x. fr_data (snd x)) (filter fst fs))"

definition frames_ok :: "u32 \<Rightarrow> (bool \<times> frame) list \<Rightarrow> bool" where
  "frames_ok tid fs \<longleftrightarrow> (\<forall>x\<in>set fs. valid_frame dec_py (snd x) \<and> (fst x \<longrightarrow> fr_tid (snd x) = tid))"

text \<open>What the worker has been given and has not finished sending.\<close>

definition inflight :: "dwbuf \<Rightarrow> work_pc \<Rightarrow> byte list" where
  "inflight d w = (case w of
     WTop \<Rightarrow> if dw_bg_pending d then take (dw_bg_size d) (the (dw_buf d (dw_bg_buf_idx d))) else []
   | WWork idx sz \<Rightarrow> take sz (the (dw_buf d idx))
   | WLock f \<Rightarrow> fr_data f
   | WSend f n \<Rightarrow> fr_data f
   | WSleep \<Rightarrow> []
   | WDone \<Rightarrow> []
   | WExit \<Rightarrow> [])"

definition filling :: "dwbuf \<Rightarrow> byte list" where
  "filling d = take (dw_pos d) (the (dw_buf d (dw_active d)))"

fun to_copy :: "prod_pc \<Rightarrow> byte list" where
  "to_copy (PFlush (KCopy x)) = x"
| "to_copy (PCont (KCopy x)) = x"
| "to_copy (PSleep (KCopy x)) = x"
| "to_copy (PSleep (KChunk x off)) = drop off x"
| "to_copy (PFlush (KChunk x off)) = drop off x"
| "to_copy (PCont (KChunk x off)) = drop off x"
| "to_copy _ = []"

definition partial :: "holder option \<Rightarrow> work_pc \<Rightarrow> byte list" where
  "partial m w = (case m of
     None \<Rightarrow> []
   | Some Mine \<Rightarrow> (case w of WSend f n \<Rightarrow> take n (enc_frame f) | _ \<Rightarrow> [])
   | Some (Other f n) \<Rightarrow> take n (enc_frame f))"

definition mem_inv :: "nat \<Rightarrow> dwbuf \<Rightarrow> prod_pc \<Rightarrow> bool" where
  "mem_inv cap d pc \<longleftrightarrow> dw_pos d \<le> cap \<and>
     (pc \<noteq> PEnd \<longrightarrow> dw_bg_running d \<and> dw_comp d = Some (lz4_compress_bound cap) \<and>
        (\<forall>i. \<exists>b. dw_buf d i = Some b \<and> length b = cap))"

text \<open>The hand-over: while the worker has a buffer it is not the one being filled.\<close>

definition sync_inv :: "nat \<Rightarrow> dwbuf \<Rightarrow> work_pc \<Rightarrow> bool" where
  "sync_inv cap d w \<longleftrightarrow> dw_active d < 2 \<and>
     (dw_bg_idle d \<longleftrightarrow> \<not> dw_bg_pending d \<and> (w = WTop \<or> w = WSleep \<or> w = WExit)) \<and>
     (dw_bg_pending d \<longrightarrow> w = WTop) \<and>
     (\<not> dw_bg_idle d \<longrightarrow> dw_bg_buf_idx d = 1 - dw_active d \<and> 0 < dw_bg_size d \<and> dw_bg_size d \<le> cap) \<and>
     (\<forall>idx sz. w = WWork idx sz \<longrightarrow> idx = dw_bg_buf_idx d \<and> sz = dw_bg_size d)"

definition wire_inv :: "u32 \<Rightarrow> bool \<Rightarrow> byte list \<Rightarrow> (bool \<times> frame) list \<Rightarrow> holder option \<Rightarrow> work_pc \<Rightarrow> bool" where
  "wire_inv tid failed wire sent m w \<longleftrightarrow>
     (\<not> failed \<longrightarrow> wire = enc_frames (map snd sent) @ partial m w) \<and>
     frames_ok tid sent \<and>
     (m = Some Mine \<longleftrightarrow> (\<exists>f n. w = WSend f n)) \<and>
     (\<forall>f. w = WLock f \<longrightarrow> valid_frame dec_py f \<and> fr_tid f = tid) \<and>
     (\<forall>f n. w = WSend f n \<longrightarrow> valid_frame dec_py f \<and> fr_tid f = tid \<and> n \<le> length (enc_frame f)) \<and>
     (\<forall>f n. m = Some (Other f n) \<longrightarrow> valid_frame dec_py f \<and> n \<le> length (enc_frame f))"

text \<open>The frame that is being sent.\<close>

definition sending :: "holder option \<Rightarrow> work_pc \<Rightarrow> (bool \<times> frame) list" where
  "sending m w = (case m of
     None \<Rightarrow> []
   | Some Mine \<Rightarrow> (case w of WSend f n \<Rightarrow> [(True, f)] | _ \<Rightarrow> [])
   | Some (Other f n) \<Rightarrow> [(False, f)])"

text \<open>From the first failure on, as long as nothing more goes out, the wire is a beginning of the frames sent so far.\<close>

definition cut_inv :: "bool \<Rightarrow> bool \<Rightarrow> byte list \<Rightarrow> (bool \<times> frame) list \<Rightarrow> holder option \<Rightarrow> work_pc \<Rightarrow> bool" where
  "cut_inv failed resumed wire sent m w \<longleftrightarrow>
     (failed \<longrightarrow> \<not> resumed \<longrightarrow> (\<exists>u. enc_frames (map snd (sent @ sending m w)) = wire @ u))"

definition end_inv :: "dwbuf \<Rightarrow> prod_pc \<Rightarrow> work_pc \<Rightarrow> dw_op list \<Rightarrow> bool" where
  "end_inv d pc w todo \<longleftrightarrow>
     (dw_bg_shutdown d \<longleftrightarrow> pc = PNotify \<or> pc = PJoin \<or> pc = PEnd) \<and>
     (dw_bg_shutdown d \<longrightarrow> dw_bg_idle d) \<and>
     (w = WExit \<longrightarrow> dw_bg_shutdown d) \<and>
     (pc = PEnd \<longrightarrow> w = WExit) \<and>
     ((\<exists>k. pc = PCont k) \<or> pc \<in> {PIdleSleep, PNotify, PJoin, PEnd} \<longrightarrow> dw_pos d = 0) \<and>
     (pc \<in> {PFlush KDestroy, PSleep KDestroy, PCont KDestroy, PIdleSleep, PNotify, PJoin, PEnd} \<longrightarrow> todo = [])"

text \<open>Whoever sleeps is woken: the tracing thread sleeps only while the worker has something to do, the worker only
  while there is nothing to do, or the notification of the end is still to come.\<close>

definition sleep_inv :: "dwbuf \<Rightarrow> prod_pc \<Rightarrow> work_pc \<Rightarrow> bool" where
  "sleep_inv d pc w \<longleftrightarrow>
     (pc = PIdleSleep \<or> (\<exists>k. pc = PSleep k) \<longrightarrow> \<not> dw_bg_idle d) \<and>
     (w = WSleep \<longrightarrow> \<not> dw_bg_pending d \<and> (dw_bg_shutdown d \<longrightarrow> pc = PNotify))"

definition data_inv :: "byte list \<Rightarrow> bg_state \<Rightarrow> bool" where
  "data_inv given s \<longleftrightarrow>
     own (bg_sent s) @ inflight (bg_d s) (bg_w s) @ filling (bg_d s) = bg_taken s \<and>
     bg_taken s @ to_copy (bg_pc s) @ concat (map op_bytes (bg_todo s)) = given"

abbreviation wire_ok :: "u32 \<Rightarrow> bg_state \<Rightarrow> bool" where
  "wire_ok tid s \<equiv> wire_inv tid (bg_failed s) (bg_wire s) (bg_sent s) (bg_mutex s) (bg_w s)"

abbreviation cut_ok :: "bg_state \<Rightarrow> bool" where
  "cut_ok s \<equiv> cut_inv (bg_failed s) (bg_resumed s) (bg_wire s) (bg_sent s) (bg_mutex s) (bg_w s)"

abbreviation end_ok :: "bg_state \<Rightarrow> bool" where
  "end_ok s \<equiv> end_inv (bg_d s) (bg_pc s) (bg_w s) (bg_todo s)"

abbreviation sleep_ok :: "bg_state \<Rightarrow> bool" where
  "sleep_ok s \<equiv> sleep_inv (bg_d s) (bg_pc s) (bg_w s)"

definition bg_inv :: "nat \<Rightarrow> u32 \<Rightarrow> byte list \<Rightarrow> bg_state \<Rightarrow> bool" where
  "bg_inv cap tid given s \<longleftrightarrow> 0 < cap \<and> lz4_compress_bound cap < 2 ^ 32 \<and> \<not> bg_fault s \<and>
     dw_tid (bg_d s) = tid \<and> mem_inv cap (bg_d s) (bg_pc s) \<and> sync_inv cap (bg_d s) (bg_w s) \<and>
     wire_ok tid s \<and> cut_ok s \<and> end_ok s \<and> sleep_ok s \<and> data_inv given s \<and>
     (\<forall>x. bg_pc s \<in> {PFlush (KCopy x), PSleep (KCopy x), PCont (KCopy x)} \<longrightarrow> length x \<le> cap)"

lemma bg_invD:
  assumes "bg_inv cap tid given s"
  shows "mem_inv cap (bg_d s) (bg_pc s)" and "sync_inv cap (bg_d s) (bg_w s)" and "wire_ok tid s" and "cut_ok s"
    and "end_ok s" and "sleep_ok s" and "data_inv given s"
    and "\<And>x. bg_pc s \<in> {PFlush (KCopy x), PSleep (KCopy x), PCont (KCopy x)} \<Longrightarrow> length x \<le> cap"
  using assms unfolding bg_inv_def by blast+

lemma own_simps [simp]:
  "own [] = []" "own (fs @ [x]) = own fs @ (if fst x then fr_data (snd x) else [])"
  by (simp_all add: own_def)

lemma frames_ok_simps [simp]:
  "frames_ok tid []"
  "frames_ok tid (fs @ [x]) \<longleftrightarrow> frames_ok tid fs \<and> valid_frame dec_py (snd x) \<and> (fst x \<longrightarrow> fr_tid (snd x) = tid)"
  by (auto simp: frames_ok_def)

lemma put_wire_sel [simp]:
  "bg_d (put_wire bs s) = bg_d s" "bg_pc (put_wire bs s) = bg_pc s" "bg_w (put_wire bs s) = bg_w s"
  "bg_todo (put_wire bs s) = bg_todo s" "bg_wire (put_wire bs s) = bg_wire s @ bs" "bg_mutex (put_wire bs s) = bg_mutex s"
  "bg_htab (put_wire bs s) = bg_htab s" "bg_fault (put_wire bs s) = bg_fault s" "bg_sent (put_wire bs s) = bg_sent s"
  "bg_taken (put_wire bs s) = bg_taken s" "bg_failed (put_wire bs s) = bg_failed s"
  "bg_resumed (put_wire bs s) \<longleftrightarrow> bg_resumed s \<or> bg_failed s"
  by (simp_all add: put_wire_def)

lemma dw_buf_upd [simp]:
  "dw_buf (d\<lparr>dw_pos := n\<rparr>) i = dw_buf d i"
  "dw_buf (d\<lparr>dw_bg_pending := p\<rparr>) i = dw_buf d i"
  "dw_buf (d\<lparr>dw_bg_idle := p\<rparr>) i = dw_buf d i"
  "dw_buf (d\<lparr>dw_bg_shutdown := p\<rparr>) i = dw_buf d i"
  "dw_buf (dw_handoff d) i = dw_buf d i"
  "dw_buf (dw_set_buf j b d) i = (if (i = 0) = (j = 0) then Some b else dw_buf d i)"
  by (simp_all add: dw_buf_def dw_set_buf_def dw_handoff_def)

lemma dw_set_buf_sel [simp]:
  "dw_pos (dw_set_buf j b d) = dw_pos d" "dw_comp (dw_set_buf j b d) = dw_comp d"
  "dw_tid (dw_set_buf j b d) = dw_tid d" "dw_active (dw_set_buf j b d) = dw_active d"
  "dw_bg_running (dw_set_buf j b d) = dw_bg_running d"
  "dw_bg_pending (dw_set_buf j b d) = dw_bg_pending d"
  "dw_bg_shutdown (dw_set_buf j b d) = dw_bg_shutdown d"
  "dw_bg_idle (dw_set_buf j b d) = dw_bg_idle d"
  "dw_bg_buf_idx (dw_set_buf j b d) = dw_bg_buf_idx d" "dw_bg_size (dw_set_buf j b d) = dw_bg_size d"
  by (simp_all add: dw_set_buf_def)

subsection \<open>Every step keeps the invariant\<close>

lemma notify_worker_inv [simp]:
  "partial m (notify_worker w) = partial m w" "sending m (notify_worker w) = sending m w"
  "wire_inv tid failed wire sent m (notify_worker w) = wire_inv tid failed wire sent m w"
  "cut_inv failed resumed wire sent m (notify_worker w) = cut_inv failed resumed wire sent m w"
proof -
  show p: "partial m (notify_worker w) = partial m w" and q: "sending m (notify_worker w) = sending m w"
    by (auto simp: notify_worker_def partial_def sending_def split: option.splits holder.splits)
  show "wire_inv tid failed wire sent m (notify_worker w) = wire_inv tid failed wire sent m w"
    unfolding wire_inv_def p by (simp add: notify_worker_def)
  show "cut_inv failed resumed wire sent m (notify_worker w) = cut_inv failed resumed wire sent m w"
    by (simp add: cut_inv_def q)
qed

lemma notify_tracer_simps [simp]:
  "notify_tracer (PSleep k) = PFlush k" "notify_tracer PIdleSleep = PCont KDestroy"
  "(\<forall>k. pc \<noteq> PSleep k) \<Longrightarrow> pc \<noteq> PIdleSleep \<Longrightarrow> notify_tracer pc = pc"
  by (simp_all add: notify_tracer_def split: prod_pc.splits)

lemma tracer_wakes:
  obtains (flush) k where "pc = PSleep k" | (destroy) "pc = PIdleSleep"
    | (same) "\<forall>k. pc \<noteq> PSleep k" "pc \<noteq> PIdleSleep" "notify_tracer pc = pc"
  by (metis notify_tracer_simps(3))

lemma to_copy_notify [simp]: "to_copy (PFlush k) = to_copy (PSleep k)" "to_copy (notify_tracer pc) = to_copy pc"
proof -
  show f: "to_copy (PFlush k) = to_copy (PSleep k)" for k by (cases k) simp_all
  show "to_copy (notify_tracer pc) = to_copy pc" by (cases pc rule: tracer_wakes) (simp_all add: f)
qed

lemma copy_cur_ok:
  assumes "mem_inv cap d pc" and "pc \<noteq> PEnd" and "at + length data \<le> cap"
  obtains b where "dw_buf d (dw_active d) = Some b" and "length b = cap"
    and "dw_copy_cur at data d = Some ((dw_set_buf (dw_active d)
      (take at b @ data @ drop (at + length data) b) d)\<lparr>dw_pos := at + length data\<rparr>)"
proof -
  obtain b where "dw_buf d (dw_active d) = Some b" "length b = cap"
    using assms by (auto simp: mem_inv_def)
  with assms(3) that [of b] show thesis
    by (simp add: dw_copy_cur_def inline_memcpy_eq store_bytes_def)
qed

text \<open>Copying into the buffer being filled does not touch what the worker has.\<close>

lemma inflight_set_active:
  assumes "sync_inv cap d w"
  shows "inflight ((dw_set_buf (dw_active d) b d)\<lparr>dw_pos := n\<rparr>) w = inflight d w"
  using assms by (auto simp: sync_inv_def inflight_def less_2_cases_iff split: work_pc.splits)

lemma sync_set_active:
  "sync_inv cap ((dw_set_buf i b d)\<lparr>dw_pos := n\<rparr>) w = sync_inv cap d w"
  by (simp add: sync_inv_def)

lemma put_step_inv:
  assumes inv: "bg_inv cap tid given s" and pc: "bg_pc s = PRun \<or> (\<exists>k. bg_pc s = PCont k)"
    and at: "at = dw_pos (bg_d s)" and len: "at + length data \<le> cap"
    and pc': "pc' = PRun \<or> (\<exists>x off. pc' = PFlush (KChunk x off))"
    and eq: "data @ to_copy pc' @ concat (map op_bytes todo) =
             to_copy (bg_pc s) @ concat (map op_bytes (bg_todo s))"
  shows "bg_inv cap tid given (put_step at data pc' todo s)"
proof -
  let ?d = "bg_d s"
  from inv have mem: "mem_inv cap ?d (bg_pc s)" and sync: "sync_inv cap ?d (bg_w s)"
    by (simp_all add: bg_inv_def)
  have "bg_pc s \<noteq> PEnd" using pc by auto
  from copy_cur_ok [OF mem this len] obtain b where b: "dw_buf ?d (dw_active ?d) = Some b" "length b = cap"
    and cp: "dw_copy_cur at data ?d = Some ((dw_set_buf (dw_active ?d)
      (take at b @ data @ drop (at + length data) b) ?d)\<lparr>dw_pos := at + length data\<rparr>)" .
  define d' where "d' = (dw_set_buf (dw_active ?d) (take at b @ data @ drop (at + length data) b) ?d)
      \<lparr>dw_pos := at + length data\<rparr>"
  have fill: "filling d' = filling ?d @ data"
    using b len at by (simp add: filling_def d'_def)
  have mem': "mem_inv cap d' pc'"
    using mem pc len b by (auto simp: mem_inv_def d'_def)
  have sync': "sync_inv cap d' (bg_w s)" using sync by (simp only: sync_set_active d'_def)
  have ends: "end_inv d' pc' (bg_w s) todo" "sleep_inv d' pc' (bg_w s)"
  proof -
    have e: "dw_bg_shutdown ?d = (bg_pc s = PNotify \<or> bg_pc s = PJoin \<or> bg_pc s = PEnd)" "bg_w s = WExit \<longrightarrow> dw_bg_shutdown ?d"
      using bg_invD(5) [OF inv] unfolding end_inv_def by blast+
    have "bg_w s = WSleep \<longrightarrow> \<not> dw_bg_pending ?d" using bg_invD(6) [OF inv] unfolding sleep_inv_def by blast
    moreover have "\<not> dw_bg_shutdown ?d" using e(1) pc by (elim disjE exE) simp_all
    moreover from this e(2) have "bg_w s \<noteq> WExit" by blast
    moreover have "dw_bg_shutdown d' = dw_bg_shutdown ?d" "dw_bg_pending d' = dw_bg_pending ?d"
      by (simp_all add: d'_def)
    ultimately show "end_inv d' pc' (bg_w s) todo" "sleep_inv d' pc' (bg_w s)"
      using pc' by (auto simp: end_inv_def sleep_inv_def)
  qed
  have put: "put_step at data pc' todo s = s\<lparr>bg_d := d', bg_pc := pc', bg_todo := todo, bg_taken := bg_taken s @ data\<rparr>"
    using cp by (simp add: put_step_def d'_def)
  have "inflight d' (bg_w s) = inflight ?d (bg_w s)"
    using inflight_set_active [OF sync] by (simp add: d'_def)
  then have data: "data_inv given (s\<lparr>bg_d := d', bg_pc := pc', bg_todo := todo, bg_taken := bg_taken s @ data\<rparr>)"
    using bg_invD(7) [OF inv] fill eq by (simp add: data_inv_def)
  have "\<forall>x. pc' \<notin> {PFlush (KCopy x), PSleep (KCopy x), PCont (KCopy x)}" using pc' by auto
  moreover have "dw_tid d' = dw_tid ?d" by (simp add: d'_def)
  ultimately show ?thesis
    using inv mem' sync' ends data unfolding put bg_inv_def by simp
qed

lemma prod_step_inv:
  assumes "prod_step cap s s'" and inv: "bg_inv cap tid given s"
  shows "bg_inv cap tid given s'"
  using assms
proof (cases rule: prod_step.cases)
  case (write_fits x xs)
  then show ?thesis unfolding write_fits(1) by (intro put_step_inv [OF inv]) auto
next
  case (copy_first x)
  then have "dw_pos (bg_d s) = 0" "length x \<le> cap"
    using inv by (auto simp: bg_inv_def end_inv_def)
  with copy_first show ?thesis unfolding copy_first(1) by (intro put_step_inv [OF inv]) auto
next
  case (chunk x off)
  let ?k = "min (length x - off) cap"
  have "take ?k (drop off x) @ drop (off + ?k) x = drop off x"
    by (metis add.commute append_take_drop_id drop_drop)
  moreover have "dw_pos (bg_d s) = 0"
    using inv chunk by (auto simp: bg_inv_def end_inv_def)
  ultimately show ?thesis
    using chunk unfolding chunk(1) by (intro put_step_inv [OF inv]) (auto simp flip: append_assoc)
next
  case (flush_handoff k)
  let ?d = "bg_d s"
  from inv have mem: "mem_inv cap ?d (bg_pc s)" and sync: "sync_inv cap ?d (bg_w s)"
    and e: "end_ok s" and dt: "data_inv given s"
    by (simp_all add: bg_inv_def)
  have w: "notify_worker (bg_w s) = WTop" "bg_w s = WTop \<or> bg_w s = WSleep" and np: "\<not> dw_bg_pending ?d"
    using sync e flush_handoff by (auto simp: sync_inv_def end_inv_def notify_worker_def)
  have "sync_inv cap (dw_handoff ?d) WTop"
    using sync mem w flush_handoff
    by (auto simp: sync_inv_def mem_inv_def dw_handoff_def less_2_cases_iff)
  moreover have "mem_inv cap (dw_handoff ?d) (PCont k)"
    using mem flush_handoff by (auto simp: mem_inv_def) (simp_all add: dw_handoff_def)
  moreover have "inflight (dw_handoff ?d) WTop @ filling (dw_handoff ?d) =
      inflight ?d (bg_w s) @ filling ?d"
    using w np by (auto simp: inflight_def filling_def) (simp_all add: dw_handoff_def)
  then have "data_inv given s'"
    using dt flush_handoff w by (cases k) (simp_all add: data_inv_def flush_section_def)
  moreover have "end_ok s'"
    using e flush_handoff w by (auto simp: end_inv_def dw_handoff_def flush_section_def)
  moreover have "sleep_ok s'" using w flush_handoff by (simp add: sleep_inv_def flush_section_def)
  ultimately show ?thesis
    using inv flush_handoff by (auto simp: bg_inv_def flush_section_def dw_handoff_def w(1) simp flip: w(1))
next
  case (signal_flush xs e d' e')
  then have "d' = bg_d s"
    using inv by (auto simp: bg_inv_def mem_inv_def flushFromSignal_def)
  with signal_flush inv show ?thesis
    by (auto simp: bg_inv_def end_inv_def data_inv_def)
next
  case (flush_empty k)
  with inv show ?thesis
    by (cases k) (auto simp: bg_inv_def end_inv_def data_inv_def mem_inv_def sleep_inv_def)
next
  case (flush_wait k)
  with inv show ?thesis
    by (cases k) (auto simp: bg_inv_def end_inv_def data_inv_def mem_inv_def sleep_inv_def)
next
  case join
  then have "sync_inv cap (dw_release (bg_d s)) WExit"
    using inv by (simp add: bg_inv_def sync_inv_def dw_release_def)
  moreover have "dw_pos (bg_d s) = 0"
    using inv join by (auto simp: bg_inv_def end_inv_def)
  moreover have "inflight d WExit = []" for d by (simp add: inflight_def)
  ultimately show ?thesis
    using join inv
    by (auto simp: bg_inv_def end_inv_def data_inv_def sleep_inv_def mem_inv_def dw_release_def filling_def)
next
  case shutdown
  then have "sync_inv cap (bg_d s\<lparr>dw_bg_shutdown := True\<rparr>) (bg_w s)"
    using inv by (simp add: bg_inv_def sync_inv_def)
  moreover have "inflight (bg_d s\<lparr>dw_bg_shutdown := True\<rparr>) w = inflight (bg_d s) w"
    "filling (bg_d s\<lparr>dw_bg_shutdown := True\<rparr>) = filling (bg_d s)" for w
    by (simp_all add: inflight_def filling_def split: work_pc.splits)
  ultimately show ?thesis
    using shutdown inv
    by (auto simp: bg_inv_def end_inv_def data_inv_def mem_inv_def sleep_inv_def)
next
  case notify_shutdown
  then have "sync_inv cap (bg_d s) (notify_worker (bg_w s))"
    "inflight (bg_d s) (notify_worker (bg_w s)) = inflight (bg_d s) (bg_w s)"
    using bg_invD(2,6) [OF inv] by (auto simp: sync_inv_def sleep_inv_def notify_worker_def inflight_def)
  moreover have "end_ok s'" "sleep_ok s'"
    using bg_invD(5,6) [OF inv] notify_shutdown by (auto simp: end_inv_def sleep_inv_def notify_worker_def)
  ultimately show ?thesis
    using notify_shutdown inv by (auto simp: bg_inv_def data_inv_def mem_inv_def)
next
  case destroy_wait
  with inv show ?thesis
    by (auto simp: bg_inv_def end_inv_def data_inv_def mem_inv_def sleep_inv_def)
qed (use inv in \<open>auto simp: bg_inv_def mem_inv_def end_inv_def data_inv_def sleep_inv_def\<close>)

lemma bg_compress_ok:
  assumes mem: "mem_inv cap d pc" "pc \<noteq> PEnd" and sz: "0 < sz" "sz \<le> cap"
    and cap: "lz4_compress_bound cap < 2 ^ 32"
  shows "\<exists>ht' f. bg_compress d idx sz ht = Some (ht', Some f) \<and> valid_frame dec_py f \<and>
    fr_tid f = dw_tid d \<and> fr_data f = take sz (the (dw_buf d idx))"
proof -
  obtain b where b: "dw_buf d idx = Some b" "length b = cap"
    and comp: "dw_comp d = Some (lz4_compress_bound cap)"
    using mem by (auto simp: mem_inv_def)
  let ?src = "take sz b"
  have len: "length ?src = sz" and ne: "?src \<noteq> []" using sz b by auto
  obtain ht' out where pk: "lz4_compress_block ?src (lz4_compress_bound sz) ht = Some (ht', out)"
    and out: "out \<noteq> []" "length out \<le> lz4_compress_bound cap" and up: "dec_py out sz = Inr ?src"
    using lz4.pack_law [OF ne, of "lz4_compress_bound sz" ht] lz4.bound_mono [OF sz(2)] len by fastforce
  have "sz < 2 ^ 32" using sz(2) cap by (simp add: lz4_compress_bound_def)
  with b comp pk out up sz cap show ?thesis
    by (simp add: bg_compress_def valid_frame_def)
qed

lemma partial_send: "n + k \<le> length xs \<Longrightarrow> take n xs @ take k (drop n xs) = take (n + k) xs"
  by (simp add: take_add)

lemma part_le: "n + k \<le> (if n < 12 then 12 else length (enc_frame f)) \<Longrightarrow> n + k \<le> length (enc_frame f)"
  by (auto simp: enc_frame_def split: if_splits)

lemma give_up_le: "valid_frame dec_py f \<Longrightarrow> n \<le> length (enc_frame f) \<Longrightarrow> give_up f n \<le> length (enc_frame f)"
  by (simp add: give_up_def enc_frame_def)

text \<open>The frames do not change while the worker sends nothing.\<close>

lemma quiet_worker:
  assumes "\<forall>f n. w \<noteq> WSend f n" and "\<forall>f n. w' \<noteq> WSend f n"
  shows "(\<forall>f. w' = WLock f \<longrightarrow> valid_frame dec_py f \<and> fr_tid f = tid) \<Longrightarrow>
      wire_inv tid failed wire sent m w \<Longrightarrow> wire_inv tid failed wire sent m w'"
    and "cut_inv failed resumed wire sent m w' = cut_inv failed resumed wire sent m w"
proof -
  have "partial m w' = partial m w" "sending m w' = sending m w"
    using assms by (auto simp: partial_def sending_def split: option.splits holder.splits work_pc.splits)
  with assms show "(\<forall>f. w' = WLock f \<longrightarrow> valid_frame dec_py f \<and> fr_tid f = tid) \<Longrightarrow>
      wire_inv tid failed wire sent m w \<Longrightarrow> wire_inv tid failed wire sent m w'"
    and "cut_inv failed resumed wire sent m w' = cut_inv failed resumed wire sent m w"
    by (auto simp: wire_inv_def cut_inv_def)
qed

text \<open>A failed send cuts the wire inside the frame being sent, unless it was cut before.\<close>

lemma cut_at_failure:
  assumes "wire_inv tid failed wire sent m w" and "cut_inv failed resumed wire sent m w"
    and "sending m w = [(b, f)]" and "partial m w = take n (enc_frame f)" and "sending m' w' = [(b, f)]"
  shows "cut_inv True resumed wire sent m' w'"
proof (cases failed)
  case False
  then have "enc_frames (map snd (sent @ [(b, f)])) = wire @ drop n (enc_frame f)"
    using assms(1,4) by (simp add: wire_inv_def)
  then show ?thesis using assms(5) by (auto simp: cut_inv_def)
qed (use assms in \<open>auto simp: cut_inv_def\<close>)

text \<open>A worker's step that leaves the buffer and the tracing thread alone.\<close>

lemma worker_moves:
  assumes inv: "bg_inv cap tid given s"
    and same: "bg_d s' = bg_d s" "bg_pc s' = bg_pc s" "bg_todo s' = bg_todo s" "bg_taken s' = bg_taken s" "bg_fault s' = bg_fault s"
    and w: "bg_w s \<noteq> WExit" "bg_w s' \<noteq> WExit" "bg_w s' \<noteq> WSleep" and sync: "sync_inv cap (bg_d s) (bg_w s')"
    and own: "own (bg_sent s') @ inflight (bg_d s) (bg_w s') = own (bg_sent s) @ inflight (bg_d s) (bg_w s)"
    and "wire_ok tid s'" "cut_ok s'"
  shows "bg_inv cap tid given s'"
proof -
  have "end_ok s'" "sleep_ok s'" using bg_invD(5,6) [OF inv] w same by (auto simp: end_inv_def sleep_inv_def)
  moreover have "data_inv given s'"
    using bg_invD(7) [OF inv] own same unfolding data_inv_def append_assoc [symmetric] by simp
  ultimately show ?thesis using inv same sync assms(12,13) by (simp add: bg_inv_def)
qed

lemma work_step_inv:
  assumes "work_step s s'" and inv: "bg_inv cap tid given s"
  shows "bg_inv cap tid given s'"
  using assms(1)
proof (cases rule: work_step.cases)
  case wake
  let ?d = "bg_d s" and ?w = "WWork (dw_bg_buf_idx (bg_d s)) (dw_bg_size (bg_d s))"
  have "sync_inv cap (?d\<lparr>dw_bg_pending := False\<rparr>) ?w"
    using inv wake by (auto simp: bg_inv_def sync_inv_def)
  moreover have "inflight (?d\<lparr>dw_bg_pending := False\<rparr>) ?w = inflight ?d (bg_w s)"
    "filling (?d\<lparr>dw_bg_pending := False\<rparr>) = filling ?d"
    using wake by (simp_all add: inflight_def filling_def)
  moreover have "end_ok s'" "sleep_ok s'" "mem_inv cap (bg_d s') (bg_pc s')"
    using bg_invD(1,5,6) [OF inv] wake by (auto simp: end_inv_def sleep_inv_def mem_inv_def)
  ultimately show ?thesis
    using inv wake quiet_worker(1) [of "bg_w s" ?w] quiet_worker(2) [of "bg_w s" ?w]
    by (simp add: bg_inv_def data_inv_def)
next
  case leave
  then have "sync_inv cap (bg_d s) WExit" and "inflight (bg_d s) WExit = inflight (bg_d s) (bg_w s)"
    using inv by (auto simp: bg_inv_def sync_inv_def inflight_def)
  moreover have "end_ok s'" "sleep_ok s'" using bg_invD(5,6) [OF inv] leave by (auto simp: end_inv_def sleep_inv_def)
  ultimately show ?thesis
    using inv leave quiet_worker(1) [of "bg_w s" WExit] quiet_worker(2) [of "bg_w s" WExit]
    by (simp add: bg_inv_def data_inv_def)
next
  case work_wait
  then have "sync_inv cap (bg_d s) WSleep" and "inflight (bg_d s) WSleep = inflight (bg_d s) (bg_w s)"
    using inv by (auto simp: bg_inv_def sync_inv_def inflight_def)
  moreover have "end_ok s'" "sleep_ok s'" using bg_invD(5,6) [OF inv] work_wait by (auto simp: end_inv_def sleep_inv_def)
  ultimately show ?thesis
    using inv work_wait quiet_worker(1) [of "bg_w s" WSleep] quiet_worker(2) [of "bg_w s" WSleep]
    by (simp add: bg_inv_def data_inv_def)
next
  case (compress_fault idx sz)
  have "bg_pc s \<noteq> PEnd" using inv compress_fault by (auto simp: bg_inv_def end_inv_def)
  with bg_compress_ok [of cap "bg_d s" "bg_pc s" sz idx "bg_htab s"] compress_fault inv show ?thesis
    by (auto simp: bg_inv_def sync_inv_def)
next
  case (compress_empty idx sz ht)
  have "bg_pc s \<noteq> PEnd" using inv compress_empty by (auto simp: bg_inv_def end_inv_def)
  with bg_compress_ok [of cap "bg_d s" "bg_pc s" sz idx "bg_htab s"] compress_empty inv show ?thesis
    by (auto simp: bg_inv_def sync_inv_def)
next
  case (compress_frame idx sz ht f)
  have "bg_pc s \<noteq> PEnd" using inv compress_frame by (auto simp: bg_inv_def end_inv_def)
  with bg_compress_ok [of cap "bg_d s" "bg_pc s" sz idx "bg_htab s"] compress_frame inv
  have f: "valid_frame dec_py f" "fr_tid f = tid" "fr_data f = take sz (the (dw_buf (bg_d s) idx))"
    by (auto simp: bg_inv_def sync_inv_def)
  have sync: "sync_inv cap (bg_d s) (WLock f)" using inv compress_frame by (auto simp: bg_inv_def sync_inv_def)
  have wire: "wire_inv tid (bg_failed s) (bg_wire s) (bg_sent s) (bg_mutex s) (WLock f)"
    and cut: "cut_inv (bg_failed s) (bg_resumed s) (bg_wire s) (bg_sent s) (bg_mutex s) (WLock f)"
    using inv f compress_frame quiet_worker [of "bg_w s" "WLock f"] by (auto simp: bg_inv_def)
  have "own (bg_sent s) @ inflight (bg_d s) (WLock f) = own (bg_sent s) @ inflight (bg_d s) (bg_w s)"
    using compress_frame f by (simp add: inflight_def)
  then show ?thesis
    by (intro worker_moves [OF inv]) (use sync wire cut compress_frame in \<open>simp_all add: put_wire_def\<close>)
next
  case (lock f)
  have m: "wire_ok tid s" "cut_ok s" using inv by (simp_all add: bg_inv_def)
  have sync: "sync_inv cap (bg_d s) (WSend f 0)" using inv lock by (auto simp: bg_inv_def sync_inv_def)
  have wire: "wire_inv tid (bg_failed s) (bg_wire s) (bg_sent s) (Some Mine) (WSend f 0)"
    using m lock by (auto simp: wire_inv_def partial_def)
  have "\<exists>u. enc_frames (map snd (bg_sent s @ sending (Some Mine) (WSend f 0))) = bg_wire s @ u"
    if "\<exists>u. enc_frames (map snd (bg_sent s)) = bg_wire s @ u" using that by (auto simp: sending_def)
  then have cut: "cut_inv (bg_failed s) (bg_resumed s) (bg_wire s) (bg_sent s) (Some Mine) (WSend f 0)"
    using m(2) lock by (simp add: cut_inv_def) (simp add: sending_def)
  have "own (bg_sent s) @ inflight (bg_d s) (WSend f 0) = own (bg_sent s) @ inflight (bg_d s) (bg_w s)"
    using lock by (simp add: inflight_def)
  then show ?thesis
    by (intro worker_moves [OF inv]) (use sync wire cut lock in \<open>simp_all add: put_wire_def\<close>)
next
  case (send f n k)
  note k = part_le [OF send(4)]
  let ?w = "WSend f (n + k)"
  have m: "bg_mutex s = Some Mine" and i: "wire_ok tid s" "cut_ok s" using inv send by (auto simp: bg_inv_def wire_inv_def)
  have sync: "sync_inv cap (bg_d s) ?w" using inv send by (auto simp: bg_inv_def sync_inv_def)
  have wire: "wire_inv tid (bg_failed s) (bg_wire s @ take k (drop n (enc_frame f))) (bg_sent s) (Some Mine) ?w"
    using i m send k partial_send [OF k] by (auto simp: wire_inv_def partial_def)
  have cut: "cut_inv (bg_failed s) (bg_resumed s \<or> bg_failed s) (bg_wire s @ take k (drop n (enc_frame f))) (bg_sent s) (Some Mine) ?w"
    by (simp add: cut_inv_def)
  have "own (bg_sent s) @ inflight (bg_d s) ?w = own (bg_sent s) @ inflight (bg_d s) (bg_w s)"
    using send by (simp add: inflight_def)
  then show ?thesis
    by (intro worker_moves [OF inv]) (use sync wire cut send m in \<open>simp_all add: put_wire_def\<close>)
next
  case (send_failed f n)
  let ?w = "WSend f (give_up f n)"
  have m: "bg_mutex s = Some Mine" and i: "wire_ok tid s" "cut_ok s" and f: "valid_frame dec_py f" "n \<le> length (enc_frame f)"
    using inv send_failed by (auto simp: bg_inv_def wire_inv_def)
  have sync: "sync_inv cap (bg_d s) ?w" using inv send_failed by (auto simp: bg_inv_def sync_inv_def)
  have wire: "wire_inv tid True (bg_wire s) (bg_sent s) (Some Mine) ?w"
    using i(1) m send_failed give_up_le [OF f] by (auto simp: wire_inv_def)
  have cut: "cut_inv True (bg_resumed s) (bg_wire s) (bg_sent s) (Some Mine) ?w"
    using cut_at_failure [OF i, of True f n "Some Mine" ?w] m send_failed(2) by (simp add: sending_def partial_def)
  have "own (bg_sent s) @ inflight (bg_d s) ?w = own (bg_sent s) @ inflight (bg_d s) (bg_w s)"
    using send_failed by (simp add: inflight_def)
  then show ?thesis
    by (intro worker_moves [OF inv]) (use sync wire cut send_failed m in \<open>simp_all add: put_wire_def\<close>)
next
  case (unlock f n)
  have m: "bg_mutex s = Some Mine" and i: "wire_ok tid s" "cut_ok s" using inv unlock by (auto simp: bg_inv_def wire_inv_def)
  have sync: "sync_inv cap (bg_d s) WDone" using inv unlock by (auto simp: bg_inv_def sync_inv_def)
  have wire: "wire_inv tid (bg_failed s) (bg_wire s) (bg_sent s @ [(True, f)]) None WDone"
    using i(1) m unlock by (auto simp: wire_inv_def partial_def)
  have cut: "cut_inv (bg_failed s) (bg_resumed s) (bg_wire s) (bg_sent s @ [(True, f)]) None WDone"
    using i(2) m unlock by (simp add: cut_inv_def sending_def)
  have "own (bg_sent s @ [(True, f)]) @ inflight (bg_d s) WDone = own (bg_sent s) @ inflight (bg_d s) (bg_w s)"
    using unlock by (simp add: inflight_def)
  then show ?thesis
    by (intro worker_moves [OF inv]) (use sync wire cut unlock m in \<open>simp_all add: put_wire_def\<close>)
next
  case idle
  let ?d = "bg_d s\<lparr>dw_bg_idle := True\<rparr>"
  have np: "\<not> dw_bg_pending (bg_d s)" "\<not> dw_bg_idle (bg_d s)" using inv idle by (auto simp: bg_inv_def sync_inv_def)
  then have "\<not> dw_bg_shutdown (bg_d s)" using inv by (auto simp: bg_inv_def end_inv_def)
  then have "end_inv ?d (notify_tracer (bg_pc s)) WTop (bg_todo s) \<and> sleep_inv ?d (notify_tracer (bg_pc s)) WTop \<and>
      mem_inv cap ?d (notify_tracer (bg_pc s))"
    using bg_invD(1,5,6) [OF inv] np
    by (cases "bg_pc s" rule: tracer_wakes) (auto simp: mem_inv_def end_inv_def sleep_inv_def)
  moreover have "inflight ?d WTop = inflight (bg_d s) (bg_w s)" "filling ?d = filling (bg_d s)"
    using idle np by (simp_all add: inflight_def filling_def)
  moreover have "sync_inv cap ?d WTop" using inv idle by (auto simp: bg_inv_def sync_inv_def)
  moreover have "length x \<le> cap" if "notify_tracer (bg_pc s) \<in> {PFlush (KCopy x), PSleep (KCopy x), PCont (KCopy x)}" for x
    using that bg_invD(8) [OF inv, of x] by (cases "bg_pc s" rule: tracer_wakes) auto
  ultimately show ?thesis
    using inv idle quiet_worker(1) [of "bg_w s" WTop] quiet_worker(2) [of "bg_w s" WTop]
    by (auto simp: bg_inv_def data_inv_def idle_section_def)
qed

text \<open>A step of the environment.\<close>

lemma others_move:
  assumes "bg_inv cap tid given s"
    and "bg_d s' = bg_d s" "bg_pc s' = bg_pc s" "bg_todo s' = bg_todo s" "bg_taken s' = bg_taken s" "bg_fault s' = bg_fault s"
    and "bg_w s' = bg_w s" "own (bg_sent s') = own (bg_sent s)" "wire_ok tid s'" "cut_ok s'"
  shows "bg_inv cap tid given s'"
  using assms by (simp add: bg_inv_def data_inv_def)

lemma other_step_inv:
  assumes "other_step s s'" and inv: "bg_inv cap tid given s"
  shows "bg_inv cap tid given s'"
proof -
  have i: "wire_ok tid s" "cut_ok s" using inv by (simp_all add: bg_inv_def)
  from assms(1) show ?thesis
  proof (cases rule: other_step.cases)
    case (other_lock f)
    have wire: "wire_inv tid (bg_failed s) (bg_wire s) (bg_sent s) (Some (Other f 0)) (bg_w s)"
      using i(1) other_lock by (auto simp: wire_inv_def partial_def)
    have "\<exists>u. enc_frames (map snd (bg_sent s @ sending (Some (Other f 0)) (bg_w s))) = bg_wire s @ u"
      if "\<exists>u. enc_frames (map snd (bg_sent s)) = bg_wire s @ u" using that by (auto simp: sending_def)
    then have cut: "cut_inv (bg_failed s) (bg_resumed s) (bg_wire s) (bg_sent s) (Some (Other f 0)) (bg_w s)"
      using i(2) other_lock by (simp add: cut_inv_def) (simp add: sending_def)
    show ?thesis by (rule others_move [OF inv]) (use wire cut other_lock in simp_all)
  next
    case (other_send f n k)
    note k = part_le [OF other_send(4)]
    let ?m = "Some (Other f (n + k))"
    have wire: "wire_inv tid (bg_failed s) (bg_wire s @ take k (drop n (enc_frame f))) (bg_sent s) ?m (bg_w s)"
      using i(1) other_send k partial_send [OF k] by (auto simp: wire_inv_def partial_def)
    have cut: "cut_inv (bg_failed s) (bg_resumed s \<or> bg_failed s) (bg_wire s @ take k (drop n (enc_frame f))) (bg_sent s) ?m (bg_w s)"
      by (simp add: cut_inv_def)
    show ?thesis by (rule others_move [OF inv]) (use wire cut other_send in \<open>simp_all add: put_wire_def\<close>)
  next
    case (other_failed f n)
    let ?m = "Some (Other f (give_up f n))"
    have f: "valid_frame dec_py f" "n \<le> length (enc_frame f)" using i(1) other_failed by (auto simp: wire_inv_def)
    have wire: "wire_inv tid True (bg_wire s) (bg_sent s) ?m (bg_w s)"
      using i(1) other_failed f give_up_le [OF f] by (auto simp: wire_inv_def)
    have cut: "cut_inv True (bg_resumed s) (bg_wire s) (bg_sent s) ?m (bg_w s)"
      using cut_at_failure [OF i, of False f n ?m "bg_w s"] other_failed(2) by (simp add: sending_def partial_def)
    show ?thesis by (rule others_move [OF inv]) (use wire cut other_failed in simp_all)
  next
    case (other_unlock f n)
    have wire: "wire_inv tid (bg_failed s) (bg_wire s) (bg_sent s @ [(False, f)]) None (bg_w s)"
      using i(1) other_unlock by (auto simp: wire_inv_def partial_def)
    have cut: "cut_inv (bg_failed s) (bg_resumed s) (bg_wire s) (bg_sent s @ [(False, f)]) None (bg_w s)"
      using i(2) other_unlock by (simp add: cut_inv_def sending_def)
    show ?thesis by (rule others_move [OF inv]) (use wire cut other_unlock in simp_all)
  qed
qed

lemma spurious_step_inv:
  assumes "spurious_step s s'" and inv: "bg_inv cap tid given s"
  shows "bg_inv cap tid given s'"
  using assms(1)
proof (cases rule: spurious_step.cases)
  case spurious_tracer
  have "end_ok s' \<and> sleep_ok s' \<and> mem_inv cap (bg_d s') (bg_pc s')"
    using bg_invD(1,5,6) [OF inv] spurious_tracer
    by (cases "bg_pc s" rule: tracer_wakes) (auto simp: mem_inv_def end_inv_def sleep_inv_def)
  moreover have "length x \<le> cap" if "notify_tracer (bg_pc s) \<in> {PFlush (KCopy x), PSleep (KCopy x), PCont (KCopy x)}" for x
    using that bg_invD(8) [OF inv, of x] by (cases "bg_pc s" rule: tracer_wakes) auto
  ultimately show ?thesis using inv spurious_tracer by (auto simp: bg_inv_def data_inv_def)
next
  case spurious_worker
  have "sync_inv cap (bg_d s) (notify_worker (bg_w s))" "inflight (bg_d s) (notify_worker (bg_w s)) = inflight (bg_d s) (bg_w s)"
    using bg_invD(2,6) [OF inv] by (auto simp: sync_inv_def sleep_inv_def notify_worker_def inflight_def)
  moreover have "end_ok s' \<and> sleep_ok s'"
    using bg_invD(5,6) [OF inv] spurious_worker by (auto simp: end_inv_def sleep_inv_def notify_worker_def)
  ultimately show ?thesis using inv spurious_worker by (simp add: bg_inv_def data_inv_def)
qed

lemma bg_start_inv:
  assumes "0 < cap" and "lz4_compress_bound cap < 2 ^ 32"
  shows "bg_inv cap tid (concat (map op_bytes ops)) (bg_start cap fd tid ht ops)"
  using assms
  by (auto simp: bg_inv_def bg_start_def init_tcp_def dw_initial_def mem_inv_def sync_inv_def
      wire_inv_def cut_inv_def sleep_inv_def end_inv_def data_inv_def inflight_def filling_def partial_def sending_def dw_buf_def)

lemma bg_reach_inv:
  assumes "bg_reach cap s s'" and "bg_inv cap tid given s"
  shows "bg_inv cap tid given s'"
  using assms
  by (induction rule: bg_reach.induct)
     (auto simp: bg_step_def dest: prod_step_inv work_step_inv other_step_inv spurious_step_inv)

subsection \<open>Nobody waits for ever\<close>

text \<open>The tracing thread takes a step unless it sleeps or waits for the worker's end.\<close>

lemma prod_waits:
  assumes inv: "bg_inv cap tid given s" and "bg_pc s \<noteq> PEnd" and "\<nexists>s'. prod_step cap s s'"
  shows "\<not> dw_bg_idle (bg_d s) \<or> (bg_pc s = PJoin \<and> bg_w s \<noteq> WExit)"
proof (rule ccontr)
  assume n: "\<not> (\<not> dw_bg_idle (bg_d s) \<or> (bg_pc s = PJoin \<and> bg_w s \<noteq> WExit))"
  have "\<exists>s'. prod_step cap s s'"
  proof (cases "bg_pc s")
    case PRun
    show ?thesis
    proof (cases "bg_todo s")
      case Nil
      with PRun show ?thesis by (blast intro: prod_step.call_destroy)
    next
      case (Cons x xs)
      have "dw_bg_running (bg_d s)" using inv PRun by (auto simp: bg_inv_def mem_inv_def)
      then have "\<And>e. flushFromSignal (bg_d s) e = Some (bg_d s, e)" by (simp add: flushFromSignal_def)
      with Cons PRun show ?thesis
        by (cases x) (blast intro: prod_step.write_fits prod_step.write_over prod_step.call_flush
            prod_step.signal_flush)+
    qed
  next
    case (PFlush k)
    with n show ?thesis by (blast intro: prod_step.flush_empty prod_step.flush_handoff)
  next
    case (PSleep k)
    with n inv show ?thesis by (auto simp: bg_inv_def sleep_inv_def)
  next
    case (PCont k)
    with n show ?thesis
      by (cases k) (blast intro: prod_step.flush_done prod_step.copy_first prod_step.chunk
          prod_step.chunk_end prod_step.shutdown)+
  next
    case PIdleSleep
    with n inv show ?thesis by (auto simp: bg_inv_def sleep_inv_def)
  next
    case PNotify
    then show ?thesis by (blast intro: prod_step.notify_shutdown)
  next
    case PJoin
    with n show ?thesis by (blast intro: prod_step.join)
  next
    case PEnd
    with assms show ?thesis by simp
  qed
  with assms(3) show False by blast
qed

lemma send_can_go:
  assumes "n \<le> length (enc_frame f)" and "n \<noteq> length (enc_frame f)"
  shows "\<exists>k. 0 < k \<and> n + k \<le> (if n < 12 then 12 else length (enc_frame f))"
  using assms by (intro exI [of _ 1]) auto

lemma work_goes:
  assumes inv: "bg_inv cap tid given s"
    and "\<not> dw_bg_idle (bg_d s) \<or> (bg_pc s = PJoin \<and> bg_w s \<noteq> WExit)"
    and "\<forall>f n. bg_mutex s \<noteq> Some (Other f n)"
  shows "\<exists>s'. work_step s s'"
proof (cases "bg_w s")
  case WTop
  then show ?thesis by (blast intro: work_step.wake work_step.leave work_step.work_wait)
next
  case WSleep
  then have "\<not> dw_bg_pending (bg_d s)" "\<not> dw_bg_shutdown (bg_d s) \<or> bg_pc s = PNotify"
    using bg_invD(6) [OF inv] by (auto simp: sleep_inv_def)
  with WSleep bg_invD(2,5) [OF inv] assms(2) show ?thesis by (auto simp: sync_inv_def end_inv_def)
next
  case (WWork idx sz)
  then show ?thesis
    by (metis not_None_eq surj_pair work_step.compress_empty work_step.compress_fault
        work_step.compress_frame)
next
  case (WLock f)
  then have "bg_mutex s \<noteq> Some Mine" using inv by (auto simp: bg_inv_def wire_inv_def)
  then have "bg_mutex s = None" using assms(3) by (metis holder.exhaust not_None_eq)
  with WLock show ?thesis by (blast intro: work_step.lock)
next
  case (WSend f n)
  then have "n \<le> length (enc_frame f)" using inv by (auto simp: bg_inv_def wire_inv_def)
  with WSend send_can_go [of n f] show ?thesis
    by (cases "n = length (enc_frame f)") (blast intro: work_step.send work_step.unlock)+
next
  case WDone
  then show ?thesis by (blast intro: work_step.idle)
next
  case WExit
  with assms show ?thesis by (auto simp: bg_inv_def sync_inv_def end_inv_def)
qed

text \<open>Every step of the two threads lowers the first of these numbers that it changes: the phase, the operations left, the bytes
  of the write left, where the tracing thread is, where the worker is, the bytes of the frame left, who is awake.\<close>

definition running :: "bg_state \<Rightarrow> nat" where
  "running s = (if bg_pc s \<in> {PFlush KDestroy, PSleep KDestroy, PCont KDestroy, PIdleSleep, PNotify, PJoin, PEnd} then 0 else 1)"

fun chunks_left :: "prod_pc \<Rightarrow> nat" where
  "chunks_left (PFlush (KChunk x off)) = length x - off"
| "chunks_left (PSleep (KChunk x off)) = length x - off"
| "chunks_left (PCont (KChunk x off)) = length x - off"
| "chunks_left _ = 0"

fun prod_rank :: "prod_pc \<Rightarrow> nat" where
  "prod_rank (PFlush k) = 4" | "prod_rank (PSleep k) = 4" | "prod_rank (PCont k) = 3" | "prod_rank PIdleSleep = 3"
| "prod_rank PNotify = 2" | "prod_rank PJoin = 1" | "prod_rank PRun = 0" | "prod_rank PEnd = 0"

definition work_rank :: "bool \<Rightarrow> work_pc \<Rightarrow> nat" where
  "work_rank pending w = (case w of
     WTop \<Rightarrow> if pending then 7 else 2 | WSleep \<Rightarrow> 1 | WWork idx sz \<Rightarrow> 6 | WLock f \<Rightarrow> 5 | WSend f n \<Rightarrow> 4 | WDone \<Rightarrow> 3 | WExit \<Rightarrow> 0)"

definition send_left :: "work_pc \<Rightarrow> nat" where
  "send_left w = (case w of WSend f n \<Rightarrow> length (enc_frame f) - n | _ \<Rightarrow> 0)"

definition awake :: "prod_pc \<Rightarrow> nat" where
  "awake pc = (if pc = PIdleSleep \<or> (\<exists>k. pc = PSleep k) then 0 else 1)"

definition bg_order :: "(bg_state \<times> bg_state) set" where
  "bg_order = measures [running, length \<circ> bg_todo, chunks_left \<circ> bg_pc, prod_rank \<circ> bg_pc,
     \<lambda>s. work_rank (dw_bg_pending (bg_d s)) (bg_w s), send_left \<circ> bg_w, awake \<circ> bg_pc]"

lemma notify_tracer_ranks:
  "prod_rank (notify_tracer pc) = prod_rank pc" "chunks_left (notify_tracer pc) = chunks_left pc"
proof -
  have "chunks_left (PFlush k) = chunks_left (PSleep k)" for k by (cases k) simp_all
  then show "prod_rank (notify_tracer pc) = prod_rank pc" "chunks_left (notify_tracer pc) = chunks_left pc"
    by (cases pc rule: tracer_wakes; simp)+
qed

lemma running_notify: "running (s\<lparr>bg_pc := notify_tracer (bg_pc s)\<rparr>) = running s"
  by (cases "bg_pc s" rule: tracer_wakes) (simp_all add: running_def)

lemma put_step_pc:
  assumes "bg_inv cap tid given s" and "bg_pc s \<noteq> PEnd" and "at + length data \<le> cap"
  shows "bg_pc (put_step at data pc todo s) = pc \<and> bg_todo (put_step at data pc todo s) = todo"
proof -
  have "mem_inv cap (bg_d s) (bg_pc s)" using assms(1) by (simp add: bg_inv_def)
  from copy_cur_ok [OF this assms(2,3)] obtain d' where "dw_copy_cur at data (bg_d s) = Some d'" by blast
  then show ?thesis by (simp add: put_step_def)
qed

lemma prod_step_order:
  assumes "prod_step cap s s'" and inv: "bg_inv cap tid given s"
  shows "(s', s) \<in> bg_order"
  using assms
proof (cases rule: prod_step.cases)
  case (write_fits x xs)
  with put_step_pc [OF inv _ write_fits(4), where pc = PRun and todo = xs] show ?thesis
    by (simp add: bg_order_def running_def)
next
  case (copy_first x)
  then have "0 + length x \<le> cap" using inv by (auto simp: bg_inv_def)
  from put_step_pc [OF inv _ this, where pc = PRun and todo = "bg_todo s"] copy_first show ?thesis
    by (simp add: bg_order_def running_def)
next
  case (chunk x off)
  have "0 < cap" using inv by (simp add: bg_inv_def)
  have "bg_pc s' = PFlush (KChunk x (off + min (length x - off) cap)) \<and> bg_todo s' = bg_todo s"
    unfolding chunk(1) using chunk by (intro put_step_pc [OF inv]) auto
  then show ?thesis using chunk(2,3) \<open>0 < cap\<close> by (auto simp: bg_order_def running_def)
next
  case (flush_handoff k)
  then show ?thesis by (cases k) (auto simp: bg_order_def running_def flush_section_def)
next
  case (signal_flush xs e d' e')
  then show ?thesis by (simp add: bg_order_def running_def)
next
  case (flush_empty k)
  then show ?thesis by (cases k) (auto simp: bg_order_def running_def)
next
  case (flush_wait k)
  then show ?thesis by (cases k) (auto simp: bg_order_def running_def awake_def)
next
  case destroy_wait
  then show ?thesis by (auto simp: bg_order_def running_def awake_def)
qed (auto simp: bg_order_def running_def)

lemma work_step_order:
  assumes "work_step s s'" and inv: "bg_inv cap tid given s"
  shows "(s', s) \<in> bg_order"
  using assms(1)
proof (cases rule: work_step.cases)
  case (compress_fault idx sz)
  have "bg_pc s \<noteq> PEnd" using inv compress_fault by (auto simp: bg_inv_def end_inv_def)
  with bg_compress_ok [of cap "bg_d s" "bg_pc s" sz idx "bg_htab s"] compress_fault inv show ?thesis
    by (auto simp: bg_inv_def sync_inv_def)
next
  case (send f n k)
  then have "n \<le> length (enc_frame f)" using inv by (auto simp: bg_inv_def wire_inv_def)
  with send part_le [OF send(4)] show ?thesis by (auto simp: bg_order_def running_def work_rank_def send_left_def)
next
  case (send_failed f n)
  then have "valid_frame dec_py f" "n \<le> length (enc_frame f)" using inv by (auto simp: bg_inv_def wire_inv_def)
  with send_failed show ?thesis
    by (auto simp: bg_order_def running_def work_rank_def send_left_def give_up_def enc_frame_def valid_frame_def)
next
  case idle
  then have "\<not> dw_bg_pending (bg_d s)" using inv by (auto simp: bg_inv_def sync_inv_def)
  with idle running_notify [of s] show ?thesis
    by (simp add: bg_order_def idle_section_def notify_tracer_ranks work_rank_def running_def)
qed (auto simp: bg_order_def running_def work_rank_def send_left_def)

lemma no_endless_run:
  assumes "bg_inv cap tid given (r 0)"
  shows "\<not> (\<forall>i. prod_step cap (r i) (r (Suc i)) \<or> work_step (r i) (r (Suc i)))"
proof
  assume step: "\<forall>i. prod_step cap (r i) (r (Suc i)) \<or> work_step (r i) (r (Suc i))"
  have inv: "bg_inv cap tid given (r i)" for i
  proof (induction i)
    case (Suc i)
    with step prod_step_inv work_step_inv show ?case by blast
  qed (rule assms)
  have "(r (Suc i), r i) \<in> bg_order" for i
    using step inv [of i] prod_step_order work_step_order by blast
  moreover have "wf bg_order" by (simp add: bg_order_def)
  ultimately show False by (auto simp: wf_iff_no_infinite_down_chain)
qed

text \<open>What the receiver writes for a thread id.\<close>

definition received :: "u32 \<Rightarrow> byte list \<Rightarrow> byte list" where
  "received tid wire = concat (map snd (filter (\<lambda>p. fst p = tid) (decode_frames lz4_decompress_block_py wire)))"

lemma received_own:
  assumes "\<forall>x\<in>set fs. fr_tid (snd x) = tid \<longleftrightarrow> fst x" and "decode_frames dec_py wire = map (frame_out \<circ> snd) fs"
  shows "received tid wire = own fs"
proof -
  have "concat (map snd (filter (\<lambda>p. fst p = tid) (map (frame_out \<circ> snd) fs))) = own fs"
    using assms(1) by (induction fs) (simp_all add: own_def frame_out_def)
  then show ?thesis by (simp add: received_def assms(2))
qed

lemma own_take: "\<exists>t. own (take k fs) @ t = own fs"
  by (metis append_take_drop_id concat_append filter_append map_append own_def)

subsection \<open>Properties\<close>

text \<open>C2 (the socket carries the trace, whatever the interleaving): take any interleaving of the
  tracing thread, its worker and the workers of other buffers on the same socket, of the same thread or others, with sends
  split anywhere and sends that fail. When \<open>destroy\<close> has returned and nobody holds the send mutex, the frames of this buffer
  among those that were handed to the socket carry its thread's id and together hold exactly what was written, in order. If no
  send has failed, the receiver decodes exactly the frames handed over; if sends have failed and nothing went out after the
  first failure (a broken connection), it decodes a beginning of them. So, when no other buffer sends under the same id, the
  receiver's output for the id is what was written, or a beginning of it. Nothing has faulted and the worker has ended.\<close>

theorem tcp_stream_complete:
  assumes "0 < cap" and "lz4_compress_bound cap < 2 ^ 32"
    and "bg_reach cap (bg_start cap fd tid ht ops) s" and "bg_pc s = PEnd" and "bg_mutex s = None"
  shows "(\<forall>x\<in>set (bg_sent s). fst x \<longrightarrow> fr_tid (snd x) = tid) \<and> own (bg_sent s) = concat (map op_bytes ops) \<and>
    (\<not> bg_failed s \<longrightarrow> decode_frames lz4_decompress_block_py (bg_wire s) = map (frame_out \<circ> snd) (bg_sent s)) \<and>
    (\<not> bg_resumed s \<longrightarrow>
      (\<exists>k. decode_frames lz4_decompress_block_py (bg_wire s) = map (frame_out \<circ> snd) (take k (bg_sent s)))) \<and>
    ((\<forall>x\<in>set (bg_sent s). fr_tid (snd x) = tid \<longrightarrow> fst x) \<longrightarrow>
      (\<not> bg_failed s \<longrightarrow> received tid (bg_wire s) = concat (map op_bytes ops)) \<and>
      (\<not> bg_resumed s \<longrightarrow> (\<exists>t. received tid (bg_wire s) @ t = concat (map op_bytes ops)))) \<and>
    \<not> bg_fault s \<and> dw_bg_shutdown (bg_d s) \<and> bg_w s = WExit"
proof -
  let ?given = "concat (map op_bytes ops)" let ?fs = "bg_sent s"
  have inv: "bg_inv cap tid ?given s"
    by (rule bg_reach_inv [OF assms(3) bg_start_inv [OF assms(1,2)]])
  then have w: "bg_w s = WExit" and todo: "bg_todo s = []" and p: "dw_pos (bg_d s) = 0"
    and down: "dw_bg_shutdown (bg_d s)" and ok: "frames_ok tid ?fs"
    using assms(4) by (auto simp: bg_inv_def end_inv_def wire_inv_def)
  then have all: "own ?fs = ?given"
    using inv assms(4) by (auto simp: bg_inv_def data_inv_def inflight_def filling_def)
  have tids: "\<forall>x\<in>set ?fs. fst x \<longrightarrow> fr_tid (snd x) = tid" and valid: "\<forall>f\<in>set (map snd ?fs). valid_frame dec_py f"
    using ok by (auto simp: frames_ok_def)
  have dec: "decode_frames dec_py (bg_wire s) = map (frame_out \<circ> snd) ?fs" if "\<not> bg_failed s"
    using inv assms(5) that decode_all_frames [OF valid] by (simp add: bg_inv_def wire_inv_def partial_def)
  have cut: "\<exists>k. decode_frames dec_py (bg_wire s) = map (frame_out \<circ> snd) (take k ?fs)" if r: "\<not> bg_resumed s"
  proof (cases "bg_failed s")
    case True
    then obtain u where "enc_frames (map snd ?fs) = bg_wire s @ u"
      using inv r assms(5) by (auto simp: bg_inv_def cut_inv_def sending_def)
    then have "bg_wire s = take (length (bg_wire s)) (enc_frames (map snd ?fs))" by simp
    with decode_prefix [OF valid, of "length (bg_wire s)"] show ?thesis by (auto simp: take_map)
  next
    case False
    then show ?thesis using dec by (intro exI [of _ "length ?fs"]) simp
  qed
  have ids: "(\<not> bg_failed s \<longrightarrow> received tid (bg_wire s) = ?given) \<and>
      (\<not> bg_resumed s \<longrightarrow> (\<exists>t. received tid (bg_wire s) @ t = ?given))"
    if u: "\<forall>x\<in>set ?fs. fr_tid (snd x) = tid \<longrightarrow> fst x"
  proof -
    have "\<forall>x\<in>set (take k ?fs). fr_tid (snd x) = tid \<longleftrightarrow> fst x" for k using u tids in_set_takeD by fast
    then have same: "decode_frames dec_py (bg_wire s) = map (frame_out \<circ> snd) (take k ?fs) \<Longrightarrow>
        received tid (bg_wire s) = own (take k ?fs)" for k by (rule received_own)
    show ?thesis using same [of "length ?fs"] same dec cut own_take [of _ ?fs] all by auto
  qed
  show ?thesis using tids all dec cut ids inv w down by (simp add: bg_inv_def)
qed

text \<open>C9 (no data race on the double buffer): in every reachable state, while the worker reads a
  buffer outside the lock, it is not the buffer that the tracing thread fills, and it stays the one
  that was handed over; no step has faulted.\<close>

theorem tcp_no_race:
  assumes "0 < cap" and "lz4_compress_bound cap < 2 ^ 32"
    and "bg_reach cap (bg_start cap fd tid ht ops) s" and "bg_w s = WWork idx sz"
  shows "idx \<noteq> dw_active (bg_d s) \<and> idx = dw_bg_buf_idx (bg_d s) \<and> 0 < sz \<and> sz \<le> cap \<and>
    \<not> dw_bg_idle (bg_d s) \<and> \<not> bg_fault s"
proof -
  have inv: "bg_inv cap tid (concat (map op_bytes ops)) s"
    by (rule bg_reach_inv [OF assms(3) bg_start_inv [OF assms(1,2)]])
  then have "dw_bg_buf_idx (bg_d s) = 1 - dw_active (bg_d s)" "idx = dw_bg_buf_idx (bg_d s)"
    "dw_active (bg_d s) < 2" "\<not> dw_bg_idle (bg_d s)" "0 < sz" "sz \<le> cap" "\<not> bg_fault s"
    using assms(4) by (auto simp: bg_inv_def sync_inv_def)
  then show ?thesis by (auto simp: less_2_cases_iff)
qed

text \<open>C8 (no deadlock, no lost wake-up, an end): waits sleep until they are notified, and no spurious wake-up is counted on. In every
  reachable state in which \<open>destroy\<close> has not returned, the tracing thread or the worker can take a step, unless
  another buffer holds the socket, and then its worker can; and the two threads cannot take steps for ever.\<close>

theorem tcp_no_deadlock:
  assumes "0 < cap" and "lz4_compress_bound cap < 2 ^ 32"
    and "bg_reach cap (bg_start cap fd tid ht ops) s" and "bg_pc s \<noteq> PEnd"
  shows "(\<exists>s'. prod_step cap s s' \<or> work_step s s' \<or>
      (\<exists>f n. bg_mutex s = Some (Other f n)) \<and> other_step s s') \<and>
    \<not> (\<exists>r. r 0 = s \<and> (\<forall>i. prod_step cap (r i) (r (Suc i)) \<or> work_step (r i) (r (Suc i))))"
proof -
  have inv: "bg_inv cap tid (concat (map op_bytes ops)) s"
    by (rule bg_reach_inv [OF assms(3) bg_start_inv [OF assms(1,2)]])
  have "\<exists>s'. prod_step cap s s' \<or> work_step s s' \<or> (\<exists>f n. bg_mutex s = Some (Other f n)) \<and> other_step s s'"
  proof (cases "\<exists>f n. bg_mutex s = Some (Other f n)")
    case True
    then obtain f n where m: "bg_mutex s = Some (Other f n)" by blast
    then have "n \<le> length (enc_frame f)" using inv by (auto simp: bg_inv_def wire_inv_def)
    with m send_can_go [of n f] have "\<exists>s'. other_step s s'"
      by (cases "n = length (enc_frame f)") (blast intro: other_step.other_send other_step.other_unlock)+
    with True show ?thesis by blast
  next
    case False
    show ?thesis
    proof (cases "\<exists>s'. prod_step cap s s'")
      case no: False
      have "\<not> dw_bg_idle (bg_d s) \<or> (bg_pc s = PJoin \<and> bg_w s \<noteq> WExit)"
        by (rule prod_waits [OF inv assms(4) no])
      with work_goes [OF inv] False show ?thesis by blast
    qed blast
  qed
  moreover have "\<not> (\<forall>i. prod_step cap (r i) (r (Suc i)) \<or> work_step (r i) (r (Suc i)))" if "r 0 = s" for r
    using no_endless_run [of cap tid "concat (map op_bytes ops)" r] inv that by simp
  ultimately show ?thesis by blast
qed

text \<open>A run for the witnesses: one byte written, handed over by \<open>destroy\<close>, sent in two parts.\<close>

definition demo_frame :: frame where
  "demo_frame = \<lparr>fr_tid = 7, fr_comp = [16, 65], fr_data = [65]\<rparr>"

definition demo_0 :: bg_state where
  "demo_0 = bg_start 128 3 7 (\<lambda>h. 0) [DWrite [65]]"

definition demo_work :: bg_state where
  "demo_work = (let s1 = put_step 0 [65] PRun [] demo_0 in
     s1\<lparr>bg_pc := PCont KDestroy, bg_w := WWork 0 1,
        bg_d := (dw_handoff (bg_d s1))\<lparr>dw_bg_pending := False\<rparr>\<rparr>)"

definition demo_end :: bg_state where
  "demo_end = demo_work\<lparr>bg_pc := PEnd, bg_w := WExit, bg_wire := enc_frame demo_frame,
     bg_sent := [(True, demo_frame)],
     bg_d := dw_release ((bg_d demo_work)\<lparr>dw_bg_idle := True, dw_bg_shutdown := True\<rparr>)\<rparr>"

lemma demo_copy: "dw_copy_cur 0 [65] (bg_d demo_0) =
    Some ((dw_set_buf 0 (65 # replicate 127 0) (bg_d demo_0))\<lparr>dw_pos := 1\<rparr>)"
  by (simp add: demo_0_def bg_start_def init_tcp_def dw_initial_def dw_copy_cur_def dw_buf_def
      dw_set_buf_def inline_memcpy_eq store_bytes_def numeral_eq_Suc)

lemma bg_reach_trans_step: "bg_reach cap s s' \<Longrightarrow> prod_step cap s' s'' \<or> work_step s' s'' \<Longrightarrow> bg_reach cap s s''"
  by (auto simp: bg_step_def intro: bg_reach.next_step)

lemma demo_reach_work: "bg_reach 128 demo_0 demo_work"
proof -
  let ?s1 = "put_step 0 [65] PRun [] demo_0"
  let ?s2 = "?s1\<lparr>bg_pc := PFlush KDestroy\<rparr>"
  let ?s3 = "flush_section KDestroy ?s2"
  have f: "bg_pc demo_0 = PRun" "bg_todo demo_0 = [DWrite [65]]" "dw_pos (bg_d demo_0) = 0"
    "dw_bg_idle (bg_d demo_0)" "bg_w demo_0 = WTop" "dw_active (bg_d demo_0) = 0"
    by (simp_all add: demo_0_def bg_start_def init_tcp_def dw_initial_def)
  have s1: "?s1 = demo_0\<lparr>bg_d := (dw_set_buf 0 (65 # replicate 127 0) (bg_d demo_0))\<lparr>dw_pos := 1\<rparr>,
      bg_pc := PRun, bg_todo := [], bg_taken := bg_taken demo_0 @ [65]\<rparr>"
    using demo_copy by (simp add: put_step_def)
  have "bg_reach 128 demo_0 demo_0" by (rule bg_reach.start)
  then have "bg_reach 128 demo_0 ?s1"
    using prod_step.write_fits [of demo_0 "[65]" "[]" 128] f by (auto intro: bg_reach_trans_step)
  then have "bg_reach 128 demo_0 ?s2"
    using prod_step.call_destroy [of ?s1 128] s1 by (auto intro: bg_reach_trans_step)
  then have "bg_reach 128 demo_0 ?s3"
    using prod_step.flush_handoff [of ?s2 KDestroy 128] s1 f
    by (elim bg_reach_trans_step) simp
  moreover have "work_step ?s3 demo_work"
    using work_step.wake [of ?s3] s1 f
    by (simp add: demo_work_def Let_def dw_handoff_def flush_section_def notify_worker_def)
  ultimately show ?thesis by (auto intro: bg_reach_trans_step)
qed

lemma demo_work_sel:
  "bg_w demo_work = WWork 0 1" "bg_pc demo_work = PCont KDestroy" "bg_mutex demo_work = None"
  "bg_wire demo_work = []" "bg_sent demo_work = []" "\<not> bg_failed demo_work" "\<not> bg_resumed demo_work" "bg_htab demo_work = (\<lambda>h. 0)"
  "\<not> dw_bg_pending (bg_d demo_work)" "\<not> dw_bg_shutdown (bg_d demo_work)"
  "dw_buf (bg_d demo_work) 0 = Some (65 # replicate 127 0)"
  "dw_comp (bg_d demo_work) = Some (lz4_compress_bound 128)" "dw_tid (bg_d demo_work) = 7"
  using demo_copy
  by (simp_all add: demo_work_def Let_def put_step_def dw_handoff_def demo_0_def bg_start_def
      init_tcp_def dw_initial_def dw_buf_def dw_set_buf_def)

lemma demo_compress: "bg_compress (bg_d demo_work) 0 1 (\<lambda>h. 0) = Some (\<lambda>h. 0, Some demo_frame)"
  by (simp add: bg_compress_def demo_work_sel demo_frame_def lz4_compress_block_def lz4_return_def
      lz4_last_literals_def lz4_put_def lz4_lit_header_def lz4_compress_bound_def)

lemma demo_frame_length: "length (enc_frame demo_frame) = 14"
  by (simp add: enc_frame_def demo_frame_def)

lemma demo_reach_end: "bg_reach 128 demo_0 demo_end"
proof -
  let ?a = "demo_work\<lparr>bg_w := WLock demo_frame, bg_htab := \<lambda>h. 0\<rparr>"
  let ?b = "?a\<lparr>bg_w := WSend demo_frame 0, bg_mutex := Some Mine\<rparr>"
  let ?c = "(?b\<lparr>bg_wire := take 12 (enc_frame demo_frame), bg_resumed := False\<rparr>)\<lparr>bg_w := WSend demo_frame 12\<rparr>"
  let ?d = "(?c\<lparr>bg_wire := enc_frame demo_frame, bg_resumed := False\<rparr>)\<lparr>bg_w := WSend demo_frame 14\<rparr>"
  let ?e = "?d\<lparr>bg_w := WDone, bg_mutex := None, bg_sent := [(True, demo_frame)]\<rparr>"
  let ?f = "?e\<lparr>bg_w := WTop, bg_d := (bg_d ?e)\<lparr>dw_bg_idle := True\<rparr>, bg_pc := PCont KDestroy\<rparr>"
  let ?g = "?f\<lparr>bg_pc := PNotify, bg_d := (bg_d ?f)\<lparr>dw_bg_shutdown := True\<rparr>\<rparr>"
  let ?h = "?g\<lparr>bg_pc := PJoin, bg_w := WTop\<rparr>"
  let ?i = "?h\<lparr>bg_w := WExit\<rparr>"
  have tk: "take 12 (enc_frame demo_frame) @ take 2 (drop 12 (enc_frame demo_frame)) = enc_frame demo_frame"
    using partial_send [of 12 2 "enc_frame demo_frame"] demo_frame_length by simp
  have "bg_reach 128 demo_0 ?a"
    using demo_reach_work work_step.compress_frame [of demo_work 0 1 "\<lambda>h. 0" demo_frame]
      demo_compress by (auto simp: demo_work_sel intro: bg_reach_trans_step)
  then have "bg_reach 128 demo_0 ?b"
    using work_step.lock [of ?a demo_frame] by (elim bg_reach_trans_step) (simp add: demo_work_sel)
  then have "bg_reach 128 demo_0 ?c"
    using work_step.send [of ?b demo_frame 0 12] by (elim bg_reach_trans_step) (simp add: demo_work_sel put_wire_def)
  then have "bg_reach 128 demo_0 ?d"
    using work_step.send [of ?c demo_frame 12 2] tk
    by (elim bg_reach_trans_step) (simp add: demo_frame_length demo_work_sel put_wire_def)
  then have "bg_reach 128 demo_0 ?e"
  proof (rule bg_reach_trans_step)
    have "work_step ?d (?d\<lparr>bg_w := WDone, bg_mutex := None, bg_sent := bg_sent ?d @ [(True, demo_frame)]\<rparr>)"
      by (rule work_step.unlock [where n = 14]) (simp, simp only: demo_frame_length)
    then show "prod_step 128 ?d ?e \<or> work_step ?d ?e" by (simp add: demo_work_sel)
  qed
  then have "bg_reach 128 demo_0 ?f"
    using work_step.idle [of ?e]
    by (elim bg_reach_trans_step) (simp add: idle_section_def notify_tracer_def demo_work_sel)
  then have "bg_reach 128 demo_0 ?g"
    using prod_step.shutdown [of ?f 128] by (elim bg_reach_trans_step) (simp add: demo_work_sel)
  then have "bg_reach 128 demo_0 ?h"
    using prod_step.notify_shutdown [of ?g 128] by (elim bg_reach_trans_step) (simp add: notify_worker_def)
  then have "bg_reach 128 demo_0 ?i"
    using work_step.leave [of ?h] by (elim bg_reach_trans_step) (simp add: demo_work_sel)
  moreover have "prod_step 128 ?i (?i\<lparr>bg_pc := PEnd, bg_d := dw_release (bg_d ?i)\<rparr>)"
    by (rule prod_step.join) simp_all
  moreover have "?i\<lparr>bg_pc := PEnd, bg_d := dw_release (bg_d ?i)\<rparr> = demo_end"
    using demo_work_sel by (simp add: demo_end_def)
  ultimately show ?thesis by (auto intro: bg_reach_trans_step)
qed

text \<open>When only the header of a frame went out, the receiver takes the next frame for its block: the next frame is lost,
  although it was sent whole.\<close>

lemma failed_send_desyncs:
  "decode_frames lz4_decompress_block_py (take 12 (enc_frame demo_frame) @ enc_frame demo_frame) = []"
  by code_simp

lemma tcp_stream_complete_witness:
  "received 7 (bg_wire demo_end) = concat (map op_bytes [DWrite [65]]) \<and>
   \<not> bg_fault demo_end \<and> dw_bg_shutdown (bg_d demo_end) \<and> bg_w demo_end = WExit"
  using tcp_stream_complete [of 128 3 7 "\<lambda>h. 0" "[DWrite [65]]" demo_end]
    demo_reach_end [unfolded demo_0_def]
  by (simp add: lz4_compress_bound_def demo_end_def demo_work_sel)

lemma tcp_no_race_witness:
  "0 \<noteq> dw_active (bg_d demo_work) \<and> 0 = dw_bg_buf_idx (bg_d demo_work) \<and> 0 < (1::nat) \<and> 1 \<le> (128::nat) \<and>
    \<not> dw_bg_idle (bg_d demo_work) \<and> \<not> bg_fault demo_work"
  by (rule tcp_no_race [of 128 3 7 "\<lambda>h. 0" "[DWrite [65]]" demo_work])
     (simp_all add: lz4_compress_bound_def demo_work_sel demo_reach_work [unfolded demo_0_def])

lemma tcp_no_deadlock_witness:
  "(\<exists>s'. prod_step 128 demo_work s' \<or> work_step demo_work s' \<or>
      (\<exists>f n. bg_mutex demo_work = Some (Other f n)) \<and> other_step demo_work s') \<and>
    \<not> (\<exists>r. r 0 = demo_work \<and> (\<forall>i. prod_step 128 (r i) (r (Suc i)) \<or> work_step (r i) (r (Suc i))))"
  by (rule tcp_no_deadlock [of 128 3 7 "\<lambda>h. 0" "[DWrite [65]]" demo_work])
     (simp_all add: lz4_compress_bound_def demo_work_sel demo_reach_work [unfolded demo_0_def])

end
