(* ===== verification/Text_Builder.thy ===== *)
theory Text_Builder
  imports Prelude
begin

text \<open>
  \<open>trace/Utils/StringUtil.h\<close> and \<open>StringUtil.cpp\<close>: the growing text buffer that every trace line is
  assembled in, and the number formatters written for the hot path. A builder is its text (the
  first \<open>length\<close> characters of \<open>buffer\<close>) and its capacity; \<open>buffer == NULL\<close> is capacity 0. A store
  outside the allocation is the result \<open>None\<close>, so the lemmas that give \<open>Some\<close> say that the code
  stays inside its buffer. Sizes are natural numbers; the growth lemma bounds the capacity by
  twice the size that was asked for, so \<open>size_t\<close> does not wrap below \<open>2 ^ 63\<close>.
\<close>

subsection \<open>The builder\<close>

record string_builder =
  sb_text :: string
  sb_capacity :: nat

abbreviation sb_length :: "string_builder \<Rightarrow> nat" where
  "sb_length sb \<equiv> length (sb_text sb)"

definition INITIAL_CAPACITY :: nat where
  "INITIAL_CAPACITY = 512"

definition initStringBuilder :: string_builder where
  "initStringBuilder = \<lparr>sb_text = [], sb_capacity = INITIAL_CAPACITY\<rparr>"

definition freeStringBuilder :: "string_builder \<Rightarrow> string_builder" where
  "freeStringBuilder sb = \<lparr>sb_text = [], sb_capacity = 0\<rparr>"

definition resetStringBuilder :: "string_builder \<Rightarrow> string_builder" where
  "resetStringBuilder sb = sb\<lparr>sb_text := []\<rparr>"

text \<open>\<open>do capacity *= 2 while (need > capacity)\<close>: it does not return when the capacity is 0.\<close>

partial_function (option) sb_grow :: "nat \<Rightarrow> nat \<Rightarrow> nat option" where
  "sb_grow need cap =
     (let cap' = 2 * cap in if need > cap' then sb_grow need cap' else Some cap')"

definition appendStringN :: "string_builder \<Rightarrow> string \<Rightarrow> string_builder option" where
  "appendStringN sb str =
     (let need = sb_length sb + length str + 1 in
      if need > sb_capacity sb
      then (case sb_grow need (sb_capacity sb) of
              None \<Rightarrow> None
            | Some cap \<Rightarrow> Some (sb\<lparr>sb_text := sb_text sb @ str, sb_capacity := cap\<rparr>))
      else Some (sb\<lparr>sb_text := sb_text sb @ str\<rparr>))"

text \<open>\<open>appendChar\<close> doubles once and then stores: a store past the capacity is the fault.\<close>

definition appendChar :: "string_builder \<Rightarrow> char \<Rightarrow> string_builder option" where
  "appendChar sb c =
     (let cap = (if sb_length sb + 2 > sb_capacity sb then 2 * sb_capacity sb else sb_capacity sb) in
      if sb_length sb < cap
      then Some \<lparr>sb_text = sb_text sb @ [c], sb_capacity = cap\<rparr>
      else None)"

text \<open>\<open>appendString\<close> measures up to the first NUL and appends that many characters.\<close>

definition c_str :: "string \<Rightarrow> string" where
  "c_str s = takeWhile (\<lambda>c. c \<noteq> CHR 0x00) s"

definition appendString :: "string_builder \<Rightarrow> string \<Rightarrow> string_builder option" where
  "appendString sb str = appendStringN sb (c_str str)"

text \<open>\<open>toString\<close> writes the terminator at \<open>buffer[length]\<close>, inside the allocation or not.\<close>

definition toString :: "string_builder \<Rightarrow> string option" where
  "toString sb =
     (if sb_capacity sb = 0 then Some []
      else if sb_length sb < sb_capacity sb then Some (c_str (sb_text sb))
      else None)"

definition sb_wf :: "string_builder \<Rightarrow> bool" where
  "sb_wf sb \<longleftrightarrow> sb_length sb < sb_capacity sb"

lemma sb_grow_bounds:
  assumes "0 < cap" and "cap < need"
  shows "\<exists>c. sb_grow need cap = Some c \<and> need \<le> c \<and> c < 2 * need"
  using assms
proof (induction "need - cap" arbitrary: cap rule: less_induct)
  case less
  show ?case
  proof (cases "need > 2 * cap")
    case True
    with less.prems have "need - 2 * cap < need - cap" by simp
    with less.hyps [of "2 * cap"] less.prems True show ?thesis
      by (subst sb_grow.simps) (simp add: Let_def)
  next
    case False
    with less.prems show ?thesis
      by (subst sb_grow.simps) (simp add: Let_def)
  qed
qed

lemma sb_wf_init [simp]: "sb_wf initStringBuilder"
  by (simp add: sb_wf_def initStringBuilder_def INITIAL_CAPACITY_def)

lemma sb_wf_reset [simp]: "sb_wf sb \<Longrightarrow> sb_wf (resetStringBuilder sb)"
  by (simp add: sb_wf_def resetStringBuilder_def)

lemma appendStringN_ok:
  assumes "sb_wf sb"
  shows "\<exists>sb'. appendStringN sb str = Some sb' \<and> sb_wf sb' \<and> sb_text sb' = sb_text sb @ str
    \<and> sb_capacity sb \<le> sb_capacity sb'
    \<and> sb_capacity sb' \<le> max (sb_capacity sb) (2 * (sb_length sb + length str + 1))"
proof (cases "sb_length sb + length str + 1 > sb_capacity sb")
  case True
  with assms sb_grow_bounds [of "sb_capacity sb" "sb_length sb + length str + 1"]
  obtain c where "sb_grow (sb_length sb + length str + 1) (sb_capacity sb) = Some c"
    and "sb_length sb + length str + 1 \<le> c" and "c < 2 * (sb_length sb + length str + 1)"
    by (auto simp: sb_wf_def)
  with True show ?thesis by (auto simp: appendStringN_def sb_wf_def Let_def)
next
  case False
  with assms show ?thesis by (auto simp: appendStringN_def sb_wf_def Let_def)
qed

lemma appendChar_ok:
  assumes "sb_wf sb"
  shows "\<exists>sb'. appendChar sb c = Some sb' \<and> sb_wf sb' \<and> sb_text sb' = sb_text sb @ [c]
    \<and> sb_capacity sb \<le> sb_capacity sb' \<and> sb_capacity sb' \<le> 2 * sb_capacity sb"
  using assms by (auto simp: appendChar_def sb_wf_def Let_def)

lemma toString_ok: "sb_wf sb \<Longrightarrow> toString sb = Some (c_str (sb_text sb))"
  by (auto simp: toString_def sb_wf_def)

subsection \<open>The operations as a text sink\<close>

text \<open>
  What the callers of a builder use: appending never faults on a well-formed builder and appends
  exactly the argument. Every formatter of the trace layer is a sequence of these calls, so the
  text it leaves in the builder is the concatenation of what it passes; the other theories model
  a formatter by that text.
\<close>

locale text_sink =
  fixes put_n :: "'b \<Rightarrow> string \<Rightarrow> 'b option"
    and put_c :: "'b \<Rightarrow> char \<Rightarrow> 'b option"
    and text_of :: "'b \<Rightarrow> string"
    and ok :: "'b \<Rightarrow> bool"
  assumes put_n_law: "ok b \<Longrightarrow> \<exists>b'. put_n b s = Some b' \<and> ok b' \<and> text_of b' = text_of b @ s"
    and put_c_law: "ok b \<Longrightarrow> \<exists>b'. put_c b c = Some b' \<and> ok b' \<and> text_of b' = text_of b @ [c]"
begin

lemma put_pieces:
  "ok b \<Longrightarrow> \<exists>b'. fold (\<lambda>s r. Option.bind r (\<lambda>b. put_n b s)) ps (Some b) = Some b'
     \<and> ok b' \<and> text_of b' = text_of b @ concat ps"
proof (induction ps arbitrary: b)
  case Nil
  then show ?case by simp
next
  case (Cons p ps)
  from put_n_law [OF Cons.prems, of p] obtain b1
    where b1: "put_n b p = Some b1" "ok b1" "text_of b1 = text_of b @ p" by blast
  from Cons.IH [OF b1(2)] b1 show ?case by auto
qed

lemma put_chars:
  "ok b \<Longrightarrow> \<exists>b'. fold (\<lambda>c r. Option.bind r (\<lambda>b. put_c b c)) s (Some b) = Some b'
     \<and> ok b' \<and> text_of b' = text_of b @ s"
proof (induction s arbitrary: b)
  case Nil
  then show ?case by simp
next
  case (Cons c s)
  from put_c_law [OF Cons.prems, of c] obtain b1
    where b1: "put_c b c = Some b1" "ok b1" "text_of b1 = text_of b @ [c]" by blast
  from Cons.IH [OF b1(2)] b1 show ?case by auto
qed

end

interpretation sb: text_sink appendStringN appendChar sb_text sb_wf
  by unfold_locales (use appendStringN_ok appendChar_ok in blast)+

subsection \<open>Number formatting\<close>

definition hd_digit :: "nat \<Rightarrow> char" where
  "hd_digit n = ''0123456789abcdef'' ! n"

text \<open>\<open>while (val) { tmp[n++] = hd[val & 0xF]; val >>= 4; }\<close>: the digits, least first.\<close>

function hex_tmp :: "u64 \<Rightarrow> string" where
  "hex_tmp val = (if val = 0 then [] else hd_digit (unat (val AND 15)) # hex_tmp (drop_bit 4 val))"
  by pat_completeness auto
termination
  by (relation "measure unat") (auto simp: unat_shift_4 unat_gt_0)

definition uint64ToHex :: "u64 \<Rightarrow> string" where
  "uint64ToHex val = (if val = 0 then ''0'' else rev (hex_tmp val))"

function dec_tmp :: "u64 \<Rightarrow> string" where
  "dec_tmp val = (if val = 0 then [] else char_of (48 + unat (val mod 10)) # dec_tmp (val div 10))"
  by pat_completeness auto
termination
  by (relation "measure unat") (auto simp: unat_div unat_gt_0)

definition uint64ToDec :: "u64 \<Rightarrow> string" where
  "uint64ToDec val = (if val = 0 then ''0'' else rev (dec_tmp val))"

text \<open>The fixed-width loops run the index downwards from the last position.\<close>

fun uint32ToHex_loop :: "nat \<Rightarrow> u32 \<Rightarrow> string" where
  "uint32ToHex_loop 0 val = []"
| "uint32ToHex_loop (Suc i) val =
     uint32ToHex_loop i (drop_bit 4 val) @ [hd_digit (unat (val AND 15))]"

definition uint32ToHex8 :: "u32 \<Rightarrow> string" where
  "uint32ToHex8 val = uint32ToHex_loop 8 val"

fun uint64ToHexPadded :: "u64 \<Rightarrow> nat \<Rightarrow> string" where
  "uint64ToHexPadded val 0 = []"
| "uint64ToHexPadded val (Suc i) =
     uint64ToHexPadded (drop_bit 4 val) i @ [hd_digit (unat (val AND 15))]"

definition byteToHex :: "byte \<Rightarrow> string" where
  "byteToHex b = [hd_digit (unat (drop_bit 4 b)), hd_digit (unat (b AND 15))]"

declare hex_tmp.simps [simp del] dec_tmp.simps [simp del]

subsection \<open>Reading the numbers back\<close>

text \<open>The value of a digit string, most significant digit first: the specification of the formatters.\<close>

definition digit_val :: "char \<Rightarrow> nat" where
  "digit_val c = (let n = of_char c :: nat in if n < 58 then n - 48 else n - 87)"

definition num_val :: "nat \<Rightarrow> string \<Rightarrow> nat" where
  "num_val base s = foldl (\<lambda>acc c. acc * base + digit_val c) 0 s"

lemma num_val_snoc [simp]: "num_val b (s @ [c]) = num_val b s * b + digit_val c"
  by (simp add: num_val_def)

lemma num_val_Nil [simp]: "num_val b [] = 0"
  by (simp add: num_val_def)

lemma less_16_cases: "n < 16 \<Longrightarrow> P 0 \<Longrightarrow> P 1 \<Longrightarrow> P 2 \<Longrightarrow> P 3 \<Longrightarrow> P 4 \<Longrightarrow> P 5 \<Longrightarrow> P 6 \<Longrightarrow> P 7 \<Longrightarrow> P 8
    \<Longrightarrow> P 9 \<Longrightarrow> P 10 \<Longrightarrow> P 11 \<Longrightarrow> P 12 \<Longrightarrow> P 13 \<Longrightarrow> P 14 \<Longrightarrow> P 15 \<Longrightarrow> P (n::nat)"
  by (auto simp: less_Suc_eq numeral_eq_Suc)

lemma digit_val_hd_digit [simp]: "n < 16 \<Longrightarrow> digit_val (hd_digit n) = n"
  by (erule less_16_cases) (simp_all add: hd_digit_def digit_val_def)

lemma digit_val_dec [simp]: "n < 10 \<Longrightarrow> digit_val (char_of (48 + n :: nat)) = n"
  by (simp add: digit_val_def)

lemma num_val_hex_tmp: "num_val 16 (rev (hex_tmp v)) = unat v"
proof (induction v rule: hex_tmp.induct)
  case (1 v)
  show ?case
    using 1 by (subst hex_tmp.simps) (simp add: unat_shift_4 unat_and_15)
qed

lemma num_val_dec_tmp: "num_val 10 (rev (dec_tmp v)) = unat v"
proof (induction v rule: dec_tmp.induct)
  case (1 v)
  have "unat (v mod 10) < 10" by (simp add: unat_mod)
  then show ?case
    using 1 by (subst dec_tmp.simps) (simp add: unat_div unat_mod)
qed

lemma uint64ToHex_value: "num_val 16 (uint64ToHex v) = unat v"
  using num_val_hex_tmp [of v] digit_val_hd_digit [of 0]
  by (simp add: uint64ToHex_def num_val_def hd_digit_def)

lemma uint64ToDec_value: "num_val 10 (uint64ToDec v) = unat v"
  using num_val_dec_tmp [of v] digit_val_hd_digit [of 0]
  by (simp add: uint64ToDec_def num_val_def hd_digit_def)

lemma length_hex_tmp: "unat v < 16 ^ k \<Longrightarrow> length (hex_tmp v) \<le> k"
proof (induction k arbitrary: v)
  case 0
  then show ?case by (simp add: hex_tmp.simps unat_eq_0)
next
  case (Suc k)
  then have "unat (drop_bit 4 v) < 16 ^ k"
    by (simp add: unat_shift_4 less_mult_imp_div_less mult.commute)
  with Suc.IH show ?case by (subst hex_tmp.simps) simp
qed

lemma length_dec_tmp: "unat v < 10 ^ k \<Longrightarrow> length (dec_tmp v) \<le> k"
proof (induction k arbitrary: v)
  case 0
  then show ?case by (simp add: dec_tmp.simps unat_eq_0)
next
  case (Suc k)
  then have "unat (v div 10) < 10 ^ k"
    by (simp add: unat_div less_mult_imp_div_less mult.commute)
  with Suc.IH show ?case by (subst dec_tmp.simps) simp
qed

lemma u64_less: "unat (v :: u64) < 18446744073709551616"
  using unsigned_less [of v, where 'a = nat] by simp

text \<open>The scratch arrays \<open>char tmp[16]\<close> and \<open>char tmp[20]\<close> are large enough.\<close>

lemma uint64ToHex_length: "0 < length (uint64ToHex v) \<and> length (uint64ToHex v) \<le> 16"
  using length_hex_tmp [of v 16] u64_less [of v]
  by (auto simp: uint64ToHex_def hex_tmp.simps [of v])

lemma uint64ToDec_length: "0 < length (uint64ToDec v) \<and> length (uint64ToDec v) \<le> 20"
  using length_dec_tmp [of v 20] u64_less [of v]
  by (auto simp: uint64ToDec_def dec_tmp.simps [of v])

lemma hex_tmp_last: "v \<noteq> 0 \<Longrightarrow> digit_val (last (hex_tmp v)) \<noteq> 0"
proof (induction v rule: hex_tmp.induct)
  case (1 v)
  show ?case
  proof (cases "drop_bit 4 v = 0")
    case True
    then have d: "unat v div 16 = 0" by (metis unat_0 unat_shift_4)
    with True \<open>v \<noteq> 0\<close> show ?thesis
      by (subst hex_tmp.simps) (simp add: hex_tmp.simps [of 0] unat_and_15 unat_eq_0)
  next
    case False
    with 1 have "digit_val (last (hex_tmp (drop_bit 4 v))) \<noteq> 0" by simp
    with False \<open>v \<noteq> 0\<close> show ?thesis
      by (subst hex_tmp.simps) (simp add: hex_tmp.simps [of "drop_bit 4 v"])
  qed
qed

lemma length_uint32ToHex_loop [simp]: "length (uint32ToHex_loop k v) = k"
  by (induction k arbitrary: v) auto

lemma num_val_uint32ToHex_loop: "num_val 16 (uint32ToHex_loop k v) = unat v mod 16 ^ k"
proof (induction k arbitrary: v)
  case (Suc k)
  have "unat v mod (16 * 16 ^ k) = 16 * (unat v div 16 mod 16 ^ k) + unat v mod 16"
    by (rule mod_mult2_eq)
  then show ?case using Suc by (simp add: unat_shift_4 unat_and_15)
qed simp

lemma length_uint64ToHexPadded [simp]: "length (uint64ToHexPadded v k) = k"
  by (induction k arbitrary: v) auto

lemma num_val_uint64ToHexPadded: "num_val 16 (uint64ToHexPadded v k) = unat v mod 16 ^ k"
proof (induction k arbitrary: v)
  case (Suc k)
  have "unat v mod (16 * 16 ^ k) = 16 * (unat v div 16 mod 16 ^ k) + unat v mod 16"
    by (rule mod_mult2_eq)
  then show ?case using Suc by (simp add: unat_shift_4 unat_and_15)
qed simp

lemma num_val_byteToHex: "num_val 16 (byteToHex b) = unat b"
proof -
  have "unat b div 16 < 16" using byte_less [of b] by simp
  then show ?thesis by (simp add: byteToHex_def num_val_def unat_shift_4 unat_and_15)
qed

lemma length_byteToHex [simp]: "length (byteToHex b) = 2"
  by (simp add: byteToHex_def)

end
