(* ===== verification/Reg_Access.thy ===== *)
theory Reg_Access
  imports Text_Builder
begin

text \<open>
  \<open>include/vcpu.h\<close> (register numbers), \<open>trace/src/ARM.cpp\<close> and \<open>trace/src/RegAccessPrinter.cpp\<close>: the
  map from capstone's register identifiers to the engine's, the header of a trace line, and the
  register values behind it. What goes into the builder is modelled as the text appended, which
  the law of \<open>text_sink\<close> justifies. Capstone's register names and the engine's register reads are
  arguments.
\<close>

subsection \<open>Register numbers\<close>

definition VC_REG_X0 :: int where "VC_REG_X0 = 0"
definition VC_REG_SP :: int where "VC_REG_SP = 31"
definition VC_REG_PC :: int where "VC_REG_PC = 32"
definition VC_REG_NZCV :: int where "VC_REG_NZCV = 33"
definition VC_REG_Q0 :: int where "VC_REG_Q0 = 34"
definition VC_REG_D0 :: int where "VC_REG_D0 = 66"
definition VC_REG_W0 :: int where "VC_REG_W0 = 84"
definition VC_REG_LR :: int where "VC_REG_LR = 30"

text \<open>\<open>trace/thirdparty/include/capstone/aarch64.h\<close>; \<open>X29\<close> is \<open>FP\<close> and \<open>X30\<close> is \<open>LR\<close> there.\<close>

definition AARCH64_REG_FP :: nat where "AARCH64_REG_FP = 2"
definition AARCH64_REG_LR :: nat where "AARCH64_REG_LR = 4"
definition AARCH64_REG_NZCV :: nat where "AARCH64_REG_NZCV = 5"
definition AARCH64_REG_SP :: nat where "AARCH64_REG_SP = 6"
definition AARCH64_REG_Q0 :: nat where "AARCH64_REG_Q0 = 140"
definition AARCH64_REG_W0 :: nat where "AARCH64_REG_W0 = 204"
definition AARCH64_REG_X0 :: nat where "AARCH64_REG_X0 = 235"
definition AARCH64_REG_ENDING :: nat where "AARCH64_REG_ENDING = 700"

lemmas vc_regs = VC_REG_X0_def VC_REG_SP_def VC_REG_PC_def VC_REG_NZCV_def VC_REG_Q0_def VC_REG_D0_def
  VC_REG_W0_def VC_REG_LR_def
lemmas cs_regs = AARCH64_REG_FP_def AARCH64_REG_LR_def AARCH64_REG_NZCV_def AARCH64_REG_SP_def
  AARCH64_REG_Q0_def AARCH64_REG_W0_def AARCH64_REG_X0_def AARCH64_REG_ENDING_def

subsection \<open>The register map\<close>

text \<open>The assignments of \<open>initRegTable\<close>, in order.\<close>

definition reg_assignments :: "(nat \<times> int) list" where
  "reg_assignments =
     [(AARCH64_REG_NZCV, VC_REG_NZCV), (AARCH64_REG_SP, VC_REG_SP), (AARCH64_REG_LR, VC_REG_LR)] @
     map (\<lambda>i. (AARCH64_REG_X0 + i, VC_REG_X0 + int i)) [0..<29] @ [(AARCH64_REG_FP, VC_REG_X0 + 29)] @
     map (\<lambda>i. (AARCH64_REG_W0 + i, VC_REG_W0 + int i)) [0..<31] @
     map (\<lambda>i. (AARCH64_REG_Q0 + i, VC_REG_Q0 + int i)) [0..<32]"

text \<open>\<open>memset(table, 0xFF, ...)\<close> makes every entry -1 first.\<close>

definition initRegTable :: "nat \<Rightarrow> int" where
  "initRegTable = fold (\<lambda>(k, v) t. t(k := v)) reg_assignments (\<lambda>i. -1)"

definition mapToUnicornReg :: "u16 \<Rightarrow> int" where
  "mapToUnicornReg reg_id =
     (if unat reg_id \<ge> AARCH64_REG_ENDING then -1 else initRegTable (unat reg_id))"

definition cachedXRegIndex :: "int \<Rightarrow> int" where
  "cachedXRegIndex r =
     (if VC_REG_X0 \<le> r \<and> r \<le> VC_REG_X0 + 28 then r - VC_REG_X0
      else if r = VC_REG_X0 + 29 then 29
      else if r = VC_REG_X0 + 30 then 30
      else if r = VC_REG_SP then 31
      else if r = VC_REG_NZCV then 32
      else if VC_REG_W0 \<le> r \<and> r \<le> VC_REG_W0 + 30 then r - VC_REG_W0
      else -1)"

lemma fold_upd_map_of:
  "fold (\<lambda>(k, v) t. t(k := v)) ps t i = (case map_of (rev ps) i of None \<Rightarrow> t i | Some v \<Rightarrow> v)"
  by (induction ps arbitrary: t) (auto simp: map_add_def split: option.splits)

definition reg_number :: "nat \<Rightarrow> int" where
  "reg_number i =
     (if i = 2 then 29 else if i = 4 then 30 else if i = 5 then 33 else if i = 6 then 31
      else if 235 \<le> i \<and> i < 264 then int i - 235
      else if 204 \<le> i \<and> i < 235 then int i - 204 + 84
      else if 140 \<le> i \<and> i < 172 then int i - 140 + 34
      else -1)"

lemma map_of_block:
  "map_of (rev (map (\<lambda>i. (a + i, b + int i)) [0..<n]) @ xs) k =
     (if a \<le> k \<and> k < a + n then Some (b + int (k - a)) else map_of xs k)"
proof (induction n arbitrary: xs)
  case 0
  then show ?case by auto
next
  case (Suc n)
  then show ?case by auto
qed

lemma initRegTable_eq: "initRegTable i = reg_number i"
proof -
  have "rev reg_assignments =
      rev (map (\<lambda>i. (AARCH64_REG_Q0 + i, VC_REG_Q0 + int i)) [0..<32]) @
      rev (map (\<lambda>i. (AARCH64_REG_W0 + i, VC_REG_W0 + int i)) [0..<31]) @
      (AARCH64_REG_FP, VC_REG_X0 + 29) #
      rev (map (\<lambda>i. (AARCH64_REG_X0 + i, VC_REG_X0 + int i)) [0..<29]) @
      [(AARCH64_REG_LR, VC_REG_LR), (AARCH64_REG_SP, VC_REG_SP), (AARCH64_REG_NZCV, VC_REG_NZCV)]"
    unfolding reg_assignments_def by (simp only: rev_append rev.simps append.simps append_assoc)
  then show ?thesis
    unfolding initRegTable_def fold_upd_map_of
    by (simp only: map_of_block map_of.simps fst_conv snd_conv fun_upd_apply vc_regs cs_regs)
       (auto simp: reg_number_def)
qed

lemma mapToUnicornReg_eq: "mapToUnicornReg r = reg_number (unat r)"
  by (auto simp: mapToUnicornReg_def initRegTable_eq reg_number_def cs_regs)

text \<open>The cached registers are the 33 slots of \<open>TraceInfo::cachedXRegs\<close>.\<close>

lemma cachedXRegIndex_range: "-1 \<le> cachedXRegIndex r \<and> cachedXRegIndex r < 33"
  by (auto simp: cachedXRegIndex_def vc_regs)

subsection \<open>Columns and the header of a line\<close>

text \<open>Padding is cut at the 32 bytes of \<open>padBuf\<close>.\<close>

definition appendHex :: "string \<Rightarrow> int \<Rightarrow> char \<Rightarrow> bool \<Rightarrow> string" where
  "appendHex hex width placeholder reverse =
     (let pad = width - int (length hex) in
      if pad > 0
      then (let padBuf = replicate (nat (min pad 32)) placeholder in
            if reverse then hex @ padBuf else padBuf @ hex)
      else hex)"

definition appendHex_value :: "u64 \<Rightarrow> int \<Rightarrow> char \<Rightarrow> bool \<Rightarrow> string" where
  "appendHex_value value width placeholder reverse =
     ''0x'' @ appendHex (uint64ToHex value) width placeholder reverse"

definition TO_LITTLE_ENDIAN :: "u32 \<Rightarrow> u32" where
  "TO_LITTLE_ENDIAN v =
     drop_bit 24 (v AND 0xFF000000) OR drop_bit 8 (v AND 0x00FF0000) OR
     push_bit 8 (v AND 0x0000FF00) OR push_bit 24 (v AND 0x000000FF)"

text \<open>What capstone leaves in a \<open>cs_insn\<close>.\<close>

record cs_insn =
  ci_is_svc :: bool
  ci_bytes :: "byte list"
  ci_mnemonic :: string
  ci_op_str :: string

definition opcode_text :: "byte list \<Rightarrow> string" where
  "opcode_text bytes = uint32ToHex8 (TO_LITTLE_ENDIAN (word_of_nat (le_nat (take 4 bytes))))"

definition assembleDetail ::
    "cs_insn \<Rightarrow> u64 \<Rightarrow> bool \<Rightarrow> bool \<Rightarrow> int \<Rightarrow> string option \<Rightarrow> u64 \<Rightarrow> string" where
  "assembleDetail insn address isThumb current nameWidth soName soBase =
     (let space = (if current then CHR ''*'' else CHR '' '') in
      (if soName \<noteq> None \<and> soBase \<noteq> 0
       then ''['' @ appendHex (the soName) nameWidth CHR '' '' True @ [space] @
            appendHex_value (address - soBase + (if isThumb then 1 else 0)) 8 CHR ''0'' False @
            '']'' @ [space]
       else if \<not> ci_is_svc insn
       then ''['' @ appendHex ''Arm64Svc'' nameWidth CHR '' '' True @ [space] @
            appendHex_value (address - soBase) nameWidth CHR ''0'' False @ '']''
       else []) @
      ''['' @ opcode_text (ci_bytes insn) @ '']'' @ [space] @
      appendHex_value address 10 CHR ''0'' False @ '':'' @ [space] @ [CHR 0x22] @
      c_str (ci_mnemonic insn) @ '' '' @ c_str (ci_op_str insn) @ [CHR 0x22])"

subsection \<open>The registers of an instruction\<close>

record reg_printer =
  rp_address :: u64
  rp_regs :: "u16 list"
  rp_forWriteRegs :: bool
  rp_cached :: "u64 list option"

text \<open>\<open>s_rn_cache\<close>: names of capstone, the length cut to a byte; \<open>?\<close> past the table.\<close>

definition appendRegName :: "(nat \<Rightarrow> string option) \<Rightarrow> u16 \<Rightarrow> string" where
  "appendRegName cs_reg_name r =
     (if unat r < AARCH64_REG_ENDING
      then (case cs_reg_name (unat r) of None \<Rightarrow> ''?'' | Some n \<Rightarrow> take (length n mod 256) n)
      else ''?'')"

definition hashBit :: "u32 \<Rightarrow> nat \<Rightarrow> char" where
  "hashBit v i = (if drop_bit i v AND 1 = 1 then CHR ''1'' else CHR ''0'')"

text \<open>The engine: general registers by number, vector registers as 16 bytes.\<close>

record vc_read =
  read_x :: "int \<Rightarrow> u64"
  read_q :: "int \<Rightarrow> byte list"

definition cached_or_read :: "vc_read \<Rightarrow> u64 list option \<Rightarrow> int \<Rightarrow> u64" where
  "cached_or_read uc cache r =
     (case cache of
        None \<Rightarrow> read_x uc r
      | Some c \<Rightarrow> if cachedXRegIndex r \<ge> 0 then c ! nat (cachedXRegIndex r) else read_x uc r)"

definition reg_text :: "vc_read \<Rightarrow> (nat \<Rightarrow> string option) \<Rightarrow> u64 list option \<Rightarrow> u16 \<Rightarrow> int \<Rightarrow> string" where
  "reg_text uc names cache cs r =
     (if (VC_REG_X0 \<le> r \<and> r \<le> VC_REG_X0 + 30) \<or> r = VC_REG_SP \<or> r = VC_REG_NZCV
      then (if r = VC_REG_NZCV
            then (let v = ucast (cached_or_read uc cache r) in
                  '' nzcv: N='' @ [hashBit v 31] @ '', Z='' @ [hashBit v 30] @
                  '', C='' @ [hashBit v 29] @ '', V='' @ [hashBit v 28])
            else '' '' @ appendRegName names cs @ ''=0x'' @ uint64ToHex (cached_or_read uc cache r))
      else if VC_REG_W0 \<le> r \<and> r \<le> VC_REG_W0 + 30
      then '' '' @ appendRegName names cs @ ''=0x'' @
           uint64ToHex (ucast (ucast (cached_or_read uc cache r) :: u32))
      else if VC_REG_Q0 \<le> r \<and> r \<le> VC_REG_Q0 + 31
      then '' '' @ appendRegName names cs @ ''=0x'' @ concat (map byteToHex (take 16 (read_q uc r)))
      else [])"

definition reg_printed :: "int \<Rightarrow> bool" where
  "reg_printed r \<longleftrightarrow>
     (VC_REG_X0 \<le> r \<and> r \<le> VC_REG_X0 + 30) \<or> r = VC_REG_SP \<or> r = VC_REG_NZCV \<or>
     (VC_REG_W0 \<le> r \<and> r \<le> VC_REG_W0 + 30) \<or> (VC_REG_Q0 \<le> r \<and> r \<le> VC_REG_Q0 + 31)"

text \<open>The loop over the registers; an unmapped register returns from the function.\<close>

fun reg_loop :: "vc_read \<Rightarrow> (nat \<Rightarrow> string option) \<Rightarrow> u64 list option \<Rightarrow> u16 list \<Rightarrow> bool \<Rightarrow> string \<times> bool" where
  "reg_loop uc names cache [] fw = ([], fw)"
| "reg_loop uc names cache (cs # rs) fw =
     (if mapToUnicornReg cs = -1 then ([], fw)
      else (if reg_printed (mapToUnicornReg cs)
            then (let (rest, fw') = reg_loop uc names cache rs False in
                  ((if fw then '' =>'' else []) @ reg_text uc names cache cs (mapToUnicornReg cs) @ rest, fw'))
            else reg_loop uc names cache rs fw))"

definition regAccessPrinterImpl ::
    "vc_read \<Rightarrow> (nat \<Rightarrow> string option) \<Rightarrow> u64 \<Rightarrow> reg_printer \<Rightarrow> string \<times> reg_printer" where
  "regAccessPrinterImpl uc names address p =
     (if rp_address p \<noteq> address then ([], p)
      else (let (t, fw) = reg_loop uc names (rp_cached p) (rp_regs p) (rp_forWriteRegs p) in
            (t, p\<lparr>rp_forWriteRegs := fw\<rparr>)))"

lemma reg_number_printed: "reg_number i \<noteq> -1 \<Longrightarrow> reg_printed (reg_number i)"
  by (auto simp: reg_number_def reg_printed_def vc_regs split: if_splits)

lemma mapped_printed: "mapToUnicornReg r \<noteq> -1 \<Longrightarrow> reg_printed (mapToUnicornReg r)"
  unfolding mapToUnicornReg_eq by (rule reg_number_printed)

lemma reg_number_inj: "reg_number i = reg_number j \<Longrightarrow> reg_number i \<noteq> -1 \<Longrightarrow> i = j"
  by (auto simp: reg_number_def split: if_splits)

lemma reg_loop_eq:
  "reg_loop uc names cache rs fw =
    (let ms = takeWhile (\<lambda>r. mapToUnicornReg r \<noteq> -1) rs in
     ((if fw \<and> ms \<noteq> [] then '' =>'' else []) @
        concat (map (\<lambda>r. reg_text uc names cache r (mapToUnicornReg r)) ms),
      fw \<and> ms = []))"
proof (induction rs arbitrary: fw)
  case Nil
  then show ?case by simp
next
  case (Cons r rs)
  then show ?case using mapped_printed [of r] by (simp add: Let_def)
qed

subsection \<open>Opcodes\<close>

text \<open>The macro reverses the bytes, so the eight digits are the instruction as it lies in memory.\<close>

lemma bit_TO_LITTLE_ENDIAN:
  "bit (TO_LITTLE_ENDIAN v) n \<longleftrightarrow> n < 32 \<and> bit v (8 * (3 - n div 8) + n mod 8)"
proof -
  have m: "(0xFF000000 :: u32) = push_bit 24 (mask 8)" "(0x00FF0000 :: u32) = push_bit 16 (mask 8)"
    "(0x0000FF00 :: u32) = push_bit 8 (mask 8)" "(0x000000FF :: u32) = mask 8"
    by (simp_all add: mask_numeral)
  have b1: "bit (drop_bit 24 (v AND push_bit 24 (mask 8)) :: u32) n \<longleftrightarrow> n < 8 \<and> bit v (n + 24)"
    and b2: "bit (drop_bit 8 (v AND push_bit 16 (mask 8)) :: u32) n \<longleftrightarrow> 8 \<le> n \<and> n < 16 \<and> bit v (n + 8)"
    by (auto simp: bit_simps add.commute)
  have b3: "bit (push_bit 8 (v AND push_bit 8 (mask 8)) :: u32) n \<longleftrightarrow> 16 \<le> n \<and> n < 24 \<and> bit v (n - 8)"
    and b4: "bit (push_bit 24 (v AND mask 8) :: u32) n \<longleftrightarrow> 24 \<le> n \<and> n < 32 \<and> bit v (n - 24)"
    by (auto simp: bit_simps)
  have "bit (TO_LITTLE_ENDIAN v) n \<longleftrightarrow>
      (n < 8 \<and> bit v (n + 24)) \<or> (8 \<le> n \<and> n < 16 \<and> bit v (n + 8)) \<or>
      (16 \<le> n \<and> n < 24 \<and> bit v (n - 8)) \<or> (24 \<le> n \<and> n < 32 \<and> bit v (n - 24))"
    unfolding TO_LITTLE_ENDIAN_def m bit_or_iff b1 b2 b3 b4 by blast
  also have "\<dots> \<longleftrightarrow> n < 32 \<and> bit v (8 * (3 - n div 8) + n mod 8)"
  proof -
    define q where "q = n div 8" define r where "r = n mod 8"
    have n: "n = 8 * q + r" and "r < 8" by (simp_all add: q_def r_def)
    consider "q = 0" | "q = 1" | "q = 2" | "q = 3" | "q \<ge> 4" by linarith
    then show ?thesis
      unfolding q_def [symmetric] r_def [symmetric] using \<open>r < 8\<close> by cases (auto simp: n add.commute)
  qed
  finally show ?thesis .
qed

lemma TO_LITTLE_ENDIAN_bytes:
  "TO_LITTLE_ENDIAN (word_of_nat (le_nat [b0, b1, b2, b3])) = word_of_nat (le_nat [b3, b2, b1, b0])"
proof (rule bit_eqI)
  fix n assume "possible_bit TYPE(u32) n"
  define q where "q = n div 8" define r where "r = n mod 8"
  have n: "n = 8 * q + r" and "r < 8" by (simp_all add: q_def r_def)
  have "n < 32 \<Longrightarrow> q < 4" by (simp add: n)
  then consider "\<not> n < 32" | "q = 0" | "q = 1" | "q = 2" | "q = 3" by linarith
  then show "bit (TO_LITTLE_ENDIAN (word_of_nat (le_nat [b0, b1, b2, b3]))) n =
      bit (word_of_nat (le_nat [b3, b2, b1, b0]) :: u32) n"
    unfolding bit_TO_LITTLE_ENDIAN q_def [symmetric] r_def [symmetric] bit_of_nat_iff bit_le_nat
    using \<open>r < 8\<close> by cases (auto simp: n mod_add_left_eq [symmetric])
qed

lemma loop_Suc: "uint32ToHex_loop (Suc i) v = uint32ToHex_loop i (drop_bit 4 v) @ [hd_digit (unat v mod 16)]"
  by (simp add: unat_and_15)

lemma nibbles_of_sum:
  assumes "x < 256"
  shows "(x + 256 * k) mod 16 = x mod 16" and "(x + 256 * k) div 16 mod 16 = x div 16"
    and "(x + 256 * k) div 16 div 16 = (k :: nat)"
proof -
  have e: "x + 256 * k = x + 16 * (16 * k)" by simp
  show "(x + 256 * k) mod 16 = x mod 16" unfolding e by (rule mod_mult_self2)
  have "(x + 256 * k) div 16 = x div 16 + 16 * k" unfolding e by (subst div_mult_self2) simp_all
  then show "(x + 256 * k) div 16 mod 16 = x div 16" and "(x + 256 * k) div 16 div 16 = k"
    using assms by simp_all
qed

lemma hex_digits_of_bytes:
  "uint32ToHex8 (word_of_nat (le_nat [b3, b2, b1, b0])) =
     byteToHex b0 @ byteToHex b1 @ byteToHex b2 @ byteToHex b3"
proof -
  let ?w = "word_of_nat (le_nat [b3, b2, b1, b0]) :: u32"
  have "le_nat [b3, b2, b1, b0] < 2 ^ 32"
    using le_nat_less [of "[b3, b2, b1, b0]"] by simp
  then have "unat ?w = le_nat [b3, b2, b1, b0]"
    by (simp add: unat_of_nat del: le_nat.simps of_nat_add)
  then have w: "unat ?w = unat b3 + 256 * (unat b2 + 256 * (unat b1 + 256 * (unat b0 + 256 * 0)))"
    by (simp only: le_nat.simps)
  have byte: "byteToHex b = [hd_digit (unat b div 16), hd_digit (unat b mod 16)]" for b
    by (simp add: byteToHex_def unat_shift_4 unat_and_15)
  note pull = nibbles_of_sum [OF byte_less]
  have "8 = Suc (Suc (Suc (Suc (Suc (Suc (Suc (Suc 0)))))))" by simp
  then show ?thesis
    unfolding uint32ToHex8_def
    by (simp only: loop_Suc uint32ToHex_loop.simps(1) unat_shift_4 w pull byte append.simps)
qed

lemma opcode_text_bytes:
  assumes "length bs = 4"
  shows "opcode_text bs = concat (map byteToHex bs)"
proof -
  from assms obtain b0 b1 b2 b3 where bs: "bs = [b0, b1, b2, b3]"
    by (auto simp: length_Suc_conv numeral_eq_Suc)
  then have "take 4 bs = [b0, b1, b2, b3]" by simp
  then show ?thesis
    unfolding opcode_text_def TO_LITTLE_ENDIAN_bytes hex_digits_of_bytes
    by (simp only: TO_LITTLE_ENDIAN_bytes hex_digits_of_bytes) (simp add: bs)
qed

subsection \<open>Properties\<close>

text \<open>The register map: no two capstone registers share an engine register, every mapped register
  is of a kind the printer prints, and a mapped register either has a slot among the 33 cached
  values or is a vector register, so the cached array is never read outside its bounds.\<close>

lemma register_map_injective:
  assumes "mapToUnicornReg a \<noteq> -1"
  shows "(mapToUnicornReg a = mapToUnicornReg b \<longrightarrow> a = b) \<and> reg_printed (mapToUnicornReg a) \<and>
    (cachedXRegIndex (mapToUnicornReg a) = -1 \<longleftrightarrow>
      VC_REG_Q0 \<le> mapToUnicornReg a \<and> mapToUnicornReg a \<le> VC_REG_Q0 + 31) \<and>
    -1 \<le> cachedXRegIndex (mapToUnicornReg a) \<and> cachedXRegIndex (mapToUnicornReg a) < 33"
proof -
  have "reg_number i \<noteq> -1 \<Longrightarrow> (cachedXRegIndex (reg_number i) = -1 \<longleftrightarrow>
      VC_REG_Q0 \<le> reg_number i \<and> reg_number i \<le> VC_REG_Q0 + 31)" for i
    by (auto simp: reg_number_def cachedXRegIndex_def vc_regs split: if_splits)
  moreover have "mapToUnicornReg a = mapToUnicornReg b \<Longrightarrow> a = b"
    using assms reg_number_inj unfolding mapToUnicornReg_eq by (metis word_unat_eq_iff)
  ultimately show ?thesis
    using assms mapped_printed [OF assms] cachedXRegIndex_range [of "mapToUnicornReg a"]
    unfolding mapToUnicornReg_eq by auto
qed

lemma register_map_injective_witness:
  "mapToUnicornReg 235 \<noteq> mapToUnicornReg 204 \<and> reg_printed (mapToUnicornReg 235) \<and>
    cachedXRegIndex (mapToUnicornReg 235) < 33"
proof -
  have "mapToUnicornReg 235 \<noteq> -1" by (simp add: mapToUnicornReg_eq reg_number_def)
  from register_map_injective [OF this, of 204] show ?thesis by simp
qed

text \<open>The opcode column: the eight digits in brackets are the four bytes of the instruction in
  memory order, two digits each.\<close>

theorem opcode_column:
  assumes "length bytes = 4"
  shows "opcode_text bytes = concat (map byteToHex bytes)"
  using opcode_text_bytes [OF assms] .

lemma opcode_column_witness:
  "opcode_text [0x1f, 0x20, 0x03, 0xd5] = concat (map byteToHex [0x1f, 0x20, 0x03, 0xd5])"
  by (rule opcode_column) simp

text \<open>The registers of a line: for the printer's own address the text is the items of the
  registers up to the first unmapped one, in order, after one arrow for written registers, and the
  arrow is spent exactly when an item was printed; for another address nothing happens. A register
  outside the map (the zero register, for one) ends the list: those behind it are not printed.\<close>

lemma register_items:
  "regAccessPrinterImpl uc names address p =
    (if rp_address p = address
     then (let ms = takeWhile (\<lambda>r. mapToUnicornReg r \<noteq> -1) (rp_regs p) in
           ((if rp_forWriteRegs p \<and> ms \<noteq> [] then '' =>'' else []) @
              concat (map (\<lambda>r. reg_text uc names (rp_cached p) r (mapToUnicornReg r)) ms),
            p\<lparr>rp_forWriteRegs := (rp_forWriteRegs p \<and> ms = [])\<rparr>))
     else ([], p))"
  by (simp add: regAccessPrinterImpl_def reg_loop_eq Let_def)

text \<open>A register after the zero register is lost: \<open>AARCH64_REG_XZR\<close> is 10; with it in front the
  value of \<open>x0\<close> is not printed, although \<open>x0\<close> alone is.\<close>

lemma register_after_xzr_lost:
  "fst (regAccessPrinterImpl uc names 4096
      \<lparr>rp_address = 4096, rp_regs = [10, 235], rp_forWriteRegs = False, rp_cached = None\<rparr>) = [] \<and>
   fst (regAccessPrinterImpl uc names 4096
      \<lparr>rp_address = 4096, rp_regs = [235], rp_forWriteRegs = False, rp_cached = None\<rparr>) \<noteq> []"
  by (simp add: regAccessPrinterImpl_def mapToUnicornReg_eq reg_number_def reg_printed_def vc_regs
      reg_text_def)

end
