(* ===== verification/Safe_Mem.thy ===== *)
theory Safe_Mem
  imports Text_Builder
begin

text \<open>
  \<open>trace/include/SafeMemRead.h\<close>: reads of the traced program's memory through \<open>process_vm_readv\<close>,
  which fails instead of faulting. The memory is an argument, a partial map from addresses to bytes;
  the call reads all of a range or reports failure. \<open>ps\<close> is the page size of \<open>sysconf\<close>. The results
  say what readers rely on when readability does not change inside a page.
\<close>

type_synonym mem = "nat \<Rightarrow> byte option"

definition read_range :: "mem \<Rightarrow> nat \<Rightarrow> nat \<Rightarrow> byte list option" where
  "read_range m addr len =
     (if list_all (\<lambda>a. m a \<noteq> None) [addr..<addr + len] then Some (map (\<lambda>a. the (m a)) [addr..<addr + len])
      else None)"

definition safe_host_read :: "mem \<Rightarrow> nat \<Rightarrow> nat \<Rightarrow> byte list option" where
  "safe_host_read m addr len =
     (if addr = 0 \<or> addr < 0x1000 \<or> len = 0 then None else read_range m addr len)"

definition chars_of :: "byte list \<Rightarrow> string" where
  "chars_of bs = map (\<lambda>b. char_of (unat b)) bs"

text \<open>The bytes up to the first NUL; \<open>True\<close> when there was one.\<close>

fun scan_nul :: "byte list \<Rightarrow> byte list \<times> bool" where
  "scan_nul [] = ([], False)"
| "scan_nul (b # bs) = (if b = 0 then ([], True) else (b # fst (scan_nul bs), snd (scan_nul bs)))"

text \<open>The size of one read: to the end of the page, of the room and of \<open>tmp\<close>.\<close>

definition chunk_size :: "nat \<Rightarrow> nat \<Rightarrow> nat \<Rightarrow> nat" where
  "chunk_size ps a room = min (min room (ps - a mod ps)) 4096"

lemma scan_nul_length: "snd (scan_nul bs) = False \<Longrightarrow> fst (scan_nul bs) = bs"
  by (induction bs) (auto split: if_splits)

lemma safe_host_read_length: "safe_host_read m a len = Some bs \<Longrightarrow> 0 < len \<and> length bs = len"
  by (auto simp: safe_host_read_def read_range_def split: if_splits)

text \<open>The loop shared by \<open>safe_read_cstr\<close> and \<open>appendCStr\<close>: what was read, and whether a NUL ended it.\<close>

function cstr_loop :: "mem \<Rightarrow> nat \<Rightarrow> nat \<Rightarrow> nat \<Rightarrow> nat \<Rightarrow> byte list \<times> bool" where
  "cstr_loop m ps addr maxlen i =
     (if i < maxlen then
        (case safe_host_read m (addr + i) (chunk_size ps (addr + i) (maxlen - i)) of
           None \<Rightarrow> ([], False)
         | Some tmp \<Rightarrow>
             if snd (scan_nul tmp) then (fst (scan_nul tmp), True)
             else (tmp @ fst (cstr_loop m ps addr maxlen (i + length tmp)),
                   snd (cstr_loop m ps addr maxlen (i + length tmp))))
      else ([], False))"
  by pat_completeness auto
termination
  by (relation "measure (\<lambda>(m, ps, addr, maxlen, i). maxlen - i)")
     (auto dest: safe_host_read_length)

declare cstr_loop.simps [simp del]

text \<open>
  \<open>None\<close> is -1. The length counts what was read; the buffer ends with a NUL, which overwrites the
  last character when the buffer is full.
\<close>

definition safe_read_cstr :: "mem \<Rightarrow> nat \<Rightarrow> nat \<Rightarrow> nat \<Rightarrow> (nat \<times> byte list) option" where
  "safe_read_cstr m ps addr maxlen =
     (if addr = 0 \<or> addr < 0x1000 \<or> maxlen = 0 then None
      else (let r = cstr_loop m ps addr maxlen 0 in
        if snd r then Some (length (fst r), fst r)
        else if fst r \<noteq> []
        then Some (length (fst r), take (min (length (fst r)) (maxlen - 1)) (fst r))
        else None))"

definition safe_looks_like_cstr :: "mem \<Rightarrow> nat \<Rightarrow> int \<Rightarrow> bool" where
  "safe_looks_like_cstr m addr min_printable =
     (if addr = 0 \<or> addr < 0x1000 then False
      else (case safe_host_read m addr 256 of
              None \<Rightarrow> False
            | Some buf \<Rightarrow>
                (let s = fst (scan_nul buf) in
                 list_all (\<lambda>c. 32 \<le> unat c \<and> unat c \<le> 126) s \<and> int (length s) \<ge> min_printable)))"

definition SAFETY_CAP :: nat where "SAFETY_CAP = 4096"

text \<open>The text appended and the result.\<close>

definition appendCStr :: "mem \<Rightarrow> nat \<Rightarrow> nat \<Rightarrow> string \<times> bool" where
  "appendCStr m ps addr =
     (if addr = 0 \<or> addr < 0x1000 then ([], False)
      else (let r = cstr_loop m ps addr SAFETY_CAP 0 in
            (chars_of (fst r), snd r \<or> fst r \<noteq> [])))"

subsection \<open>What the page-wise loop reads\<close>

definition readable_char :: "mem \<Rightarrow> nat \<Rightarrow> bool" where
  "readable_char m a \<longleftrightarrow> (\<exists>b. m a = Some b \<and> b \<noteq> 0)"

definition cstr_at :: "mem \<Rightarrow> nat \<Rightarrow> nat \<Rightarrow> byte list" where
  "cstr_at m addr n = map (\<lambda>a. the (m a)) (takeWhile (readable_char m) [addr..<addr + n])"

definition pagewise :: "mem \<Rightarrow> nat \<Rightarrow> bool" where
  "pagewise m ps \<longleftrightarrow> 0 < ps \<and> (\<forall>a b. a div ps = b div ps \<longrightarrow> (m a = None \<longleftrightarrow> m b = None))"

lemma takeWhile_upt_split:
  assumes "a \<le> b" and "b \<le> c"
  shows "takeWhile P [a..<c] =
    (if list_all P [a..<b] then [a..<b] @ takeWhile P [b..<c] else takeWhile P [a..<b])"
proof -
  have s: "[a..<c] = [a..<b] @ [b..<c]" using upt_add_eq_append [OF assms(1), of "c - b"] assms(2) by simp
  show ?thesis
  proof (cases "list_all P [a..<b]")
    case True
    then have "\<forall>x\<in>set [a..<b]. P x" by (simp add: list_all_iff)
    with True show ?thesis unfolding s by (simp only: takeWhile_append2 if_True)
  next
    case False
    then obtain x where "x \<in> set [a..<b]" "\<not> P x" by (auto simp: list_all_iff)
    then have "takeWhile P ([a..<b] @ ys) = takeWhile P [a..<b]" for ys
      by (rule takeWhile_append1)
    with False show ?thesis by (simp add: s)
  qed
qed

lemma read_range_SomeD:
  "read_range m a n = Some bs \<Longrightarrow> bs = map (\<lambda>x. the (m x)) [a..<a + n] \<and> (\<forall>x\<in>{a..<a + n}. m x \<noteq> None)"
  by (auto simp: read_range_def list_all_iff split: if_splits)

lemma scan_nul_map:
  "\<forall>x\<in>set xs. m x \<noteq> None \<Longrightarrow>
   fst (scan_nul (map (\<lambda>x. the (m x)) xs)) = map (\<lambda>x. the (m x)) (takeWhile (readable_char m) xs) \<and>
   (snd (scan_nul (map (\<lambda>x. the (m x)) xs)) \<longleftrightarrow> \<not> list_all (readable_char m) xs)"
  by (induction xs) (auto simp: readable_char_def)

text \<open>A chunk stays inside one page.\<close>

lemma chunk_same_page:
  assumes "0 < ps" and "x < a + chunk_size ps a room" and "a \<le> x"
  shows "x div ps = a div ps"
proof -
  have "x < a + (ps - a mod ps)" using assms(2) by (simp add: chunk_size_def)
  then have "x < ps * (a div ps) + ps"
    using assms(1) mult_div_mod_eq [of ps a] mod_less_divisor [OF assms(1), of a] by linarith
  moreover have "ps * (a div ps) \<le> x"
    using assms(3) by (metis le_trans times_div_less_eq_dividend)
  ultimately show ?thesis
    by (metis add.commute div_nat_eqI mult.commute mult_Suc)
qed

lemma chunk_pos: "0 < ps \<Longrightarrow> 0 < room \<Longrightarrow> 0 < chunk_size ps a room"
  by (simp add: chunk_size_def)

lemma chunk_le: "chunk_size ps a room \<le> room"
  by (simp add: chunk_size_def)

lemma cstr_loop_eq:
  assumes pg: "pagewise m ps" and "0x1000 \<le> addr"
  shows "i \<le> maxlen \<Longrightarrow> fst (cstr_loop m ps addr maxlen i) = cstr_at m (addr + i) (maxlen - i) \<and>
    (snd (cstr_loop m ps addr maxlen i) \<longleftrightarrow>
      length (cstr_at m (addr + i) (maxlen - i)) < maxlen - i \<and>
      m (addr + i + length (cstr_at m (addr + i) (maxlen - i))) = Some 0)"
proof (induction "maxlen - i" arbitrary: i rule: less_induct)
  case less
  show ?case
  proof (cases "i < maxlen")
    case False
    then have "cstr_loop m ps addr maxlen i = ([], False)" by (subst cstr_loop.simps) simp
    with False show ?thesis by (simp add: cstr_at_def)
  next
    case True
    define a where "a = addr + i"
    define c where "c = chunk_size ps a (maxlen - i)"
    have ps: "0 < ps" using pg by (simp add: pagewise_def)
    have c: "0 < c" "c \<le> maxlen - i"
      using True ps chunk_pos chunk_le by (simp_all add: c_def)
    have hi: "addr + maxlen = a + (maxlen - i)" using True by (simp add: a_def)
    have rd: "safe_host_read m a c = read_range m a c"
      using assms(2) c by (simp add: safe_host_read_def a_def)
    have page: "m x = None \<longleftrightarrow> m a = None" if "x \<in> {a..<a + c}" for x
    proof -
      have "x div ps = a div ps"
        by (rule chunk_same_page [OF ps, of x a "maxlen - i"]) (use that in \<open>simp_all add: c_def\<close>)
      with pg show ?thesis unfolding pagewise_def by blast
    qed
    show ?thesis
    proof (cases "m a = None")
      case none: True
      then have "read_range m a c = None" using c by (auto simp: read_range_def list_all_iff)
      moreover have "\<not> readable_char m a" using none by (simp add: readable_char_def)
      then have "cstr_at m a (maxlen - i) = []"
        using True by (simp add: cstr_at_def upt_conv_Cons)
      moreover have "cstr_loop m ps addr maxlen i = ([], False)"
        using True rd calculation(1) by (subst cstr_loop.simps) (simp flip: a_def c_def)
      ultimately show ?thesis using none by (simp flip: a_def)
    next
      case some: False
      have all: "\<forall>x\<in>{a..<a + c}. m x \<noteq> None"
      proof
        fix x assume "x \<in> {a..<a + c}"
        from page [OF this] some show "m x \<noteq> None" by simp
      qed
      then have tmp: "read_range m a c = Some (map (\<lambda>x. the (m x)) [a..<a + c])"
        by (simp add: read_range_def list_all_iff)
      let ?tmp = "map (\<lambda>x. the (m x)) [a..<a + c]"
      note sc = scan_nul_map [of "[a..<a + c]" m]
      have split: "cstr_at m a (maxlen - i) =
          (if list_all (readable_char m) [a..<a + c] then ?tmp @ cstr_at m (a + c) (maxlen - (i + c))
           else map (\<lambda>x. the (m x)) (takeWhile (readable_char m) [a..<a + c]))"
        using takeWhile_upt_split [of a "a + c" "a + (maxlen - i)" "readable_char m"] c
        by (simp add: cstr_at_def add.assoc)
      show ?thesis
      proof (cases "list_all (readable_char m) [a..<a + c]")
        case all_chars: True
        then have ns: "\<not> snd (scan_nul ?tmp)" using sc all by simp
        have IH: "fst (cstr_loop m ps addr maxlen (i + c)) = cstr_at m (addr + (i + c)) (maxlen - (i + c)) \<and>
          (snd (cstr_loop m ps addr maxlen (i + c)) \<longleftrightarrow>
            length (cstr_at m (addr + (i + c)) (maxlen - (i + c))) < maxlen - (i + c) \<and>
            m (addr + (i + c) + length (cstr_at m (addr + (i + c)) (maxlen - (i + c)))) = Some 0)"
          using c True by (intro less.hyps) simp_all
        have eq: "addr + (i + c) = a + c" by (simp add: a_def)
        have "cstr_loop m ps addr maxlen i = (?tmp @ fst (cstr_loop m ps addr maxlen (i + c)),
            snd (cstr_loop m ps addr maxlen (i + c)))"
          using True rd tmp ns by (subst cstr_loop.simps) (simp flip: a_def c_def)
        with IH show ?thesis
          unfolding eq using split all_chars c by (auto simp flip: a_def simp: add.assoc)
      next
        case nul: False
        then have s: "snd (scan_nul ?tmp)" using sc all by simp
        let ?t = "takeWhile (readable_char m) [a..<a + c]"
        have lt: "length ?t < c"
          using nul length_takeWhile_le [of "readable_char m" "[a..<a + c]"] takeWhile_eq_all_conv
          by (metis length_upt add_diff_cancel_left' le_neq_implies_less list_all_iff set_takeWhileD
              takeWhile_eq_take take_all_iff)
        then have "\<not> readable_char m ([a..<a + c] ! length ?t)"
          using nth_length_takeWhile [of "readable_char m" "[a..<a + c]"] by simp
        then have z: "m (a + length ?t) = Some 0" using lt all by (force simp: readable_char_def)
        have "cstr_loop m ps addr maxlen i = (fst (scan_nul ?tmp), True)"
          using True rd tmp s by (subst cstr_loop.simps) (simp flip: a_def c_def)
        then show ?thesis
          using sc all split nul lt z c by (simp flip: a_def)
      qed
    qed
  qed
qed

subsection \<open>Properties\<close>

text \<open>C22 (strings of the traced program): if readability does not change inside a page, the page-wise
  reader reads exactly the characters before the first NUL, unreadable byte or the end of the
  buffer, wherever pages end; it fails exactly when there is no room or the first byte cannot be
  read, and the length it reports is that of the string even when the terminator of a full buffer
  overwrites the last character.\<close>

theorem safe_read_cstr_reads:
  assumes "pagewise m ps" and "0x1000 \<le> addr"
  shows "safe_read_cstr m ps addr maxlen =
    (let s = map (\<lambda>a. the (m a)) (takeWhile (\<lambda>a. m a \<noteq> None \<and> m a \<noteq> Some 0) [addr..<addr + maxlen]) in
     if maxlen = 0 \<or> m addr = None then None
     else Some (length s, if length s = maxlen then butlast s else s))"
proof -
  have rc: "(\<lambda>a. m a \<noteq> None \<and> m a \<noteq> Some 0) = readable_char m"
    by (intro ext) (auto simp: readable_char_def)
  let ?s = "cstr_at m addr maxlen"
  note lp = cstr_loop_eq [OF assms, of 0 maxlen, simplified]
  have le: "length ?s \<le> maxlen"
    using length_takeWhile_le [of "readable_char m" "[addr..<addr + maxlen]"] by (simp add: cstr_at_def)
  have "?s = [] \<longleftrightarrow> \<not> readable_char m addr" if "0 < maxlen"
    using that by (simp add: cstr_at_def upt_conv_Cons)
  then show ?thesis
    using lp le assms(2) unfolding rc
    by (cases "m addr") (auto simp: safe_read_cstr_def Let_def cstr_at_def [symmetric] readable_char_def
        butlast_conv_take min_def split: if_splits)
qed

text \<open>Two pages at 4096 and 8192, the second unreadable, for the witness.\<close>

definition demo_mem :: mem where
  "demo_mem a = (if 4096 \<le> a \<and> a < 8192 then Some 65 else None)"

lemma safe_read_cstr_reads_witness:
  "safe_read_cstr demo_mem 4096 8190 256 =
    (let s = map (\<lambda>a. the (demo_mem a))
       (takeWhile (\<lambda>a. demo_mem a \<noteq> None \<and> demo_mem a \<noteq> Some 0) [8190..<8190 + 256]) in
     if (256 :: nat) = 0 \<or> demo_mem 8190 = None then None
     else Some (length s, if length s = 256 then butlast s else s))"
proof (rule safe_read_cstr_reads)
  have "4096 \<le> a \<and> a < 8192 \<longleftrightarrow> a div 4096 = 1" for a :: nat by auto
  then show "pagewise demo_mem 4096" by (simp add: pagewise_def demo_mem_def)
qed simp

text \<open>A string that ends near the end of its mapping is not recognised: the check reads 256 bytes
  at once, so a short string with fewer mapped bytes behind it is not taken for a string, while the
  page-wise reader reads it.\<close>

lemma looks_like_cstr_near_end:
  "safe_looks_like_cstr (\<lambda>a. if 4096 \<le> a \<and> a < 8191 then Some 65 else if a = 8191 then Some 0 else None) 8180 4 = False \<and>
   fst (appendCStr (\<lambda>a. if 4096 \<le> a \<and> a < 8191 then Some 65 else if a = 8191 then Some 0 else None) 4096 8180) =
     replicate 11 (CHR ''A'')"
proof -
  let ?m = "\<lambda>a. if 4096 \<le> a \<and> a < 8191 then Some 65 else if a = 8191 then Some (0 :: byte) else None"
  have "read_range ?m 8180 256 = None"
    by (auto simp: read_range_def list_all_iff simp del: upt_rec_numeral intro!: bexI [of _ "8192 :: nat"])
  then have "safe_looks_like_cstr ?m 8180 4 = False"
    by (simp add: safe_looks_like_cstr_def safe_host_read_def)
  moreover have "4096 \<le> a \<and> a < 8191 \<or> a = 8191 \<longleftrightarrow> a div 4096 = 1" for a :: nat by auto
  then have "pagewise ?m 4096" by (simp add: pagewise_def) (metis)
  then have "fst (cstr_loop ?m 4096 8180 4096 0) = cstr_at ?m 8180 4096"
    using cstr_loop_eq [of ?m 4096 8180 0 4096] by simp
  moreover have "cstr_at ?m 8180 4096 = replicate 11 65"
  proof -
    have "list_all (readable_char ?m) [8180..<8191]"
      by (auto simp: list_all_iff readable_char_def)
    moreover have "takeWhile (readable_char ?m) [8191..<12276] = []"
      by (simp add: upt_conv_Cons readable_char_def del: upt_rec_numeral)
    ultimately have "takeWhile (readable_char ?m) [8180..<12276] = [8180..<8191]"
      using takeWhile_upt_split [of 8180 8191 12276 "readable_char ?m"]
      by (simp del: upt_rec_numeral upt_Suc)
    then have "cstr_at ?m 8180 4096 = map (\<lambda>a. the (?m a)) [8180..<8191]"
      by (simp add: cstr_at_def del: upt_rec_numeral upt_Suc)
    moreover have "map (\<lambda>a. the (?m a)) [8180..<8191] = replicate 11 65"
      by (rule nth_equalityI) (simp_all del: upt_rec_numeral upt_Suc)
    ultimately show ?thesis by simp
  qed
  moreover have "char_of (65 :: nat) = CHR ''A''" by code_simp
  ultimately show ?thesis by (simp add: appendCStr_def SAFETY_CAP_def chars_of_def Let_def)
qed

end
