(* ===== verification/Mem_Printer.thy ===== *)
theory Mem_Printer
  imports Reg_Access Safe_Mem
begin

text \<open>
  \<open>trace/src/MemPrinter.cpp\<close>: the width of a memory access, its address from the operands of the instruction,
  the record of the access that the next trace line prints, and the hexdumps. An instruction is what
  capstone decoded (\<open>thirdparty/include/capstone/aarch64.h\<close>); \<open>rd\<close> is the engine's register read, \<open>None\<close> its
  error. The engine's number of a register is -1 when there is none.
\<close>

subsection \<open>Instructions\<close>

text \<open>The instruction numbers that the sources name.\<close>

datatype insn_id =
    LDRB | STRB | LDURB | STURB | LDRSB | LDURSB
  | LDRH | STRH | LDURH | STURH | LDRSH | LDURSH
  | LDRSW | LDURSW | LDPSW
  | LDP | STP | LDNP | STNP
  | INS_BL | INS_B | INS_BR | INS_BLR | INS_RET | INS_SVC
  | OtherInsn nat

datatype op_kind = OP_REG | OP_IMM | OP_MEM | OP_OTHER

record mem_operand =
  mo_base :: nat
  mo_index :: nat
  mo_disp :: u32

record cs_op =
  op_kind :: op_kind
  op_reg :: nat
  op_imm :: u64
  op_mem :: mem_operand
  op_shift :: nat
  op_access :: u8

record cs_detail =
  cd_writeback :: bool
  cd_post_index :: bool
  cd_ops :: "cs_op list"

record insn = cs_insn +
  in_id :: insn_id
  in_address :: u64
  in_detail :: "cs_detail option"

definition CS_AC_READ :: u8 where "CS_AC_READ = 1"
definition CS_AC_WRITE :: u8 where "CS_AC_WRITE = 2"
definition REG_INVALID :: nat where "REG_INVALID = 0"

subsection \<open>The size of an access\<close>

definition aarch64_reg_width :: "nat \<Rightarrow> nat" where
  "aarch64_reg_width r =
     (if 12 \<le> r \<and> r \<le> 43 then 1
      else if 76 \<le> r \<and> r \<le> 107 then 2
      else if 172 \<le> r \<and> r \<le> 203 then 4
      else if 44 \<le> r \<and> r \<le> 75 then 8
      else if 140 \<le> r \<and> r \<le> 171 then 16
      else if 204 \<le> r \<and> r \<le> 234 then 4
      else if 235 \<le> r \<and> r \<le> 263 then 8
      else if r = 9 \<or> r = 8 then 4
      else if r = 10 \<or> r = 6 \<or> r = 2 \<or> r = 4 then 8
      else 0)"

definition fixed_size :: "insn_id \<Rightarrow> nat option" where
  "fixed_size i =
     (if i \<in> {LDRB, STRB, LDURB, STURB, LDRSB, LDURSB} then Some 1
      else if i \<in> {LDRH, STRH, LDURH, STURH, LDRSH, LDURSH} then Some 2
      else if i \<in> {LDRSW, LDURSW} then Some 4
      else if i = LDPSW then Some 8
      else None)"

text \<open>The widest register operand and how many there are.\<close>

fun width_loop :: "cs_op list \<Rightarrow> nat \<Rightarrow> nat \<Rightarrow> nat \<times> nat" where
  "width_loop [] w nregs = (w, nregs)"
| "width_loop (p # ps) w nregs =
     (let rw = aarch64_reg_width (op_reg p) in
      if op_kind p \<noteq> OP_REG \<or> rw = 0 then width_loop ps w nregs
      else width_loop ps (if w < rw then rw else w) (nregs + 1))"

definition arm64_get_mem_access_size :: "insn \<Rightarrow> nat" where
  "arm64_get_mem_access_size i =
     (case fixed_size (in_id i) of
        Some n \<Rightarrow> n
      | None \<Rightarrow>
          (case in_detail i of
             None \<Rightarrow> 8
           | Some d \<Rightarrow>
               (let r = width_loop (cd_ops d) 0 0 in
                if fst r = 0 then 8
                else if 2 \<le> snd r \<and> in_id i \<in> {LDP, STP, LDNP, STNP} then fst r * 2
                else fst r)))"

subsection \<open>The address\<close>

definition read_reg :: "(int \<Rightarrow> u64 option) \<Rightarrow> u64 list option \<Rightarrow> int \<Rightarrow> u64 option" where
  "read_reg rd cached r =
     (case cached of
        Some c \<Rightarrow> if 0 \<le> cachedXRegIndex r then Some (c ! nat (cachedXRegIndex r)) else rd r
      | None \<Rightarrow> rd r)"

definition reg_of :: "nat \<Rightarrow> int" where
  "reg_of r = mapToUnicornReg (word_of_nat r)"

text \<open>\<open>None\<close> is \<open>continue\<close>: the base register cannot be read.\<close>

definition base_value :: "(int \<Rightarrow> u64 option) \<Rightarrow> u64 list option \<Rightarrow> nat \<Rightarrow> u64 option" where
  "base_value rd cached r =
     (if r = REG_INVALID then Some 0 else if reg_of r < 0 then None else read_reg rd cached (reg_of r))"

definition index_value :: "(int \<Rightarrow> u64 option) \<Rightarrow> u64 list option \<Rightarrow> nat \<Rightarrow> u64" where
  "index_value rd cached r =
     (if r = REG_INVALID \<or> reg_of r < 0 then 0
      else (case read_reg rd cached (reg_of r) of None \<Rightarrow> 0 | Some v \<Rightarrow> v))"

text \<open>A literal: the displacement replaces the low half of the instruction's address.\<close>

definition literal_addr :: "u64 \<Rightarrow> u32 \<Rightarrow> u64" where
  "literal_addr pc disp = (pc AND NOT 0xFFFFFFFF) OR ucast disp"

definition mem_addr :: "u64 \<Rightarrow> mem_operand \<Rightarrow> u64 \<Rightarrow> u64 \<Rightarrow> u64 \<Rightarrow> u64" where
  "mem_addr pc mo base index off =
     (if mo_base mo = REG_INVALID \<and> mo_index mo = REG_INVALID then literal_addr pc (mo_disp mo)
      else base + index + off)"

subsection \<open>The pending access\<close>

record pending_access =
  pa_is_load :: bool
  pa_size :: nat
  pa_last :: u64

text \<open>\<open>appendMemoryHexdump(uc, pendingAccess, cachedXRegs)\<close>, operand by operand.\<close>

fun pending_loop ::
  "(int \<Rightarrow> u64 option) \<Rightarrow> u64 list option \<Rightarrow> insn \<Rightarrow> cs_detail \<Rightarrow> cs_op list \<Rightarrow> pending_access \<Rightarrow> pending_access" where
  "pending_loop rd cached i d [] p = p"
| "pending_loop rd cached i d (q # qs) p =
     (let mo = op_mem q in
      if op_kind q \<noteq> OP_MEM then pending_loop rd cached i d qs p
      else if mo_disp mo = 0 \<and> mo_index mo = 0 \<and> mo_base mo \<noteq> 0 then p
      else (case base_value rd cached (mo_base mo) of
              None \<Rightarrow> pending_loop rd cached i d qs p
            | Some base \<Rightarrow>
                (let off = (if cd_writeback d \<and> cd_post_index d then 0 else scast (mo_disp mo));
                     addr = mem_addr (in_address i) mo base (index_value rd cached (mo_index mo)) off;
                     p' = p\<lparr>pa_last := addr, pa_size := arm64_get_mem_access_size i\<rparr> in
                 if op_access q = CS_AC_WRITE
                 then (if mo_base mo = AARCH64_REG_FP then p'\<lparr>pa_last := 0\<rparr> else p'\<lparr>pa_is_load := False\<rparr>)
                 else pending_loop rd cached i d qs (p'\<lparr>pa_is_load := True\<rparr>))))"

definition pending_of ::
  "(int \<Rightarrow> u64 option) \<Rightarrow> u64 list option \<Rightarrow> insn \<Rightarrow> pending_access \<Rightarrow> pending_access" where
  "pending_of rd cached i p =
     (case in_detail i of None \<Rightarrow> p | Some d \<Rightarrow> pending_loop rd cached i d (cd_ops d) p)"

subsection \<open>Hexdumps\<close>

definition hex_cell :: "byte list \<Rightarrow> nat \<Rightarrow> string" where
  "hex_cell buf k = (if k < length buf then byteToHex (buf ! k) @ '' '' else ''   '')"

definition ascii_cell :: "byte \<Rightarrow> char" where
  "ascii_cell b = (if 32 \<le> unat b \<and> unat b \<le> 126 then char_of (unat b) else CHR ''.'')"

definition dump_row :: "u64 \<Rightarrow> byte list \<Rightarrow> nat \<Rightarrow> string" where
  "dump_row addr buf i =
     uint64ToHexPadded (addr + word_of_nat i) 16 @ '': '' @ concat (map (\<lambda>j. hex_cell buf (i + j)) [0..<16]) @ '' |'' @
     map ascii_cell (take 16 (drop i buf)) @ ''|'' @ [CHR 0x0A]"

function dump_rows :: "u64 \<Rightarrow> byte list \<Rightarrow> nat \<Rightarrow> string" where
  "dump_rows addr buf i = (if i < length buf then dump_row addr buf i @ dump_rows addr buf (i + 16) else [])"
  by pat_completeness auto
termination
  by (relation "measure (\<lambda>(addr, buf, i). length buf - i)") auto

declare dump_rows.simps [simp del]

definition hexDump :: "u64 \<Rightarrow> byte list \<Rightarrow> string" where
  "hexDump addr buf = dump_rows addr buf 0"

text \<open>\<open>appendHexDump\<close> is the same loop into a builder.\<close>

definition appendHexDump :: "u64 \<Rightarrow> byte list \<Rightarrow> string" where
  "appendHexDump addr buf = dump_rows addr buf 0"

text \<open>The text of \<open>printCString\<close>: on failure the 13 characters of the label are taken back.\<close>

definition printCString :: "mem \<Rightarrow> nat \<Rightarrow> u64 \<Rightarrow> string" where
  "printCString m ps a =
     (if snd (appendCStr m ps (unat a))
      then ''    string: '' @ [CHR 0x22] @ fst (appendCStr m ps (unat a)) @ [CHR 0x22, CHR 0x0A] else [])"

definition tryPrintRegisterAsPointer :: "mem \<Rightarrow> nat \<Rightarrow> u64 \<Rightarrow> string" where
  "tryPrintRegisterAsPointer m ps val =
     (if val = 0 \<or> val < 0x1000 then []
      else if safe_looks_like_cstr m (unat val) 3 then printCString m ps val
      else (case safe_host_read m (unat val) 32 of None \<Rightarrow> [] | Some tmp \<Rightarrow> appendHexDump val tmp))"

subsection \<open>The full dump of an instruction\<close>

definition is_reg_read :: "cs_op \<Rightarrow> bool" where
  "is_reg_read p \<longleftrightarrow> op_kind p = OP_REG \<and> op_access p AND CS_AC_READ \<noteq> 0"

definition rw_label :: "u8 \<Rightarrow> string" where
  "rw_label a = (if a AND CS_AC_WRITE \<noteq> 0 then ''WRITE'' else if a AND CS_AC_READ \<noteq> 0 then ''READ'' else ''ACCESS'')"

definition source_text :: "mem \<Rightarrow> nat \<Rightarrow> (nat \<Rightarrow> string option) \<Rightarrow> nat \<Rightarrow> u64 \<Rightarrow> string" where
  "source_text m ps cs_reg_name r v =
     ''    value from '' @ (case cs_reg_name r of None \<Rightarrow> ''?'' | Some n \<Rightarrow> c_str n) @ '' = 0x'' @ uint64ToHex v @ [CHR 0x0A] @
     (if v = 0 then []
      else if safe_looks_like_cstr m (unat v) 3
      then ''    ascii: '' @ [CHR 0x22] @ fst (appendCStr m ps (unat v)) @ [CHR 0x22, CHR 0x0A, CHR 0x0A]
      else ''    pointed data:'' @ [CHR 0x0A] @
        (case safe_host_read m (unat v) 32 of None \<Rightarrow> [] | Some bs \<Rightarrow> appendHexDump v bs))"

definition operand_dump ::
  "mem \<Rightarrow> nat \<Rightarrow> (nat \<Rightarrow> string option) \<Rightarrow> (int \<Rightarrow> u64 option) \<Rightarrow> insn \<Rightarrow> (nat \<times> u64) option \<Rightarrow> cs_op \<Rightarrow> string" where
  "operand_dump m ps names rd i src q =
     (case base_value rd None (mo_base (op_mem q)) of
        None \<Rightarrow> []
      | Some base \<Rightarrow>
          (let addr = mem_addr (in_address i) (op_mem q) base (index_value rd None (mo_index (op_mem q)))
                        (scast (mo_disp (op_mem q)));
               sz = (if arm64_get_mem_access_size i = 0 then 8 else arm64_get_mem_access_size i) in
           if addr = 0 then []
           else [CHR 0x0A] @ ''    [MEM '' @ rw_label (op_access q) @ '' @ 0x'' @ uint64ToHex addr @ '', size='' @
             uint64ToDec (word_of_nat sz) @ '']'' @ [CHR 0x0A] @
             (case src of
                None \<Rightarrow> []
              | Some (r, v) \<Rightarrow> if op_access q AND CS_AC_WRITE \<noteq> 0 then source_text m ps names r v else []) @
             (case safe_host_read m (unat addr) (min sz 64) of None \<Rightarrow> [] | Some bs \<Rightarrow> appendHexDump addr bs)))"

definition appendMemoryHexdump ::
  "mem \<Rightarrow> nat \<Rightarrow> (nat \<Rightarrow> string option) \<Rightarrow> (int \<Rightarrow> u64 option) \<Rightarrow> insn \<Rightarrow> string" where
  "appendMemoryHexdump m ps names rd i =
     (case in_detail i of
        None \<Rightarrow> []
      | Some d \<Rightarrow>
          (let src = (case find is_reg_read (cd_ops d) of
                        None \<Rightarrow> None
                      | Some p \<Rightarrow> Some (op_reg p,
                          if reg_of (op_reg p) < 0 then 0
                          else (case rd (reg_of (op_reg p)) of None \<Rightarrow> 0 | Some v \<Rightarrow> v))) in
           concat (map (operand_dump m ps names rd i src) (filter (\<lambda>q. op_kind q = OP_MEM) (cd_ops d)))))"

subsection \<open>Sizes and addresses of the usual forms\<close>

lemma width_loop_eq:
  "width_loop ps w n =
    (let rs = filter (\<lambda>p. op_kind p = OP_REG \<and> aarch64_reg_width (op_reg p) \<noteq> 0) ps in
     (fold (\<lambda>p w. max w (aarch64_reg_width (op_reg p))) rs w, n + length rs))"
  by (induction ps arbitrary: w n) (auto simp: Let_def max_def)

text \<open>The address registers: X0 to X28, FP, LR and SP have a slot among the cached values.\<close>

definition is_xreg :: "nat \<Rightarrow> bool" where
  "is_xreg r \<longleftrightarrow> 235 \<le> r \<and> r \<le> 263 \<or> r = AARCH64_REG_FP \<or> r = AARCH64_REG_LR \<or> r = AARCH64_REG_SP"

definition xreg_slot :: "nat \<Rightarrow> nat" where
  "xreg_slot r =
     (if r = AARCH64_REG_FP then 29 else if r = AARCH64_REG_LR then 30 else if r = AARCH64_REG_SP then 31 else r - 235)"

lemma xreg_index: "is_xreg r \<Longrightarrow> 0 \<le> reg_of r \<and> cachedXRegIndex (reg_of r) = int (xreg_slot r) \<and> xreg_slot r < 32"
  by (auto simp: is_xreg_def reg_of_def mapToUnicornReg_eq reg_number_def cachedXRegIndex_def xreg_slot_def vc_regs
      cs_regs unat_of_nat)

lemma read_xreg: "is_xreg r \<Longrightarrow> read_reg rd (Some c) (reg_of r) = Some (c ! xreg_slot r)"
  using xreg_index [of r] by (simp add: read_reg_def)

lemma is_xreg_valid: "is_xreg r \<Longrightarrow> r \<noteq> 0"
  by (auto simp: is_xreg_def cs_regs)

lemma base_xreg: "is_xreg r \<Longrightarrow> base_value rd (Some c) r = Some (c ! xreg_slot r)"
  using xreg_index [of r] is_xreg_valid [of r] by (simp add: base_value_def read_xreg REG_INVALID_def)

lemma index_xreg: "is_xreg r \<Longrightarrow> index_value rd (Some c) r = c ! xreg_slot r"
  using xreg_index [of r] is_xreg_valid [of r] by (simp add: index_value_def read_xreg REG_INVALID_def)

lemma pending_loop_skip:
  "list_all (\<lambda>p. op_kind p \<noteq> OP_MEM) rs \<Longrightarrow> pending_loop rd c i d (rs @ qs) p = pending_loop rd c i d qs p"
  by (induction rs) (auto simp: Let_def)

text \<open>The row of a hexdump shows the bytes it stands for.\<close>

lemma concat_map_blocks:
  assumes "\<And>j. length (f j) = k" and "j < n"
  shows "take k (drop (k * j) (concat (map f [0..<n]))) = f j"
  using assms(2)
proof (induction n)
  case (Suc n)
  have len: "length (concat (map f [0..<n])) = k * n"
    using assms(1) by (simp add: length_concat o_def sum_list_triv mult.commute)
  show ?case
  proof (cases "j = n")
    case True
    then show ?thesis using len assms(1) [of n] by simp
  next
    case False
    then have j: "j < n" using Suc.prems by simp
    then have "k * j + k \<le> k * n" using mult_le_mono2 [of "Suc j" n k] by simp
    then show ?thesis using Suc.IH [OF j] len by simp
  qed
qed simp

lemma dump_row_byte:
  assumes "j < 16" and "i + j < length buf"
  shows "take 2 (drop (18 + 3 * j) (dump_row addr buf i)) = byteToHex (buf ! (i + j))"
proof -
  let ?cells = "concat (map (\<lambda>j. hex_cell buf (i + j)) [0..<16])"
  have l: "length (hex_cell buf (i + j)) = 3" for j by (simp add: hex_cell_def)
  have "length ?cells = 48" using l by (simp add: length_concat o_def sum_list_triv)
  moreover have t: "take 3 (drop (3 * j) ?cells) = byteToHex (buf ! (i + j)) @ '' ''"
    using concat_map_blocks [of "\<lambda>j. hex_cell buf (i + j)" 3 j 16] l assms by (simp add: hex_cell_def del: upt_rec_numeral)
  ultimately have "take 2 (drop (18 + 3 * j) (dump_row addr buf i)) = take 2 (drop (3 * j) ?cells)"
    using assms(1) unfolding dump_row_def by (simp del: upt_rec_numeral)
  also have "\<dots> = take 2 (take 3 (drop (3 * j) ?cells))" by simp
  finally show ?thesis by (simp only: t) simp
qed

subsection \<open>Properties\<close>

text \<open>C32 (the access recorded for a line), case by case: take an instruction whose last operand is its memory operand, on an
  address register with an immediate or an unshifted index register. With neither index nor displacement (a bare \<open>[Xn]\<close>, or a
  post-indexed access that capstone gives no displacement) nothing is recorded. An operand that is only written, relative to the frame
  pointer, is recorded with the address 0. Otherwise the recorded address is the effective address: base plus index plus
  sign-extended displacement, the base alone after a post-index; it is recorded as a store when the operand is only written and as a
  load otherwise, also when the operand is both read and written.\<close>

theorem pending_access_address:
  assumes "in_detail i = Some d" and "cd_ops d = rs @ [q]" and "list_all (\<lambda>p. op_kind p \<noteq> OP_MEM) rs"
    and "op_kind q = OP_MEM" and "is_xreg (mo_base (op_mem q))"
    and "mo_index (op_mem q) = 0 \<or> is_xreg (mo_index (op_mem q)) \<and> op_shift q = 0"
  shows "pending_of rd (Some x) i p =
    (let mo = op_mem q;
         index = (if mo_index mo = 0 then 0 else push_bit (op_shift q) (x ! xreg_slot (mo_index mo)));
         off = (if cd_writeback d \<and> cd_post_index d then 0 else scast (mo_disp mo)) in
     if mo_disp mo = 0 \<and> mo_index mo = 0 then p
     else if op_access q = CS_AC_WRITE \<and> mo_base mo = AARCH64_REG_FP
     then p\<lparr>pa_last := 0, pa_size := arm64_get_mem_access_size i\<rparr>
     else p\<lparr>pa_last := x ! xreg_slot (mo_base mo) + index + off, pa_size := arm64_get_mem_access_size i,
            pa_is_load := (op_access q \<noteq> CS_AC_WRITE)\<rparr>)"
proof -
  note b = assms(5) note v = is_xreg_valid [OF b]
  have "mo_index (op_mem q) \<noteq> 0 \<Longrightarrow> index_value rd (Some x) (mo_index (op_mem q)) = push_bit (op_shift q) (x ! xreg_slot (mo_index (op_mem q)))"
    using assms(6) by (auto simp: index_xreg)
  moreover have "index_value rd (Some x) 0 = 0" by (simp add: index_value_def REG_INVALID_def)
  ultimately have ix: "index_value rd (Some x) (mo_index (op_mem q)) =
      (if mo_index (op_mem q) = 0 then 0 else push_bit (op_shift q) (x ! xreg_slot (mo_index (op_mem q))))" by simp
  have run: "pending_of rd (Some x) i p = pending_loop rd (Some x) i d [q] p"
    using pending_loop_skip [OF assms(3)] by (simp add: pending_of_def assms(1,2))
  show ?thesis
    unfolding run pending_loop.simps Let_def base_xreg [OF b] ix
    using v by (simp add: assms(4) mem_addr_def REG_INVALID_def)
qed

text \<open>\<open>ldr x0, [x1, #16]\<close> and \<open>ldr x0, [x1, x2, lsl #3]\<close> as capstone decodes them.\<close>

definition demo_load :: "nat \<Rightarrow> u32 \<Rightarrow> nat \<Rightarrow> insn" where
  "demo_load index disp shift =
     \<lparr>ci_is_svc = False, ci_bytes = [], ci_mnemonic = ''ldr'', ci_op_str = [], in_id = OtherInsn 0, in_address = 0x70000,
      in_detail = Some \<lparr>cd_writeback = False, cd_post_index = False, cd_ops =
        [\<lparr>op_kind = OP_REG, op_reg = 235, op_imm = 0, op_mem = \<lparr>mo_base = 0, mo_index = 0, mo_disp = 0\<rparr>, op_shift = 0,
          op_access = CS_AC_WRITE\<rparr>,
         \<lparr>op_kind = OP_MEM, op_reg = 0, op_imm = 0, op_mem = \<lparr>mo_base = 236, mo_index = index, mo_disp = disp\<rparr>,
          op_shift = shift, op_access = CS_AC_READ\<rparr>]\<rparr>\<rparr>"

definition demo_regs :: "u64 list" where
  "demo_regs = [0, 0x5000, 2] @ replicate 30 0"

lemma pending_access_address_witness:
  "pa_last (pending_of (\<lambda>r. None) (Some demo_regs) (demo_load 0 16 0) \<lparr>pa_is_load = False, pa_size = 0, pa_last = 0\<rparr>) = 0x5010"
proof -
  let ?i = "demo_load 0 16 0"
  let ?q = "cd_ops (the (in_detail ?i)) ! 1"
  have "pending_of (\<lambda>r. None) (Some demo_regs) ?i p =
    (let mo = op_mem ?q;
         index = (if mo_index mo = 0 then 0 else push_bit (op_shift ?q) (demo_regs ! xreg_slot (mo_index mo)));
         off = (if cd_writeback (the (in_detail ?i)) \<and> cd_post_index (the (in_detail ?i)) then 0 else scast (mo_disp mo)) in
     if mo_disp mo = 0 \<and> mo_index mo = 0 then p
     else if op_access ?q = CS_AC_WRITE \<and> mo_base mo = AARCH64_REG_FP
     then p\<lparr>pa_last := 0, pa_size := arm64_get_mem_access_size ?i\<rparr>
     else p\<lparr>pa_last := demo_regs ! xreg_slot (mo_base mo) + index + off, pa_size := arm64_get_mem_access_size ?i,
            pa_is_load := (op_access ?q \<noteq> CS_AC_WRITE)\<rparr>)" for p
    by (rule pending_access_address [where rs = "[cd_ops (the (in_detail ?i)) ! 0]"])
      (simp_all add: demo_load_def is_xreg_def)
  then show ?thesis
    by (simp add: demo_load_def demo_regs_def xreg_slot_def cs_regs CS_AC_READ_def CS_AC_WRITE_def)
qed

text \<open>A shifted index is not shifted: the shift of a register offset is not applied. With the array
  at 0x5000 in \<open>x1\<close> and the index 2 in \<open>x2\<close> the recorded address of \<open>ldr x0, [x1, x2, lsl #3]\<close> is
  0x5002, two bytes into element 0, although element 2 at 0x5010 is loaded.\<close>

lemma scaled_index_ignored:
  "pa_last (pending_of rd (Some demo_regs) (demo_load 237 0 3) p) = 0x5002 \<and>
   demo_regs ! 1 + push_bit 3 (demo_regs ! 2) = 0x5010"
proof -
  have x: "is_xreg 236" "is_xreg 237" by (simp_all add: is_xreg_def)
  have s: "xreg_slot 236 = 1" "xreg_slot 237 = 2" by (simp_all add: xreg_slot_def cs_regs)
  show ?thesis
    by (simp add: pending_of_def demo_load_def base_xreg [OF x(1)] index_xreg [OF x(2)] s mem_addr_def REG_INVALID_def
        CS_AC_READ_def CS_AC_WRITE_def demo_regs_def)
qed

text \<open>A pair exclusive store moves two registers but counts one.\<close>

lemma exclusive_pair_size:
  "arm64_get_mem_access_size (i\<lparr>in_id := OtherInsn k, in_detail := Some \<lparr>cd_writeback = False, cd_post_index = False, cd_ops =
     map (\<lambda>r. \<lparr>op_kind = OP_REG, op_reg = r, op_imm = 0, op_mem = \<lparr>mo_base = 0, mo_index = 0, mo_disp = 0\<rparr>, op_shift = 0,
       op_access = CS_AC_READ\<rparr>) [204, 236, 237]\<rparr>\<rparr>) = 8"
  by (simp add: arm64_get_mem_access_size_def fixed_size_def width_loop_eq aarch64_reg_width_def)

end
