(* ===== verification/Disasm_Cache.thy ===== *)
theory Disasm_Cache
  imports Prelude "HOL-Library.Multiset"
begin

text \<open>
  \<open>DisasmCache\<close> of \<open>trace/src/EastTrace.cpp\<close>: the 4-way set-associative cache of disassembled
  instructions with least-recently-used replacement. An instruction object is the identifier
  (a pointer, 0 for \<open>nullptr\<close>) that capstone handed out; \<open>dc_freed\<close> logs the calls of \<open>cs_free\<close>. The
  texts of an instruction are the argument \<open>text\<close>: what capstone stored in the object.
\<close>

subsection \<open>The cache\<close>

definition WAYS :: nat where "WAYS = 4"
definition SET_BITS :: nat where "SET_BITS = 14"
definition NUM_SETS :: nat where "NUM_SETS = 2 ^ SET_BITS"
definition SET_MASK :: u64 where "SET_MASK = word_of_nat (NUM_SETS - 1)"

record reg_access =
  ra_read :: "u16 list"
  ra_write :: "u16 list"

record dc_entry =
  e_addr :: u64
  e_insn :: nat
  e_ra :: reg_access
  e_ra_cached :: bool
  e_mn_len :: nat
  e_op_len :: nat

definition empty_entry :: dc_entry where
  "empty_entry = \<lparr>e_addr = 0, e_insn = 0, e_ra = \<lparr>ra_read = [], ra_write = []\<rparr>, e_ra_cached = False,
     e_mn_len = 0, e_op_len = 0\<rparr>"

record disasm_cache =
  dc_sets :: "nat \<Rightarrow> dc_entry list"
  dc_freed :: "nat list"

text \<open>\<open>h = addr >> 2; h ^= h >> 16; return h & SET_MASK\<close>.\<close>

definition hashAddr :: "u64 \<Rightarrow> nat" where
  "hashAddr addr =
     (let h = drop_bit 2 addr; h' = h XOR drop_bit 16 h in unat (h' AND SET_MASK))"

definition dc_new :: disasm_cache where
  "dc_new = \<lparr>dc_sets = (\<lambda>s. replicate WAYS empty_entry), dc_freed = []\<rparr>"

definition insns :: "dc_entry list \<Rightarrow> nat list" where
  "insns es = filter (\<lambda>i. i \<noteq> 0) (map e_insn es)"

definition dc_clear :: "disasm_cache \<Rightarrow> disasm_cache" where
  "dc_clear c =
     \<lparr>dc_sets = (\<lambda>s. if s < NUM_SETS then replicate WAYS empty_entry else dc_sets c s),
      dc_freed = dc_freed c @ concat (map (\<lambda>s. insns (dc_sets c s)) [0..<NUM_SETS])\<rparr>"

text \<open>Ways 2 and 3 of every set, where they hold an instruction.\<close>

definition trim_set :: "dc_entry list \<Rightarrow> dc_entry list" where
  "trim_set es = take 2 es @ map (\<lambda>e. if e_insn e \<noteq> 0 then empty_entry else e) (drop 2 es)"

definition dc_trimCold :: "disasm_cache \<Rightarrow> disasm_cache" where
  "dc_trimCold c =
     \<lparr>dc_sets = (\<lambda>s. if s < NUM_SETS then trim_set (dc_sets c s) else dc_sets c s),
      dc_freed = dc_freed c @ concat (map (\<lambda>s. insns (drop 2 (dc_sets c s))) [0..<NUM_SETS])\<rparr>"

text \<open>The first way from \<open>w\<close> on that holds the address.\<close>

fun find_way :: "u64 \<Rightarrow> dc_entry list \<Rightarrow> nat option" where
  "find_way addr [] = None"
| "find_way addr (e # es) =
     (if e_addr e = addr \<and> e_insn e \<noteq> 0 then Some 0 else map_option Suc (find_way addr es))"

text \<open>Way \<open>w\<close> moves to the front, the ways before it move back by one.\<close>

definition promote :: "nat \<Rightarrow> dc_entry list \<Rightarrow> dc_entry list" where
  "promote w es = es ! w # take w es @ drop (Suc w) es"

definition dc_get :: "u64 \<Rightarrow> disasm_cache \<Rightarrow> nat \<times> disasm_cache" where
  "dc_get addr c =
     (let s = hashAddr addr; es = dc_sets c s in
      case find_way addr es of
        None \<Rightarrow> (0, c)
      | Some w \<Rightarrow> (e_insn (es ! w), c\<lparr>dc_sets := (dc_sets c)(s := promote w es)\<rparr>))"

definition strnlen :: "string \<Rightarrow> nat \<Rightarrow> nat" where
  "strnlen s n = length (takeWhile (\<lambda>c. c \<noteq> CHR 0x00) (take n s))"

definition dc_put :: "(nat \<Rightarrow> string \<times> string) \<Rightarrow> u64 \<Rightarrow> nat \<Rightarrow> disasm_cache \<Rightarrow> disasm_cache" where
  "dc_put texts addr insn c =
     (let s = hashAddr addr; es = dc_sets c s; old = es ! (WAYS - 1);
          new = \<lparr>e_addr = addr, e_insn = insn, e_ra = e_ra (es ! 0), e_ra_cached = False,
                 e_mn_len = strnlen (fst (texts insn)) 32, e_op_len = strnlen (snd (texts insn)) 160\<rparr> in
      \<lparr>dc_sets = (dc_sets c)(s := new # take (WAYS - 1) es),
       dc_freed = dc_freed c @ (if e_insn old \<noteq> 0 then [e_insn old] else [])\<rparr>)"

definition dc_getStrLens :: "u64 \<Rightarrow> disasm_cache \<Rightarrow> (nat \<times> nat) option" where
  "dc_getStrLens addr c =
     (let e = dc_sets c (hashAddr addr) ! 0 in
      if e_addr e = addr \<and> e_insn e \<noteq> 0 then Some (e_mn_len e, e_op_len e) else None)"

definition dc_getRegAccess :: "u64 \<Rightarrow> disasm_cache \<Rightarrow> reg_access option" where
  "dc_getRegAccess addr c =
     (let e = dc_sets c (hashAddr addr) ! 0 in
      if e_addr e = addr \<and> e_ra_cached e then Some (e_ra e) else None)"

text \<open>At most eight registers of each kind are kept.\<close>

definition dc_putRegAccess :: "u64 \<Rightarrow> u16 list \<Rightarrow> u16 list \<Rightarrow> disasm_cache \<Rightarrow> disasm_cache" where
  "dc_putRegAccess addr rd wr c =
     (let s = hashAddr addr; es = dc_sets c s; e = es ! 0 in
      if e_addr e = addr
      then c\<lparr>dc_sets := (dc_sets c)(s := es[0 := e\<lparr>e_ra := \<lparr>ra_read = take 8 rd, ra_write = take 8 wr\<rparr>,
             e_ra_cached := True\<rparr>])\<rparr>
      else c)"

lemma hashAddr_less: "hashAddr addr < NUM_SETS"
proof -
  have "SET_MASK = mask 14" by (simp add: SET_MASK_def NUM_SETS_def SET_BITS_def mask_eq_exp_minus_1)
  moreover have "unat (take_bit 14 w) < 2 ^ 14" for w :: u64
    using take_bit_nat_less_exp [of 14 "unat w"] by (subst unsigned_take_bit_eq) simp_all
  ultimately have "unat (w AND SET_MASK) < 2 ^ 14" for w :: u64
    by (simp only: take_bit_eq_mask)
  then show ?thesis by (simp add: hashAddr_def Let_def NUM_SETS_def SET_BITS_def)
qed

subsection \<open>What a set holds\<close>

text \<open>The live entries of a set, most recent first: empty ways are always behind them.\<close>

definition live :: "dc_entry \<Rightarrow> bool" where
  "live e \<longleftrightarrow> e_insn e \<noteq> 0"

definition abs_set :: "dc_entry list \<Rightarrow> (u64 \<times> nat) list" where
  "abs_set es = map (\<lambda>e. (e_addr e, e_insn e)) (filter live es)"

definition set_ok :: "nat \<Rightarrow> dc_entry list \<Rightarrow> bool" where
  "set_ok s es \<longleftrightarrow> length es = WAYS \<and>
     (\<forall>i j. i \<le> j \<longrightarrow> j < WAYS \<longrightarrow> live (es ! j) \<longrightarrow> live (es ! i)) \<and>
     (\<forall>e\<in>set es. live e \<longrightarrow> hashAddr (e_addr e) = s) \<and>
     (\<forall>e\<in>set es. \<not> live e \<longrightarrow> \<not> e_ra_cached e) \<and>
     distinct (map fst (abs_set es))"

definition dc_ok :: "disasm_cache \<Rightarrow> bool" where
  "dc_ok c \<longleftrightarrow> (\<forall>s. set_ok s (dc_sets c s))"

text \<open>The recency list that the ways implement.\<close>

definition lru_find :: "u64 \<Rightarrow> (u64 \<times> nat) list \<Rightarrow> nat option" where
  "lru_find addr L = map_of L addr"

definition lru_touch :: "u64 \<Rightarrow> (u64 \<times> nat) list \<Rightarrow> (u64 \<times> nat) list" where
  "lru_touch addr L =
     (case map_of L addr of None \<Rightarrow> L | Some i \<Rightarrow> (addr, i) # filter (\<lambda>p. fst p \<noteq> addr) L)"

definition lru_put :: "u64 \<Rightarrow> nat \<Rightarrow> (u64 \<times> nat) list \<Rightarrow> (u64 \<times> nat) list" where
  "lru_put addr insn L = take WAYS ((addr, insn) # L)"

lemma find_way_None: "find_way addr es = None \<longleftrightarrow> map_of (abs_set es) addr = None"
  by (induction es) (auto simp: abs_set_def live_def)

lemma find_way_Some:
  "find_way addr es = Some w \<Longrightarrow>
   w < length es \<and> e_addr (es ! w) = addr \<and> live (es ! w) \<and>
   map_of (abs_set es) addr = Some (e_insn (es ! w))"
  by (induction es arbitrary: w) (auto simp: abs_set_def live_def split: if_splits)

lemma abs_set_append [simp]: "abs_set (xs @ ys) = abs_set xs @ abs_set ys"
  by (simp add: abs_set_def)

lemma filter_other_keys: "k \<notin> fst ` set L \<Longrightarrow> filter (\<lambda>p. fst p \<noteq> k) L = L"
  by (induction L) auto

lemma abs_set_promote:
  assumes w: "w < length es" "live (es ! w)" and d: "distinct (map fst (abs_set es))"
  shows "abs_set (promote w es) =
    (e_addr (es ! w), e_insn (es ! w)) # filter (\<lambda>p. fst p \<noteq> e_addr (es ! w)) (abs_set es)"
proof -
  let ?e = "es ! w"
  have es: "es = take w es @ ?e # drop (Suc w) es" using w(1) by (rule id_take_nth_drop)
  have one: "abs_set (?e # xs) = (e_addr ?e, e_insn ?e) # abs_set xs" for xs
    using w(2) by (simp add: abs_set_def)
  have abs: "abs_set es = abs_set (take w es) @ (e_addr ?e, e_insn ?e) # abs_set (drop (Suc w) es)"
    by (subst es) (simp add: one)
  have "filter (\<lambda>p. fst p \<noteq> e_addr ?e) (abs_set es) = abs_set (take w es) @ abs_set (drop (Suc w) es)"
    using d unfolding abs by (simp add: filter_other_keys)
  then show ?thesis by (simp add: promote_def one)
qed

lemma set_ok_tail:
  assumes "set_ok s es" and "w < length es" and "live (es ! w)"
  shows "set_ok s (promote w es)"
proof -
  let ?p = "promote w es"
  have es: "es = take w es @ es ! w # drop (Suc w) es" using assms(2) by (rule id_take_nth_drop)
  have len: "length ?p = WAYS" using assms(1,2) by (simp add: promote_def set_ok_def)
  have set: "set ?p = set es" by (subst (2) es) (auto simp: promote_def)
  have nth: "?p ! i = (if i = 0 then es ! w else if i \<le> w then es ! (i - 1) else es ! i)"
    if "i < WAYS" for i
    using that assms(1,2) by (auto simp: promote_def set_ok_def nth_Cons' nth_append)
  have "live (?p ! i)" if "i \<le> j" "j < WAYS" "live (?p ! j)" for i j
  proof -
    have mono: "\<And>a b. a \<le> b \<Longrightarrow> b < WAYS \<Longrightarrow> live (es ! b) \<Longrightarrow> live (es ! a)"
      using assms(1) by (auto simp: set_ok_def)
    have "w < WAYS" using assms(1,2) by (simp add: set_ok_def)
    then have low: "live (es ! a)" if "a \<le> w" for a using mono [of a w] that assms(3) by simp
    show ?thesis
      using that low nth [of i] nth [of j] mono [of i j] by (auto split: if_splits)
  qed
  moreover have "distinct (map fst (abs_set ?p))"
  proof -
    have "distinct (map fst (abs_set es))" using assms(1) by (simp add: set_ok_def)
    then show ?thesis
      using abs_set_promote [OF assms(2,3)] by (auto simp: distinct_map_filter)
  qed
  ultimately show ?thesis using assms(1) len set by (auto simp: set_ok_def)
qed

lemma dc_get_abs:
  assumes "dc_ok c"
  shows "fst (dc_get addr c) = (case lru_find addr (abs_set (dc_sets c (hashAddr addr))) of
      None \<Rightarrow> 0 | Some i \<Rightarrow> i)"
    and "dc_ok (snd (dc_get addr c))" and "dc_freed (snd (dc_get addr c)) = dc_freed c"
    and "abs_set (dc_sets (snd (dc_get addr c)) s) =
      (if s = hashAddr addr then lru_touch addr (abs_set (dc_sets c s)) else abs_set (dc_sets c s))"
proof -
  let ?s = "hashAddr addr"
  have ok: "set_ok ?s (dc_sets c ?s)" using assms by (simp add: dc_ok_def)
  have *: "fst (dc_get addr c) = (case lru_find addr (abs_set (dc_sets c ?s)) of None \<Rightarrow> 0 | Some i \<Rightarrow> i) \<and>
    dc_ok (snd (dc_get addr c)) \<and> dc_freed (snd (dc_get addr c)) = dc_freed c \<and>
    abs_set (dc_sets (snd (dc_get addr c)) s) =
      (if s = ?s then lru_touch addr (abs_set (dc_sets c s)) else abs_set (dc_sets c s))"
  proof (cases "find_way addr (dc_sets c ?s)")
    case None
    then have "map_of (abs_set (dc_sets c ?s)) addr = None" by (simp add: find_way_None)
    with None assms show ?thesis
      by (simp add: dc_get_def Let_def lru_find_def lru_touch_def)
  next
    case (Some w)
    note w = find_way_Some [OF Some]
    have "set_ok ?s (promote w (dc_sets c ?s))" using set_ok_tail [OF ok] w by blast
    moreover have "abs_set (promote w (dc_sets c ?s)) = lru_touch addr (abs_set (dc_sets c ?s))"
    proof -
      have "distinct (map fst (abs_set (dc_sets c ?s)))" using ok by (simp add: set_ok_def)
      from abs_set_promote [OF _ _ this, of w] show ?thesis
        using w unfolding lru_touch_def by (simp only: option.case simp_thms)
    qed
    ultimately show ?thesis
      using w assms Some by (simp add: dc_get_def Let_def lru_find_def dc_ok_def)
  qed
  show "fst (dc_get addr c) = (case lru_find addr (abs_set (dc_sets c ?s)) of None \<Rightarrow> 0 | Some i \<Rightarrow> i)"
    "dc_ok (snd (dc_get addr c))" "dc_freed (snd (dc_get addr c)) = dc_freed c"
    "abs_set (dc_sets (snd (dc_get addr c)) s) =
      (if s = ?s then lru_touch addr (abs_set (dc_sets c s)) else abs_set (dc_sets c s))"
    using * by blast+
qed

text \<open>In a set the live ways come first, so the first three ways are the three most recent.\<close>

lemma abs_set_take:
  assumes "set_ok s es"
  shows "abs_set (take k es) = take k (abs_set es)"
proof -
  have "filter live (take k xs) = take k (filter live xs)"
    if "\<forall>i j. i \<le> j \<longrightarrow> j < length xs \<longrightarrow> live (xs ! j) \<longrightarrow> live (xs ! i)" for xs
    using that
  proof (induction xs arbitrary: k)
    case Nil
    then show ?case by simp
  next
    case (Cons x xs)
    have tl: "\<forall>i j. i \<le> j \<longrightarrow> j < length xs \<longrightarrow> live (xs ! j) \<longrightarrow> live (xs ! i)"
      using Cons.prems by (metis Suc_less_eq Suc_le_mono length_Cons nth_Cons_Suc)
    show ?case
    proof (cases "live x")
      case True
      with Cons.IH [OF tl] show ?thesis by (cases k) auto
    next
      case False
      have "\<not> live y" if y: "y \<in> set xs" for y
      proof
        assume "live y"
        from y obtain j where "j < length xs" "y = xs ! j" by (metis in_set_conv_nth)
        with \<open>live y\<close> Cons.prems [rule_format, of 0 "Suc j"] False show False by simp
      qed
      then have none: "filter live xs = []" by (simp add: filter_empty_conv)
      then have "filter live (take m xs) = []" for m
        by (metis filter_empty_conv in_set_takeD)
      with none False show ?thesis by (cases k) auto
    qed
  qed
  with assms show ?thesis by (simp add: abs_set_def take_map set_ok_def)
qed

lemma length_abs_set: "length (abs_set es) \<le> length es"
  by (simp add: abs_set_def)

lemma dc_put_abs:
  assumes "dc_ok c" and "insn \<noteq> 0" and miss: "lru_find addr (abs_set (dc_sets c (hashAddr addr))) = None"
  shows "dc_ok (dc_put texts addr insn c)"
    and "abs_set (dc_sets (dc_put texts addr insn c) s) =
      (if s = hashAddr addr then lru_put addr insn (abs_set (dc_sets c s)) else abs_set (dc_sets c s))"
proof -
  let ?s = "hashAddr addr" let ?es = "dc_sets c ?s"
  let ?new = "\<lparr>e_addr = addr, e_insn = insn, e_ra = e_ra (?es ! 0), e_ra_cached = False,
      e_mn_len = strnlen (fst (texts insn)) 32, e_op_len = strnlen (snd (texts insn)) 160\<rparr>"
  have ok: "set_ok ?s ?es" using assms(1) by (simp add: dc_ok_def)
  then have len: "length ?es = 4" by (simp add: set_ok_def WAYS_def)
  have abs: "abs_set (?new # take 3 ?es) = lru_put addr insn (abs_set ?es)"
    using assms(2) abs_set_take [OF ok, of 3] by (simp add: lru_put_def WAYS_def abs_set_def live_def)
  have "addr \<notin> fst ` set (abs_set ?es)"
    using miss by (simp add: lru_find_def map_of_eq_None_iff)
  then have d: "distinct (map fst (abs_set (?new # take 3 ?es)))"
    using ok unfolding abs
    by (auto simp: lru_put_def set_ok_def WAYS_def take_map [symmetric] dest: in_set_takeD)
  have mono: "\<And>i j. i \<le> j \<Longrightarrow> j < 4 \<Longrightarrow> live (?es ! j) \<Longrightarrow> live (?es ! i)"
    using ok by (auto simp: set_ok_def WAYS_def)
  have "set_ok ?s (?new # take 3 ?es)"
    unfolding set_ok_def
  proof (intro conjI allI impI)
    fix i j assume "i \<le> j" "j < WAYS" "live ((?new # take 3 ?es) ! j)"
    then show "live ((?new # take 3 ?es) ! i)"
      using mono [of "i - 1" "j - 1"] assms(2)
      by (cases i; cases j) (auto simp: live_def WAYS_def)
  qed (use len ok d in \<open>auto simp: WAYS_def set_ok_def live_def dest: in_set_takeD\<close>)
  then show "dc_ok (dc_put texts addr insn c)"
    using assms(1) by (simp add: dc_ok_def dc_put_def Let_def WAYS_def)
  show "abs_set (dc_sets (dc_put texts addr insn c) s) =
      (if s = ?s then lru_put addr insn (abs_set (dc_sets c s)) else abs_set (dc_sets c s))"
    using abs by (simp add: dc_put_def Let_def WAYS_def)
qed

lemma dc_trimCold_abs:
  assumes "dc_ok c"
  shows "dc_ok (dc_trimCold c)"
    and "s < NUM_SETS \<Longrightarrow> abs_set (dc_sets (dc_trimCold c) s) = take 2 (abs_set (dc_sets c s))"
proof -
  have tr: "abs_set (trim_set es) = take 2 (abs_set es) \<and> set_ok s (trim_set es)" if ok: "set_ok s es" for s es
  proof -
    have "abs_set (map (\<lambda>e. if e_insn e \<noteq> 0 then empty_entry else e) xs) = []" for xs
      by (induction xs) (auto simp: abs_set_def live_def empty_entry_def)
    then have a: "abs_set (trim_set es) = take 2 (abs_set es)"
      using abs_set_take [OF ok, of 2] by (simp add: trim_set_def)
    have len: "length es = 4" using ok by (simp add: set_ok_def WAYS_def)
    have dead: "\<not> live (trim_set es ! j)" if "2 \<le> j" "j < 4" for j
      using that len by (auto simp: trim_set_def nth_append live_def empty_entry_def)
    have keep: "trim_set es ! j = es ! j" if "j < 2" for j
      using that len by (simp add: trim_set_def nth_append)
    have mono: "\<And>i j. i \<le> j \<Longrightarrow> j < 4 \<Longrightarrow> live (es ! j) \<Longrightarrow> live (es ! i)"
      using ok by (auto simp: set_ok_def WAYS_def)
    have mem: "e \<in> set es \<or> e = empty_entry" if "e \<in> set (trim_set es)" for e
      using that by (auto simp: trim_set_def dest: in_set_takeD in_set_dropD split: if_splits)
    have "set_ok s (trim_set es)"
      unfolding set_ok_def
    proof (intro conjI allI impI ballI)
      show "length (trim_set es) = WAYS" using len by (simp add: trim_set_def WAYS_def)
      fix i j assume "i \<le> j" "j < WAYS" "live (trim_set es ! j)"
      then show "live (trim_set es ! i)"
        using dead [of j] keep [of i] keep [of j] mono [of i j]
        by (cases "j < 2") (auto simp: WAYS_def)
    next
      fix e assume "e \<in> set (trim_set es)" "live e"
      then show "hashAddr (e_addr e) = s"
        using mem [of e] ok by (auto simp: set_ok_def empty_entry_def live_def)
    next
      fix e assume "e \<in> set (trim_set es)" "\<not> live e"
      then show "\<not> e_ra_cached e"
        using mem [of e] ok by (auto simp: set_ok_def empty_entry_def)
    next
      show "distinct (map fst (abs_set (trim_set es)))"
        using ok a by (simp add: set_ok_def take_map [symmetric])
    qed
    with a show ?thesis by simp
  qed
  show "dc_ok (dc_trimCold c)" using assms tr by (simp add: dc_ok_def dc_trimCold_def)
  show "s < NUM_SETS \<Longrightarrow> abs_set (dc_sets (dc_trimCold c) s) = take 2 (abs_set (dc_sets c s))"
    using assms tr [of s "dc_sets c s"] by (simp add: dc_ok_def dc_trimCold_def)
qed

lemma set_ok_empty: "set_ok s (replicate WAYS empty_entry)"
  by (auto simp: set_ok_def WAYS_def empty_entry_def live_def abs_set_def)

lemma dc_ok_new: "dc_ok dc_new"
  by (simp add: dc_ok_def dc_new_def set_ok_empty)

lemma dc_clear_ok: "dc_ok c \<Longrightarrow> dc_ok (dc_clear c)"
  by (simp add: dc_ok_def dc_clear_def set_ok_empty)

lemma dc_putRegAccess_abs:
  assumes "dc_ok c" and "addr = e_addr (dc_sets c (hashAddr addr) ! 0) \<longrightarrow> live (dc_sets c (hashAddr addr) ! 0)"
  shows "dc_ok (dc_putRegAccess addr rd wr c)"
    and "abs_set (dc_sets (dc_putRegAccess addr rd wr c) s) = abs_set (dc_sets c s)"
proof -
  let ?s = "hashAddr addr" let ?es = "dc_sets c ?s"
  let ?e = "(?es ! 0)\<lparr>e_ra := \<lparr>ra_read = take 8 rd, ra_write = take 8 wr\<rparr>, e_ra_cached := True\<rparr>"
  have ok: "set_ok ?s ?es" using assms(1) by (simp add: dc_ok_def)
  then obtain x xs where es: "?es = x # xs" by (cases ?es) (auto simp: set_ok_def WAYS_def)
  have a: "abs_set (?es[0 := ?e]) = abs_set ?es" by (simp add: es abs_set_def live_def)
  have l: "live ((?es[0 := ?e]) ! i) = live (?es ! i)" for i
    by (cases i) (simp_all add: es live_def)
  show "dc_ok (dc_putRegAccess addr rd wr c)"
  proof (cases "e_addr (?es ! 0) = addr")
    case True
    then have "live x" using assms(2) es by simp
    then have "set_ok ?s (?es[0 := ?e])"
      using ok a l unfolding set_ok_def by (auto simp: es live_def)
    with True assms(1) show ?thesis by (simp add: dc_putRegAccess_def Let_def dc_ok_def)
  next
    case False
    with assms(1) show ?thesis by (simp add: dc_putRegAccess_def Let_def)
  qed
  show "abs_set (dc_sets (dc_putRegAccess addr rd wr c) s) = abs_set (dc_sets c s)"
    using a by (simp add: dc_putRegAccess_def Let_def)
qed

subsection \<open>Who owns the instruction objects\<close>

definition held :: "disasm_cache \<Rightarrow> nat multiset" where
  "held c = (\<Sum>s<NUM_SETS. mset (insns (dc_sets c s)))"

lemma held_update:
  assumes "s < NUM_SETS"
  shows "held (c\<lparr>dc_sets := (dc_sets c)(s := es)\<rparr>) + mset (insns (dc_sets c s)) =
         held c + mset (insns es)"
proof -
  have "(\<Sum>t\<in>{..<NUM_SETS} - {s}. mset (insns (((dc_sets c)(s := es)) t))) =
        (\<Sum>t\<in>{..<NUM_SETS} - {s}. mset (insns (dc_sets c t)))"
    by (rule sum.cong) auto
  then show ?thesis
    using assms by (simp add: held_def sum.remove [of "{..<NUM_SETS}" s])
qed

lemma insns_simps [simp]:
  "insns [] = []" "insns (xs @ ys) = insns xs @ insns ys"
  "insns (e # es) = (if e_insn e \<noteq> 0 then [e_insn e] else []) @ insns es"
  by (simp_all add: insns_def)

lemma insns_promote:
  assumes "w < length es"
  shows "mset (insns (promote w es)) = mset (insns es)"
proof -
  have "insns es = insns (take w es @ es ! w # drop (Suc w) es)"
    using id_take_nth_drop [OF assms] by simp
  then show ?thesis by (simp add: promote_def)
qed

lemma mset_concat_upt: "mset (concat (map f [0..<n])) = (\<Sum>i<n. mset (f i))"
  by (induction n) simp_all

lemma dc_get_held: "dc_ok c \<Longrightarrow> held (snd (dc_get addr c)) = held c"
proof (cases "find_way addr (dc_sets c (hashAddr addr))")
  case None
  then show ?thesis by (simp add: dc_get_def Let_def)
next
  case (Some w)
  then have "w < length (dc_sets c (hashAddr addr))" using find_way_Some by blast
  with Some held_update [OF hashAddr_less [of addr], of c "promote w (dc_sets c (hashAddr addr))"]
  show ?thesis by (simp add: dc_get_def Let_def insns_promote)
qed

lemma dc_put_held:
  assumes "dc_ok c" and "insn \<noteq> 0"
  shows "held (dc_put texts addr insn c) + mset (dc_freed (dc_put texts addr insn c)) =
    held c + mset (dc_freed c) + {#insn#}"
proof -
  let ?es = "dc_sets c (hashAddr addr)"
  let ?new = "\<lparr>e_addr = addr, e_insn = insn, e_ra = e_ra (?es ! 0), e_ra_cached = False,
      e_mn_len = strnlen (fst (texts insn)) 32, e_op_len = strnlen (snd (texts insn)) 160\<rparr>"
  have "length ?es = 4" using assms(1) by (simp add: dc_ok_def set_ok_def WAYS_def)
  then have "?es = take 3 ?es @ [?es ! 3]"
    using id_take_nth_drop [of 3 ?es] by simp
  then have split: "insns ?es = insns (take 3 ?es) @ insns [?es ! 3]" by (metis insns_simps(2))
  let ?c' = "c\<lparr>dc_sets := (dc_sets c)(hashAddr addr := ?new # take 3 ?es)\<rparr>"
  have "held ?c' + mset (insns ?es) = held c + mset (insns (?new # take 3 ?es))"
    by (rule held_update [OF hashAddr_less])
  then have "held ?c' + mset (insns [?es ! 3]) = held c + {#insn#}"
    using assms(2) unfolding split by simp
  moreover have "held (dc_put texts addr insn c) = held ?c'"
    by (simp add: dc_put_def Let_def WAYS_def held_def)
  moreover have "mset (dc_freed (dc_put texts addr insn c)) = mset (dc_freed c) + mset (insns [?es ! 3])"
    by (simp add: dc_put_def Let_def WAYS_def)
  ultimately show ?thesis by (metis add.commute add.left_commute)
qed

lemma dc_trimCold_held:
  "held (dc_trimCold c) + mset (dc_freed (dc_trimCold c)) = held c + mset (dc_freed c)"
proof -
  have dead: "insns (map (\<lambda>e. if e_insn e \<noteq> 0 then empty_entry else e) xs) = []" for xs
    by (induction xs) (auto simp: empty_entry_def)
  have sp: "insns es = insns (take 2 es) @ insns (drop 2 es)" for es
    using insns_simps(2) [of "take 2 es" "drop 2 es"] by (simp del: insns_simps)
  have tr: "mset (insns es) = mset (insns (trim_set es)) + mset (insns (drop 2 es))" for es
    by (subst sp) (simp add: trim_set_def dead [simplified])
  have "held c = held (dc_trimCold c) + (\<Sum>s<NUM_SETS. mset (insns (drop 2 (dc_sets c s))))"
    unfolding held_def dc_trimCold_def by (subst tr) (simp add: sum.distrib)
  then show ?thesis by (simp add: dc_trimCold_def mset_concat_upt)
qed

lemma dc_clear_held:
  "held (dc_clear c) = {#}" "mset (dc_freed (dc_clear c)) = held c + mset (dc_freed c)"
proof -
  have "insns (replicate n empty_entry) = []" for n by (induction n) (auto simp: empty_entry_def)
  then show "held (dc_clear c) = {#}" by (simp add: held_def dc_clear_def)
  show "mset (dc_freed (dc_clear c)) = held c + mset (dc_freed c)"
    by (simp add: dc_clear_def mset_concat_upt held_def)
qed

lemma held_putRegAccess: "dc_ok c \<Longrightarrow> held (dc_putRegAccess addr rd wr c) = held c"
proof -
  assume "dc_ok c"
  then obtain x xs where es: "dc_sets c (hashAddr addr) = x # xs"
    by (cases "dc_sets c (hashAddr addr)") (auto simp: dc_ok_def set_ok_def WAYS_def dest!: spec [of _ "hashAddr addr"])
  let ?e = "x\<lparr>e_ra := \<lparr>ra_read = take 8 rd, ra_write = take 8 wr\<rparr>, e_ra_cached := True\<rparr>"
  have "held (c\<lparr>dc_sets := (dc_sets c)(hashAddr addr := ?e # xs)\<rparr>) = held c"
  proof -
    have "insns (?e # xs) = insns (x # xs)" by simp
    with held_update [OF hashAddr_less [of addr], of c "?e # xs"] show ?thesis
      unfolding es by (simp only: add_right_cancel)
  qed
  then show ?thesis using es by (simp add: dc_putRegAccess_def Let_def)
qed

subsection \<open>Sequences of operations\<close>

text \<open>
  The tracer asks first and inserts only on a miss; a register access is stored for the instruction
  that was asked for last. \<open>Fetch addr i\<close> is that pattern, with \<open>i\<close> the object capstone makes on a miss.
\<close>

datatype dc_op = Fetch u64 nat | StoreRegs u64 "u16 list" "u16 list" | TrimCold | Clear

definition dc_fetch :: "(nat \<Rightarrow> string \<times> string) \<Rightarrow> u64 \<Rightarrow> nat \<Rightarrow> disasm_cache \<Rightarrow> nat \<times> disasm_cache" where
  "dc_fetch texts addr fresh c =
     (let r = dc_get addr c in if fst r \<noteq> 0 then r else (fresh, dc_put texts addr fresh (snd r)))"

fun dc_step :: "(nat \<Rightarrow> string \<times> string) \<Rightarrow> dc_op \<Rightarrow> disasm_cache \<Rightarrow> disasm_cache" where
  "dc_step texts (Fetch addr i) c = snd (dc_fetch texts addr i c)"
| "dc_step texts (StoreRegs addr rd wr) c =
     (if fst (dc_get addr c) \<noteq> 0 then dc_putRegAccess addr rd wr (snd (dc_get addr c)) else c)"
| "dc_step texts TrimCold c = dc_trimCold c"
| "dc_step texts Clear c = dc_clear c"

fun allocated :: "disasm_cache \<Rightarrow> dc_op \<Rightarrow> nat multiset" where
  "allocated c (Fetch addr i) = (if fst (dc_get addr c) \<noteq> 0 then {#} else {#i#})"
| "allocated c _ = {#}"

text \<open>The recency list of a set under an operation: the specification of the ways.\<close>

fun lru_step :: "dc_op \<Rightarrow> nat \<Rightarrow> (u64 \<times> nat) list \<Rightarrow> (u64 \<times> nat) list" where
  "lru_step (Fetch addr i) s L =
     (if s \<noteq> hashAddr addr then L
      else if lru_find addr L = None then lru_put addr i L else lru_touch addr L)"
| "lru_step (StoreRegs addr rd wr) s L = (if s = hashAddr addr then lru_touch addr L else L)"
| "lru_step TrimCold s L = take 2 L"
| "lru_step Clear s L = []"

fun op_ok :: "dc_op \<Rightarrow> bool" where
  "op_ok (Fetch addr i) = (i \<noteq> 0)"
| "op_ok _ = True"

lemma abs_set_nonzero: "map_of (abs_set es) a = Some i \<Longrightarrow> i \<noteq> 0"
  by (induction es) (auto simp: abs_set_def live_def split: if_splits)

lemma dc_get_miss:
  assumes "dc_ok c"
  shows "fst (dc_get addr c) = 0 \<longleftrightarrow> lru_find addr (abs_set (dc_sets c (hashAddr addr))) = None"
  using dc_get_abs(1) [OF assms, of addr] abs_set_nonzero
  by (auto simp: lru_find_def split: option.splits)

lemma dc_get_front:
  assumes "dc_ok c" and "fst (dc_get addr c) \<noteq> 0"
  shows "live (dc_sets (snd (dc_get addr c)) (hashAddr addr) ! 0)"
proof (cases "find_way addr (dc_sets c (hashAddr addr))")
  case None
  with assms(2) show ?thesis by (simp add: dc_get_def Let_def)
next
  case (Some w)
  from find_way_Some [OF Some] Some show ?thesis by (simp add: dc_get_def Let_def promote_def)
qed

lemma dc_step_ok:
  assumes ok: "dc_ok c" and "op_ok x"
  shows "dc_ok (dc_step texts x c) \<and>
    (s < NUM_SETS \<longrightarrow> abs_set (dc_sets (dc_step texts x c) s) = lru_step x s (abs_set (dc_sets c s))) \<and>
    held (dc_step texts x c) + mset (dc_freed (dc_step texts x c)) =
      held c + mset (dc_freed c) + allocated c x"
proof (cases x)
  case (Fetch addr i)
  show ?thesis
  proof (cases "fst (dc_get addr c) = 0")
    case False
    then have "lru_find addr (abs_set (dc_sets c (hashAddr addr))) \<noteq> None"
      using dc_get_miss [OF ok, of addr] by simp
    with Fetch False dc_get_abs [OF ok, of addr] dc_get_held [OF ok, of addr] show ?thesis
      by (auto simp: dc_fetch_def Let_def)
  next
    case True
    then have m: "lru_find addr (abs_set (dc_sets c (hashAddr addr))) = None"
      using dc_get_miss [OF ok, of addr] by simp
    then have same: "snd (dc_get addr c) = c"
      by (simp add: dc_get_def Let_def lru_find_def find_way_None [symmetric])
    have "i \<noteq> 0" using assms(2) Fetch by simp
    with Fetch True m same dc_put_abs [OF ok _ m, of i texts] dc_put_held [OF ok, of i texts addr]
    show ?thesis by (simp add: dc_fetch_def Let_def)
  qed
next
  case (StoreRegs addr rd wr)
  show ?thesis
  proof (cases "fst (dc_get addr c) = 0")
    case True
    then have "lru_find addr (abs_set (dc_sets c (hashAddr addr))) = None"
      using dc_get_miss [OF ok, of addr] by simp
    with StoreRegs True ok show ?thesis by (simp add: lru_touch_def lru_find_def)
  next
    case False
    let ?c = "snd (dc_get addr c)"
    note g = dc_get_abs [OF ok, of addr]
    have fr: "dc_freed (dc_putRegAccess addr rd wr ?c) = dc_freed ?c"
      by (simp add: dc_putRegAccess_def Let_def)
    have lv: "addr = e_addr (dc_sets ?c (hashAddr addr) ! 0) \<longrightarrow> live (dc_sets ?c (hashAddr addr) ! 0)"
      using dc_get_front [OF ok False] by simp
    show ?thesis
      using StoreRegs False g dc_putRegAccess_abs [OF g(2) lv] held_putRegAccess [OF g(2)]
        dc_get_held [OF ok] fr by simp
  qed
next
  case TrimCold
  with dc_trimCold_abs [OF ok] dc_trimCold_held [of c] show ?thesis by simp
next
  case Clear
  moreover have "abs_set (replicate n empty_entry) = []" for n
    by (induction n) (auto simp: abs_set_def live_def empty_entry_def)
  ultimately show ?thesis
    using dc_clear_ok [OF ok] dc_clear_held [of c] by (simp add: dc_clear_def)
qed

fun alloc_run :: "(nat \<Rightarrow> string \<times> string) \<Rightarrow> dc_op list \<Rightarrow> disasm_cache \<Rightarrow> nat multiset" where
  "alloc_run texts [] c = {#}"
| "alloc_run texts (x # xs) c = allocated c x + alloc_run texts xs (dc_step texts x c)"

definition dc_run :: "(nat \<Rightarrow> string \<times> string) \<Rightarrow> dc_op list \<Rightarrow> disasm_cache \<Rightarrow> disasm_cache" where
  "dc_run texts ops c = fold (dc_step texts) ops c"

definition lru_run :: "dc_op list \<Rightarrow> nat \<Rightarrow> (u64 \<times> nat) list \<Rightarrow> (u64 \<times> nat) list" where
  "lru_run ops s L = fold (\<lambda>x L. lru_step x s L) ops L"

lemma dc_run_ok:
  "dc_ok c \<Longrightarrow> \<forall>x\<in>set ops. op_ok x \<Longrightarrow>
   dc_ok (dc_run texts ops c) \<and>
   (s < NUM_SETS \<longrightarrow> abs_set (dc_sets (dc_run texts ops c) s) = lru_run ops s (abs_set (dc_sets c s))) \<and>
   held (dc_run texts ops c) + mset (dc_freed (dc_run texts ops c)) =
     held c + mset (dc_freed c) + alloc_run texts ops c"
proof (induction ops arbitrary: c)
  case Nil
  then show ?case by (simp add: dc_run_def lru_run_def)
next
  case (Cons x ops)
  have st: "dc_ok (dc_step texts x c) \<and>
    (s < NUM_SETS \<longrightarrow> abs_set (dc_sets (dc_step texts x c) s) = lru_step x s (abs_set (dc_sets c s))) \<and>
    held (dc_step texts x c) + mset (dc_freed (dc_step texts x c)) =
      held c + mset (dc_freed c) + allocated c x"
    using Cons.prems by (intro dc_step_ok) simp_all
  with Cons.IH [of "dc_step texts x c"] Cons.prems show ?case
    by (simp add: dc_run_def lru_run_def add.assoc)
qed

subsection \<open>The cache as its clients see it\<close>

text \<open>
  A cache may forget, and what it answers is what was stored: that is all that the tracer relies on
  when it takes an instruction from the cache instead of decoding it again.
\<close>

locale address_cache =
  fixes look :: "u64 \<Rightarrow> 's \<Rightarrow> nat \<times> 's"
    and store :: "u64 \<Rightarrow> nat \<Rightarrow> 's \<Rightarrow> 's"
    and known :: "'s \<Rightarrow> u64 \<Rightarrow> nat option"
    and ok :: "'s \<Rightarrow> bool"
  assumes look_law: "ok c \<Longrightarrow> ok (snd (look a c)) \<and> known (snd (look a c)) b = known c b \<and>
      fst (look a c) = (case known c a of None \<Rightarrow> 0 | Some i \<Rightarrow> i)"
    and known_pos: "known c a = Some i \<Longrightarrow> i \<noteq> 0"
    and store_law: "ok c \<Longrightarrow> i \<noteq> 0 \<Longrightarrow> known c a = None \<Longrightarrow>
      ok (store a i c) \<and> known (store a i c) a = Some i \<and>
      (known (store a i c) b = Some j \<longrightarrow> b \<noteq> a \<longrightarrow> known c b = Some j)"
begin

definition fetch :: "u64 \<Rightarrow> nat \<Rightarrow> 's \<Rightarrow> nat \<times> 's" where
  "fetch a fresh c =
     (let r = look a c in if fst r \<noteq> 0 then r else (fresh, store a fresh (snd r)))"

lemma fetch_sound:
  assumes "ok c" and "\<And>b i. known c b = Some i \<Longrightarrow> P b i" and "P a fresh" and "fresh \<noteq> 0"
  shows "P a (fst (fetch a fresh c)) \<and> ok (snd (fetch a fresh c)) \<and>
    (known (snd (fetch a fresh c)) b = Some i \<longrightarrow> P b i)"
proof (cases "known c a")
  case None
  then have l: "fst (look a c) = 0" "ok (snd (look a c))" "\<And>b. known (snd (look a c)) b = known c b"
    using look_law [OF assms(1), of a] by auto
  then have "known (snd (look a c)) a = None" using None by simp
  from store_law [OF l(2) assms(4) this] l assms None show ?thesis
    by (cases "b = a") (auto simp: fetch_def Let_def)
next
  case (Some j)
  with look_law [OF assms(1), of a] known_pos [OF Some] assms show ?thesis
    by (auto simp: fetch_def Let_def)
qed

end

definition dc_known :: "disasm_cache \<Rightarrow> u64 \<Rightarrow> nat option" where
  "dc_known c addr = lru_find addr (abs_set (dc_sets c (hashAddr addr)))"

lemma lru_touch_find: "distinct (map fst L) \<Longrightarrow> lru_find b (lru_touch a L) = lru_find b L"
proof -
  have "map_of (filter (\<lambda>p. fst p \<noteq> a) L) b = map_of L b" if "b \<noteq> a"
    using that by (induction L) auto
  then show ?thesis by (auto simp: lru_touch_def lru_find_def split: option.splits)
qed

lemma map_of_take: "map_of (take n L) b = Some j \<Longrightarrow> map_of L b = Some j"
  by (induction L arbitrary: n) (auto simp: take_Cons split: nat.splits if_splits)

interpretation dcache: address_cache dc_get "dc_put texts" dc_known dc_ok for texts
proof
  fix c and a b :: u64 assume ok: "dc_ok c"
  then have "distinct (map fst (abs_set (dc_sets c s)))" for s by (simp add: dc_ok_def set_ok_def)
  with dc_get_abs [OF ok, of a] show "dc_ok (snd (dc_get a c)) \<and> dc_known (snd (dc_get a c)) b = dc_known c b \<and>
      fst (dc_get a c) = (case dc_known c a of None \<Rightarrow> 0 | Some i \<Rightarrow> i)"
    by (auto simp: dc_known_def lru_touch_find)
next
  fix c a i assume "dc_known c a = Some i"
  then show "i \<noteq> 0" using abs_set_nonzero by (auto simp: dc_known_def lru_find_def)
next
  fix c and a b :: u64 and i j :: nat
  assume ok: "dc_ok c" and i: "i \<noteq> 0" and n: "dc_known c a = None"
  note p = dc_put_abs [OF ok i n [unfolded dc_known_def], of texts]
  have "lru_find a (lru_put a i L) = Some i" for L
    by (simp add: lru_put_def lru_find_def WAYS_def)
  moreover have "lru_find b (lru_put a i L) = Some j \<Longrightarrow> b \<noteq> a \<Longrightarrow> lru_find b L = Some j" for L
    by (auto simp: lru_put_def lru_find_def WAYS_def dest: map_of_take)
  ultimately show "dc_ok (dc_put texts a i c) \<and> dc_known (dc_put texts a i c) a = Some i \<and>
      (dc_known (dc_put texts a i c) b = Some j \<longrightarrow> b \<noteq> a \<longrightarrow> dc_known c b = Some j)"
    using p by (auto simp: dc_known_def split: if_splits)
qed

lemma dc_fetch_eq: "dc_fetch texts = dcache.fetch texts"
  by (intro ext) (simp add: dc_fetch_def dcache.fetch_def)

subsection \<open>Properties\<close>

text \<open>C4 (the ways are a recency list, and every object is freed once): after any sequence of fetches,
  stored register accesses, trims and clears on a new cache, every set holds exactly the four most
  recently used addresses (as the move-to-front list says, cut by trims), and the objects that
  capstone allocated are exactly those still cached together with those freed: nothing leaks and
  nothing is freed twice.\<close>

theorem disasm_cache_is_lru:
  assumes "\<forall>x\<in>set ops. op_ok x" and "s < NUM_SETS"
  shows "abs_set (dc_sets (dc_run texts ops dc_new) s) = lru_run ops s [] \<and>
    (\<Sum>s<NUM_SETS. mset (insns (dc_sets (dc_run texts ops dc_new) s))) + mset (dc_freed (dc_run texts ops dc_new)) =
      alloc_run texts ops dc_new"
proof -
  have "abs_set (replicate n empty_entry) = []" for n
    by (induction n) (auto simp: abs_set_def live_def empty_entry_def)
  moreover have "insns (replicate n empty_entry) = []" for n by (induction n) (auto simp: empty_entry_def)
  ultimately have "abs_set (dc_sets dc_new s) = []" "held dc_new = {#}" "dc_freed dc_new = []"
    by (simp_all add: dc_new_def held_def)
  with dc_run_ok [OF dc_ok_new assms(1), of texts s] assms(2) show ?thesis by (simp add: held_def)
qed

lemma disasm_cache_is_lru_witness:
  "abs_set (dc_sets (dc_run (\<lambda>i. ([], [])) [Fetch 4096 1, Fetch 4100 2, StoreRegs 4096 [5] [], TrimCold] dc_new) 0) =
     lru_run [Fetch 4096 1, Fetch 4100 2, StoreRegs 4096 [5] [], TrimCold] 0 [] \<and>
   (\<Sum>s<NUM_SETS. mset (insns (dc_sets (dc_run (\<lambda>i. ([], [])) [Fetch 4096 1, Fetch 4100 2, StoreRegs 4096 [5] [], TrimCold] dc_new) s))) +
     mset (dc_freed (dc_run (\<lambda>i. ([], [])) [Fetch 4096 1, Fetch 4100 2, StoreRegs 4096 [5] [], TrimCold] dc_new)) =
     alloc_run (\<lambda>i. ([], [])) [Fetch 4096 1, Fetch 4100 2, StoreRegs 4096 [5] [], TrimCold] dc_new"
  by (rule disasm_cache_is_lru) (simp_all add: NUM_SETS_def SET_BITS_def)

text \<open>A cached instruction is the right one: if every object in the cache is right for its
  address, and the object decoded on a miss is, then what \<open>get\<close>-or-\<open>put\<close> returns is right for the
  address asked for, and every object in the cache still is.\<close>

lemma disasm_fetch_sound:
  assumes "dc_ok c" and "\<And>b i. dc_known c b = Some i \<Longrightarrow> P b i" and "P addr fresh" and "fresh \<noteq> 0"
  shows "P addr (fst (dc_fetch texts addr fresh c)) \<and> dc_ok (snd (dc_fetch texts addr fresh c)) \<and>
    (dc_known (snd (dc_fetch texts addr fresh c)) b = Some i \<longrightarrow> P b i)"
  unfolding dc_fetch_eq using assms by (intro dcache.fetch_sound [of c P addr fresh]) auto

lemma disasm_fetch_sound_witness:
  "unat (4096 :: u64) = fst (dc_fetch (\<lambda>i. ([], [])) 4096 4096 dc_new) \<and>
    dc_ok (snd (dc_fetch (\<lambda>i. ([], [])) 4096 4096 dc_new))"
proof -
  have "abs_set (replicate n empty_entry) = []" for n
    by (induction n) (auto simp: abs_set_def live_def empty_entry_def)
  then have "dc_known dc_new b = Some i \<Longrightarrow> unat b = i" for b i
    by (simp add: dc_known_def dc_new_def lru_find_def)
  from disasm_fetch_sound [where P = "\<lambda>b i. unat b = i", OF dc_ok_new this, of 4096 4096] show ?thesis
    by auto
qed

end
