(* ===== verification/Elf_File.thy ===== *)
theory Elf_File
  imports Prelude
begin

text \<open>
  The ELF reader of \<open>trace/Utils/SymbolTable.cpp\<close>: program and section headers, symbols and dynamic
  entries with the layout of \<open>elf.h\<close>, the search for the dynamic symbol section, the fallback through
  \<open>PT_DYNAMIC\<close>, and the collection of function symbols. A file is the list of its bytes, \<open>pread\<close>
  succeeds when all bytes asked for are there. Every access to a block that was read is checked:
  the outer \<open>None\<close> is an access outside it.
\<close>

subsection \<open>Blocks and structures\<close>

definition ld :: "byte list \<Rightarrow> nat \<Rightarrow> nat \<Rightarrow> byte list option" where
  "ld bs off n = (if off + n \<le> length bs then Some (take n (drop off bs)) else None)"

definition fld :: "nat \<Rightarrow> nat \<Rightarrow> byte list \<Rightarrow> 'a::len word" where
  "fld k off bs = word_of_nat (le_nat (take k (drop off bs)))"

text \<open>\<open>pread\<close> of \<open>n\<close> bytes at \<open>off\<close>: the bytes when the call returns \<open>n\<close>. A negative offset is refused,
  and one call transfers at most \<open>0x7ffff000\<close> bytes.\<close>

definition pread :: "byte list \<Rightarrow> nat \<Rightarrow> u64 \<Rightarrow> byte list option" where
  "pread f n off = (if 0 \<le> sint off \<and> n \<le> 0x7ffff000 then ld f (unat off) n else None)"

record phdr =
  p_type :: u32
  p_offset :: u64
  p_vaddr :: u64
  p_filesz :: u64
  p_memsz :: u64

record shdr =
  sh_type :: u32
  sh_flags :: u64
  sh_addr :: u64
  sh_offset :: u64
  sh_size :: u64
  sh_link :: u32

record elf_sym =
  sym_name :: u32
  sym_info :: byte
  sym_value :: u64
  sym_size :: u64

definition phdr_of :: "byte list \<Rightarrow> phdr" where
  "phdr_of e = \<lparr>p_type = fld 4 0 e, p_offset = fld 8 8 e, p_vaddr = fld 8 16 e,
     p_filesz = fld 8 32 e, p_memsz = fld 8 40 e\<rparr>"

definition shdr_of :: "byte list \<Rightarrow> shdr" where
  "shdr_of e = \<lparr>sh_type = fld 4 4 e, sh_flags = fld 8 8 e, sh_addr = fld 8 16 e,
     sh_offset = fld 8 24 e, sh_size = fld 8 32 e, sh_link = fld 4 40 e\<rparr>"

definition sym_of :: "byte list \<Rightarrow> elf_sym" where
  "sym_of e = \<lparr>sym_name = fld 4 0 e, sym_info = fld 1 4 e, sym_value = fld 8 8 e, sym_size = fld 8 16 e\<rparr>"

text \<open>The first \<open>n\<close> program headers of the table that was read.\<close>

definition phdrs_of :: "byte list \<Rightarrow> nat \<Rightarrow> phdr list" where
  "phdrs_of bs n = map (\<lambda>i. phdr_of (take 56 (drop (56 * i) bs))) [0..<n]"

subsection \<open>Segments\<close>

definition PT_LOAD :: u32 where "PT_LOAD = 1"
definition PT_DYNAMIC :: u32 where "PT_DYNAMIC = 2"

fun vaddr_to_offset :: "u64 \<Rightarrow> phdr list \<Rightarrow> u64" where
  "vaddr_to_offset vaddr [] = -1"
| "vaddr_to_offset vaddr (p # ps) =
     (if p_type p \<noteq> PT_LOAD then vaddr_to_offset vaddr ps
      else if p_vaddr p \<le> vaddr \<and> vaddr < p_vaddr p + p_filesz p then vaddr - p_vaddr p + p_offset p
      else vaddr_to_offset vaddr ps)"

definition section_in_pt_load :: "shdr \<Rightarrow> phdr list \<Rightarrow> bool" where
  "section_in_pt_load sh ps \<longleftrightarrow> sh_size sh \<noteq> 0 \<and>
     list_ex (\<lambda>p. p_type p = PT_LOAD \<and> p_vaddr p \<le> sh_addr sh \<and>
       sh_addr sh + sh_size sh \<le> p_vaddr p + p_memsz p) ps"

subsection \<open>Function symbols\<close>

record sym_entry =
  se_addr :: u64
  se_size :: u32
  se_name :: "byte list"

text \<open>One symbol of the table: skipped, or appended with its name cut at the end of the string table.\<close>

definition collect_one :: "byte list \<Rightarrow> nat \<Rightarrow> u64 \<Rightarrow> elf_sym \<Rightarrow> sym_entry option option" where
  "collect_one strs strsz load_bias s =
     (if sym_info s AND 0xf \<noteq> 2 then Some None
      else if sym_value s = 0 then Some None
      else if strsz \<le> unat (sym_name s) then Some None
      else case ld strs (unat (sym_name s)) (strsz - unat (sym_name s)) of
          None \<Rightarrow> None
        | Some rest \<Rightarrow>
            if hd rest = 0 then Some None
            else Some (Some \<lparr>se_addr = sym_value s + load_bias, se_size = ucast (sym_size s),
                             se_name = takeWhile (\<lambda>b. b \<noteq> 0) rest\<rparr>))"

text \<open>The loop over the symbols \<open>j\<close>, \<dots>, \<open>j + n - 1\<close>.\<close>

fun collect_syms :: "byte list \<Rightarrow> byte list \<Rightarrow> nat \<Rightarrow> u64 \<Rightarrow> nat \<Rightarrow> nat \<Rightarrow> sym_entry list option" where
  "collect_syms syms strs strsz load_bias j 0 = Some []"
| "collect_syms syms strs strsz load_bias j (Suc n) =
     (case ld syms (24 * j) 24 of
        None \<Rightarrow> None
      | Some e \<Rightarrow>
          (case collect_one strs strsz load_bias (sym_of e) of
             None \<Rightarrow> None
           | Some r \<Rightarrow>
               map_option (\<lambda>es. (case r of None \<Rightarrow> es | Some x \<Rightarrow> x # es))
                 (collect_syms syms strs strsz load_bias (Suc j) n)))"

subsection \<open>Through the section headers\<close>

text \<open>The inner \<open>None\<close> is \<open>return false\<close>. \<open>mal n\<close> says that \<open>malloc(n)\<close> succeeds.\<close>

definition read_symtab ::
  "(nat \<Rightarrow> bool) \<Rightarrow> byte list \<Rightarrow> shdr \<Rightarrow> shdr \<Rightarrow> u64 \<Rightarrow> u32 \<Rightarrow> sym_entry list option option" where
  "read_symtab mal f sh st load_bias nsyms =
     (if \<not> mal (unat (sh_size sh)) \<or> \<not> mal (unat (sh_size st)) then Some None
      else case (pread f (unat (sh_size sh)) (sh_offset sh), pread f (unat (sh_size st)) (sh_offset st)) of
          (Some syms, Some strs) \<Rightarrow>
            map_option Some (collect_syms syms strs (unat (sh_size st)) load_bias 0 (unat nsyms))
        | _ \<Rightarrow> Some None)"

fun load_dynsym_via_sections ::
  "(nat \<Rightarrow> bool) \<Rightarrow> byte list \<Rightarrow> nat \<Rightarrow> byte list \<Rightarrow> phdr list \<Rightarrow> u64 \<Rightarrow> nat \<Rightarrow> nat \<Rightarrow> sym_entry list option option" where
  "load_dynsym_via_sections mal f shnum shdrs ps load_bias i 0 = Some None"
| "load_dynsym_via_sections mal f shnum shdrs ps load_bias i (Suc n) =
     (case ld shdrs (64 * i) 64 of
        None \<Rightarrow> None
      | Some e \<Rightarrow>
          (let sh = shdr_of e in
           if sh_type sh \<noteq> 11 \<or> sh_flags sh AND 2 = 0 \<or> \<not> section_in_pt_load sh ps \<or>
             shnum \<le> unat (sh_link sh)
           then load_dynsym_via_sections mal f shnum shdrs ps load_bias (Suc i) n
           else case ld shdrs (64 * unat (sh_link sh)) 64 of
               None \<Rightarrow> None
             | Some e' \<Rightarrow>
                 (let st = shdr_of e'; nsyms = (ucast (sh_size sh div 24) :: u32) in
                  if sh_size st = 0 \<or> nsyms = 0 \<or> 500000 < nsyms
                  then load_dynsym_via_sections mal f shnum shdrs ps load_bias (Suc i) n
                  else read_symtab mal f sh st load_bias nsyms)))"

subsection \<open>Through the dynamic segment\<close>

record dyn_info =
  di_symtab :: u64
  di_strtab :: u64
  di_strsz :: u64
  di_hash :: u64

definition dyn_entry :: "u64 \<Rightarrow> u64 \<Rightarrow> dyn_info \<Rightarrow> dyn_info" where
  "dyn_entry tag v d =
     (if tag = 6 then d\<lparr>di_symtab := v\<rparr>
      else if tag = 5 then d\<lparr>di_strtab := v\<rparr>
      else if tag = 10 then d\<lparr>di_strsz := v\<rparr>
      else if tag = 4 then d\<lparr>di_hash := v\<rparr>
      else d)"

text \<open>The scan to \<open>DT_NULL\<close>: nothing but that entry ends it, so without one it leaves the block.\<close>

function dyn_scan :: "byte list \<Rightarrow> nat \<Rightarrow> dyn_info \<Rightarrow> dyn_info option" where
  "dyn_scan bs i d =
     (case ld bs (16 * i) 8 of
        None \<Rightarrow> None
      | Some t \<Rightarrow>
          if (fld 8 0 t :: u64) = 0 then Some d
          else case ld bs (16 * i + 8) 8 of
              None \<Rightarrow> None
            | Some v \<Rightarrow> dyn_scan bs (Suc i) (dyn_entry (fld 8 0 t) (fld 8 0 v) d))"
  by pat_completeness auto
termination
  by (relation "measure (\<lambda>(bs, i, d). length bs - 16 * i)") (auto simp: ld_def split: if_splits)

declare dyn_scan.simps [simp del]

definition dyn_nsyms :: "byte list \<Rightarrow> phdr list \<Rightarrow> dyn_info \<Rightarrow> u32" where
  "dyn_nsyms f ps d =
     (let h_off = vaddr_to_offset (di_hash d) ps;
          n = (if di_hash d \<noteq> 0 \<and> 0 \<le> sint h_off
               then (case pread f 8 h_off of None \<Rightarrow> 0 | Some hdr \<Rightarrow> fld 4 4 hdr) else 0) in
      if n = 0 \<and> di_symtab d < di_strtab d then ucast ((di_strtab d - di_symtab d) div 24) else n)"

definition read_dynamic :: "(nat \<Rightarrow> bool) \<Rightarrow> byte list \<Rightarrow> phdr list \<Rightarrow> u64 \<Rightarrow> dyn_info \<Rightarrow> sym_entry list option" where
  "read_dynamic mal f ps load_bias d =
     (let sym_off = vaddr_to_offset (di_symtab d) ps; str_off = vaddr_to_offset (di_strtab d) ps;
          nsyms = dyn_nsyms f ps d; sym_sz = unat nsyms * 24; strsz = unat (di_strsz d) in
      if di_symtab d = 0 \<or> di_strtab d = 0 \<or> di_strsz d = 0 then Some []
      else if sint sym_off < 0 \<or> sint str_off < 0 then Some []
      else if nsyms = 0 \<or> 500000 < nsyms then Some []
      else if \<not> mal sym_sz \<or> \<not> mal strsz then Some []
      else case (pread f sym_sz sym_off, pread f strsz str_off) of
          (Some syms, Some strs) \<Rightarrow> collect_syms syms strs strsz load_bias 0 (unat nsyms)
        | _ \<Rightarrow> Some [])"

definition load_dynsym_via_dynamic :: "(nat \<Rightarrow> bool) \<Rightarrow> byte list \<Rightarrow> phdr list \<Rightarrow> u64 \<Rightarrow> sym_entry list option" where
  "load_dynsym_via_dynamic mal f ps load_bias =
     (case find (\<lambda>p. p_type p = PT_DYNAMIC) ps of
        None \<Rightarrow> Some []
      | Some p \<Rightarrow>
          if p_filesz p = 0 \<or> \<not> mal (unat (p_filesz p)) then Some []
          else case pread f (unat (p_filesz p)) (p_offset p) of
              None \<Rightarrow> Some []
            | Some dynents \<Rightarrow>
                Option.bind (dyn_scan dynents 0 \<lparr>di_symtab = 0, di_strtab = 0, di_strsz = 0, di_hash = 0\<rparr>)
                  (read_dynamic mal f ps load_bias))"

end
