(* ===== verification/Memo.thy ===== *)
theory Memo
  imports Prelude
begin

text \<open>
  The interface of the tables that remember the result of a computation by key (symbol tables by
  library base, names by handle): a stored value is returned as it is, a missing one is computed and
  stored, and a computation may fail without changing the table. Values outside \<open>ok\<close> are never computed.
\<close>

definition memo_of :: "('k \<Rightarrow> 'v option) \<Rightarrow> ('k \<Rightarrow> 'v option) \<Rightarrow> bool" where
  "memo_of compute c \<longleftrightarrow> (\<forall>k v. c k = Some v \<longrightarrow> compute k = Some v)"

lemma memo_of_empty [simp]: "memo_of compute Map.empty"
  by (simp add: memo_of_def)

lemma memo_of_upd: "memo_of compute c \<Longrightarrow> compute k = Some v \<Longrightarrow> memo_of compute (c(k \<mapsto> v))"
  by (simp add: memo_of_def)

locale memo_cache =
  fixes ok :: "'v \<Rightarrow> bool"
    and compute :: "'k \<Rightarrow> 'v option"
    and fetch :: "'k \<Rightarrow> ('k \<Rightarrow> 'v option) \<Rightarrow> ('v \<times> ('k \<Rightarrow> 'v option)) option"
  assumes hit: "c k = Some v \<Longrightarrow> ok v \<Longrightarrow> fetch k c = Some (v, c)"
    and miss: "c k = None \<Longrightarrow> fetch k c = map_option (\<lambda>v. (v, c(k \<mapsto> v))) (compute k)"
    and compute_ok: "compute k = Some v \<Longrightarrow> ok v"
begin

lemma fetch_value: "memo_of compute c \<Longrightarrow> map_option fst (fetch k c) = compute k"
proof (cases "c k")
  case None
  then show ?thesis by (cases "compute k") (simp_all add: miss)
next
  case (Some v)
  assume "memo_of compute c"
  with Some have "compute k = Some v" by (simp add: memo_of_def)
  with Some show ?thesis by (simp add: hit compute_ok)
qed

lemma fetch_memo:
  assumes "memo_of compute c" and "fetch k c = Some (v, c')"
  shows "memo_of compute c' \<and> c' k = Some v \<and> compute k = Some v"
proof (cases "c k")
  case None
  with assms(2) have "compute k = Some v" "c' = c(k \<mapsto> v)" by (auto simp: miss)
  with assms(1) show ?thesis by (simp add: memo_of_upd)
next
  case (Some w)
  with assms(1) have "compute k = Some w" by (simp add: memo_of_def)
  with Some assms show ?thesis by (simp add: hit compute_ok)
qed

text \<open>A second fetch of the same key returns the same value and leaves the table alone.\<close>

lemma fetch_again:
  assumes "memo_of compute c" and "fetch k c = Some (v, c')"
  shows "fetch k c' = Some (v, c')"
  using fetch_memo [OF assms] by (auto intro: hit compute_ok)

end

end
