(* ===== verification/Symbol_Table.thy ===== *)
theory Symbol_Table
  imports Elf_File Memo
begin

text \<open>
  \<open>SymbolTable\<close> of \<open>trace/Utils/SymbolTable.cpp\<close>: loading a table from the file behind a library base,
  the binary searches over the sorted entries, and the global cache of tables by base. What the
  dynamic linker, the file system and the allocator answer is a record of functions; \<open>std::sort\<close> is
  one of them, since the order of entries with equal addresses is its choice.
\<close>

subsection \<open>Loading\<close>

record os_env =
  os_magic :: "u64 \<Rightarrow> bool"
  os_dladdr :: "u64 \<Rightarrow> (u64 \<times> string option) option"
  os_open :: "string \<Rightarrow> byte list option"
  os_malloc :: "nat \<Rightarrow> bool"
  os_sort :: "sym_entry list \<Rightarrow> sym_entry list"

record symbol_table =
  st_entries :: "sym_entry list"
  st_loaded :: bool

text \<open>The header checks; the result is the program headers and the load bias.\<close>

definition load_phdrs :: "os_env \<Rightarrow> byte list \<Rightarrow> u64 \<Rightarrow> (byte list \<times> phdr list \<times> u64) option" where
  "load_phdrs os f so_base =
     (case pread f 64 0 of
        None \<Rightarrow> None
      | Some ehdr \<Rightarrow>
          (let phnum = unat (fld 2 56 ehdr :: u16) in
           if take 4 ehdr \<noteq> [0x7f, 0x45, 0x4c, 0x46] \<or> ehdr ! 4 \<noteq> 2 then None
           else if phnum = 0 \<or> 256 < phnum \<or> \<not> os_malloc os (phnum * 56) then None
           else case pread f (phnum * 56) (fld 8 32 ehdr) of
               None \<Rightarrow> None
             | Some tbl \<Rightarrow>
                 (case find (\<lambda>p. p_type p = PT_LOAD) (phdrs_of tbl phnum) of
                    None \<Rightarrow> None
                  | Some p \<Rightarrow> Some (ehdr, phdrs_of tbl phnum, so_base - p_vaddr p))))"

text \<open>The section headers when there are some, otherwise or on failure the dynamic segment.\<close>

definition load_sections :: "os_env \<Rightarrow> byte list \<Rightarrow> byte list \<Rightarrow> phdr list \<Rightarrow> u64 \<Rightarrow> sym_entry list option option" where
  "load_sections os f ehdr ps load_bias =
     (let shnum = unat (fld 2 60 ehdr :: u16); shentsize = unat (fld 2 58 ehdr :: u16) in
      if 0 < shnum \<and> 64 \<le> shentsize \<and> os_malloc os (shnum * shentsize)
      then (case pread f (shnum * shentsize) (fld 8 40 ehdr) of
              None \<Rightarrow> Some None
            | Some shdrs \<Rightarrow> load_dynsym_via_sections (os_malloc os) f shnum shdrs ps load_bias 0 shnum)
      else Some None)"

definition load_entries :: "os_env \<Rightarrow> byte list \<Rightarrow> u64 \<Rightarrow> sym_entry list option" where
  "load_entries os f so_base =
     (case load_phdrs os f so_base of
        None \<Rightarrow> Some []
      | Some (ehdr, ps, load_bias) \<Rightarrow>
          (case load_sections os f ehdr ps load_bias of
             None \<Rightarrow> None
           | Some (Some es) \<Rightarrow> Some es
           | Some None \<Rightarrow> load_dynsym_via_dynamic (os_malloc os) f ps load_bias))"

text \<open>\<open>load\<close> on any table: the new table and the result; \<open>None\<close> is an access outside a block.\<close>

definition st_load :: "os_env \<Rightarrow> u64 \<Rightarrow> symbol_table \<Rightarrow> (symbol_table \<times> bool) option" where
  "st_load os so_base t =
     (let t' = t\<lparr>st_entries := [], st_loaded := True\<rparr> in
      if \<not> os_magic os so_base then Some (t', False)
      else case os_dladdr os so_base of
          Some (b, Some fname) \<Rightarrow>
            (case os_open os fname of
               None \<Rightarrow> Some (t', False)
             | Some f \<Rightarrow>
                 map_option (\<lambda>es. if es = [] then (t', False) else (t'\<lparr>st_entries := os_sort os es\<rparr>, True))
                   (load_entries os f so_base))
        | _ \<Rightarrow> Some (t', False))"

definition st_new :: symbol_table where
  "st_new = \<lparr>st_entries = [], st_loaded = False\<rparr>"

subsection \<open>Searching\<close>

text \<open>The halving loop of \<open>std::lower_bound\<close> and \<open>std::upper_bound\<close>: the first entry at or behind \<open>first\<close>
  that \<open>before\<close> does not hold of.\<close>

function bound_loop :: "('a \<Rightarrow> bool) \<Rightarrow> 'a list \<Rightarrow> nat \<Rightarrow> nat \<Rightarrow> nat" where
  "bound_loop before es first len =
     (if len = 0 then first
      else if before (es ! (first + len div 2))
      then bound_loop before es (first + len div 2 + 1) (len - (len div 2 + 1))
      else bound_loop before es first (len div 2))"
  by pat_completeness auto
termination
  by (relation "measure (\<lambda>(before, es, first, len). len)") auto

declare bound_loop.simps [simp del]

definition findExact :: "symbol_table \<Rightarrow> u64 \<Rightarrow> byte list option" where
  "findExact t a =
     (let es = st_entries t; it = bound_loop (\<lambda>e. se_addr e < a) es 0 (length es) in
      if es = [] then None
      else if it \<noteq> length es \<and> se_addr (es ! it) = a then Some (se_name (es ! it))
      else None)"

fun findAddrByName :: "sym_entry list \<Rightarrow> byte list \<Rightarrow> u64" where
  "findAddrByName [] n = 0"
| "findAddrByName (e # es) n = (if se_name e = n then se_addr e else findAddrByName es n)"

definition findContaining :: "symbol_table \<Rightarrow> u64 \<Rightarrow> sym_entry option" where
  "findContaining t a =
     (let es = st_entries t; it = bound_loop (\<lambda>e. \<not> a < se_addr e) es 0 (length es) in
      if es = [] then None
      else if it = 0 then None
      else let e = es ! (it - 1) in
        if 0 < se_size e
        then (if a < se_addr e + ucast (se_size e) then Some e else None)
        else if a - se_addr e < 0x1000 then Some e else None)"

subsection \<open>The cache\<close>

type_synonym sym_cache = "u64 \<Rightarrow> symbol_table option"

text \<open>\<open>None\<close> is a fault in \<open>load\<close>.\<close>

definition cached_table :: "os_env \<Rightarrow> u64 \<Rightarrow> sym_cache \<Rightarrow> (symbol_table \<times> sym_cache) option" where
  "cached_table os base c =
     (case c base of
        Some t \<Rightarrow> Some (t, c)
      | None \<Rightarrow> map_option (\<lambda>(t, ok). (t, c(base \<mapsto> t))) (st_load os base st_new))"

text \<open>The table of the library that an address is in, when there is one, and the cache.\<close>

definition getOrLoadTable :: "os_env \<Rightarrow> u64 \<Rightarrow> sym_cache \<Rightarrow> (symbol_table option \<times> sym_cache) option" where
  "getOrLoadTable os a c =
     (case os_dladdr os a of
        Some (base, Some fname) \<Rightarrow>
          if base = 0 \<or> \<not> os_magic os base then Some (None, c)
          else map_option (\<lambda>(t, c'). (Some t, c')) (cached_table os base c)
      | _ \<Rightarrow> Some (None, c))"

definition lookupSymbol :: "os_env \<Rightarrow> u64 \<Rightarrow> sym_cache \<Rightarrow> (sym_entry option \<times> sym_cache) option" where
  "lookupSymbol os a c =
     map_option (\<lambda>(t, c'). (Option.bind t (\<lambda>t. findContaining t a), c')) (getOrLoadTable os a c)"

definition lookupSymbolExact :: "os_env \<Rightarrow> u64 \<Rightarrow> sym_cache \<Rightarrow> (byte list option \<times> sym_cache) option" where
  "lookupSymbolExact os a c =
     map_option (\<lambda>(t, c'). (Option.bind t (\<lambda>t. findExact t a), c')) (getOrLoadTable os a c)"

definition loadSymbolTableForSo :: "os_env \<Rightarrow> u64 \<Rightarrow> sym_cache \<Rightarrow> (symbol_table \<times> sym_cache) option" where
  "loadSymbolTableForSo os so_base c =
     (let t = (case c so_base of None \<Rightarrow> st_new | Some t \<Rightarrow> t) in
      if st_loaded t then Some (t, c)
      else map_option (\<lambda>(t, ok). (t, c(so_base \<mapsto> t))) (st_load os so_base t))"

definition clearSymbolCache :: "sym_cache \<Rightarrow> sym_cache" where
  "clearSymbolCache c = Map.empty"

text \<open>\<open>objs\<close> are the objects \<open>dl_iterate_phdr\<close> reports: name and load bias.\<close>

definition so_base_of :: "(string option \<times> u64) list \<Rightarrow> string \<Rightarrow> u64" where
  "so_base_of objs so_name =
     (case find (\<lambda>(n, b). case n of None \<Rightarrow> False | Some s \<Rightarrow> list_ex (\<lambda>k. take (length so_name) (drop k s) = so_name) [0..<length s + 1]) objs of
        None \<Rightarrow> 0 | Some (n, b) \<Rightarrow> b)"

definition resolveSymbolInSo ::
  "os_env \<Rightarrow> (string option \<times> u64) list \<Rightarrow> string \<Rightarrow> byte list \<Rightarrow> sym_cache \<Rightarrow> (u64 \<times> sym_cache) option" where
  "resolveSymbolInSo os objs so_name name c =
     (let base = so_base_of objs so_name in
      if base = 0 then Some (0, c)
      else map_option (\<lambda>(t, c'). (if st_entries t = [] then 0 else findAddrByName (st_entries t) name, c'))
        (loadSymbolTableForSo os base c))"

subsection \<open>The binary search\<close>

definition downward :: "('a \<Rightarrow> bool) \<Rightarrow> 'a list \<Rightarrow> bool" where
  "downward before es \<longleftrightarrow> (\<forall>i j. i \<le> j \<longrightarrow> j < length es \<longrightarrow> before (es ! j) \<longrightarrow> before (es ! i))"

lemma bound_loop_empty: "bound_loop before es first 0 = first"
  by (subst bound_loop.simps) simp

lemma bound_loop_right:
  "0 < len \<Longrightarrow> before (es ! (first + len div 2)) \<Longrightarrow>
   bound_loop before es first len = bound_loop before es (first + len div 2 + 1) (len - (len div 2 + 1))"
  by (subst bound_loop.simps) simp

lemma bound_loop_left:
  "0 < len \<Longrightarrow> \<not> before (es ! (first + len div 2)) \<Longrightarrow>
   bound_loop before es first len = bound_loop before es first (len div 2)"
  by (subst bound_loop.simps) simp

lemma bound_loop_split:
  assumes "downward before es" and "first + len \<le> length es"
    and "\<And>i. i < first \<Longrightarrow> before (es ! i)" and "\<And>i. i < length es \<Longrightarrow> first + len \<le> i \<Longrightarrow> \<not> before (es ! i)"
  shows "bound_loop before es first len \<le> length es \<and>
    (\<forall>i<length es. before (es ! i) \<longleftrightarrow> i < bound_loop before es first len)"
  using assms(2-4)
proof (induction len arbitrary: first rule: less_induct)
  case (less len)
  let ?m = "first + len div 2"
  show ?case
  proof (cases "len = 0")
    case True
    then show ?thesis using less.prems by (auto simp: bound_loop_empty) (meson not_less)
  next
    case False
    then have m: "?m < length es" and pos: "0 < len" using less.prems(1) by linarith+
    show ?thesis
    proof (cases "before (es ! ?m)")
      case True
      have "before (es ! i)" if "i < ?m + 1" for i
        using that True m assms(1) unfolding downward_def by (metis Suc_eq_plus1 less_Suc_eq_le)
      moreover have "?m + 1 + (len - (len div 2 + 1)) = first + len" and "len - (len div 2 + 1) < len"
        using pos by linarith+
      ultimately show ?thesis
        unfolding bound_loop_right [of len before, OF pos True]
        by (intro less.IH) (use less.prems in auto)
    next
      case nb: False
      have "\<not> before (es ! i)" if "i < length es" "?m \<le> i" for i
        using that nb assms(1) unfolding downward_def by auto
      moreover have "?m \<le> length es" and "len div 2 < len" using m pos by simp_all
      ultimately show ?thesis
        unfolding bound_loop_left [of len before, OF pos nb]
        by (intro less.IH) (use less.prems in auto)
    qed
  qed
qed

lemma bound_loop_all:
  assumes "downward before es"
  shows "bound_loop before es 0 (length es) \<le> length es \<and>
    (\<forall>i<length es. before (es ! i) \<longleftrightarrow> i < bound_loop before es 0 (length es))"
  using assms by (intro bound_loop_split) auto

abbreviation by_addr :: "sym_entry list \<Rightarrow> bool" where
  "by_addr es \<equiv> sorted (map se_addr es)"

lemma by_addr_nth: "by_addr es \<Longrightarrow> i \<le> j \<Longrightarrow> j < length es \<Longrightarrow> se_addr (es ! i) \<le> se_addr (es ! j)"
  using sorted_nth_mono [of "map se_addr es" i j] by simp

lemma downward_lower: "by_addr es \<Longrightarrow> downward (\<lambda>e. se_addr e < a) es"
  unfolding downward_def using by_addr_nth order_le_less_trans by blast

lemma downward_upper: "by_addr es \<Longrightarrow> downward (\<lambda>e. \<not> a < se_addr e) es"
  unfolding downward_def not_less using by_addr_nth order_trans by blast

text \<open>What the two searches point at.\<close>

lemma upper_bound_pos:
  assumes "by_addr es" and "it = bound_loop (\<lambda>e. \<not> a < se_addr e) es 0 (length es)"
  shows "it \<le> length es \<and> (\<forall>i<length es. se_addr (es ! i) \<le> a \<longleftrightarrow> i < it)"
  using bound_loop_all [OF downward_upper [OF assms(1), of a]] by (simp add: assms(2) not_less)

lemma lower_bound_pos:
  assumes "by_addr es" and "it = bound_loop (\<lambda>e. se_addr e < a) es 0 (length es)"
  shows "it \<le> length es \<and> (\<forall>i<length es. se_addr (es ! i) < a \<longleftrightarrow> i < it)"
  using bound_loop_all [OF downward_lower [OF assms(1), of a]] by (simp add: assms(2))

text \<open>The bytes an entry is taken to cover.\<close>

definition se_extent :: "sym_entry \<Rightarrow> nat" where
  "se_extent e = (if se_size e = 0 then 0x1000 else unat (se_size e))"

definition se_covers :: "sym_entry \<Rightarrow> u64 \<Rightarrow> bool" where
  "se_covers e a \<longleftrightarrow> se_addr e \<le> a \<and> unat a < unat (se_addr e) + se_extent e"

definition no_wrap :: "sym_entry \<Rightarrow> bool" where
  "no_wrap e \<longleftrightarrow> unat (se_addr e) + se_extent e < 2 ^ 64"

lemma unat_u32: "unat (ucast (w :: u32) :: u64) = unat w"
proof -
  have "unat w < 2 ^ 32" using unsigned_less [of w, where 'a = nat] by simp
  then show ?thesis by (simp add: unsigned_ucast_eq take_bit_nat_eq_self)
qed

lemma covers_iff:
  assumes "no_wrap e" and "se_addr e \<le> a"
  shows "(if 0 < se_size e then a < se_addr e + ucast (se_size e) else a - se_addr e < 0x1000) \<longleftrightarrow> se_covers e a"
proof (cases "se_size e = 0")
  case True
  have "unat (a - se_addr e) = unat a - unat (se_addr e)" using assms(2) by (simp add: unat_sub)
  moreover have "unat (se_addr e) \<le> unat a" using assms(2) by (simp add: word_le_nat_alt)
  ultimately show ?thesis using True assms(2)
    by (auto simp: se_covers_def se_extent_def word_less_nat_alt)
next
  case False
  have "unat (ucast (se_size e) :: u64) = unat (se_size e)" 
    by (rule unat_u32)
  moreover from this have "unat (se_addr e + ucast (se_size e)) = unat (se_addr e) + unat (se_size e)"
    using assms(1) False by (subst unat_plus_if') (simp add: no_wrap_def se_extent_def)
  ultimately show ?thesis using False assms(2)
    by (auto simp: se_covers_def se_extent_def word_less_nat_alt unat_gt_0)
qed

lemma findContaining_last:
  assumes "by_addr (st_entries t)" and "\<forall>e\<in>set (st_entries t). no_wrap e"
  shows "findContaining t a = Some e \<longleftrightarrow>
    (\<exists>i<length (st_entries t). e = st_entries t ! i \<and> se_covers e a \<and>
      (\<forall>j<length (st_entries t). i < j \<longrightarrow> a < se_addr (st_entries t ! j)))"
proof -
  let ?es = "st_entries t"
  define it where "it = bound_loop (\<lambda>e. \<not> a < se_addr e) ?es 0 (length ?es)"
  note pos = upper_bound_pos [OF assms(1) it_def]
  have eq: "findContaining t a = (if it = 0 then None else if se_covers (?es ! (it - 1)) a then Some (?es ! (it - 1)) else None)"
  proof (cases "?es = [] \<or> it = 0")
    case True
    then show ?thesis using pos by (auto simp: findContaining_def it_def [symmetric] Let_def)
  next
    case False
    then have i: "it - 1 < length ?es" and le: "se_addr (?es ! (it - 1)) \<le> a"
      using pos by (auto simp: less_Suc_eq_le)
    then have "no_wrap (?es ! (it - 1))" using assms(2) by simp
    note cov = covers_iff [OF this le]
    have "findContaining t a =
      (if (if 0 < se_size (?es ! (it - 1)) then a < se_addr (?es ! (it - 1)) + ucast (se_size (?es ! (it - 1)))
           else a - se_addr (?es ! (it - 1)) < 0x1000)
       then Some (?es ! (it - 1)) else None)"
      using False by (simp add: findContaining_def it_def [symmetric] Let_def del: One_nat_def)
    then show ?thesis unfolding cov using False by simp
  qed
  show ?thesis
  proof
    assume "findContaining t a = Some e"
    then have "it \<noteq> 0" "se_covers e a" "e = ?es ! (it - 1)" by (auto simp: eq split: if_splits)
    moreover have "a < se_addr (?es ! j)" if "j < length ?es" "it - 1 < j" for j

    proof -
      have "\<not> j < it" using that(2) by linarith
      then show ?thesis using pos that(1) by (meson not_le)
    qed
    moreover have "it - 1 < length ?es" using pos \<open>it \<noteq> 0\<close> by linarith
    ultimately show "\<exists>i<length ?es. e = ?es ! i \<and> se_covers e a \<and>
      (\<forall>j<length ?es. i < j \<longrightarrow> a < se_addr (?es ! j))" by blast
  next
    assume "\<exists>i<length ?es. e = ?es ! i \<and> se_covers e a \<and>
      (\<forall>j<length ?es. i < j \<longrightarrow> a < se_addr (?es ! j))"
    then obtain i where i: "i < length ?es" "e = ?es ! i" "se_covers e a"
      "\<And>j. j < length ?es \<Longrightarrow> i < j \<Longrightarrow> a < se_addr (?es ! j)" by blast
    have "i < it" using i(1-3) pos by (simp add: se_covers_def)
    moreover have "\<not> i < it - 1"
    proof
      assume "i < it - 1"
      moreover from this have "it - 1 < length ?es" "it - 1 < it" using pos by linarith+
      ultimately show False using i(4) [of "it - 1"] pos by (meson not_le)
    qed
    ultimately have "it - 1 = i" "it \<noteq> 0" by simp_all
    with i(2,3) show "findContaining t a = Some e" by (simp add: eq)
  qed
qed

subsection \<open>What loading keeps in bounds\<close>

lemma collect_syms_defined:
  assumes "24 * (j + n) \<le> length syms" and "length strs = strsz"
  shows "\<exists>es. collect_syms syms strs strsz load_bias j n = Some es"
  using assms(1)
proof (induction n arbitrary: j)
  case 0
  then show ?case by simp
next
  case (Suc n)
  have "\<exists>r. collect_one strs strsz load_bias s = Some r" for s
    using assms(2) by (simp add: collect_one_def ld_def)
  then obtain r where "collect_one strs strsz load_bias (sym_of (take 24 (drop (24 * j) syms))) = Some r"
    by blast
  moreover obtain es where "collect_syms syms strs strsz load_bias (Suc j) n = Some es" using Suc by fastforce
  ultimately show ?case using Suc.prems by (simp add: ld_def)
qed

lemma collect_all:
  assumes "24 * n \<le> length syms" and "length strs = strsz"
  shows "collect_syms syms strs strsz load_bias 0 n \<noteq> None"
  using collect_syms_defined [of 0 n syms strs strsz] assms by auto

lemma pread_length: "pread f n off = Some bs \<Longrightarrow> length bs = n"
  by (auto simp: pread_def ld_def split: if_splits)

lemma read_symtab_defined:
  "24 * unat nsyms \<le> unat (sh_size sh) \<Longrightarrow> read_symtab mal f sh st load_bias nsyms \<noteq> None"
  by (auto simp: read_symtab_def collect_all [simplified] dest!: pread_length split: option.splits)

lemma nsyms_fits: "24 * unat (ucast (sz div 24 :: u64) :: u32) \<le> unat sz"
proof -
  have "unat (ucast (sz div 24 :: u64) :: u32) \<le> unat (sz div 24)"
    by (simp add: unsigned_ucast_eq take_bit_nat_less_eq_self)
  also have "unat (sz div 24) = unat sz div 24" by (simp add: unat_div_distrib)
  finally have "24 * unat (ucast (sz div 24 :: u64) :: u32) \<le> 24 * (unat sz div 24)" by simp
  also have "\<dots> \<le> unat sz" by simp
  finally show ?thesis .
qed

lemma sections_defined:
  assumes "length shdrs \<ge> 64 * shnum" and "i + n = shnum"
  shows "load_dynsym_via_sections mal f shnum shdrs ps load_bias i n \<noteq> None"
  using assms(2)
proof (induction n arbitrary: i)
  case 0
  then show ?case by simp
next
  case (Suc n)
  have ih: "load_dynsym_via_sections mal f shnum shdrs ps load_bias (Suc i) n \<noteq> None" using Suc by simp
  have rd: "ld shdrs (64 * k) 64 \<noteq> None" if "k < shnum" for k
    using that assms(1) by (simp add: ld_def)
  then have "ld shdrs (64 * i) 64 \<noteq> None" using Suc.prems by simp
  then obtain e where e: "ld shdrs (64 * i) 64 = Some e" by blast
  show ?case
  proof (cases "sh_type (shdr_of e) \<noteq> 11 \<or> sh_flags (shdr_of e) AND 2 = 0 \<or>
      \<not> section_in_pt_load (shdr_of e) ps \<or> shnum \<le> unat (sh_link (shdr_of e))")
    case True
    then show ?thesis using e ih by (simp add: Let_def)
  next
    case False
    then have "ld shdrs (64 * unat (sh_link (shdr_of e))) 64 \<noteq> None" by (intro rd) simp
    then show ?thesis using e ih False read_symtab_defined [OF nsyms_fits]
      by (auto simp: Let_def)
  qed
qed

lemma load_sections_defined: "load_sections os f ehdr ps load_bias \<noteq> None"
proof -
  have "load_dynsym_via_sections mal f n tbl ps load_bias 0 n \<noteq> None"
    if "pread f (n * k) off = Some tbl" "64 \<le> k" for mal n k off tbl
    using that pread_length [OF that(1)] by (intro sections_defined) (simp_all add: mult.commute)
  then show ?thesis by (auto simp: load_sections_def Let_def split: option.splits)
qed

text \<open>The block holds a \<open>DT_NULL\<close> entry whose tag is inside.\<close>

definition has_null :: "byte list \<Rightarrow> bool" where
  "has_null bs \<longleftrightarrow> list_ex (\<lambda>i. (fld 8 (16 * i) bs :: u64) = 0) [0..<(length bs + 8) div 16]"

lemma ld_some: "a + n \<le> length bs \<Longrightarrow> ld bs a n = Some (take n (drop a bs))"
  by (simp add: ld_def)

lemma dyn_scan_none:
  "dyn_scan bs i d = None \<longleftrightarrow> (\<forall>k. i \<le> k \<longrightarrow> 16 * k + 8 \<le> length bs \<longrightarrow> (fld 8 (16 * k) bs :: u64) \<noteq> 0)"
proof (induction bs i d rule: dyn_scan.induct)
  case (1 bs i d)
  show ?case
  proof (cases "16 * i + 8 \<le> length bs")
    case False
    then have "dyn_scan bs i d = None" by (subst dyn_scan.simps) (simp add: ld_def)
    moreover have "\<not> 16 * k + 8 \<le> length bs" if "i \<le> k" for k using False that by linarith
    ultimately show ?thesis by auto
  next
    case in_block: True
    note t = ld_some [OF in_block]
    have f: "(fld 8 0 (take 8 (drop (16 * i) bs)) :: u64) = fld 8 (16 * i) bs" by (simp add: fld_def)
    show ?thesis
    proof (cases "(fld 8 (16 * i) bs :: u64) = 0")
      case True
      then have "dyn_scan bs i d = Some d" by (subst dyn_scan.simps) (simp add: t f)
      then show ?thesis using True in_block by auto
    next
      case False
      have split: "(\<forall>k. i \<le> k \<longrightarrow> P k) \<longleftrightarrow> P i \<and> (\<forall>k. Suc i \<le> k \<longrightarrow> P k)" for P
        by (metis Suc_leD le_refl not_less_eq_eq order_antisym_conv)
      show ?thesis
      proof (cases "16 * i + 16 \<le> length bs")
        case True
        then have v: "ld bs (16 * i + 8) 8 = Some (take 8 (drop (16 * i + 8) bs))" by (intro ld_some) simp
        have "dyn_scan bs i d = dyn_scan bs (Suc i) (dyn_entry (fld 8 (16 * i) bs) (fld 8 0 (take 8 (drop (16 * i + 8) bs))) d)"
          using False by (subst dyn_scan.simps) (simp add: t f v)
        with 1 [OF t _ v] False show ?thesis by (subst split) (simp add: f in_block)
      next
        case out: False
        then have "dyn_scan bs i d = None" using False by (subst dyn_scan.simps) (simp add: t f, simp add: ld_def)
        moreover have "\<not> 16 * k + 8 \<le> length bs" if "Suc i \<le> k" for k using out that by linarith
        ultimately show ?thesis using False by (subst split) auto
      qed
    qed
  qed
qed

lemma dyn_scan_iff: "dyn_scan bs 0 d = None \<longleftrightarrow> \<not> has_null bs"
proof -
  have "k < (length bs + 8) div 16 \<longleftrightarrow> 16 * k + 8 \<le> length bs" for k by linarith
  then show ?thesis by (auto simp: dyn_scan_none has_null_def list_ex_iff)
qed

lemma read_dynamic_defined: "read_dynamic mal f ps load_bias d \<noteq> None"
  by (auto simp: read_dynamic_def Let_def collect_all [simplified] dest!: pread_length split: option.splits)

subsection \<open>What a loaded table holds\<close>

definition entry_ok :: "sym_entry \<Rightarrow> bool" where
  "entry_ok e \<longleftrightarrow> se_name e \<noteq> [] \<and> 0 \<notin> set (se_name e)"

lemma collect_one_ok:
  assumes "collect_one strs strsz load_bias s = Some (Some e)"
  shows "entry_ok e \<and> se_addr e = sym_value s + load_bias \<and> sym_value s \<noteq> 0 \<and> sym_info s AND 0xf = 2"
proof -
  from assms obtain rest where rest: "ld strs (unat (sym_name s)) (strsz - unat (sym_name s)) = Some rest"
    and lt: "\<not> strsz \<le> unat (sym_name s)" and hd: "hd rest \<noteq> 0"
    and e: "e = \<lparr>se_addr = sym_value s + load_bias, se_size = ucast (sym_size s),
                 se_name = takeWhile (\<lambda>b. b \<noteq> 0) rest\<rparr>"
    and "sym_value s \<noteq> 0" "sym_info s AND 0xf = 2"
    by (auto simp: collect_one_def split: if_splits option.splits)
  then have "rest \<noteq> []" by (auto simp: ld_def split: if_splits)
  then have "takeWhile (\<lambda>b. b \<noteq> 0) rest \<noteq> []" using hd by (cases rest) auto
  moreover have "0 \<notin> set (takeWhile (\<lambda>b. b \<noteq> 0) rest)" by (auto dest: set_takeWhileD)
  ultimately show ?thesis using e \<open>sym_value s \<noteq> 0\<close> \<open>sym_info s AND 0xf = 2\<close> by (simp add: entry_ok_def)
qed

lemma collect_syms_ok: "collect_syms syms strs strsz load_bias j n = Some es \<Longrightarrow> list_all entry_ok es"
proof (induction n arbitrary: j es)
  case 0
  then show ?case by simp
next
  case (Suc n)
  then show ?case by (auto split: option.splits dest!: collect_one_ok)
qed

lemma read_symtab_ok: "read_symtab mal f sh st load_bias nsyms = Some (Some es) \<Longrightarrow> list_all entry_ok es"
  by (auto simp: read_symtab_def split: if_splits option.splits dest: collect_syms_ok)

lemma sections_ok:
  "load_dynsym_via_sections mal f shnum shdrs ps load_bias i n = Some (Some es) \<Longrightarrow> list_all entry_ok es"
proof (induction n arbitrary: i)
  case 0
  then show ?case by simp
next
  case (Suc n)
  then show ?case by (auto simp: Let_def split: option.splits if_splits dest: read_symtab_ok)
qed

lemma dynamic_ok: "load_dynsym_via_dynamic mal f ps load_bias = Some es \<Longrightarrow> list_all entry_ok es"
  by (auto simp: load_dynsym_via_dynamic_def read_dynamic_def Let_def bind_eq_Some_conv
      split: option.splits if_splits dest: collect_syms_ok)

lemma load_entries_ok: "load_entries os f so_base = Some es \<Longrightarrow> list_all entry_ok es"
  by (auto simp: load_entries_def load_sections_def Let_def split: option.splits if_splits
      dest: sections_ok dynamic_ok)

text \<open>What \<open>std::sort\<close> by address promises.\<close>

definition sorts :: "(sym_entry list \<Rightarrow> sym_entry list) \<Rightarrow> bool" where
  "sorts srt \<longleftrightarrow> (\<forall>es. set (srt es) = set es \<and> length (srt es) = length es \<and> by_addr (srt es))"

lemma sorts_sort_key: "sorts (sort_key se_addr)"
  by (simp add: sorts_def)

subsection \<open>The cache is a memo of loading\<close>

definition table_at :: "os_env \<Rightarrow> u64 \<Rightarrow> symbol_table option" where
  "table_at os b = map_option fst (st_load os b st_new)"

lemma table_at_loaded: "table_at os b = Some t \<Longrightarrow> st_loaded t"
  by (auto simp: table_at_def st_load_def Let_def split: if_splits option.splits)

interpretation so_cache: memo_cache "\<lambda>t. True" "table_at os" "cached_table os" for os
  by unfold_locales (auto simp: cached_table_def table_at_def option.map_comp comp_def split_def)

lemma st_load_loaded: "st_load os b st_new = Some (t, ok) \<Longrightarrow> st_loaded t"
  by (rule table_at_loaded [of os b]) (simp add: table_at_def)

lemma loadSymbolTableForSo_cases:
  "c b = Some t \<Longrightarrow> st_loaded t \<Longrightarrow> loadSymbolTableForSo os b c = Some (t, c)"
  "c b = None \<Longrightarrow> loadSymbolTableForSo os b c = map_option (\<lambda>(t, ok). (t, c(b \<mapsto> t))) (st_load os b st_new)"
  by (simp_all add: loadSymbolTableForSo_def) (simp add: st_new_def)

interpretation so_preload: memo_cache st_loaded "table_at os" "loadSymbolTableForSo os" for os
proof
  fix c :: sym_cache and k t
  show "c k = Some t \<Longrightarrow> st_loaded t \<Longrightarrow> loadSymbolTableForSo os k c = Some (t, c)"
    by (rule loadSymbolTableForSo_cases(1))
  show "c k = None \<Longrightarrow> loadSymbolTableForSo os k c = map_option (\<lambda>v. (v, c(k \<mapsto> v))) (table_at os k)"
    by (simp add: loadSymbolTableForSo_cases(2) table_at_def option.map_comp comp_def split_def)
  show "table_at os k = Some t \<Longrightarrow> st_loaded t" by (rule table_at_loaded)
qed

text \<open>What a lookup answers without any cache.\<close>

definition direct_table :: "os_env \<Rightarrow> u64 \<Rightarrow> symbol_table option option" where
  "direct_table os a =
     (case os_dladdr os a of
        Some (base, Some fname) \<Rightarrow>
          if base = 0 \<or> \<not> os_magic os base then Some None else map_option Some (table_at os base)
      | _ \<Rightarrow> Some None)"

lemma getOrLoadTable_value:
  assumes "memo_of (table_at os) c"
  shows "map_option fst (getOrLoadTable os a c) = direct_table os a"
proof -
  have "map_option fst (map_option (\<lambda>(t, c'). (Some t, c')) (cached_table os b c)) = map_option Some (table_at os b)" for b
    unfolding so_cache.fetch_value [OF assms, of b, symmetric]
    by (cases "cached_table os b c") auto
  then show ?thesis by (auto simp: getOrLoadTable_def direct_table_def split: option.split)
qed

lemma getOrLoadTable_memo:
  assumes "memo_of (table_at os) c" and "getOrLoadTable os a c = Some (t, c')"
  shows "memo_of (table_at os) c'"
  using assms so_cache.fetch_memo [OF assms(1)]
  by (auto simp: getOrLoadTable_def split: option.splits if_splits)

subsection \<open>Any sequence of calls\<close>

datatype sym_op =
    SymLookup u64
  | SymExact u64
  | SymPreload u64
  | SymResolve "(string option \<times> u64) list" string "byte list"
  | SymClear

fun sym_step :: "os_env \<Rightarrow> sym_op \<Rightarrow> sym_cache \<Rightarrow> sym_cache option" where
  "sym_step os (SymLookup a) c = map_option snd (lookupSymbol os a c)"
| "sym_step os (SymExact a) c = map_option snd (lookupSymbolExact os a c)"
| "sym_step os (SymPreload b) c = map_option snd (loadSymbolTableForSo os b c)"
| "sym_step os (SymResolve objs s n) c = map_option snd (resolveSymbolInSo os objs s n c)"
| "sym_step os SymClear c = Some (clearSymbolCache c)"

fun sym_run :: "os_env \<Rightarrow> sym_op list \<Rightarrow> sym_cache \<Rightarrow> sym_cache option" where
  "sym_run os [] c = Some c"
| "sym_run os (x # xs) c = Option.bind (sym_step os x c) (sym_run os xs)"

lemma resolve_memo:
  assumes "memo_of (table_at os) c" and "resolveSymbolInSo os objs s n c = Some (r, c')"
  shows "memo_of (table_at os) c'"
  using assms so_preload.fetch_memo [OF assms(1)]
  by (auto simp: resolveSymbolInSo_def Let_def split: if_splits)

lemma sym_step_memo: "memo_of (table_at os) c \<Longrightarrow> sym_step os x c = Some c' \<Longrightarrow> memo_of (table_at os) c'"
  by (cases x)
    (auto simp: lookupSymbol_def lookupSymbolExact_def clearSymbolCache_def
      dest: getOrLoadTable_memo so_preload.fetch_memo resolve_memo)

lemma sym_run_memo: "memo_of (table_at os) c \<Longrightarrow> sym_run os xs c = Some c' \<Longrightarrow> memo_of (table_at os) c'"
  by (induction xs arbitrary: c) (auto simp: bind_eq_Some_conv dest: sym_step_memo)

lemma lookup_values:
  assumes "memo_of (table_at os) c"
  shows "map_option fst (lookupSymbol os a c) = map_option (\<lambda>t. Option.bind t (\<lambda>t. findContaining t a)) (direct_table os a)"
    and "map_option fst (lookupSymbolExact os a c) = map_option (\<lambda>t. Option.bind t (\<lambda>t. findExact t a)) (direct_table os a)"
  unfolding getOrLoadTable_value [OF assms, of a, symmetric] lookupSymbol_def lookupSymbolExact_def
  by (cases "getOrLoadTable os a c"; auto)+

lemma resolve_value:
  assumes "memo_of (table_at os) c"
  shows "map_option fst (resolveSymbolInSo os objs s n c) =
    (if so_base_of objs s = 0 then Some 0
     else map_option (\<lambda>t. findAddrByName (st_entries t) n) (table_at os (so_base_of objs s)))"
proof (cases "so_base_of objs s = 0")
  case False
  then show ?thesis
    unfolding so_preload.fetch_value [OF assms, of "so_base_of objs s", symmetric]
    by (cases "loadSymbolTableForSo os (so_base_of objs s) c") (auto simp: resolveSymbolInSo_def Let_def)
qed (simp add: resolveSymbolInSo_def)

subsection \<open>A small library\<close>

text \<open>A file of 277 bytes with one \<open>PT_LOAD\<close> segment, a dynamic symbol section with the function \<open>foo\<close>
  at 0x500, and its string table.\<close>

definition demo_so :: "byte list" where
  "demo_so =
     [127, 69, 76, 70, 2, 0, 0, 0, 0, 0, 0, 0, 0, 0, 0, 0, 0, 0, 0, 0, 0, 0, 0, 0,
      0, 0, 0, 0, 0, 0, 0, 0, 64, 0, 0, 0, 0, 0, 0, 0, 120, 0, 0, 0, 0, 0, 0, 0,
      0, 0, 0, 0, 0, 0, 0, 0, 1, 0, 64, 0, 2, 0, 0, 0, 1, 0, 0, 0, 0, 0, 0, 0,
      0, 0, 0, 0, 0, 0, 0, 0, 0, 0, 0, 0, 0, 0, 0, 0, 0, 0, 0, 0, 0, 0, 0, 0,
      0, 16, 0, 0, 0, 0, 0, 0, 0, 16, 0, 0, 0, 0, 0, 0, 0, 0, 0, 0, 0, 0, 0, 0,
      0, 0, 0, 0, 11, 0, 0, 0, 2, 0, 0, 0, 0, 0, 0, 0, 248, 0, 0, 0, 0, 0, 0, 0,
      248, 0, 0, 0, 0, 0, 0, 0, 24, 0, 0, 0, 0, 0, 0, 0, 1, 0, 0, 0, 0, 0, 0, 0,
      0, 0, 0, 0, 0, 0, 0, 0, 0, 0, 0, 0, 0, 0, 0, 0, 0, 0, 0, 0, 3, 0, 0, 0,
      2, 0, 0, 0, 0, 0, 0, 0, 16, 1, 0, 0, 0, 0, 0, 0, 16, 1, 0, 0, 0, 0, 0, 0,
      5, 0, 0, 0, 0, 0, 0, 0, 0, 0, 0, 0, 0, 0, 0, 0, 0, 0, 0, 0, 0, 0, 0, 0,
      0, 0, 0, 0, 0, 0, 0, 0, 1, 0, 0, 0, 18, 0, 1, 0, 0, 5, 0, 0, 0, 0, 0, 0,
      32, 0, 0, 0, 0, 0, 0, 0, 0, 102, 111, 111, 0]"

definition demo_table :: symbol_table where
  "demo_table = \<lparr>st_entries = [\<lparr>se_addr = 0x10500, se_size = 0x20, se_name = [0x66, 0x6f, 0x6f]\<rparr>], st_loaded = True\<rparr>"

definition demo_os :: os_env where
  "demo_os = \<lparr>os_magic = (\<lambda>b. b = 0x10000),
     os_dladdr = (\<lambda>a. if 0x10000 \<le> a \<and> a < 0x20000 then Some (0x10000, Some ''libdemo.so'') else None),
     os_open = (\<lambda>n. Some demo_so), os_malloc = (\<lambda>n. True), os_sort = sort_key se_addr\<rparr>"

lemma demo_ehdr: "pread demo_so 64 0 = Some
     [127, 69, 76, 70, 2, 0, 0, 0, 0, 0, 0, 0, 0, 0, 0, 0, 0, 0, 0, 0, 0, 0, 0, 0,
      0, 0, 0, 0, 0, 0, 0, 0, 64, 0, 0, 0, 0, 0, 0, 0, 120, 0, 0, 0, 0, 0, 0, 0,
      0, 0, 0, 0, 0, 0, 0, 0, 1, 0, 64, 0, 2, 0, 0, 0]"
  by (simp add: pread_def ld_def demo_so_def)

lemma demo_phdrs: "pread demo_so 56 64 = Some
     [1, 0, 0, 0, 0, 0, 0, 0, 0, 0, 0, 0, 0, 0, 0, 0, 0, 0, 0, 0, 0, 0, 0, 0,
      0, 0, 0, 0, 0, 0, 0, 0, 0, 16, 0, 0, 0, 0, 0, 0, 0, 16, 0, 0, 0, 0, 0, 0,
      0, 0, 0, 0, 0, 0, 0, 0]"
  by (simp add: pread_def ld_def demo_so_def)

lemma demo_shdrs: "pread demo_so 128 120 = Some
     [0, 0, 0, 0, 11, 0, 0, 0, 2, 0, 0, 0, 0, 0, 0, 0, 248, 0, 0, 0, 0, 0, 0, 0,
      248, 0, 0, 0, 0, 0, 0, 0, 24, 0, 0, 0, 0, 0, 0, 0, 1, 0, 0, 0, 0, 0, 0, 0,
      0, 0, 0, 0, 0, 0, 0, 0, 0, 0, 0, 0, 0, 0, 0, 0, 0, 0, 0, 0, 3, 0, 0, 0,
      2, 0, 0, 0, 0, 0, 0, 0, 16, 1, 0, 0, 0, 0, 0, 0, 16, 1, 0, 0, 0, 0, 0, 0,
      5, 0, 0, 0, 0, 0, 0, 0, 0, 0, 0, 0, 0, 0, 0, 0, 0, 0, 0, 0, 0, 0, 0, 0,
      0, 0, 0, 0, 0, 0, 0, 0]"
  by (simp add: pread_def ld_def demo_so_def)

lemma demo_syms: "pread demo_so 24 248 = Some
     [1, 0, 0, 0, 18, 0, 1, 0, 0, 5, 0, 0, 0, 0, 0, 0, 32, 0, 0, 0, 0, 0, 0, 0]"
  by (simp add: pread_def ld_def demo_so_def)

lemma demo_strs: "pread demo_so 5 272 = Some
     [0, 102, 111, 111, 0]"
  by (simp add: pread_def ld_def demo_so_def)

lemma demo_load_phdrs:
  "\<exists>ehdr. pread demo_so 64 0 = Some ehdr \<and> load_phdrs demo_os demo_so 0x10000 = Some (ehdr,
     [\<lparr>p_type = 1, p_offset = 0, p_vaddr = 0, p_filesz = 4096, p_memsz = 4096\<rparr>], 0x10000)"
  by (simp add: load_phdrs_def demo_ehdr demo_phdrs demo_os_def fld_def phdrs_of_def phdr_of_def PT_LOAD_def)

lemma demo_collect:
  "pread demo_so 24 248 = Some syms \<Longrightarrow> pread demo_so 5 272 = Some strs \<Longrightarrow>
   collect_syms syms strs 5 0x10000 0 1 = Some [\<lparr>se_addr = 0x10500, se_size = 0x20, se_name = [0x66, 0x6f, 0x6f]\<rparr>]"
  by (auto simp: demo_syms demo_strs fld_def sym_of_def collect_one_def ld_def)

lemma demo_os_sel:
  "os_magic demo_os b \<longleftrightarrow> b = 0x10000" "os_open demo_os n = Some demo_so"
  "os_malloc demo_os = (\<lambda>n. True)" "os_sort demo_os = sort_key se_addr"
  "os_dladdr demo_os a = (if 0x10000 \<le> a \<and> a < 0x20000 then Some (0x10000, Some ''libdemo.so'') else None)"
  by (simp_all add: demo_os_def)

lemma demo_load:
  "st_load demo_os 0x10000 st_new =
    Some (\<lparr>st_entries = [\<lparr>se_addr = 0x10500, se_size = 0x20, se_name = [0x66, 0x6f, 0x6f]\<rparr>], st_loaded = True\<rparr>, True)"
proof -
  obtain ehdr where e: "pread demo_so 64 0 = Some ehdr" and ph: "load_phdrs demo_os demo_so 0x10000 = Some (ehdr,
     [\<lparr>p_type = 1, p_offset = 0, p_vaddr = 0, p_filesz = 4096, p_memsz = 4096\<rparr>], 0x10000)"
    using demo_load_phdrs by blast
  obtain syms strs where s: "pread demo_so 24 248 = Some syms" "pread demo_so 5 272 = Some strs"
    using demo_syms demo_strs by blast
  have hd: "(fld 2 60 ehdr :: u16) = 2" "(fld 2 58 ehdr :: u16) = 64" "(fld 8 40 ehdr :: u64) = 120"
    using e by (auto simp: demo_ehdr fld_def)
  obtain shdrs where sh: "pread demo_so 128 120 = Some shdrs"
    using demo_shdrs by blast
  have "load_dynsym_via_sections (\<lambda>n. True) demo_so 2 shdrs
      [\<lparr>p_type = 1, p_offset = 0, p_vaddr = 0, p_filesz = 4096, p_memsz = 4096\<rparr>] 0x10000 0 (Suc 1) =
    read_symtab (\<lambda>n. True) demo_so (shdr_of (take 64 shdrs)) (shdr_of (take 64 (drop 64 shdrs))) 0x10000 1"
    using sh by (auto simp: demo_shdrs ld_def shdr_of_def fld_def section_in_pt_load_def PT_LOAD_def)
  also have "\<dots> = Some (Some [\<lparr>se_addr = 0x10500, se_size = 0x20, se_name = [0x66, 0x6f, 0x6f]\<rparr>])"
  proof -
    have "sh_size (shdr_of (take 64 shdrs)) = 24" "sh_offset (shdr_of (take 64 shdrs)) = 248"
      "sh_size (shdr_of (take 64 (drop 64 shdrs))) = 5" "sh_offset (shdr_of (take 64 (drop 64 shdrs))) = 272"
      using sh by (auto simp: demo_shdrs shdr_of_def fld_def)
    then show ?thesis by (simp add: read_symtab_def s demo_collect [OF s, unfolded One_nat_def] del: collect_syms.simps)
  qed
  finally have "load_entries demo_os demo_so 0x10000 =
      Some [\<lparr>se_addr = 0x10500, se_size = 0x20, se_name = [0x66, 0x6f, 0x6f]\<rparr>]"
    by (simp add: load_entries_def ph load_sections_def hd sh demo_os_sel numeral_2_eq_2 [symmetric] del: load_dynsym_via_sections.simps)
  then show ?thesis by (simp add: st_load_def Let_def demo_os_sel st_new_def)
qed

subsection \<open>Properties\<close>

text \<open>C29 (the symbol of an address): in a table sorted by address whose entries cover disjoint ranges
  that do not wrap, \<open>findContaining\<close> returns exactly the entry whose range holds the address, and
  nothing when there is none; an entry of size zero counts as 4096 bytes.\<close>

theorem find_containing_complete:
  assumes "by_addr (st_entries t)" and "\<forall>e\<in>set (st_entries t). no_wrap e"
    and "\<forall>e\<in>set (st_entries t). \<forall>f\<in>set (st_entries t). e \<noteq> f \<longrightarrow> \<not> (\<exists>b. se_covers e b \<and> se_covers f b)"
  shows "findContaining t a = Some e \<longleftrightarrow> e \<in> set (st_entries t) \<and> se_covers e a"
proof
  assume "findContaining t a = Some e"
  then show "e \<in> set (st_entries t) \<and> se_covers e a"
    using findContaining_last [OF assms(1,2)] by auto
next
  let ?es = "st_entries t"
  assume e: "e \<in> set ?es \<and> se_covers e a"
  let ?I = "{i. i < length ?es \<and> ?es ! i = e}"
  from e have ne: "?I \<noteq> {}" by (auto simp: in_set_conv_nth)
  have fin: "finite ?I" by simp
  from Max_in [OF fin ne] have i: "Max ?I < length ?es" "?es ! Max ?I = e" by auto
  have "a < se_addr (?es ! j)" if j: "j < length ?es" "Max ?I < j" for j
  proof (rule ccontr)
    assume "\<not> a < se_addr (?es ! j)"
    moreover have ne: "?es ! j \<noteq> e" using j Max_ge [OF fin, of j] by fastforce
    moreover have le: "se_addr e \<le> se_addr (?es ! j)" using by_addr_nth [OF assms(1), of "Max ?I" j] i j by simp
    ultimately have "se_covers e (se_addr (?es ! j))"
      using e unfolding se_covers_def not_less word_le_nat_alt by linarith
    moreover have "se_covers (?es ! j) (se_addr (?es ! j))" by (auto simp: se_covers_def se_extent_def unat_gt_0)
    moreover have "?es ! j \<in> set ?es" using j by simp
    ultimately show False using assms(3) e ne by blast
  qed
  then show "findContaining t a = Some e"
    unfolding findContaining_last [OF assms(1,2)] using i e by (intro exI [of _ "Max ?I"]) simp
qed

lemma find_containing_complete_witness:
  "findContaining \<lparr>st_entries = [\<lparr>se_addr = 0x10500, se_size = 0x20, se_name = [0x66]\<rparr>], st_loaded = True\<rparr> 0x1051f =
    Some \<lparr>se_addr = 0x10500, se_size = 0x20, se_name = [0x66]\<rparr>"
  by (rule iffD2 [OF find_containing_complete]) (simp_all add: no_wrap_def se_covers_def se_extent_def)

text \<open>Entry points: in a sorted table \<open>findExact\<close> is the first entry at that very address.\<close>

theorem find_exact_first:
  assumes "by_addr (st_entries t)"
  shows "findExact t a = map_option se_name (find (\<lambda>e. se_addr e = a) (st_entries t))"
proof -
  let ?es = "st_entries t"
  define it where "it = bound_loop (\<lambda>e. se_addr e < a) ?es 0 (length ?es)"
  note pos = lower_bound_pos [OF assms it_def]
  show ?thesis
  proof (cases "it < length ?es \<and> se_addr (?es ! it) = a")
    case True
    then have "find (\<lambda>e. se_addr e = a) ?es = Some (?es ! it)"
      unfolding find_Some_iff using pos by (intro exI [of _ it]) (metis less_irrefl order_less_trans)
    with True show ?thesis by (auto simp: findExact_def it_def [symmetric] Let_def)
  next
    case False
    have "se_addr e \<noteq> a" if mem: "e \<in> set ?es" for e
    proof
      assume "se_addr e = a"
      with mem obtain i where i: "i < length ?es" "se_addr (?es ! i) = a" by (metis in_set_conv_nth)
      then have "it \<le> i" using pos by (meson less_irrefl not_le)
      then have "a \<ge> se_addr (?es ! it)" "it < length ?es" using by_addr_nth [OF assms, of it i] i by auto
      then show False using False pos by (metis less_irrefl order_le_imp_less_or_eq)
    qed
    then have "find (\<lambda>e. se_addr e = a) ?es = None" by (simp add: find_None_iff)
    then show ?thesis using False pos by (auto simp: findExact_def it_def [symmetric] Let_def)
  qed
qed

lemma find_exact_first_witness:
  "findExact \<lparr>st_entries = [\<lparr>se_addr = 16, se_size = 4, se_name = [0x66]\<rparr>, \<lparr>se_addr = 32, se_size = 4, se_name = [0x67]\<rparr>], st_loaded = True\<rparr> 32 =
    Some [0x67]"
  by (subst find_exact_first) simp_all

text \<open>C31 (a loaded table): whatever the file holds, \<open>load\<close> succeeds exactly when it leaves entries, every
  entry has a non-empty name without NUL, the table is sorted for the searches and marked loaded, so a
  library without symbols is not parsed again.\<close>

theorem load_well_formed:
  assumes "sorts (os_sort os)" and "st_load os so_base t = Some (t', ok)"
  shows "by_addr (st_entries t') \<and> list_all entry_ok (st_entries t') \<and> st_loaded t' \<and> (ok \<longleftrightarrow> st_entries t' \<noteq> [])"
proof -
  have "st_entries t' = [] \<and> \<not> ok \<or>
      (\<exists>f es. load_entries os f so_base = Some es \<and> es \<noteq> [] \<and> st_entries t' = os_sort os es \<and> ok)"
    and "st_loaded t'"
    using assms(2) by (auto simp: st_load_def Let_def split: if_splits option.splits) blast
  moreover have "os_sort os es \<noteq> [] \<and> by_addr (os_sort os es) \<and> list_all entry_ok (os_sort os es)"
    if "load_entries os f so_base = Some es" "es \<noteq> []" for f es
  proof -
    have "list_all entry_ok es" using load_entries_ok [OF that(1)] .
    moreover have "os_sort os es \<noteq> []"
      using assms(1) that(2) by (metis length_0_conv sorts_def)
    ultimately show ?thesis using assms(1) by (simp add: sorts_def list_all_iff)
  qed
  ultimately show ?thesis by (metis list.pred_inject(1) map_is_Nil_conv sorted_wrt.simps(1))
qed

lemma load_well_formed_witness:
  "by_addr [\<lparr>se_addr = 0x10500, se_size = 0x20, se_name = [0x66, 0x6f, 0x6f]\<rparr>] \<and>
    list_all entry_ok [\<lparr>se_addr = 0x10500, se_size = 0x20, se_name = [0x66, 0x6f, 0x6f]\<rparr>]"
proof -
  have "sorts (os_sort demo_os)" by (simp add: demo_os_def sorts_sort_key)
  from load_well_formed [OF this demo_load] show ?thesis by simp
qed

text \<open>The block of the dynamic segment that \<open>load\<close> reads when the section headers give no symbols.\<close>

definition file_block :: "os_env \<Rightarrow> u64 \<Rightarrow> byte list \<Rightarrow> byte list option" where
  "file_block os so_base f =
     (case load_phdrs os f so_base of
        None \<Rightarrow> None
      | Some (ehdr, ps, load_bias) \<Rightarrow>
          if load_sections os f ehdr ps load_bias \<noteq> Some None then None
          else (case find (\<lambda>p. p_type p = PT_DYNAMIC) ps of
              None \<Rightarrow> None
            | Some p \<Rightarrow>
                if p_filesz p = 0 \<or> \<not> os_malloc os (unat (p_filesz p)) then None
                else pread f (unat (p_filesz p)) (p_offset p)))"

definition dynamic_block :: "os_env \<Rightarrow> u64 \<Rightarrow> byte list option" where
  "dynamic_block os so_base =
     (if \<not> os_magic os so_base then None
      else case os_dladdr os so_base of
          Some (b, Some fname) \<Rightarrow> (case os_open os fname of None \<Rightarrow> None | Some f \<Rightarrow> file_block os so_base f)
        | _ \<Rightarrow> None)"

lemma via_dynamic_none:
  "load_dynsym_via_dynamic mal f ps load_bias = None \<longleftrightarrow>
   (\<exists>p blk. find (\<lambda>p. p_type p = PT_DYNAMIC) ps = Some p \<and> p_filesz p \<noteq> 0 \<and> mal (unat (p_filesz p)) \<and>
      pread f (unat (p_filesz p)) (p_offset p) = Some blk \<and> \<not> has_null blk)"
proof -
  have never: "read_dynamic mal f ps load_bias d = None \<longleftrightarrow> False" for d using read_dynamic_defined by blast
  show ?thesis by (auto simp: never load_dynsym_via_dynamic_def bind_eq_None_conv dyn_scan_iff split: option.split)
qed

lemma load_entries_none:
  "load_entries os f so_base = None \<longleftrightarrow> (\<exists>blk. file_block os so_base f = Some blk \<and> \<not> has_null blk)"
proof (cases "load_phdrs os f so_base")
  case None
  then show ?thesis by (simp add: load_entries_def file_block_def)
next
  case (Some r)
  obtain ehdr ps load_bias where r: "r = (ehdr, ps, load_bias)" by (cases r)
  obtain q where q: "load_sections os f ehdr ps load_bias = Some q" using load_sections_defined by fast
  then show ?thesis
    by (cases q) (auto simp: load_entries_def file_block_def Some r via_dynamic_none split: option.split)
qed

lemma load_iff_null:
  "st_load os so_base t = None \<longleftrightarrow> (\<exists>blk. dynamic_block os so_base = Some blk \<and> \<not> has_null blk)"
  by (auto simp: st_load_def dynamic_block_def Let_def load_entries_none split: option.split prod.split)

text \<open>C30 (the only access outside a block): for every library, every file behind it and every allocator, \<open>load\<close> reads outside of a
  block that it has read exactly when the section headers give no symbols, and the block of the dynamic segment
  that it then reads holds no \<open>DT_NULL\<close> tag.\<close>

theorem load_in_bounds:
  "st_load os so_base t = None \<longleftrightarrow> (\<exists>blk. dynamic_block os so_base = Some blk \<and> \<not> has_null blk)"
  by (rule load_iff_null)

text \<open>A dynamic segment without \<open>DT_NULL\<close> is read beyond its block: one entry with another tag is
  enough for the scan to leave the 16 bytes that were allocated.\<close>

lemma dynamic_scan_overread:
  "dyn_scan (1 # replicate 15 0) 0 d = None"
  by (simp add: dyn_scan.simps ld_def fld_def numeral_eq_Suc)

text \<open>Both cases occur: a file without section headers whose dynamic segment of 16 bytes has the tag \<open>n\<close>.\<close>

definition dynamic_so :: "byte \<Rightarrow> byte list" where
  "dynamic_so n =
     [127, 69, 76, 70, 2, 0, 0, 0, 0, 0, 0, 0, 0, 0, 0, 0, 0, 0, 0, 0, 0, 0, 0, 0,
      0, 0, 0, 0, 0, 0, 0, 0, 64, 0, 0, 0, 0, 0, 0, 0, 0, 0, 0, 0, 0, 0, 0, 0,
      0, 0, 0, 0, 0, 0, 0, 0, 2, 0, 0, 0, 0, 0, 0, 0, 1, 0, 0, 0, 0, 0, 0, 0,
      0, 0, 0, 0, 0, 0, 0, 0, 0, 0, 0, 0, 0, 0, 0, 0, 0, 0, 0, 0, 0, 0, 0, 0,
      0, 0, 0, 0, 0, 0, 0, 0, 0, 0, 0, 0, 0, 0, 0, 0, 0, 0, 0, 0, 0, 0, 0, 0,
      2, 0, 0, 0, 0, 0, 0, 0, 176, 0, 0, 0, 0, 0, 0, 0, 0, 0, 0, 0, 0, 0, 0, 0,
      0, 0, 0, 0, 0, 0, 0, 0, 16, 0, 0, 0, 0, 0, 0, 0, 0, 0, 0, 0, 0, 0, 0, 0,
      0, 0, 0, 0, 0, 0, 0, 0, n, 0, 0, 0, 0, 0, 0, 0, 0, 0, 0, 0, 0, 0, 0, 0]"

definition dynamic_os :: "byte \<Rightarrow> os_env" where
  "dynamic_os n = demo_os\<lparr>os_open := (\<lambda>f. Some (dynamic_so n))\<rparr>"

lemma dynamic_so_parts:
  "pread (dynamic_so n) 64 0 = Some
     [127, 69, 76, 70, 2, 0, 0, 0, 0, 0, 0, 0, 0, 0, 0, 0, 0, 0, 0, 0, 0, 0, 0, 0,
      0, 0, 0, 0, 0, 0, 0, 0, 64, 0, 0, 0, 0, 0, 0, 0, 0, 0, 0, 0, 0, 0, 0, 0,
      0, 0, 0, 0, 0, 0, 0, 0, 2, 0, 0, 0, 0, 0, 0, 0]"
  "pread (dynamic_so n) 112 64 = Some
     [1, 0, 0, 0, 0, 0, 0, 0, 0, 0, 0, 0, 0, 0, 0, 0, 0, 0, 0, 0, 0, 0, 0, 0,
      0, 0, 0, 0, 0, 0, 0, 0, 0, 0, 0, 0, 0, 0, 0, 0, 0, 0, 0, 0, 0, 0, 0, 0,
      0, 0, 0, 0, 0, 0, 0, 0, 2, 0, 0, 0, 0, 0, 0, 0, 176, 0, 0, 0, 0, 0, 0, 0,
      0, 0, 0, 0, 0, 0, 0, 0, 0, 0, 0, 0, 0, 0, 0, 0, 16, 0, 0, 0, 0, 0, 0, 0,
      0, 0, 0, 0, 0, 0, 0, 0, 0, 0, 0, 0, 0, 0, 0, 0]"
  "pread (dynamic_so n) 16 176 = Some
     [n, 0, 0, 0, 0, 0, 0, 0, 0, 0, 0, 0, 0, 0, 0, 0]"
  by (simp_all add: pread_def ld_def dynamic_so_def)

lemma dynamic_so_block:
  "dynamic_block (dynamic_os n) 0x10000 = Some [n, 0, 0, 0, 0, 0, 0, 0, 0, 0, 0, 0, 0, 0, 0, 0]"
  by (simp add: dynamic_block_def file_block_def dynamic_os_def demo_os_def load_phdrs_def load_sections_def Let_def dynamic_so_parts fld_def
      phdrs_of_def phdr_of_def PT_LOAD_def PT_DYNAMIC_def upt_rec)

lemma dynamic_so_loads:
  "st_load (dynamic_os 0) 0x10000 t \<noteq> None" "st_load (dynamic_os 1) 0x10000 t = None"
  unfolding load_iff_null dynamic_so_block by (simp_all add: has_null_def fld_def upt_rec)

text \<open>C23 (the cache is transparent): with the same libraries and files throughout, after any sequence of lookups, preloads, resolutions and clears, a
  lookup answers what it would answer from an empty cache.\<close>

theorem symbol_cache_transparent:
  assumes "sym_run os ops Map.empty = Some c"
  shows "map_option fst (lookupSymbol os a c) = map_option fst (lookupSymbol os a Map.empty) \<and>
    map_option fst (lookupSymbolExact os a c) = map_option fst (lookupSymbolExact os a Map.empty) \<and>
    map_option fst (resolveSymbolInSo os objs s n c) = map_option fst (resolveSymbolInSo os objs s n Map.empty)"
proof -
  have "memo_of (table_at os) c" by (rule sym_run_memo [OF memo_of_empty assms])
  then show ?thesis by (simp add: lookup_values resolve_value)
qed

lemma symbol_cache_transparent_witness:
  "\<exists>c. sym_run demo_os [SymLookup 0x10510, SymPreload 0x10000, SymExact 0x10500] Map.empty = Some c \<and>
    map_option fst (lookupSymbol demo_os 0x10500 c) = map_option fst (lookupSymbol demo_os 0x10500 Map.empty)"
proof -
  have "table_at demo_os 0x10000 \<noteq> None" by (simp add: table_at_def demo_load)
  have "\<exists>c. sym_run demo_os [SymLookup 0x10510, SymPreload 0x10000, SymExact 0x10500] Map.empty = Some c"
    using demo_load by (simp add: lookupSymbol_def lookupSymbolExact_def getOrLoadTable_def cached_table_def
        loadSymbolTableForSo_def demo_os_sel Let_def)
  then obtain c where "sym_run demo_os [SymLookup 0x10510, SymPreload 0x10000, SymExact 0x10500] Map.empty = Some c" by blast
  with symbol_cache_transparent [OF this] show ?thesis by blast
qed

end
