(* ===== verification/Ptr_Regions.thy ===== *)
theory Ptr_Regions
  imports Symbol_Table Text_Builder
begin

text \<open>
  The address annotations of \<open>trace/src/FuncCallTrace.cpp\<close>: the sorted snapshot of \<open>/proc/self/maps\<close>, its
  rebuild when the generation of the engine's maps moves, the binary search, and the two annotations
  that use it, one per call argument and one per memory access with a per-thread cache of the last
  region and its symbol table. A line of the maps file is what \<open>sscanf\<close> left; the content of the
  file at a generation is the argument \<open>maps\<close> (\<open>None\<close> when it cannot be opened), and the generation does
  not move inside one call. Every annotation has its own environment, so the libraries may change between them. A \<open>SymbolTable*\<close> that outlives the global cache is represented by the epoch
  it was taken in; using it in another epoch is a fault (\<open>None\<close>).
\<close>

subsection \<open>The snapshot\<close>

record map_line =
  ml_n :: nat
  ml_start :: u64
  ml_end :: u64
  ml_perms :: string
  ml_path :: string

record ptr_region =
  pr_start :: u64
  pr_end :: u64
  pr_module_base :: u64
  pr_perms :: "bool \<times> bool \<times> bool"
  pr_named :: bool
  pr_label :: string

definition after_slash :: "string \<Rightarrow> string" where
  "after_slash s = (if CHR 0x2F \<in> set s then rev (takeWhile (\<lambda>c. c \<noteq> CHR 0x2F) (rev s)) else s)"

definition region_path :: "map_line \<Rightarrow> string" where
  "region_path l = dropWhile (\<lambda>c. c = CHR '' '') (ml_path l)"

definition region_of :: "map_line \<Rightarrow> u64 \<Rightarrow> ptr_region" where
  "region_of l base =
     (let pth = region_path l; named = (pth \<noteq> [] \<and> hd pth = CHR 0x2F) in
      \<lparr>pr_start = ml_start l, pr_end = ml_end l, pr_module_base = base,
       pr_perms = (CHR ''r'' \<in> set (ml_perms l), CHR ''w'' \<in> set (ml_perms l), CHR ''x'' \<in> set (ml_perms l)),
       pr_named = named,
       pr_label = take 127 (if named then after_slash pth else pth)\<rparr>)"

fun rebuild_loop :: "map_line list \<Rightarrow> (string \<Rightarrow> u64 option) \<Rightarrow> ptr_region list" where
  "rebuild_loop [] firstBase = []"
| "rebuild_loop (l # ls) firstBase =
     (if ml_n l < 6 then rebuild_loop ls firstBase
      else (let pth = region_path l in
        if pth \<noteq> [] \<and> hd pth = CHR 0x2F
        then (case firstBase pth of
                None \<Rightarrow> region_of l (ml_start l) # rebuild_loop ls (firstBase(pth \<mapsto> ml_start l))
              | Some b \<Rightarrow> region_of l b # rebuild_loop ls firstBase)
        else region_of l (ml_start l) # rebuild_loop ls firstBase))"

record region_state =
  rg_regions :: "ptr_region list"
  rg_built_gen :: u32
  rg_epoch :: nat
  rg_syms :: sym_cache

definition rebuildPtrRegions :: "map_line list option \<Rightarrow> region_state \<Rightarrow> region_state" where
  "rebuildPtrRegions maps g =
     (case maps of None \<Rightarrow> g | Some ls \<Rightarrow> g\<lparr>rg_regions := rebuild_loop ls Map.empty\<rparr>)"

function find_region_loop :: "ptr_region list \<Rightarrow> u64 \<Rightarrow> nat \<Rightarrow> nat \<Rightarrow> ptr_region option" where
  "find_region_loop rs a lo hi =
     (if lo < hi then
        (let mid = (lo + hi) div 2; r = rs ! mid in
         if a < pr_start r then find_region_loop rs a lo mid
         else if pr_end r \<le> a then find_region_loop rs a (mid + 1) hi
         else Some r)
      else None)"
  by pat_completeness auto
termination
  by (relation "measure (\<lambda>(rs, a, lo, hi). hi - lo)") auto

declare find_region_loop.simps [simp del]

definition findPtrRegion :: "ptr_region list \<Rightarrow> u64 \<Rightarrow> ptr_region option" where
  "findPtrRegion rs a = find_region_loop rs a 0 (length rs)"

definition ensureRegionsFresh :: "(u32 \<Rightarrow> map_line list option) \<Rightarrow> u32 \<Rightarrow> region_state \<Rightarrow> region_state" where
  "ensureRegionsFresh maps gen g =
     (if rg_regions g = [] \<or> rg_built_gen g \<noteq> gen
      then (rebuildPtrRegions (maps gen) g)\<lparr>rg_built_gen := gen\<rparr>
      else g)"

subsection \<open>Annotations\<close>

definition strip_tag :: "u64 \<Rightarrow> u64" where
  "strip_tag v = v AND 0x00FFFFFFFFFFFFFF"

definition perms_text :: "bool \<times> bool \<times> bool \<Rightarrow> string" where
  "perms_text p = [if fst p then CHR ''r'' else CHR ''-'', if fst (snd p) then CHR ''w'' else CHR ''-'',
     if snd (snd p) then CHR ''x'' else CHR ''-'']"

definition anon_label :: "string \<Rightarrow> string" where
  "anon_label l = (if l \<noteq> [] \<and> hd l = CHR ''['' then l else ''anon'')"

definition ptr_annotation :: "ptr_region \<Rightarrow> u64 \<Rightarrow> string" where
  "ptr_annotation r a =
     '' ('' @
     (if pr_named r then pr_label r @ ''+0x'' @ uint64ToHex (a - pr_module_base r)
      else anon_label (pr_label r) @ '' '' @ perms_text (pr_perms r)) @
     '')''"

definition appendPtrAnnotation ::
  "(u32 \<Rightarrow> map_line list option) \<Rightarrow> u32 \<Rightarrow> u64 \<Rightarrow> region_state \<Rightarrow> string \<times> region_state" where
  "appendPtrAnnotation maps gen rawval g =
     (let a = strip_tag rawval; g' = ensureRegionsFresh maps gen g in
      if a < 0x100000 then ([], g)
      else (case findPtrRegion (rg_regions g') a of
              None \<Rightarrow> ([], g')
            | Some r \<Rightarrow> (ptr_annotation r a, g')))"

text \<open>The thread-local copy of the last region; \<open>tl_tbl\<close> is the table with the epoch it was taken in.\<close>

record region_tls =
  tl_s :: u64
  tl_e :: u64
  tl_base :: u64
  tl_p :: "bool \<times> bool \<times> bool"
  tl_named :: bool
  tl_lbl :: string
  tl_tbl :: "(nat \<times> symbol_table) option"
  tl_gen :: u32

definition tls_initial :: region_tls where
  "tls_initial = \<lparr>tl_s = 1, tl_e = 0, tl_base = 0, tl_p = (False, False, False), tl_named = False,
     tl_lbl = [], tl_tbl = None, tl_gen = 0xFFFFFFFF\<rparr>"

definition tag_symbol :: "symbol_table \<Rightarrow> u64 \<Rightarrow> string" where
  "tag_symbol t a =
     (case findContaining t a of
        None \<Rightarrow> []
      | Some e \<Rightarrow>
          if se_name e = [] then []
          else '' '' @ map (\<lambda>b. char_of (unat b)) (se_name e) @
            (if a - se_addr e \<noteq> 0 then ''+0x'' @ uint64ToHex (a - se_addr e) else []))"

definition tag_text :: "nat \<Rightarrow> region_tls \<Rightarrow> u64 \<Rightarrow> string option" where
  "tag_text epoch th a =
     (if tl_named th
      then map_option (\<lambda>sym. '' '' @ tl_lbl th @ ''+0x'' @ uint64ToHex (a - tl_base th) @
             (if snd (snd (tl_p th)) then '':code'' else if fst (snd (tl_p th)) then '':rw'' else '':ro'') @ sym)
             (case tl_tbl th of
                None \<Rightarrow> Some []
              | Some (ep, t) \<Rightarrow> if ep \<noteq> epoch then None else Some (tag_symbol t a))
      else Some ('' '' @ anon_label (tl_lbl th) @ (if snd (snd (tl_p th)) then '' rwx'' else [])))"

text \<open>Refilling the copy: \<open>None\<close> is a fault while the symbol table is loaded.\<close>

definition tls_refill :: "os_env \<Rightarrow> u32 \<Rightarrow> ptr_region \<Rightarrow> region_state \<Rightarrow> (region_tls \<times> region_state) option" where
  "tls_refill os gen r g =
     (let th = \<lparr>tl_s = pr_start r, tl_e = pr_end r, tl_base = pr_module_base r, tl_p = pr_perms r,
                tl_named = pr_named r, tl_lbl = take 63 (pr_label r), tl_tbl = None, tl_gen = gen\<rparr> in
      if pr_named r
      then map_option (\<lambda>(t, c). (th\<lparr>tl_tbl := Some (rg_epoch g, t)\<rparr>, g\<lparr>rg_syms := c\<rparr>))
             (loadSymbolTableForSo os (pr_module_base r) (rg_syms g))
      else Some (th, g))"

definition appendRegionTag ::
  "os_env \<Rightarrow> (u32 \<Rightarrow> map_line list option) \<Rightarrow> u32 \<Rightarrow> u64 \<Rightarrow> region_tls \<times> region_state \<Rightarrow>
   (string \<times> region_tls \<times> region_state) option" where
  "appendRegionTag os maps gen rawaddr st =
     (case st of (th, g) \<Rightarrow>
       (let a = strip_tag rawaddr in
        if a < 0x1000 then Some ([], th, g)
        else if gen = tl_gen th \<and> tl_s th \<le> a \<and> a < tl_e th
        then map_option (\<lambda>s. (s, th, g)) (tag_text (rg_epoch g) th a)
        else (let g' = ensureRegionsFresh maps gen g in
          case findPtrRegion (rg_regions g') a of
            None \<Rightarrow> Some ([], th, g')
          | Some r \<Rightarrow>
              Option.bind (tls_refill os gen r g') (\<lambda>(th', g2).
                map_option (\<lambda>s. (s, th', g2)) (tag_text (rg_epoch g2) th' a)))))"

text \<open>\<open>clearSymbolCache\<close> seen from here: the tables are freed.\<close>

definition region_clear_symbols :: "region_state \<Rightarrow> region_state" where
  "region_clear_symbols g = g\<lparr>rg_epoch := rg_epoch g + 1, rg_syms := clearSymbolCache (rg_syms g)\<rparr>"

subsection \<open>The search\<close>

definition disjoint_sorted :: "ptr_region list \<Rightarrow> bool" where
  "disjoint_sorted rs \<longleftrightarrow> sorted_wrt (\<lambda>r r'. pr_end r \<le> pr_start r') rs \<and> list_all (\<lambda>r. pr_start r \<le> pr_end r) rs"

definition in_region :: "ptr_region \<Rightarrow> u64 \<Rightarrow> bool" where
  "in_region r a \<longleftrightarrow> pr_start r \<le> a \<and> a < pr_end r"

lemma disjoint_sorted_nth:
  assumes "disjoint_sorted rs" and "i < j" and "j < length rs"
  shows "pr_end (rs ! i) \<le> pr_start (rs ! j) \<and> pr_start (rs ! i) \<le> pr_end (rs ! i)"
  using assms by (auto simp: disjoint_sorted_def sorted_wrt_iff_nth_less list_all_length)

lemma find_region_loop_sound:
  "find_region_loop rs a lo hi = Some r \<Longrightarrow> hi \<le> length rs \<Longrightarrow> r \<in> set rs \<and> in_region r a"
proof (induction rs a lo hi rule: find_region_loop.induct)
  case (1 rs a lo hi)
  then show ?case
    by (subst (asm) (3) find_region_loop.simps)
      (auto simp: in_region_def Let_def split: if_splits)
qed

lemma find_region_loop_complete:
  assumes "disjoint_sorted rs" and "in_region (rs ! i) a"
  shows "lo \<le> i \<Longrightarrow> i < hi \<Longrightarrow> hi \<le> length rs \<Longrightarrow> find_region_loop rs a lo hi = Some (rs ! i)"
proof (induction "hi - lo" arbitrary: lo hi rule: less_induct)
  case less
  let ?mid = "(lo + hi) div 2"
  have mid: "lo \<le> ?mid" "?mid < hi" "?mid < length rs" and "lo < hi" using less.prems by linarith+
  consider "?mid < i" | "?mid = i" | "i < ?mid" by linarith
  then show ?case
  proof cases
    case 1
    then have "pr_end (rs ! ?mid) \<le> pr_start (rs ! i) \<and> pr_start (rs ! ?mid) \<le> pr_end (rs ! ?mid)"
      using disjoint_sorted_nth [OF assms(1) 1] less.prems by linarith
    then have "pr_end (rs ! ?mid) \<le> a" "\<not> a < pr_start (rs ! ?mid)"
      using assms(2) by (auto simp: in_region_def)
    then have "find_region_loop rs a lo hi = find_region_loop rs a (?mid + 1) hi"
      using \<open>lo < hi\<close> by (subst find_region_loop.simps) (simp add: Let_def)
    then show ?thesis using less.hyps [of hi "?mid + 1"] less.prems 1 mid by simp
  next
    case 2
    then have "\<not> a < pr_start (rs ! ?mid)" "\<not> pr_end (rs ! ?mid) \<le> a" using assms(2) by (auto simp: in_region_def)
    then show ?thesis using \<open>lo < hi\<close> 2 by (subst find_region_loop.simps) (simp add: Let_def)
  next
    case 3
    then have "pr_end (rs ! i) \<le> pr_start (rs ! ?mid)"
      using disjoint_sorted_nth [OF assms(1) 3] mid by simp
    then have "a < pr_start (rs ! ?mid)" using assms(2) by (auto simp: in_region_def)
    then have "find_region_loop rs a lo hi = find_region_loop rs a lo ?mid"
      using \<open>lo < hi\<close> by (subst find_region_loop.simps) (simp add: Let_def)
    then show ?thesis using less.hyps [of ?mid lo] less.prems 3 mid by simp
  qed
qed

lemma findPtrRegion_iff:
  assumes "disjoint_sorted rs"
  shows "findPtrRegion rs a = Some r \<longleftrightarrow> r \<in> set rs \<and> in_region r a"
proof
  assume "findPtrRegion rs a = Some r"
  then show "r \<in> set rs \<and> in_region r a" by (simp add: findPtrRegion_def find_region_loop_sound)
next
  assume "r \<in> set rs \<and> in_region r a"
  then obtain i where "i < length rs" "rs ! i = r" "in_region (rs ! i) a" by (metis in_set_conv_nth)
  then show "findPtrRegion rs a = Some r"
    using find_region_loop_complete [OF assms, of i a 0 "length rs"] by (simp add: findPtrRegion_def)
qed

subsection \<open>The caches show what is mapped\<close>

definition snapshot :: "(u32 \<Rightarrow> map_line list option) \<Rightarrow> u32 \<Rightarrow> ptr_region list" where
  "snapshot maps gen = (case maps gen of None \<Rightarrow> [] | Some ls \<Rightarrow> rebuild_loop ls Map.empty)"

text \<open>The maps file can be opened at every generation and lists disjoint ranges in ascending order.\<close>

definition maps_ok :: "(u32 \<Rightarrow> map_line list option) \<Rightarrow> bool" where
  "maps_ok maps \<longleftrightarrow> (\<forall>gen. maps gen \<noteq> None \<and> disjoint_sorted (snapshot maps gen))"

text \<open>The copy that a refill for region \<open>r\<close> leaves when the table at its base is that of \<open>T\<close>.\<close>

definition tls_of :: "(u64 \<Rightarrow> symbol_table option) \<Rightarrow> nat \<Rightarrow> u32 \<Rightarrow> ptr_region \<Rightarrow> region_tls option" where
  "tls_of T epoch gen r =
     (let th = \<lparr>tl_s = pr_start r, tl_e = pr_end r, tl_base = pr_module_base r, tl_p = pr_perms r,
                tl_named = pr_named r, tl_lbl = take 63 (pr_label r), tl_tbl = None, tl_gen = gen\<rparr> in
      if pr_named r then map_option (\<lambda>t. th\<lparr>tl_tbl := Some (epoch, t)\<rparr>) (T (pr_module_base r))
      else Some th)"

text \<open>The annotation of an address without any cache.\<close>

definition direct_tag :: "os_env \<Rightarrow> (u32 \<Rightarrow> map_line list option) \<Rightarrow> u32 \<Rightarrow> u64 \<Rightarrow> string option" where
  "direct_tag os maps gen rawaddr =
     (let a = strip_tag rawaddr in
      if a < 0x1000 then Some []
      else (case findPtrRegion (snapshot maps gen) a of
              None \<Rightarrow> Some []
            | Some r \<Rightarrow> Option.bind (tls_of (table_at os) 0 gen r) (\<lambda>th. tag_text 0 th a)))"

definition direct_annotation :: "(u32 \<Rightarrow> map_line list option) \<Rightarrow> u32 \<Rightarrow> u64 \<Rightarrow> string" where
  "direct_annotation maps gen rawval =
     (let a = strip_tag rawval in
      if a < 0x100000 then []
      else (case findPtrRegion (snapshot maps gen) a of None \<Rightarrow> [] | Some r \<Rightarrow> ptr_annotation r a))"

definition regions_ok :: "(u32 \<Rightarrow> map_line list option) \<Rightarrow> region_state \<Rightarrow> bool" where
  "regions_ok maps g \<longleftrightarrow> rg_regions g = [] \<or> rg_regions g = snapshot maps (rg_built_gen g)"

definition tls_ok :: "(u64 \<Rightarrow> symbol_table option) \<Rightarrow> (u32 \<Rightarrow> map_line list option) \<Rightarrow> region_tls \<Rightarrow> bool" where
  "tls_ok T maps th \<longleftrightarrow>
     tl_e th \<le> tl_s th \<or>
     (\<exists>r\<in>set (snapshot maps (tl_gen th)). \<exists>epoch. tls_of T epoch (tl_gen th) r = Some th)"

definition tag_inv :: "(u64 \<Rightarrow> symbol_table option) \<Rightarrow> (u32 \<Rightarrow> map_line list option) \<Rightarrow> region_tls \<times> region_state \<Rightarrow> bool" where
  "tag_inv T maps st \<longleftrightarrow> regions_ok maps (snd st) \<and> tls_ok T maps (fst st) \<and> memo_of T (rg_syms (snd st))"

text \<open>The library at a base is the one of \<open>T\<close>, in the environment of an annotation, for every module of the maps at its generation.\<close>

definition same_tables :: "(u64 \<Rightarrow> symbol_table option) \<Rightarrow> os_env \<Rightarrow> (u32 \<Rightarrow> map_line list option) \<Rightarrow> u32 \<Rightarrow> bool" where
  "same_tables T os maps gen \<longleftrightarrow>
     (\<forall>r \<in> set (snapshot maps gen). pr_named r \<longrightarrow> table_at os (pr_module_base r) = T (pr_module_base r))"

text \<open>The table of the copy was taken before the symbol cache was cleared.\<close>

definition stale_copy :: "nat \<Rightarrow> region_tls \<Rightarrow> bool" where
  "stale_copy epoch th \<longleftrightarrow> tl_named th \<and> (case tl_tbl th of None \<Rightarrow> False | Some (ep, t) \<Rightarrow> ep \<noteq> epoch)"

definition stale_hit :: "u32 \<Rightarrow> u64 \<Rightarrow> region_tls \<times> region_state \<Rightarrow> bool" where
  "stale_hit gen raw st \<longleftrightarrow> 0x1000 \<le> strip_tag raw \<and> gen = tl_gen (fst st) \<and> tl_s (fst st) \<le> strip_tag raw \<and>
     strip_tag raw < tl_e (fst st) \<and> stale_copy (rg_epoch (snd st)) (fst st)"

lemma ensureRegionsFresh_snapshot:
  assumes "maps_ok maps" and "regions_ok maps g"
  shows "rg_regions (ensureRegionsFresh maps gen g) = snapshot maps gen"
    and "regions_ok maps (ensureRegionsFresh maps gen g)"
    and "rg_epoch (ensureRegionsFresh maps gen g) = rg_epoch g"
    and "rg_syms (ensureRegionsFresh maps gen g) = rg_syms g"
proof -
  obtain ls where "maps gen = Some ls" using assms(1) by (auto simp: maps_ok_def)
  then have reb: "rebuildPtrRegions (maps gen) g = g\<lparr>rg_regions := snapshot maps gen\<rparr>"
    by (simp add: rebuildPtrRegions_def snapshot_def)
  show "rg_regions (ensureRegionsFresh maps gen g) = snapshot maps gen"
    and "regions_ok maps (ensureRegionsFresh maps gen g)"
    and "rg_epoch (ensureRegionsFresh maps gen g) = rg_epoch g"
    and "rg_syms (ensureRegionsFresh maps gen g) = rg_syms g"
    using assms(2) by (auto simp: ensureRegionsFresh_def reb regions_ok_def)
qed

lemma preload_at:
  assumes "memo_of T c" and "table_at os b = T b"
  shows "loadSymbolTableForSo os b c = map_option (\<lambda>t. (t, c(b \<mapsto> t))) (T b)"
proof (cases "c b")
  case None
  then show ?thesis
    using assms(2) by (simp add: loadSymbolTableForSo_cases(2) table_at_def option.map_comp comp_def split_def flip: assms(2))
next
  case (Some t)
  then have "T b = Some t" using assms(1) by (simp add: memo_of_def)
  with Some assms(2) show ?thesis
    using loadSymbolTableForSo_cases(1) [where c = c and b = b and t = t and os = os] table_at_loaded [of os b t] by (simp add: fun_upd_idem)
qed

lemma tls_refill_value:
  assumes "memo_of T (rg_syms g)" and "pr_named r \<longrightarrow> table_at os (pr_module_base r) = T (pr_module_base r)"
  shows "map_option fst (tls_refill os gen r g) = tls_of T (rg_epoch g) gen r"
    and "tls_refill os gen r g = Some (th, g') \<Longrightarrow>
      rg_regions g' = rg_regions g \<and> rg_built_gen g' = rg_built_gen g \<and> rg_epoch g' = rg_epoch g \<and> memo_of T (rg_syms g')"
proof -
  have load: "pr_named r \<Longrightarrow> loadSymbolTableForSo os (pr_module_base r) (rg_syms g) =
      map_option (\<lambda>t. (t, (rg_syms g)(pr_module_base r \<mapsto> t))) (T (pr_module_base r))"
    using assms(2) by (intro preload_at [OF assms(1)]) simp
  show "map_option fst (tls_refill os gen r g) = tls_of T (rg_epoch g) gen r"
    using load by (auto simp: tls_refill_def tls_of_def Let_def option.map_comp comp_def)
  show "tls_refill os gen r g = Some (th, g') \<Longrightarrow>
      rg_regions g' = rg_regions g \<and> rg_built_gen g' = rg_built_gen g \<and> rg_epoch g' = rg_epoch g \<and> memo_of T (rg_syms g')"
    using assms(1) load by (auto simp: tls_refill_def memo_of_def Let_def split: if_splits)
qed

lemma tag_text_epoch:
  "map_option (\<lambda>th. tag_text ep th a) (tls_of T ep gen r) = map_option (\<lambda>th. tag_text 0 th a) (tls_of T 0 gen r)"
  by (cases "T (pr_module_base r)") (simp_all add: tls_of_def tag_text_def Let_def)

lemma tls_of_fields:
  "tls_of T ep gen r = Some th \<Longrightarrow> tl_s th = pr_start r \<and> tl_e th = pr_end r \<and> tl_gen th = gen"
  by (auto simp: tls_of_def Let_def split: if_splits)

lemma tls_of_stale:
  "tls_of T ep gen r = Some th \<Longrightarrow> tag_text epoch th a = (if stale_copy epoch th then None else tag_text ep th a)"
  by (auto simp: tls_of_def tag_text_def stale_copy_def Let_def split: if_splits)

lemma tls_of_cong: "(pr_named r \<Longrightarrow> T (pr_module_base r) = T' (pr_module_base r)) \<Longrightarrow> tls_of T ep gen r = tls_of T' ep gen r"
  by (cases "pr_named r") (simp_all add: tls_of_def)

lemma tag_hit:
  assumes "maps_ok maps" and "tls_ok T maps th" and "gen = tl_gen th" and "tl_s th \<le> a" and "a < tl_e th"
  shows "tag_text epoch th a = (if stale_copy epoch th then None
    else (case findPtrRegion (snapshot maps gen) a of None \<Rightarrow> Some []
     | Some r \<Rightarrow> Option.bind (tls_of T 0 gen r) (\<lambda>th. tag_text 0 th a)))"
proof -
  from assms(2,4,5) obtain r ep where r: "r \<in> set (snapshot maps gen)" "tls_of T ep gen r = Some th"
    by (auto simp: tls_ok_def assms(3))
  then have "in_region r a" using assms(4,5) by (simp add: tls_of_fields in_region_def)
  then have "findPtrRegion (snapshot maps gen) a = Some r"
    using findPtrRegion_iff [of "snapshot maps gen" a r] r(1) assms(1) by (simp add: maps_ok_def)
  moreover from tag_text_epoch [of ep a T gen r] r(2)
  have "map_option (\<lambda>th. tag_text 0 th a) (tls_of T 0 gen r) = Some (tag_text ep th a)" by simp
  ultimately show ?thesis using tls_of_stale [OF r(2), of epoch a] by (cases "tls_of T 0 gen r") simp_all
qed

text \<open>A refill followed by the text is the direct text, and leaves the invariant.\<close>

lemma tag_refilled:
  assumes "tag_inv T maps (th0, g)" and "rg_regions g = snapshot maps gen"
    and r: "r \<in> set (snapshot maps gen)" "pr_named r \<longrightarrow> table_at os (pr_module_base r) = T (pr_module_base r)"
    and out: "out = Option.bind (tls_refill os gen r g) (\<lambda>(th', g2).
            map_option (\<lambda>s. (s, th', g2)) (tag_text (rg_epoch g2) th' a))"
  shows "map_option fst out = Option.bind (tls_of T 0 gen r) (\<lambda>th. tag_text 0 th a)"
    and "out = Some (s, st') \<Longrightarrow> tag_inv T maps st'"
proof -
  have memo: "memo_of T (rg_syms g)" using assms(1) by (simp add: tag_inv_def)
  note val = tls_refill_value [OF memo r(2), of gen] and ep = tag_text_epoch [of "rg_epoch g" a T gen r]
  have "map_option fst out = Option.bind (tls_of T 0 gen r) (\<lambda>th. tag_text 0 th a) \<and>
    (out = Some (s, st') \<longrightarrow> tag_inv T maps st')"
  proof (cases "tls_refill os gen r g")
    case None
    with val(1) have "tls_of T (rg_epoch g) gen r = None" by simp
    with ep have "tls_of T 0 gen r = None" by simp
    with None show ?thesis by (simp add: out)
  next
    case (Some q)
    obtain th' g2 where q: "q = (th', g2)" by (cases q)
    from val(1) Some q have d: "tls_of T (rg_epoch g) gen r = Some th'" by simp
    note g2 = val(2) [OF Some [unfolded q]]
    have "map_option (\<lambda>th. tag_text 0 th a) (tls_of T 0 gen r) = Some (tag_text (rg_epoch g) th' a)"
      using ep d by simp
    moreover have "tag_inv T maps (th', g2)"
      using g2 assms(1,2) r(1) d tls_of_fields [OF d] by (auto simp: tag_inv_def regions_ok_def tls_ok_def)
    ultimately show ?thesis using out Some q g2
      by (cases "tls_of T 0 gen r") (auto simp: option.map_comp comp_def option.map_ident)
  qed
  then show "map_option fst out = Option.bind (tls_of T 0 gen r) (\<lambda>th. tag_text 0 th a)"
    and "out = Some (s, st') \<Longrightarrow> tag_inv T maps st'" by auto
qed

lemma tag_step:
  assumes "maps_ok maps" and "tag_inv T maps st" and same: "same_tables T os maps gen"
  shows "map_option fst (appendRegionTag os maps gen raw st) = (if stale_hit gen raw st then None else direct_tag os maps gen raw) \<and>
    (appendRegionTag os maps gen raw st = Some (s, st') \<longrightarrow> tag_inv T maps st')"
proof -
  obtain th g where st: "st = (th, g)" by (cases st)
  define a where "a = strip_tag raw"
  define g1 where "g1 = ensureRegionsFresh maps gen g"
  have inv: "regions_ok maps g" "tls_ok T maps th" "memo_of T (rg_syms g)"
    using assms(2) by (simp_all add: tag_inv_def st)
  note fresh = ensureRegionsFresh_snapshot [OF assms(1) inv(1), of gen, folded g1_def]
  have inv1: "tag_inv T maps (th, g1)" using inv fresh by (simp add: tag_inv_def)
  have found: "r \<in> set (snapshot maps gen)" "tls_of (table_at os) 0 gen r = tls_of T 0 gen r"
    if "findPtrRegion (snapshot maps gen) a = Some r" for r
  proof -
    show "r \<in> set (snapshot maps gen)"
      using that findPtrRegion_iff [of "snapshot maps gen" a r] assms(1) by (simp add: maps_ok_def)
    then show "tls_of (table_at os) 0 gen r = tls_of T 0 gen r" using same by (intro tls_of_cong) (simp add: same_tables_def)
  qed
  have direct: "direct_tag os maps gen raw = (if a < 0x1000 then Some [] else (case findPtrRegion (snapshot maps gen) a of
      None \<Rightarrow> Some [] | Some r \<Rightarrow> Option.bind (tls_of T 0 gen r) (\<lambda>th. tag_text 0 th a)))"
    using found(2) by (simp add: direct_tag_def a_def [symmetric] split: option.split)
  have stale: "stale_hit gen raw (th, g) \<longleftrightarrow> \<not> a < 0x1000 \<and> (gen = tl_gen th \<and> tl_s th \<le> a \<and> a < tl_e th) \<and> stale_copy (rg_epoch g) th"
    by (auto simp: stale_hit_def a_def)
  note defs = appendRegionTag_def direct stale st Let_def a_def [symmetric] g1_def [symmetric]
  show ?thesis
  proof (cases "a < 0x1000")
    case True
    then show ?thesis using assms(2) by (auto simp: defs)
  next
    case big: False
    show ?thesis
    proof (cases "gen = tl_gen th \<and> tl_s th \<le> a \<and> a < tl_e th")
      case True
      then have app: "appendRegionTag os maps gen raw st = map_option (\<lambda>s. (s, th, g)) (tag_text (rg_epoch g) th a)"
        using big by (simp add: appendRegionTag_def st Let_def a_def [symmetric])
      have h: "gen = tl_gen th" "tl_s th \<le> a" "a < tl_e th" using True by blast+
      have "stale_hit gen raw st = stale_copy (rg_epoch g) th" using stale True big st by blast
      then have "tag_text (rg_epoch g) th a = (if stale_hit gen raw st then None else direct_tag os maps gen raw)"
        by (simp only: tag_hit [OF assms(1) inv(2) h] direct [unfolded if_not_P [OF big]])
      then show ?thesis using app assms(2) st by (auto simp: option.map_comp comp_def option.map_ident)
    next
      case miss: False
      show ?thesis
      proof (cases "findPtrRegion (snapshot maps gen) a")
        case None
        with miss big inv1 fresh(1) show ?thesis by (auto simp: defs)
      next
        case (Some r)
        have app: "appendRegionTag os maps gen raw st = Option.bind (tls_refill os gen r g1) (\<lambda>(th', g2).
            map_option (\<lambda>s. (s, th', g2)) (tag_text (rg_epoch g2) th' a))"
          using Some miss big fresh(1) by (auto simp: appendRegionTag_def st Let_def a_def [symmetric] g1_def [symmetric])
        have "(if stale_hit gen raw st then None else direct_tag os maps gen raw) =
            Option.bind (tls_of T 0 gen r) (\<lambda>th. tag_text 0 th a)"
          using Some big miss by (auto simp: direct stale st)
        with tag_refilled [OF inv1 fresh(1) found(1) [OF Some] _ app] found(1) [OF Some] same show ?thesis
          by (simp add: same_tables_def)
      qed
    qed
  qed
qed

subsection \<open>Any sequence of annotations\<close>

text \<open>The operations, each in the environment and at the generation of its time; \<open>ClearOp\<close> is the end of a trace.\<close>

datatype region_op = TagOp os_env u32 u64 | AnnotateOp u32 u64 | ClearOp

fun region_step ::
  "(u32 \<Rightarrow> map_line list option) \<Rightarrow> region_op \<Rightarrow> region_tls \<times> region_state \<Rightarrow>
   (string \<times> region_tls \<times> region_state) option" where
  "region_step maps (TagOp os gen a) st = appendRegionTag os maps gen a st"
| "region_step maps (AnnotateOp gen v) (th, g) =
     (case appendPtrAnnotation maps gen v g of (s, g') \<Rightarrow> Some (s, th, g'))"
| "region_step maps ClearOp (th, g) = Some ([], th, region_clear_symbols g)"

fun region_run ::
  "(u32 \<Rightarrow> map_line list option) \<Rightarrow> region_op list \<Rightarrow> region_tls \<times> region_state \<Rightarrow>
   (region_tls \<times> region_state) option" where
  "region_run maps [] st = Some st"
| "region_run maps (x # xs) st = Option.bind (region_step maps x st) (\<lambda>(s, st'). region_run maps xs st')"

text \<open>What an operation prints when there are no caches.\<close>

fun region_direct :: "(u32 \<Rightarrow> map_line list option) \<Rightarrow> region_op \<Rightarrow> string option" where
  "region_direct maps (TagOp os gen a) = direct_tag os maps gen a"
| "region_direct maps (AnnotateOp gen v) = Some (direct_annotation maps gen v)"
| "region_direct maps ClearOp = Some []"

fun uses_freed_table :: "region_op \<Rightarrow> region_tls \<times> region_state \<Rightarrow> bool" where
  "uses_freed_table (TagOp os gen a) st = stale_hit gen a st"
| "uses_freed_table (AnnotateOp gen v) st = False"
| "uses_freed_table ClearOp st = False"

text \<open>The assumption on the libraries: a base that is the base of a module at several annotations has the same table at all of them.\<close>

fun library_stays :: "(u64 \<Rightarrow> symbol_table option) \<Rightarrow> (u32 \<Rightarrow> map_line list option) \<Rightarrow> region_op \<Rightarrow> bool" where
  "library_stays T maps (TagOp os gen a) = same_tables T os maps gen"
| "library_stays T maps (AnnotateOp gen v) = True"
| "library_stays T maps ClearOp = True"

lemma region_step_ok:
  assumes "maps_ok maps" and "tag_inv T maps st" and "library_stays T maps x"
  shows "map_option fst (region_step maps x st) = (if uses_freed_table x st then None else region_direct maps x) \<and>
    (region_step maps x st = Some (s, st') \<longrightarrow> tag_inv T maps st')"
proof (cases x)
  case (TagOp os gen a)
  with tag_step [OF assms(1,2)] assms(3) show ?thesis by simp
next
  case (AnnotateOp gen v)
  obtain th g where st: "st = (th, g)" by (cases st)
  have "regions_ok maps g" using assms(2) by (simp add: tag_inv_def st)
  note fresh = ensureRegionsFresh_snapshot [OF assms(1) this, of gen]
  with assms(2) show ?thesis
    by (auto simp: AnnotateOp st appendPtrAnnotation_def direct_annotation_def tag_inv_def Let_def split: option.splits)
next
  case ClearOp
  obtain th g where "st = (th, g)" by (cases st)
  with ClearOp assms(2) show ?thesis
    by (auto simp: tag_inv_def region_clear_symbols_def clearSymbolCache_def regions_ok_def memo_of_def)
qed

lemma region_run_inv:
  "maps_ok maps \<Longrightarrow> tag_inv T maps st \<Longrightarrow> \<forall>x\<in>set xs. library_stays T maps x \<Longrightarrow> region_run maps xs st = Some st' \<Longrightarrow>
   tag_inv T maps st'"
proof (induction xs arbitrary: st)
  case (Cons x xs)
  from Cons.prems(4) obtain t s1 where t: "region_step maps x st = Some (t, s1)" "region_run maps xs s1 = Some st'"
    by (auto simp: bind_eq_Some_conv)
  with region_step_ok [OF Cons.prems(1,2), of x t s1] Cons.prems(3) have "tag_inv T maps s1" by simp
  then show ?case using Cons.IH [OF Cons.prems(1) _ _ t(2)] Cons.prems(3) by simp
qed simp

lemma region_run_append:
  "region_run maps (xs @ ys) st = Option.bind (region_run maps xs st) (region_run maps ys)"
  by (induction xs arbitrary: st) (simp_all add: bind_eq_Some_conv split: Option.bind_split)

definition region_start :: "region_tls \<times> region_state" where
  "region_start = (tls_initial, \<lparr>rg_regions = [], rg_built_gen = 0xFFFFFFFF, rg_epoch = 0, rg_syms = Map.empty\<rparr>)"

lemma region_start_inv: "tag_inv T maps region_start"
  by (simp add: tag_inv_def region_start_def regions_ok_def tls_ok_def tls_initial_def memo_of_def)

subsection \<open>Properties\<close>

text \<open>C24 (annotations are up to date). Assume that the maps file can be opened and lists disjoint ranges in ascending order at every
  generation, that its content changes only with the generation, and that a base which belongs to a module at several annotations
  has the same library at all of them. After any sequence of annotations and ends of traces on a thread, the next annotation uses a freed
  symbol table exactly when it hits the thread's copy of the last region and the table of the copy was taken before the last
  end of a trace; otherwise its text is the text computed from the maps file and the library on disk at that time, without the
  snapshot, the thread's copy and the symbol cache.\<close>

theorem region_tag_up_to_date:
  assumes "maps_ok maps" and "\<forall>y \<in> set (x # ops). library_stays T maps y"
    and "region_run maps ops region_start = Some st"
  shows "map_option fst (region_step maps x st) = (if uses_freed_table x st then None else region_direct maps x)"
proof -
  have "tag_inv T maps st" by (rule region_run_inv [OF assms(1) region_start_inv _ assms(3)]) (use assms(2) in simp)
  then show ?thesis using region_step_ok [OF assms(1)] assms(2) by simp
qed

definition demo_maps :: "u32 \<Rightarrow> map_line list option" where
  "demo_maps gen = Some
     [\<lparr>ml_n = 7, ml_start = 0x10000, ml_end = 0x20000, ml_perms = ''r-xp'', ml_path = ''  /lib/libdemo.so''\<rparr>,
      \<lparr>ml_n = 6, ml_start = 0x7000000, ml_end = 0x7001000, ml_perms = ''rw-p'', ml_path = []\<rparr>]"

lemma demo_snapshot:
  "snapshot demo_maps gen =
    [\<lparr>pr_start = 0x10000, pr_end = 0x20000, pr_module_base = 0x10000, pr_perms = (True, False, True),
      pr_named = True, pr_label = ''libdemo.so''\<rparr>,
     \<lparr>pr_start = 0x7000000, pr_end = 0x7001000, pr_module_base = 0x7000000, pr_perms = (True, True, False),
      pr_named = False, pr_label = []\<rparr>]"
  by (simp add: snapshot_def demo_maps_def region_path_def region_of_def after_slash_def)

lemma demo_maps_ok: "maps_ok demo_maps"
  by (simp add: maps_ok_def demo_snapshot disjoint_sorted_def) (simp add: demo_maps_def)

lemma demo_ensure:
  "rg_regions g = [] \<Longrightarrow> ensureRegionsFresh demo_maps gen g = g\<lparr>rg_regions := snapshot demo_maps gen, rg_built_gen := gen\<rparr>"
  by (simp add: ensureRegionsFresh_def rebuildPtrRegions_def snapshot_def) (simp add: demo_maps_def)

text \<open>The first access at 0x10504 inside \<open>foo\<close> of the small library.\<close>

lemma demo_find: "findPtrRegion (snapshot demo_maps gen) 0x10504 = Some (hd (snapshot demo_maps gen))"
  by (rule iffD2 [OF findPtrRegion_iff]) (use demo_maps_ok in \<open>simp_all add: maps_ok_def demo_snapshot in_region_def\<close>)

lemma demo_preload:
  "loadSymbolTableForSo demo_os 0x10000 Map.empty = Some (demo_table, [0x10000 \<mapsto> demo_table])"
  by (simp add: loadSymbolTableForSo_cases(2) demo_load demo_table_def)

definition demo_tls :: region_tls where
  "demo_tls = \<lparr>tl_s = 0x10000, tl_e = 0x20000, tl_base = 0x10000, tl_p = (True, False, True), tl_named = True,
     tl_lbl = ''libdemo.so'', tl_tbl = Some (0, demo_table), tl_gen = 1\<rparr>"

lemma demo_tag:
  "region_run demo_maps [TagOp demo_os 1 0xb400000000010504] region_start =
    Some (demo_tls, \<lparr>rg_regions = snapshot demo_maps 1, rg_built_gen = 1, rg_epoch = 0, rg_syms = [0x10000 \<mapsto> demo_table]\<rparr>)"
proof -
  have "tls_refill demo_os 1 (hd (snapshot demo_maps 1))
      \<lparr>rg_regions = snapshot demo_maps 1, rg_built_gen = 1, rg_epoch = 0, rg_syms = Map.empty\<rparr> =
    Some (demo_tls, \<lparr>rg_regions = snapshot demo_maps 1, rg_built_gen = 1, rg_epoch = 0, rg_syms = [0x10000 \<mapsto> demo_table]\<rparr>)"
    by (simp add: tls_refill_def demo_snapshot demo_preload demo_tls_def)
  moreover have "\<exists>s. tag_text 0 demo_tls 0x10504 = Some s" by (simp add: tag_text_def demo_tls_def)
  moreover have "strip_tag 0xb400000000010504 = 0x10504" by (simp add: strip_tag_def)
  ultimately show ?thesis
    by (auto simp: appendRegionTag_def region_start_def tls_initial_def Let_def demo_ensure demo_find)
qed

text \<open>An access, the end of the trace, and the next access at another generation, which loads the table again.\<close>

lemma demo_cleared:
  "region_run demo_maps [TagOp demo_os 1 0xb400000000010504, ClearOp] region_start =
    Some (demo_tls, region_clear_symbols
      \<lparr>rg_regions = snapshot demo_maps 1, rg_built_gen = 1, rg_epoch = 0, rg_syms = [0x10000 \<mapsto> demo_table]\<rparr>)"
proof -
  have "region_run demo_maps ([TagOp demo_os 1 0xb400000000010504] @ [ClearOp]) region_start =
    Some (demo_tls, region_clear_symbols
      \<lparr>rg_regions = snapshot demo_maps 1, rg_built_gen = 1, rg_epoch = 0, rg_syms = [0x10000 \<mapsto> demo_table]\<rparr>)"
    unfolding region_run_append demo_tag by simp
  then show ?thesis by (simp only: append_Cons append_Nil)
qed

lemma region_tag_up_to_date_witness:
  "\<exists>st. region_run demo_maps [TagOp demo_os 1 0xb400000000010504, ClearOp] region_start = Some st \<and>
    \<not> uses_freed_table (TagOp demo_os 2 0x10500) st \<and>
    map_option fst (region_step demo_maps (TagOp demo_os 2 0x10500) st) = region_direct demo_maps (TagOp demo_os 2 0x10500)"
proof -
  have "\<forall>y \<in> set [TagOp demo_os 2 0x10500, TagOp demo_os 1 0xb400000000010504, ClearOp].
      library_stays (table_at demo_os) demo_maps y" by (simp add: same_tables_def)
  from region_tag_up_to_date [OF demo_maps_ok this demo_cleared]
  show ?thesis unfolding demo_cleared by (simp add: stale_hit_def demo_tls_def)
qed

text \<open>A freed symbol table is used: clearing the symbol cache at the end of a trace leaves the
  thread's copy of the last region alone. If the maps do not change before the next trace, its first
  access to that region reads the freed table.\<close>

lemma region_tag_after_clear:
  "\<exists>st. region_run demo_maps [TagOp demo_os 1 0xb400000000010504, ClearOp] region_start = Some st \<and>
    region_step demo_maps (TagOp demo_os 1 0x10504) st = None"
  unfolding demo_cleared
  by (simp add: appendRegionTag_def strip_tag_def region_clear_symbols_def tag_text_def demo_tls_def)

text \<open>The symbol cache knows a library by its base alone: when another one is mapped there, its accesses are labelled with the symbols
  of the first.\<close>

lemma replaced_library_old_symbols:
  assumes "rg_syms g (pr_module_base r) = Some t" and "st_loaded t" and "pr_named r"
    and "tls_refill os gen r g = Some (th, g')"
  shows "tl_tbl th = Some (rg_epoch g, t)"
  using assms(3,4) loadSymbolTableForSo_cases(1) [where c = "rg_syms g" and b = "pr_module_base r" and os = os, OF assms(1,2)] by (auto simp: tls_refill_def Let_def)

end
