(* ===== verification/Svc_Handler.thy ===== *)
theory Svc_Handler
  imports Safe_Mem
begin

text \<open>
  \<open>trace/src/svc_handler.cpp\<close> and \<open>svc_handler.h\<close>: the text of a system call, the buffer dumps, the
  table that relates descriptors to paths, and the pending record through which the next
  instruction prints the result. System call numbers come from \<open>asm/unistd.h\<close> and are the argument
  \<open>NR\<close>, from names to numbers; the memory of the traced program is the argument \<open>m\<close>, \<open>ps\<close> the page size,
  \<open>x\<close> the argument registers. The callers pass a builder, a tracker and a pending record, never a
  null pointer.
\<close>

subsection \<open>Names\<close>

text \<open>Every entry of the table pairs \<open>__NR_<name>\<close> with its name.\<close>

definition syscall_table :: "string list" where
  "syscall_table = [
    ''io_setup'', ''io_destroy'', ''io_submit'', ''io_cancel'', ''io_getevents'', ''setxattr'',
    ''getxattr'', ''listxattr'', ''removexattr'', ''getcwd'', ''eventfd2'', ''epoll_create1'',
    ''epoll_ctl'', ''epoll_pwait'', ''dup'', ''dup3'', ''inotify_init1'', ''inotify_add_watch'',
    ''inotify_rm_watch'', ''ioctl'', ''flock'', ''mknodat'', ''mkdirat'', ''unlinkat'',
    ''symlinkat'', ''linkat'', ''renameat'', ''fallocate'', ''faccessat'', ''chdir'', ''fchdir'',
    ''fchmod'', ''fchmodat'', ''fchownat'', ''fchown'', ''openat'', ''close'', ''pipe2'',
    ''getdents64'', ''read'', ''write'', ''readv'', ''writev'', ''pread64'', ''pwrite64'',
    ''readlinkat'', ''sync'', ''fsync'', ''fdatasync'', ''futex'', ''nanosleep'', ''exit'',
    ''exit_group'', ''set_tid_address'', ''kill'', ''tkill'', ''tgkill'', ''rt_sigaction'',
    ''rt_sigprocmask'', ''rt_sigreturn'', ''clock_settime'', ''clock_gettime'', ''clock_getres'',
    ''clock_nanosleep'', ''ptrace'', ''sched_yield'', ''uname'', ''getrlimit'', ''setrlimit'',
    ''prctl'', ''getcpu'', ''gettimeofday'', ''getpid'', ''getppid'', ''getuid'', ''geteuid'',
    ''getgid'', ''getegid'', ''gettid'', ''sysinfo'', ''socket'', ''socketpair'', ''bind'',
    ''listen'', ''accept'', ''connect'', ''getsockname'', ''getpeername'', ''sendto'',
    ''recvfrom'', ''setsockopt'', ''getsockopt'', ''shutdown'', ''sendmsg'', ''recvmsg'', ''brk'',
    ''munmap'', ''mremap'', ''clone'', ''execve'', ''mprotect'', ''madvise'', ''mincore'',
    ''mlock'', ''munlock'', ''getrandom'', ''memfd_create'', ''seccomp'', ''statx'', ''clone3'',
    ''close_range'', ''openat2'', ''faccessat2'', ''prlimit64'', ''wait4'', ''accept4'', ''lseek'',
    ''fcntl'', ''ftruncate'', ''ppoll'', ''newfstatat'', ''set_robust_list'', ''sigaltstack'',
    ''sched_getaffinity'', ''sched_setaffinity'', ''rt_sigtimedwait'', ''setitimer'',
    ''getitimer'', ''timerfd_create'', ''timerfd_settime'', ''timerfd_gettime'', ''signalfd4'',
    ''epoll_pwait2'', ''unlinkat'', ''renameat2'', ''sendfile'', ''truncate'', ''mkdirat'',
    ''umask'', ''getrusage'', ''times'', ''getgroups'', ''setgroups'', ''setsid'', ''getpgid'',
    ''setpgid'', ''getsid'', ''setreuid'', ''setregid'', ''setresuid'', ''setresgid'',
    ''getresuid'', ''getresgid'', ''mmap'']"

fun syscall_name :: "(string \<Rightarrow> nat) \<Rightarrow> string list \<Rightarrow> nat \<Rightarrow> string option" where
  "syscall_name NR [] nr = None"
| "syscall_name NR (n # ns) nr = (if NR n = nr then Some n else syscall_name NR ns nr)"

subsection \<open>Values\<close>

definition int32 :: "u64 \<Rightarrow> int" where
  "int32 v = sint (ucast v :: 32 word)"

definition appendHexVal :: "u64 \<Rightarrow> string" where
  "appendHexVal v = ''0x'' @ uint64ToHex v"

definition appendDecVal :: "u64 \<Rightarrow> string" where
  "appendDecVal v = uint64ToDec v"

definition appendSignedDecVal :: "u64 \<Rightarrow> string" where
  "appendSignedDecVal v =
     (if sint v < 0 then ''-'' @ appendDecVal (- v) else appendDecVal v)"

type_synonym fd_table = "int \<Rightarrow> string option"

definition fd_add :: "int \<Rightarrow> string \<Rightarrow> fd_table \<Rightarrow> fd_table" where
  "fd_add fd path t = (if fd \<ge> 0 \<and> path \<noteq> [] then t(fd \<mapsto> path) else t)"

definition fd_remove :: "int \<Rightarrow> fd_table \<Rightarrow> fd_table" where
  "fd_remove fd t = t(fd := None)"

definition quoted_path :: "fd_table \<Rightarrow> int \<Rightarrow> string" where
  "quoted_path t fd =
     (case t fd of None \<Rightarrow> [] | Some p \<Rightarrow> '' ->'' @ [CHR 0x22] @ p @ [CHR 0x22])"

text \<open>A negative descriptor is negated (at 32 bits) before it is printed and looked up.\<close>

definition appendFd :: "int \<Rightarrow> fd_table \<Rightarrow> string" where
  "appendFd fd t =
     (if fd = -100 then ''AT_FDCWD''
      else (let fd' = (if fd < 0 then sint (- (word_of_int fd :: 32 word)) else fd) in
            (if fd < 0 then ''-'' else []) @ uint64ToDec (word_of_int fd') @ quoted_path t fd'))"

subsection \<open>Buffers\<close>

definition printable :: "byte \<Rightarrow> bool" where
  "printable c \<longleftrightarrow> (32 \<le> c \<and> c \<le> 126) \<or> c = 10 \<or> c = 13 \<or> c = 9"

definition dump_char :: "byte \<Rightarrow> string" where
  "dump_char c =
     (if c = 10 then [CHR 0x5C, CHR ''n''] else if c = 13 then [CHR 0x5C, CHR ''r'']
      else if c = 9 then [CHR 0x5C, CHR ''t''] else if c = 34 then [CHR 0x5C, CHR 0x22]
      else if 32 \<le> c \<and> c \<le> 126 then [char_of (unat c)] else ''.'')"

fun spaced_hex :: "byte list \<Rightarrow> string" where
  "spaced_hex [] = []"
| "spaced_hex [b] = byteToHex b"
| "spaced_hex (b # bs) = byteToHex b @ '' '' @ spaced_hex bs"

definition NL :: string where "NL = [CHR 0x0A]"

text \<open>The bytes read (at most 128 of \<open>len\<close>): as text if seven in ten are printable, else as hex.\<close>

definition dump_text :: "byte list \<Rightarrow> nat \<Rightarrow> string" where
  "dump_text bs len =
     ''    [BUF] '' @
     (if length (filter printable bs) * 10 \<ge> length bs * 7
      then [CHR 0x22] @ concat (map dump_char bs) @ (if len > 128 then ''...'' else []) @ [CHR 0x22] @ NL
      else spaced_hex (take 32 bs) @ (if len > 32 then '' ...'' else []) @ NL)"

definition svcDumpBuf :: "mem \<Rightarrow> u64 \<Rightarrow> u64 \<Rightarrow> string" where
  "svcDumpBuf m addr len =
     (if addr = 0 \<or> unat addr < 0x1000 \<or> len = 0 then []
      else (case safe_host_read m (unat addr) (min (unat len) 128) of
              None \<Rightarrow> []
            | Some bs \<Rightarrow> dump_text bs (unat len)))"

subsection \<open>The pending record\<close>

datatype pend_type = SVC_PEND_NONE | SVC_PEND_FD_OPEN | SVC_PEND_READ_BUF | SVC_PEND_GENERIC

record svc_pending =
  sp_type :: pend_type
  sp_buf_addr :: u64
  sp_path :: string

record svc_out =
  so_text :: string
  so_fds :: fd_table
  so_pending :: svc_pending

definition SEP :: string where "SEP = '', ''"

text \<open>A path argument: the text, and the path for the pending record.\<close>

definition path_arg :: "mem \<Rightarrow> nat \<Rightarrow> u64 \<Rightarrow> string" where
  "path_arg m ps a =
     (case safe_read_cstr m ps (unat a) 256 of None \<Rightarrow> ''(bad ptr)'' | Some (n, bs) \<Rightarrow> chars_of bs)"

definition pending_path :: "mem \<Rightarrow> nat \<Rightarrow> u64 \<Rightarrow> string" where
  "pending_path m ps a =
     (case safe_read_cstr m ps (unat a) 256 of None \<Rightarrow> [] | Some (n, bs) \<Rightarrow> chars_of (take (min n 255) bs))"

definition quoted_arg :: "string \<Rightarrow> string" where
  "quoted_arg s = '', '' @ [CHR 0x22] @ s @ [CHR 0x22] @ '', ''"

definition flag_list :: "(u64 \<times> string) list \<Rightarrow> u64 \<Rightarrow> string list" where
  "flag_list fs v = map snd (filter (\<lambda>(bit, n). v AND bit \<noteq> 0) fs)"

fun join_bar :: "string list \<Rightarrow> string" where
  "join_bar [] = []"
| "join_bar [s] = s"
| "join_bar (s # ss) = s @ ''|'' @ join_bar ss"

definition mmap_prot :: "u64 \<Rightarrow> string" where
  "mmap_prot v = (if v = 0 then ''NONE'' else join_bar (flag_list [(1, ''R''), (2, ''W''), (4, ''X'')] v))"

definition mmap_flags :: "u64 \<Rightarrow> string" where
  "mmap_flags v =
     (let fs = flag_list [(0x01, ''SHARED''), (0x02, ''PRIVATE''), (0x10, ''FIXED''), (0x20, ''ANON'')] v in
      if fs = [] then appendHexVal v else join_bar fs)"

definition seek_name :: "u64 \<Rightarrow> string" where
  "seek_name v =
     (if int32 v = 0 then ''SEEK_SET'' else if int32 v = 1 then ''SEEK_CUR''
      else if int32 v = 2 then ''SEEK_END'' else appendDecVal v)"

definition fcntl_name :: "u64 \<Rightarrow> string" where
  "fcntl_name v =
     (let c = int32 v in
      if c = 0 then ''F_DUPFD'' else if c = 1 then ''F_GETFD'' else if c = 2 then ''F_SETFD''
      else if c = 3 then ''F_GETFL'' else if c = 4 then ''F_SETFL'' else if c = 5 then ''F_GETLK''
      else if c = 6 then ''F_SETLK'' else if c = 7 then ''F_SETLKW'' else appendDecVal v)"

definition futex_op :: "u64 \<Rightarrow> string" where
  "futex_op v =
     (let op = unat (v AND 0x7f) in
      (if op = 0 then ''WAIT'' else if op = 1 then ''WAKE'' else if op = 9 then ''WAIT_BITSET''
       else if op = 10 then ''WAKE_BITSET'' else appendDecVal v) @
      (if v AND 0x80 \<noteq> 0 then ''|PRIVATE'' else []))"

subsection \<open>A system call\<close>

text \<open>
  The cases of the switch, in three parts (each ends with the next one). \<open>p0\<close> is the pending record
  after its reset. The result of a case is the text up to and with the closing parenthesis (and the
  dump of what is written), the table and the pending record.
\<close>

definition svc_done :: "fd_table \<Rightarrow> svc_pending \<Rightarrow> string \<Rightarrow> svc_out" where
  "svc_done t p0 s = \<lparr>so_text = s @ '')'' @ NL, so_fds = t, so_pending = p0\<rparr>"

definition svc_reads :: "fd_table \<Rightarrow> svc_pending \<Rightarrow> u64 \<Rightarrow> string \<Rightarrow> svc_out" where
  "svc_reads t p0 buf s = \<lparr>so_text = s @ '')'' @ NL, so_fds = t,
     so_pending = p0\<lparr>sp_type := SVC_PEND_READ_BUF, sp_buf_addr := buf\<rparr>\<rparr>"

definition svc_case_last ::
    "(string \<Rightarrow> nat) \<Rightarrow> mem \<Rightarrow> nat \<Rightarrow> (nat \<Rightarrow> u64) \<Rightarrow> nat \<Rightarrow> fd_table \<Rightarrow> svc_pending \<Rightarrow> svc_out" where
  "svc_case_last NR m ps x nr t p0 =
     (let fd = appendFd (int32 (x 0)) t; is = (\<lambda>n. nr = NR n);
          done = svc_done t p0; reads = svc_reads t p0; path = quoted_arg (path_arg m ps (x 1)) in
      if is ''getcwd'' then reads (x 0) (appendHexVal (x 0) @ SEP @ appendDecVal (x 1))
      else if is ''getrandom'' then
        reads (x 0) (appendHexVal (x 0) @ SEP @ appendDecVal (x 1) @ SEP @ appendHexVal (x 2))
      else if is ''lseek'' then done (fd @ SEP @ appendSignedDecVal (x 1) @ SEP @ seek_name (x 2))
      else if is ''mmap'' then
        done (appendHexVal (x 0) @ SEP @ appendDecVal (x 1) @ SEP @ mmap_prot (x 2) @ SEP @ mmap_flags (x 3) @ SEP @
              (if int32 (x 4) = -1 then ''-1'' else appendFd (int32 (x 4)) t) @ SEP @ appendHexVal (x 5))
      else if is ''fcntl'' then
        done (fd @ SEP @ fcntl_name (x 1) @
              (if x 1 = 2 \<or> x 1 = 4 then SEP @ appendHexVal (x 2) else []))
      else if is ''ftruncate'' then done (fd @ SEP @ appendDecVal (x 1))
      else if is ''newfstatat'' then
        done (fd @ path @ appendHexVal (x 2) @ SEP @ appendHexVal (x 3))
      else if is ''ppoll'' then
        done (appendHexVal (x 0) @ SEP @ appendDecVal (x 1) @ SEP @ appendHexVal (x 2))
      else if is ''futex'' then
        done (appendHexVal (x 0) @ SEP @ futex_op (x 1) @ SEP @ appendDecVal (x 2))
      else if is ''getdents64'' then done (fd @ SEP @ appendHexVal (x 1) @ SEP @ appendDecVal (x 2))
      else done (appendHexVal (x 0) @ SEP @ appendHexVal (x 1) @ SEP @ appendHexVal (x 2) @ SEP @ appendHexVal (x 3)))"

definition svc_case_mid ::
    "(string \<Rightarrow> nat) \<Rightarrow> mem \<Rightarrow> nat \<Rightarrow> (nat \<Rightarrow> u64) \<Rightarrow> nat \<Rightarrow> fd_table \<Rightarrow> svc_pending \<Rightarrow> svc_out" where
  "svc_case_mid NR m ps x nr t p0 =
     (let fd = appendFd (int32 (x 0)) t; is = (\<lambda>n. nr = NR n);
          done = svc_done t p0; reads = svc_reads t p0 in
      if is ''mprotect'' then
        done (appendHexVal (x 0) @ SEP @ appendDecVal (x 1) @ SEP @ appendHexVal (x 2))
      else if is ''munmap'' then done (appendHexVal (x 0) @ SEP @ appendDecVal (x 1))
      else if is ''madvise'' then
        done (appendHexVal (x 0) @ SEP @ appendDecVal (x 1) @ SEP @ appendDecVal (x 2))
      else if is ''prctl'' then
        done (appendDecVal (x 0) @ SEP @ appendHexVal (x 1) @ SEP @ appendHexVal (x 2) @ SEP @ appendHexVal (x 3))
      else if is ''socket'' then
        done (appendDecVal (x 0) @ SEP @ appendDecVal (x 1) @ SEP @ appendDecVal (x 2))
      else if is ''connect'' then done (fd @ SEP @ appendHexVal (x 1) @ SEP @ appendDecVal (x 2))
      else if is ''sendto'' then
        \<lparr>so_text = fd @ SEP @ appendHexVal (x 1) @ SEP @ appendDecVal (x 2) @ SEP @ appendHexVal (x 3) @
                   '')'' @ NL @ svcDumpBuf m (x 1) (x 2), so_fds = t, so_pending = p0\<rparr>
      else if is ''recvfrom'' then
        reads (x 1) (fd @ SEP @ appendHexVal (x 1) @ SEP @ appendDecVal (x 2))
      else if is ''tgkill'' then
        done (appendDecVal (x 0) @ SEP @ appendDecVal (x 1) @ '', sig='' @ appendDecVal (x 2))
      else if is ''kill'' \<or> is ''tkill'' then done (appendDecVal (x 0) @ '', sig='' @ appendDecVal (x 1))
      else if is ''rt_sigaction'' then
        done (''sig='' @ appendDecVal (x 0) @ '', act='' @ appendHexVal (x 1) @ '', oldact='' @ appendHexVal (x 2))
      else if is ''clone'' \<or> is ''clone3'' then done (appendHexVal (x 0) @ SEP @ appendHexVal (x 1))
      else if is ''execve'' then
        done ([CHR 0x22] @ path_arg m ps (x 0) @ [CHR 0x22] @ '', '' @ appendHexVal (x 1) @ SEP @ appendHexVal (x 2))
      else svc_case_last NR m ps x nr t p0)"

definition svc_case ::
    "(string \<Rightarrow> nat) \<Rightarrow> mem \<Rightarrow> nat \<Rightarrow> (nat \<Rightarrow> u64) \<Rightarrow> nat \<Rightarrow> fd_table \<Rightarrow> svc_pending \<Rightarrow> svc_out" where
  "svc_case NR m ps x nr t p0 =
     (let fd = appendFd (int32 (x 0)) t; is = (\<lambda>n. nr = NR n);
          done = svc_done t p0; reads = svc_reads t p0; path = quoted_arg (path_arg m ps (x 1)) in
      if is ''openat'' \<or> is ''openat2'' then
        \<lparr>so_text = fd @ path @ appendHexVal (x 2) @ '')'' @ NL, so_fds = t,
         so_pending = p0\<lparr>sp_type := SVC_PEND_FD_OPEN, sp_path := pending_path m ps (x 1)\<rparr>\<rparr>
      else if is ''close'' then
        \<lparr>so_text = fd @ '')'' @ NL, so_fds = fd_remove (int32 (x 0)) t, so_pending = p0\<rparr>
      else if is ''read'' \<or> is ''pread64'' then
        reads (x 1) (fd @ SEP @ appendHexVal (x 1) @ SEP @ appendDecVal (x 2))
      else if is ''write'' \<or> is ''pwrite64'' then
        \<lparr>so_text = fd @ SEP @ appendHexVal (x 1) @ SEP @ appendDecVal (x 2) @ '')'' @ NL @
                   svcDumpBuf m (x 1) (x 2), so_fds = t, so_pending = p0\<rparr>
      else if is ''readlinkat'' then
        reads (x 2) (fd @ path @ appendHexVal (x 2) @ SEP @ appendDecVal (x 3))
      else if is ''faccessat'' \<or> is ''faccessat2'' then done (fd @ path @ appendDecVal (x 2))
      else if is ''fchmodat'' \<or> is ''fchownat'' then done (fd @ path @ appendHexVal (x 2))
      else if is ''statx'' then
        done (fd @ path @ appendHexVal (x 2) @ SEP @ appendHexVal (x 3) @ SEP @ appendHexVal (x 4))
      else if is ''ioctl'' then done (fd @ SEP @ appendHexVal (x 1) @ SEP @ appendHexVal (x 2))
      else svc_case_mid NR m ps x nr t p0)"

lemmas svc_case_defs = svc_case_def svc_case_mid_def svc_case_last_def svc_done_def svc_reads_def

definition svc_handle ::
    "(string \<Rightarrow> nat) \<Rightarrow> mem \<Rightarrow> nat \<Rightarrow> (nat \<Rightarrow> u64) \<Rightarrow> u64 \<Rightarrow> fd_table \<Rightarrow> svc_pending \<Rightarrow> svc_out" where
  "svc_handle NR m ps x nr t p =
     (let n = unat (ucast nr :: u32);
          out = svc_case NR m ps x n t (p\<lparr>sp_type := SVC_PEND_GENERIC, sp_path := []\<rparr>) in
      out\<lparr>so_text := NL @ ''  [SVC] '' @
        (case syscall_name NR syscall_table n of
           None \<Rightarrow> ''syscall_'' @ appendDecVal nr | Some s \<Rightarrow> s) @ ''('' @ so_text out\<rparr>)"

text \<open>The result, printed before the next instruction.\<close>

definition svc_flush_pending ::
    "mem \<Rightarrow> u64 \<Rightarrow> fd_table \<Rightarrow> svc_pending \<Rightarrow> svc_out" where
  "svc_flush_pending m x0 t p =
     (case sp_type p of
        SVC_PEND_NONE \<Rightarrow> \<lparr>so_text = [], so_fds = t, so_pending = p\<rparr>
      | SVC_PEND_FD_OPEN \<Rightarrow>
          (let fd = int32 x0 in
           \<lparr>so_text = ''    => fd='' @
              (if fd < 0 then ''-'' @ uint64ToDec (word_of_int (sint (- (word_of_int fd :: 32 word)))) @ '' (error)'' @ NL
               else uint64ToDec (word_of_int fd) @ NL),
            so_fds = (if fd < 0 \<or> sp_path p = [] then t else fd_add fd (sp_path p) t),
            so_pending = p\<lparr>sp_type := SVC_PEND_NONE\<rparr>\<rparr>)
      | SVC_PEND_READ_BUF \<Rightarrow>
          \<lparr>so_text = ''    => '' @
             (if sint x0 < 0 then ''-1 (error)'' @ NL
              else uint64ToDec x0 @ '' bytes'' @ NL @
                (if sint x0 > 0 \<and> sp_buf_addr p \<noteq> 0
                 then (case safe_host_read m (unat (sp_buf_addr p)) (min (unat x0) 128) of
                         None \<Rightarrow> [] | Some bs \<Rightarrow> dump_text bs (unat x0))
                 else [])),
           so_fds = t, so_pending = p\<lparr>sp_type := SVC_PEND_NONE\<rparr>\<rparr>
      | SVC_PEND_GENERIC \<Rightarrow>
          \<lparr>so_text = ''    => '' @
             (if sint x0 < 0 then ''-'' @ uint64ToDec (- x0) else appendHexVal x0) @ NL,
           so_fds = t, so_pending = p\<lparr>sp_type := SVC_PEND_NONE\<rparr>\<rparr>)"

subsection \<open>Lemmas\<close>

text \<open>The numbers of the system calls of the table are distinct.\<close>

definition NR_ok :: "(string \<Rightarrow> nat) \<Rightarrow> bool" where
  "NR_ok NR \<longleftrightarrow> inj_on NR (set syscall_table)"

lemma syscall_name_SomeD: "syscall_name NR ns nr = Some n \<Longrightarrow> NR n = nr \<and> n \<in> set ns"
  by (induction ns) (auto split: if_splits)

lemma syscall_name_NR: "inj_on NR (set ns) \<Longrightarrow> n \<in> set ns \<Longrightarrow> syscall_name NR ns (NR n) = Some n"
  by (induction ns) (auto dest: inj_onD)

lemma svc_case_pending: "sp_type p0 = SVC_PEND_GENERIC \<Longrightarrow> sp_type (so_pending (svc_case NR m ps x nr t p0)) \<noteq> SVC_PEND_NONE"
  by (simp add: svc_case_defs Let_def)

lemma svc_case_fds: "so_fds (svc_case NR m ps x nr t p0) =
    (if nr = NR ''close'' \<and> nr \<noteq> NR ''openat'' \<and> nr \<noteq> NR ''openat2'' then fd_remove (int32 (x 0)) t else t)"
  by (simp add: svc_case_defs Let_def)

lemma svc_case_open: "nr = NR ''openat'' \<or> nr = NR ''openat2'' \<Longrightarrow>
    so_pending (svc_case NR m ps x nr t p0) =
      p0\<lparr>sp_type := SVC_PEND_FD_OPEN, sp_path := pending_path m ps (x 1)\<rparr>"
  by (simp add: svc_case_defs Let_def)

lemma svc_case_not_open:
  "sp_type p0 = SVC_PEND_GENERIC \<Longrightarrow> nr \<noteq> NR ''openat'' \<Longrightarrow> nr \<noteq> NR ''openat2'' \<Longrightarrow>
   sp_type (so_pending (svc_case NR m ps x nr t p0)) \<noteq> SVC_PEND_FD_OPEN"
  by (simp add: svc_case_defs Let_def)

text \<open>What a dump consists of: printable characters, and one line feed at the end.\<close>

definition visible :: "char \<Rightarrow> bool" where
  "visible c \<longleftrightarrow> 32 \<le> (of_char c :: nat) \<and> (of_char c :: nat) \<le> 126"

definition one_line :: "string \<Rightarrow> bool" where
  "one_line s \<longleftrightarrow> s \<noteq> [] \<and> list_all visible (butlast s) \<and> last s = CHR 0x0A"

lemma visible_literals:
  "list_all visible ''    [BUF] ''" "list_all visible ''...''" "list_all visible '' ...''" "visible CHR 0x22"
  "visible CHR '' ''" "visible CHR ''.''" "visible CHR 0x5C" "visible CHR ''n''" "visible CHR ''r''" "visible CHR ''t''"
  "visible CHR ''[''" "visible CHR ''B''" "visible CHR ''U''" "visible CHR ''F''" "visible CHR '']''"
  by (simp_all add: visible_def)

lemma visible_hex: "n < 16 \<Longrightarrow> visible (hd_digit n)"
  by (erule less_16_cases) (simp_all add: visible_def hd_digit_def)

lemma visible_byteToHex: "list_all visible (byteToHex b)"
proof -
  have "unat b div 16 < 16" using byte_less [of b] by simp
  then show ?thesis by (simp add: byteToHex_def unat_shift_4 unat_and_15 visible_hex)
qed

lemma visible_spaced_hex: "list_all visible (spaced_hex bs)"
  by (induction bs rule: spaced_hex.induct) (simp_all add: visible_byteToHex visible_literals)

lemma visible_dump_char: "list_all visible (dump_char c)"
proof -
  have "visible (char_of (unat c))" if "32 \<le> c" "c \<le> 126"
  proof -
    have "32 \<le> unat c" "unat c \<le> 126" using that by (simp_all add: word_le_nat_alt)
    then show ?thesis by (simp add: visible_def)
  qed
  then show ?thesis by (simp add: dump_char_def visible_literals)
qed

lemma list_all_concat_map: "(\<And>x. list_all P (f x)) \<Longrightarrow> list_all P (concat (map f xs))"
  by (induction xs) simp_all

lemma dump_text_one_line: "one_line (dump_text bs len)"
proof -
  have "list_all visible (concat (map dump_char bs))"
    by (rule list_all_concat_map) (rule visible_dump_char)
  then show ?thesis
    using visible_spaced_hex [of "take 32 bs"]
    by (auto simp: one_line_def dump_text_def NL_def butlast_append visible_literals)
qed

subsection \<open>Properties\<close>

text \<open>C5 (the life of a descriptor): a successful \<open>openat\<close> makes the next result line bind the returned
  descriptor to the path that was read, every call except \<open>close\<close> leaves the table alone, \<open>close\<close> drops
  its descriptor and no other, and only the result of an \<open>openat\<close> adds an entry. So a path that is
  printed with a descriptor is that of the last \<open>openat\<close> that returned it and was not closed since.\<close>

theorem fd_lifecycle:
  assumes "NR_ok NR" and "n \<in> set syscall_table" and "unat (ucast nr :: u32) = NR n"
    and "out = svc_handle NR m ps x nr t p" and "fin = svc_flush_pending m' x0 (so_fds out) (so_pending out)"
  shows "so_fds out = (if n = ''close'' then t(int32 (x 0) := None) else t) \<and>
    so_fds fin =
      (if (n = ''openat'' \<or> n = ''openat2'') \<and> 0 \<le> int32 x0 \<and> pending_path m ps (x 1) \<noteq> []
       then t(int32 x0 \<mapsto> pending_path m ps (x 1)) else so_fds out)"
proof -
  have "{''close'', ''openat'', ''openat2''} \<subseteq> set syscall_table" by (simp add: syscall_table_def)
  then have eq: "NR n = NR k \<longleftrightarrow> n = k" if "k \<in> {''close'', ''openat'', ''openat2''}" for k
    using assms(1,2) that by (auto simp: NR_ok_def dest: inj_onD)
  have out: "so_fds out = (if n = ''close'' then t(int32 (x 0) := None) else t)"
    using assms(3) eq by (simp add: assms(4) svc_handle_def Let_def svc_case_fds fd_remove_def)
  show ?thesis
  proof (cases "n = ''openat'' \<or> n = ''openat2''")
    case True
    then have "so_pending out = p\<lparr>sp_type := SVC_PEND_FD_OPEN, sp_path := pending_path m ps (x 1)\<rparr>"
      using assms(3) by (auto simp: assms(4) svc_handle_def Let_def svc_case_open)
    with True out show ?thesis
      by (auto simp: assms(5) svc_flush_pending_def Let_def fd_add_def)
  next
    case False
    then have "sp_type (so_pending out) \<noteq> SVC_PEND_FD_OPEN"
      using assms(3) eq by (simp add: assms(4) svc_handle_def Let_def svc_case_not_open)
    then have "so_fds fin = so_fds out"
      by (simp add: assms(5) svc_flush_pending_def split: pend_type.splits)
    with False out show ?thesis by auto
  qed
qed

text \<open>One result per call: every call leaves a pending result, printing it clears it, and a second
  print adds nothing and changes nothing.\<close>

lemma one_result_per_call:
  assumes "out = svc_handle NR m ps x nr t p" and "fin = svc_flush_pending m' x0 (so_fds out) (so_pending out)"
  shows "sp_type (so_pending out) \<noteq> SVC_PEND_NONE \<and> so_text fin \<noteq> [] \<and>
    sp_type (so_pending fin) = SVC_PEND_NONE \<and>
    svc_flush_pending m'' y (so_fds fin) (so_pending fin) = fin\<lparr>so_text := []\<rparr>"
proof -
  have "sp_type (so_pending out) \<noteq> SVC_PEND_NONE"
    by (simp add: assms(1) svc_handle_def Let_def svc_case_pending)
  moreover from this have "sp_type (so_pending fin) = SVC_PEND_NONE \<and> so_text fin \<noteq> []"
    by (simp add: assms(2) svc_flush_pending_def Let_def split: pend_type.splits)
  ultimately show ?thesis by (simp add: svc_flush_pending_def)
qed

text \<open>A dump is one line: whatever bytes a buffer holds, its dump is empty or consists of visible
  ASCII characters and one final line feed, so traced data cannot forge a line of the trace.\<close>

theorem buffer_dump_one_line:
  "svcDumpBuf m addr len = [] \<or>
   (list_all visible (butlast (svcDumpBuf m addr len)) \<and> last (svcDumpBuf m addr len) = CHR 0x0A)"
  using dump_text_one_line by (auto simp: svcDumpBuf_def one_line_def split: option.splits)

text \<open>The path of another descriptor: for the invalid descriptor -5 the printer negates first and
  looks up 5, so it prints the path of an unrelated open file.\<close>

lemma negative_fd_shows_foreign_path:
  "appendFd (-5) [5 \<mapsto> ''/data/key''] = ''-5 ->'' @ [CHR 0x22] @ ''/data/key'' @ [CHR 0x22]"
proof -
  have "sint (- (word_of_int (-5) :: 32 word)) = 5" by simp
  moreover have "uint64ToDec 5 = ''5''"
  proof -
    have "dec_tmp 5 = [char_of (53 :: nat)]" by (simp add: dec_tmp.simps)
    moreover have "char_of (53 :: nat) = CHR ''5''" by code_simp
    ultimately show ?thesis by (simp add: uint64ToDec_def)
  qed
  ultimately show ?thesis by (simp add: appendFd_def Let_def quoted_path_def)
qed

text \<open>A numbering for the witnesses (the place in the table), and a path in memory.\<close>

definition demo_NR :: "string \<Rightarrow> nat" where
  "demo_NR s = length (takeWhile (\<lambda>n. n \<noteq> s) syscall_table)"

lemma demo_NR_ok: "NR_ok demo_NR"
proof -
  have "s \<in> set ns \<Longrightarrow> ns ! length (takeWhile (\<lambda>n. n \<noteq> s) ns) = s" for s :: string and ns
    by (induction ns) auto
  then show ?thesis unfolding NR_ok_def demo_NR_def inj_on_def by metis
qed

definition demo_path_mem :: mem where
  "demo_path_mem = [4096 \<mapsto> 47, 4097 \<mapsto> 97, 4098 \<mapsto> 0]"

definition demo_pending :: svc_pending where
  "demo_pending = \<lparr>sp_type = SVC_PEND_NONE, sp_buf_addr = 0, sp_path = []\<rparr>"

definition demo_open :: svc_out where
  "demo_open = svc_handle demo_NR demo_path_mem 4096 (\<lambda>i. 4096) (word_of_nat (demo_NR ''openat'')) [3 \<mapsto> ''/b''] demo_pending"

definition demo_fin :: svc_out where
  "demo_fin = svc_flush_pending demo_path_mem 4 (so_fds demo_open) (so_pending demo_open)"

lemma fd_lifecycle_witness:
  "so_fds demo_open = (if ''openat'' = ''close'' then [3 \<mapsto> ''/b''](int32 4096 := None) else [3 \<mapsto> ''/b'']) \<and>
   so_fds demo_fin =
     (if (''openat'' = ''openat'' \<or> ''openat'' = ''openat2'') \<and> 0 \<le> int32 4 \<and>
         pending_path demo_path_mem 4096 4096 \<noteq> []
      then [3 \<mapsto> ''/b''](int32 4 \<mapsto> pending_path demo_path_mem 4096 4096) else so_fds demo_open)"
  by (rule fd_lifecycle [of demo_NR "''openat''" "word_of_nat (demo_NR ''openat'')" demo_open demo_path_mem 4096
        "\<lambda>i. 4096" "[3 \<mapsto> ''/b'']" demo_pending demo_fin demo_path_mem 4])
     (simp_all add: demo_NR_ok demo_open_def demo_fin_def demo_NR_def syscall_table_def)

lemma one_result_per_call_witness:
  "sp_type (so_pending demo_open) \<noteq> SVC_PEND_NONE \<and> so_text demo_fin \<noteq> [] \<and>
    sp_type (so_pending demo_fin) = SVC_PEND_NONE \<and>
    svc_flush_pending demo_path_mem 9 (so_fds demo_fin) (so_pending demo_fin) = demo_fin\<lparr>so_text := []\<rparr>"
  by (rule one_result_per_call) (simp_all add: demo_open_def demo_fin_def)

end
