(* ===== verification/Func_Call.thy ===== *)
theory Func_Call
  imports Ptr_Regions Svc_Handler
begin

text \<open>
  \<open>[CALL]\<close> lines of \<open>trace/src/FuncCallTrace.cpp\<close>: the signature table of known library functions, the
  formatting of their arguments, the pending record that turns into the result line, and
  \<open>funcCallTraceEmit\<close>, which is called before an external call and when it returns. The traced memory
  is \<open>m\<close> with page size \<open>ps\<close>; \<open>x\<close> are the argument registers; the annotations of pointers and the
  module of an address are functions of the state in \<open>Ptr_Regions\<close> and the loader. The lines go to the
  thread's \<open>DirectWriteBuf\<close>; the text written is the result here. The per-thread clones are an association
  of the master's context with a context of the thread.
\<close>

subsection \<open>Signatures\<close>

datatype param_type = PT_INT | PT_HEX | PT_STR | PT_STR_ADDR | PT_SIZE | PT_FD | PT_FLAGS

text \<open>A signature: name, number of parameters, and their names and types.\<close>

type_synonym func_sig = "string \<times> nat \<times> (string \<times> param_type) list"

definition g_func_sigs :: "func_sig list" where
  "g_func_sigs =
    [(''strlen'', 1, [(''s'', PT_STR_ADDR)]),
     (''strcmp'', 2, [(''s1'', PT_STR), (''s2'', PT_STR)]),
     (''strncmp'', 3, [(''s1'', PT_STR), (''s2'', PT_STR), (''n'', PT_SIZE)]),
     (''strcpy'', 2, [(''dst'', PT_HEX), (''src'', PT_STR)]),
     (''strncpy'', 3, [(''dst'', PT_HEX), (''src'', PT_STR), (''n'', PT_SIZE)]),
     (''strstr'', 2, [(''haystack'', PT_STR), (''needle'', PT_STR)]),
     (''strchr'', 2, [(''s'', PT_STR), (''c'', PT_INT)]),
     (''strrchr'', 2, [(''s'', PT_STR), (''c'', PT_INT)]),
     (''strcat'', 2, [(''dst'', PT_HEX), (''src'', PT_STR)]),
     (''strncat'', 3, [(''dst'', PT_HEX), (''src'', PT_STR), (''n'', PT_SIZE)]),
     (''strdup'', 1, [(''s'', PT_STR)]),
     (''strtok'', 2, [(''s'', PT_STR), (''delim'', PT_STR)]),
     (''strerror'', 1, [(''errnum'', PT_INT)]),
     (''strtol'', 3, [(''nptr'', PT_STR), (''endptr'', PT_HEX), (''base'', PT_INT)]),
     (''strtoul'', 3, [(''nptr'', PT_STR), (''endptr'', PT_HEX), (''base'', PT_INT)]),
     (''__strlen_chk'', 2, [(''s'', PT_STR_ADDR), (''bufsize'', PT_HEX)]),
     (''__strcpy_chk'', 3, [(''dst'', PT_HEX), (''src'', PT_STR), (''bufsize'', PT_HEX)]),
     (''__strncpy_chk'', 4, [(''dst'', PT_HEX), (''src'', PT_STR), (''n'', PT_SIZE), (''bufsize'', PT_HEX)]),
     (''__strcat_chk'', 3, [(''dst'', PT_HEX), (''src'', PT_STR), (''bufsize'', PT_HEX)]),
     (''__strncat_chk'', 4, [(''dst'', PT_HEX), (''src'', PT_STR), (''n'', PT_SIZE), (''bufsize'', PT_HEX)]),
     (''__strlcpy_chk'', 4, [(''dst'', PT_HEX), (''src'', PT_STR), (''n'', PT_SIZE), (''bufsize'', PT_HEX)]),
     (''__strlcat_chk'', 4, [(''dst'', PT_HEX), (''src'', PT_STR), (''n'', PT_SIZE), (''bufsize'', PT_HEX)]),
     (''memcpy'', 3, [(''dst'', PT_HEX), (''src'', PT_HEX), (''n'', PT_SIZE)]),
     (''memmove'', 3, [(''dst'', PT_HEX), (''src'', PT_HEX), (''n'', PT_SIZE)]),
     (''memset'', 3, [(''s'', PT_HEX), (''c'', PT_INT), (''n'', PT_SIZE)]),
     (''memcmp'', 3, [(''s1'', PT_HEX), (''s2'', PT_HEX), (''n'', PT_SIZE)]),
     (''__memcpy_chk'', 4, [(''dst'', PT_HEX), (''src'', PT_HEX), (''n'', PT_SIZE), (''bufsize'', PT_HEX)]),
     (''__memmove_chk'', 4, [(''dst'', PT_HEX), (''src'', PT_HEX), (''n'', PT_SIZE), (''bufsize'', PT_HEX)]),
     (''__memset_chk'', 4, [(''s'', PT_HEX), (''c'', PT_INT), (''n'', PT_SIZE), (''bufsize'', PT_HEX)]),
     (''mmap'', 6, [(''addr'', PT_HEX), (''length'', PT_SIZE), (''prot'', PT_FLAGS), (''flags'', PT_FLAGS), (''fd'', PT_FD), (''offset'', PT_HEX)]),
     (''mmap64'', 6, [(''addr'', PT_HEX), (''length'', PT_SIZE), (''prot'', PT_FLAGS), (''flags'', PT_FLAGS), (''fd'', PT_FD), (''offset'', PT_HEX)]),
     (''munmap'', 2, [(''addr'', PT_HEX), (''length'', PT_SIZE)]),
     (''mprotect'', 3, [(''addr'', PT_HEX), (''len'', PT_SIZE), (''prot'', PT_FLAGS)]),
     (''malloc'', 1, [(''size'', PT_SIZE)]),
     (''calloc'', 2, [(''nmemb'', PT_SIZE), (''size'', PT_SIZE)]),
     (''realloc'', 2, [(''ptr'', PT_HEX), (''size'', PT_SIZE)]),
     (''free'', 1, [(''ptr'', PT_HEX)]),
     (''memalign'', 2, [(''alignment'', PT_SIZE), (''size'', PT_SIZE)]),
     (''open'', 3, [(''pathname'', PT_STR), (''flags'', PT_FLAGS), (''mode'', PT_FLAGS)]),
     (''openat'', 4, [(''dirfd'', PT_FD), (''pathname'', PT_STR), (''flags'', PT_FLAGS), (''mode'', PT_FLAGS)]),
     (''close'', 1, [(''fd'', PT_FD)]),
     (''read'', 3, [(''fd'', PT_FD), (''buf'', PT_HEX), (''count'', PT_SIZE)]),
     (''write'', 3, [(''fd'', PT_FD), (''buf'', PT_HEX), (''count'', PT_SIZE)]),
     (''pread64'', 4, [(''fd'', PT_FD), (''buf'', PT_HEX), (''count'', PT_SIZE), (''offset'', PT_INT)]),
     (''pwrite64'', 4, [(''fd'', PT_FD), (''buf'', PT_HEX), (''count'', PT_SIZE), (''offset'', PT_INT)]),
     (''lseek'', 3, [(''fd'', PT_FD), (''offset'', PT_INT), (''whence'', PT_INT)]),
     (''fopen'', 2, [(''filename'', PT_STR), (''mode'', PT_STR)]),
     (''fclose'', 1, [(''stream'', PT_HEX)]),
     (''fread'', 4, [(''ptr'', PT_HEX), (''size'', PT_SIZE), (''nmemb'', PT_SIZE), (''stream'', PT_HEX)]),
     (''fwrite'', 4, [(''ptr'', PT_HEX), (''size'', PT_SIZE), (''nmemb'', PT_SIZE), (''stream'', PT_HEX)]),
     (''fgets'', 3, [(''s'', PT_HEX), (''size'', PT_INT), (''stream'', PT_HEX)]),
     (''fputs'', 2, [(''s'', PT_STR), (''stream'', PT_HEX)]),
     (''fflush'', 1, [(''stream'', PT_HEX)]),
     (''stat'', 2, [(''pathname'', PT_STR), (''statbuf'', PT_HEX)]),
     (''fstat'', 2, [(''fd'', PT_FD), (''statbuf'', PT_HEX)]),
     (''access'', 2, [(''pathname'', PT_STR), (''mode'', PT_INT)]),
     (''unlink'', 1, [(''pathname'', PT_STR)]),
     (''rename'', 2, [(''oldpath'', PT_STR), (''newpath'', PT_STR)]),
     (''mkdir'', 2, [(''pathname'', PT_STR), (''mode'', PT_FLAGS)]),
     (''printf'', 1, [(''format'', PT_STR)]),
     (''sprintf'', 2, [(''str'', PT_HEX), (''format'', PT_STR)]),
     (''snprintf'', 3, [(''str'', PT_HEX), (''size'', PT_SIZE), (''format'', PT_STR)]),
     (''fprintf'', 2, [(''stream'', PT_HEX), (''format'', PT_STR)]),
     (''puts'', 1, [(''s'', PT_STR)]),
     (''__sprintf_chk'', 4, [(''str'', PT_HEX), (''flag'', PT_INT), (''slen'', PT_SIZE), (''format'', PT_STR)]),
     (''__snprintf_chk'', 5, [(''str'', PT_HEX), (''size'', PT_SIZE), (''flag'', PT_INT), (''slen'', PT_SIZE), (''format'', PT_STR)]),
     (''__vsnprintf_chk'', 5, [(''str'', PT_HEX), (''size'', PT_SIZE), (''flag'', PT_INT), (''slen'', PT_SIZE), (''format'', PT_STR)]),
     (''dlopen'', 2, [(''filename'', PT_STR), (''flags'', PT_FLAGS)]),
     (''dlsym'', 2, [(''handle'', PT_HEX), (''symbol'', PT_STR)]),
     (''dlclose'', 1, [(''handle'', PT_HEX)]),
     (''dladdr'', 2, [(''addr'', PT_HEX), (''info'', PT_HEX)]),
     (''dlerror'', 0, []),
     (''pthread_create'', 4, [(''thread'', PT_HEX), (''attr'', PT_HEX), (''start_routine'', PT_HEX), (''arg'', PT_HEX)]),
     (''pthread_join'', 2, [(''thread'', PT_HEX), (''retval'', PT_HEX)]),
     (''pthread_mutex_lock'', 1, [(''mutex'', PT_HEX)]),
     (''pthread_mutex_unlock'', 1, [(''mutex'', PT_HEX)]),
     (''pthread_mutex_init'', 2, [(''mutex'', PT_HEX), (''attr'', PT_HEX)]),
     (''pthread_key_create'', 2, [(''key'', PT_HEX), (''destructor'', PT_HEX)]),
     (''pthread_setspecific'', 2, [(''key'', PT_INT), (''value'', PT_HEX)]),
     (''pthread_getspecific'', 1, [(''key'', PT_INT)]),
     (''fork'', 0, []),
     (''vfork'', 0, []),
     (''execve'', 3, [(''pathname'', PT_STR), (''argv'', PT_HEX), (''envp'', PT_HEX)]),
     (''exit'', 1, [(''status'', PT_INT)]),
     (''_exit'', 1, [(''status'', PT_INT)]),
     (''abort'', 0, []),
     (''kill'', 2, [(''pid'', PT_INT), (''sig'', PT_INT)]),
     (''getpid'', 0, []),
     (''getuid'', 0, []),
     (''getenv'', 1, [(''name'', PT_STR)]),
     (''setenv'', 3, [(''name'', PT_STR), (''value'', PT_STR), (''overwrite'', PT_INT)]),
     (''system'', 1, [(''command'', PT_STR)]),
     (''atoi'', 1, [(''nptr'', PT_STR)]),
     (''atol'', 1, [(''nptr'', PT_STR)]),
     (''abs'', 1, [(''j'', PT_INT)]),
     (''rand'', 0, []),
     (''srand'', 1, [(''seed'', PT_INT)]),
     (''time'', 1, [(''tloc'', PT_HEX)]),
     (''sleep'', 1, [(''seconds'', PT_INT)]),
     (''usleep'', 1, [(''usec'', PT_INT)]),
     (''nanosleep'', 2, [(''req'', PT_HEX), (''rem'', PT_HEX)]),
     (''ioctl'', 3, [(''fd'', PT_FD), (''request'', PT_HEX), (''arg'', PT_HEX)]),
     (''prctl'', 5, [(''option'', PT_INT), (''arg2'', PT_HEX), (''arg3'', PT_HEX), (''arg4'', PT_HEX), (''arg5'', PT_HEX)]),
     (''madvise'', 3, [(''addr'', PT_HEX), (''length'', PT_SIZE), (''advice'', PT_INT)]),
     (''__system_property_get'', 2, [(''name'', PT_STR), (''value'', PT_HEX)]),
     (''__system_property_find'', 1, [(''name'', PT_STR)]),
     (''__android_log_print'', 3, [(''prio'', PT_INT), (''tag'', PT_STR), (''fmt'', PT_STR)]),
     (''__android_log_write'', 3, [(''prio'', PT_INT), (''tag'', PT_STR), (''text'', PT_STR)]),
     (''signal'', 2, [(''signum'', PT_INT), (''handler'', PT_HEX)]),
     (''sigaction'', 3, [(''signum'', PT_INT), (''act'', PT_HEX), (''oldact'', PT_HEX)]),
     (''raise'', 1, [(''sig'', PT_INT)])]"

fun initSigMap :: "func_sig list \<Rightarrow> (string \<Rightarrow> func_sig option) \<Rightarrow> (string \<Rightarrow> func_sig option)" where
  "initSigMap [] mp = mp"
| "initSigMap (s # ss) mp = initSigMap ss (mp(fst s \<mapsto> s))"

definition findFuncSig :: "string \<Rightarrow> func_sig option" where
  "findFuncSig n = initSigMap g_func_sigs Map.empty n"

subsection \<open>Libraries whose calls are formatted\<close>

record sig_lib =
  sl_base :: u64
  sl_end :: u64

definition kMaxSigLibs :: nat where "kMaxSigLibs = 4"

text \<open>The objects of \<open>dl_iterate_phdr\<close>: load address and program headers; the first that matches ends
  the iteration.\<close>

fun phdr_end :: "u64 \<Rightarrow> phdr list \<Rightarrow> u64 \<Rightarrow> u64" where
  "phdr_end base [] e = e"
| "phdr_end base (p # ps) e =
     phdr_end base ps
       (if p_type p = PT_LOAD \<and> e < base + p_vaddr p + p_memsz p then base + p_vaddr p + p_memsz p else e)"

fun phdr_find_lib_end :: "(u64 \<times> phdr list) list \<Rightarrow> sig_lib \<Rightarrow> sig_lib" where
  "phdr_find_lib_end [] r = r"
| "phdr_find_lib_end ((a, ps) # objs) r =
     (if a \<noteq> sl_base r then phdr_find_lib_end objs r else r\<lparr>sl_end := phdr_end (sl_base r) ps (sl_end r)\<rparr>)"

definition addSigLibBySymbol ::
  "(string \<Rightarrow> u64) \<Rightarrow> os_env \<Rightarrow> (u64 \<times> phdr list) list \<Rightarrow> string \<Rightarrow> sig_lib list \<Rightarrow> sig_lib list" where
  "addSigLibBySymbol dlsym os objs name libs =
     (if kMaxSigLibs \<le> length libs \<or> dlsym name = 0 then libs
      else (case os_dladdr os (dlsym name) of
              None \<Rightarrow> libs
            | Some (base, fname) \<Rightarrow>
                if base = 0 \<or> list_ex (\<lambda>l. sl_base l = base) libs then libs
                else libs @ [phdr_find_lib_end objs \<lparr>sl_base = base, sl_end = base\<rparr>]))"

definition initSigLibRanges :: "(string \<Rightarrow> u64) \<Rightarrow> os_env \<Rightarrow> (u64 \<times> phdr list) list \<Rightarrow> sig_lib list" where
  "initSigLibRanges dlsym os objs =
     addSigLibBySymbol dlsym os objs ''__android_log_print''
       (addSigLibBySymbol dlsym os objs ''dlopen'' (addSigLibBySymbol dlsym os objs ''malloc'' []))"

definition isKnownSigLib :: "sig_lib list \<Rightarrow> u64 \<Rightarrow> bool" where
  "isKnownSigLib libs a \<longleftrightarrow> list_ex (\<lambda>l. sl_base l \<le> a \<and> a < sl_end l) libs"

subsection \<open>Demangled names\<close>

text \<open>The cache is keyed by the pointer to the name; \<open>name_at\<close> is the text at a pointer and \<open>dem\<close> what
  \<open>__cxa_demangle\<close> answers.\<close>

definition demangled :: "(string \<Rightarrow> string option) \<Rightarrow> string \<Rightarrow> string" where
  "demangled dem n = (case dem n of None \<Rightarrow> n | Some d \<Rightarrow> d)"

definition demangleSymbol ::
  "(string \<Rightarrow> string option) \<Rightarrow> (u64 \<Rightarrow> string) \<Rightarrow> u64 \<Rightarrow> (u64 \<Rightarrow> string option) \<Rightarrow> (string \<times> (u64 \<Rightarrow> string option)) option" where
  "demangleSymbol dem name_at mangled c =
     (if mangled = 0 then Some ([], c)
      else (case c mangled of
              Some d \<Rightarrow> Some (d, c)
            | None \<Rightarrow> Some (demangled dem (name_at mangled), c(mangled \<mapsto> demangled dem (name_at mangled)))))"

subsection \<open>Arguments\<close>

text \<open>\<open>ann\<close> is \<open>appendPtrAnnotation\<close> at the current generation.\<close>

type_synonym annotator = "u64 \<Rightarrow> region_state \<Rightarrow> string \<times> region_state"

definition quoted_cstr :: "mem \<Rightarrow> nat \<Rightarrow> u64 \<Rightarrow> string" where
  "quoted_cstr m ps val =
     [CHR 0x22] @ fst (appendCStr m ps (unat val)) @
     (if snd (appendCStr m ps (unat val)) then [] else ''(bad ptr)'') @ [CHR 0x22]"

definition formatParam :: "mem \<Rightarrow> nat \<Rightarrow> annotator \<Rightarrow> param_type \<Rightarrow> u64 \<Rightarrow> region_state \<Rightarrow> string \<times> region_state" where
  "formatParam m ps ann ty val g =
     (case ty of
        PT_STR \<Rightarrow> (if val = 0 then ''NULL'' else quoted_cstr m ps val, g)
      | PT_STR_ADDR \<Rightarrow> (if val = 0 then ''NULL'' else quoted_cstr m ps val @ '' @0x'' @ uint64ToHex val, g)
      | PT_INT \<Rightarrow> ((if sint val < 0 then ''-'' @ uint64ToDec (- val) else uint64ToDec val), g)
      | PT_SIZE \<Rightarrow> (uint64ToDec val, g)
      | PT_FD \<Rightarrow>
          (let fd = (ucast val :: 32 word) in
           (if sint fd < 0 then ''-'' @ uint64ToDec (word_of_int (sint (- fd))) else uint64ToDec (word_of_int (sint fd)), g))
      | PT_HEX \<Rightarrow> (case ann val g of (s, g') \<Rightarrow> (''0x'' @ uint64ToHex val @ s, g'))
      | PT_FLAGS \<Rightarrow> (''0x'' @ uint64ToHex (ucast (ucast val :: u32)), g))"

definition formatFdWithPath :: "int \<Rightarrow> fd_table \<Rightarrow> string" where
  "formatFdWithPath fd t =
     (if fd = -100 then ''AT_FDCWD'' @ quoted_path t fd
      else (let fd' = (if fd < 0 then sint (- (word_of_int fd :: 32 word)) else fd) in
            (if fd < 0 then ''-'' else []) @ uint64ToDec (word_of_int fd') @ quoted_path t fd'))"

text \<open>The parameters \<open>i\<close>, \<dots> of a known call.\<close>

fun format_params ::
  "mem \<Rightarrow> nat \<Rightarrow> annotator \<Rightarrow> fd_table \<Rightarrow> (nat \<Rightarrow> u64) \<Rightarrow> (string \<times> param_type) list \<Rightarrow> nat \<Rightarrow> region_state \<Rightarrow> string \<times> region_state" where
  "format_params m ps ann t x [] i g = ([], g)"
| "format_params m ps ann t x (q # qs) i g =
     (let r = (if snd q = PT_FD then (formatFdWithPath (int32 (x i)) t, g) else formatParam m ps ann (snd q) (x i) g);
          rest = format_params m ps ann t x qs (i + 1) (snd r) in
      ((if 0 < i then '', '' else []) @ fst r @ fst rest, snd rest))"

definition call_prefix :: string where
  "call_prefix = [CHR 0x0A] @ ''  [CALL] ''"

definition formatKnownCall ::
  "mem \<Rightarrow> nat \<Rightarrow> annotator \<Rightarrow> fd_table \<Rightarrow> func_sig \<Rightarrow> string \<Rightarrow> (nat \<Rightarrow> u64) \<Rightarrow> region_state \<Rightarrow> string \<times> region_state" where
  "formatKnownCall m ps ann t sig displayName x g =
     (let r = format_params m ps ann t x (take (fst (snd sig)) (snd (snd sig))) 0 g in
      (call_prefix @ displayName @ ''('' @ fst r @ '')'', snd r))"

text \<open>Four argument registers in hexadecimal, for calls without a signature.\<close>

fun hex_args :: "annotator \<Rightarrow> (nat \<Rightarrow> u64) \<Rightarrow> nat \<Rightarrow> nat \<Rightarrow> region_state \<Rightarrow> string \<times> region_state" where
  "hex_args ann x i 0 g = ([], g)"
| "hex_args ann x i (Suc n) g =
     (let a = ann (x i) g; rest = hex_args ann x (i + 1) n (snd a) in
      ((if 0 < i then '', '' else []) @ ''0x'' @ uint64ToHex (x i) @ fst a @ fst rest, snd rest))"

definition safeDumpBuf :: "mem \<Rightarrow> u64 \<Rightarrow> u64 \<Rightarrow> string" where
  "safeDumpBuf m addr len =
     (if addr = 0 \<or> addr < 0x1000 \<or> len = 0 then []
      else (case safe_host_read m (unat addr) (if 128 < unat len then 128 else unat len) of
              None \<Rightarrow> []
            | Some tmp \<Rightarrow> dump_text tmp (unat len)))"

subsection \<open>The pending result\<close>

datatype pending_type =
    PEND_NONE | PEND_FD_OPEN | PEND_READ_BUF | PEND_PROP_GET | PEND_SPRINTF | PEND_FGETS | PEND_GETENV
  | PEND_DLSYM | PEND_DLOPEN | PEND_FOPEN | PEND_RET_INT | PEND_RET_HEX | PEND_RET_STR

record pending_call =
  pc_type :: pending_type
  pc_arg0 :: u64
  pc_path :: string

definition pending_initial :: pending_call where
  "pending_initial = \<lparr>pc_type = PEND_NONE, pc_arg0 = 0, pc_path = []\<rparr>"

definition stripChkWrapper :: "string \<Rightarrow> nat \<Rightarrow> string" where
  "stripChkWrapper name bufsize =
     (let len = length name; base_len = len - 6 in
      if take 2 name \<noteq> ''__'' then name
      else if len \<le> 6 then name
      else if drop (len - 4) name \<noteq> ''_chk'' then name
      else if bufsize \<le> base_len then name
      else take base_len (drop 2 name))"

definition pending_type_of :: "string \<Rightarrow> string \<Rightarrow> pending_type" where
  "pending_type_of func_name base =
     (if base = ''open'' then PEND_FD_OPEN
      else if base = ''openat'' then PEND_FD_OPEN
      else if base = ''close'' then PEND_RET_INT
      else if base = ''read'' \<or> base = ''pread64'' then PEND_READ_BUF
      else if base = ''write'' \<or> base = ''pwrite64'' then PEND_RET_INT
      else if func_name = ''__system_property_get'' then PEND_PROP_GET
      else if base = ''sprintf'' then PEND_SPRINTF
      else if base = ''snprintf'' \<or> base = ''vsnprintf'' then PEND_SPRINTF
      else if base = ''fgets'' then PEND_FGETS
      else if base = ''getenv'' then PEND_GETENV
      else if base = ''dlsym'' then PEND_DLSYM
      else if base = ''dlopen'' then PEND_DLOPEN
      else if base = ''fopen'' then PEND_FOPEN
      else if base \<in> {''malloc'', ''calloc'', ''realloc'', ''memalign'', ''mmap'', ''mmap64''} then PEND_RET_HEX
      else if base \<in> {''strdup'', ''strtok'', ''strerror'', ''dlerror''} then PEND_RET_STR
      else if base \<in> {''strstr'', ''strchr'', ''strrchr''} then PEND_RET_HEX
      else if base \<in> {''strcmp'', ''strncmp'', ''memcmp'', ''access'', ''stat'', ''fstat'', ''atoi'', ''atol'', ''strlen''}
      then PEND_RET_INT
      else if func_name = ''__system_property_find'' \<or> base = ''dladdr'' then PEND_RET_HEX
      else PEND_NONE)"

definition read_path :: "mem \<Rightarrow> nat \<Rightarrow> u64 \<Rightarrow> string" where
  "read_path m ps a = (case safe_read_cstr m ps (unat a) 256 of None \<Rightarrow> [] | Some (n, bs) \<Rightarrow> chars_of bs)"

definition pending_arg0 :: "string \<Rightarrow> string \<Rightarrow> (nat \<Rightarrow> u64) \<Rightarrow> u64 \<Rightarrow> u64" where
  "pending_arg0 func_name base x old =
     (if base \<in> {''read'', ''pread64''} \<or> func_name = ''__system_property_get'' then x 1
      else if base \<in> {''sprintf'', ''snprintf'', ''vsnprintf'', ''fgets''} then x 0
      else old)"

text \<open>The new pending record, the descriptor table, and the text appended to the call line.\<close>

definition setupPendingAndEnhance ::
  "mem \<Rightarrow> nat \<Rightarrow> string \<Rightarrow> (nat \<Rightarrow> u64) \<Rightarrow> pending_call \<Rightarrow> fd_table \<Rightarrow> pending_call \<times> fd_table \<times> string" where
  "setupPendingAndEnhance m ps func_name x p t =
     (let base = stripChkWrapper func_name 64 in
      (\<lparr>pc_type = pending_type_of func_name base,
        pc_arg0 = pending_arg0 func_name base x (pc_arg0 p),
        pc_path = (if base = ''open'' then read_path m ps (x 0)
                   else if base = ''openat'' then read_path m ps (x 1) else [])\<rparr>,
       (if base = ''close'' then fd_remove (int32 (x 0)) t else t),
       (if base = ''write'' \<or> base = ''pwrite64'' then safeDumpBuf m (x 1) (x 2) else [])))"

definition ret_prefix :: string where "ret_prefix = ''    => ''"

definition quoted_result :: "mem \<Rightarrow> nat \<Rightarrow> u64 \<Rightarrow> string" where
  "quoted_result m ps a = [CHR 0x22] @ fst (appendCStr m ps (unat a)) @ [CHR 0x22] @ NL"

text \<open>The text of a result, before the final line feed is cut off. \<open>syms\<close> is the symbol cache, for
  \<open>dlsym\<close>; \<open>None\<close> is a fault while a table is loaded.\<close>

definition result_text ::
  "mem \<Rightarrow> nat \<Rightarrow> os_env \<Rightarrow> pending_call \<Rightarrow> u64 \<Rightarrow> sym_cache \<Rightarrow> (string \<times> sym_cache) option" where
  "result_text m ps os p ret syms =
     (case pc_type p of
        PEND_NONE \<Rightarrow> Some ([], syms)
      | PEND_FD_OPEN \<Rightarrow> Some (ret_prefix @ ''fd='' @
          (if int32 ret < 0
           then ''-'' @ uint64ToDec (word_of_int (sint (- (ucast ret :: 32 word)))) @ '' (error)'' @ NL
           else uint64ToDec (word_of_int (int32 ret)) @ NL), syms)
      | PEND_READ_BUF \<Rightarrow> Some (ret_prefix @
          (if sint ret < 0 then ''-1 (error)'' @ NL
           else uint64ToDec ret @ '' bytes'' @ NL @ (if 0 < sint ret then safeDumpBuf m (pc_arg0 p) ret else [])), syms)
      | PEND_PROP_GET \<Rightarrow> Some (ret_prefix @ ''value='' @ quoted_result m ps (pc_arg0 p), syms)
      | PEND_SPRINTF \<Rightarrow>
          Some (ret_prefix @ uint64ToDec (if sint ret < 0 then 0 else ret) @ '' chars: '' @ quoted_result m ps (pc_arg0 p), syms)
      | PEND_FGETS \<Rightarrow> Some (ret_prefix @ (if ret = 0 then ''NULL'' @ NL else quoted_result m ps (pc_arg0 p)), syms)
      | PEND_GETENV \<Rightarrow> Some (ret_prefix @ (if ret = 0 then ''NULL'' @ NL else quoted_result m ps ret), syms)
      | PEND_RET_STR \<Rightarrow> Some (ret_prefix @ (if ret = 0 then ''NULL'' @ NL else quoted_result m ps ret), syms)
      | PEND_DLSYM \<Rightarrow>
          (if ret = 0 then Some (ret_prefix @ ''NULL'' @ NL, syms)
           else map_option (\<lambda>(sym, c). (ret_prefix @ ''0x'' @ uint64ToHex ret @
                  (case sym of None \<Rightarrow> [] | Some n \<Rightarrow> '' ('' @ chars_of n @ '')'') @ NL, c))
                (lookupSymbolExact os ret syms))
      | PEND_DLOPEN \<Rightarrow> Some (ret_prefix @ ''0x'' @ uint64ToHex ret @ NL, syms)
      | PEND_RET_HEX \<Rightarrow> Some (ret_prefix @ ''0x'' @ uint64ToHex ret @ NL, syms)
      | PEND_FOPEN \<Rightarrow>
          Some (ret_prefix @ (if ret = 0 then ''NULL (error)'' @ NL else ''FILE*=0x'' @ uint64ToHex ret @ NL), syms)
      | PEND_RET_INT \<Rightarrow>
          Some (ret_prefix @ (if sint ret < 0 then ''-'' @ uint64ToDec (- ret) else uint64ToDec ret) @ NL, syms))"

definition drop_newline :: "string \<Rightarrow> string" where
  "drop_newline s = (if s \<noteq> [] \<and> last s = CHR 0x0A then butlast s else s)"

definition result_fds :: "pending_call \<Rightarrow> u64 \<Rightarrow> fd_table \<Rightarrow> fd_table" where
  "result_fds p ret t =
     (if pc_type p = PEND_FD_OPEN \<and> 0 \<le> int32 ret \<and> pc_path p \<noteq> [] then fd_add (int32 ret) (pc_path p) t else t)"

text \<open>\<open>flushPendingReturn\<close> on a context that has a buffer; \<open>ret\<close> is what the engine holds in X0.\<close>

definition flushPendingReturn ::
  "mem \<Rightarrow> nat \<Rightarrow> os_env \<Rightarrow> pending_call \<Rightarrow> u64 \<Rightarrow> fd_table \<Rightarrow> sym_cache \<Rightarrow>
   (string \<times> pending_call \<times> fd_table \<times> sym_cache) option" where
  "flushPendingReturn m ps os p ret t syms =
     (if pc_type p = PEND_NONE then Some ([], p, t, syms)
      else map_option (\<lambda>(s, c). (drop_newline s, p\<lparr>pc_type := PEND_NONE\<rparr>, result_fds p ret t, c))
             (result_text m ps os p ret syms))"

subsection \<open>One event\<close>

text \<open>The contexts: the shared descriptor table, whether the master has a buffer of its own, its pending
  record, and those of the per-thread clones.\<close>

type_synonym thread = nat

record call_state =
  cs_fds :: fd_table
  cs_master_dw :: bool
  cs_pending :: pending_call
  cs_clones :: "thread \<Rightarrow> pending_call option"
  cs_regions :: region_state

text \<open>The context an event of thread \<open>tid\<close> works on; \<open>tls_dw\<close> says whether the thread has an active buffer.\<close>

definition uses_clone :: "bool \<Rightarrow> call_state \<Rightarrow> bool" where
  "uses_clone tls_dw s \<longleftrightarrow> \<not> cs_master_dw s \<and> tls_dw"

definition ctx_pending :: "thread \<Rightarrow> bool \<Rightarrow> call_state \<Rightarrow> pending_call" where
  "ctx_pending tid tls_dw s =
     (if uses_clone tls_dw s then (case cs_clones s tid of None \<Rightarrow> pending_initial | Some p \<Rightarrow> p) else cs_pending s)"

definition set_pending :: "thread \<Rightarrow> bool \<Rightarrow> pending_call \<Rightarrow> call_state \<Rightarrow> call_state" where
  "set_pending tid tls_dw p s =
     (if uses_clone tls_dw s then s\<lparr>cs_clones := (cs_clones s)(tid \<mapsto> p)\<rparr> else s\<lparr>cs_pending := p\<rparr>)"

record call_env =
  ce_mem :: mem
  ce_page :: nat
  ce_os :: os_env
  ce_maps :: "u32 \<Rightarrow> map_line list option"
  ce_gen :: u32
  ce_libs :: "sig_lib list"
  ce_demangle :: "string \<Rightarrow> string option"
  ce_module :: "u64 \<Rightarrow> string \<times> u64"

definition unknown_name :: "call_env \<Rightarrow> u64 \<Rightarrow> string option \<Rightarrow> string" where
  "unknown_name e address symName =
     (case symName of
        Some n \<Rightarrow> demangled (ce_demangle e) n
      | None \<Rightarrow>
          (let so = ce_module e address in
           if fst so \<noteq> [] then fst so @ ''+0x'' @ uint64ToHex (address - snd so)
           else ''sub_'' @ uint64ToHex address))"

text \<open>Before the call: the line, the pending record and the table.\<close>

definition emit_call ::
  "call_env \<Rightarrow> thread \<Rightarrow> bool \<Rightarrow> u64 \<Rightarrow> string option \<Rightarrow> (nat \<Rightarrow> u64) \<Rightarrow> call_state \<Rightarrow> string \<times> call_state" where
  "emit_call e tid tls_dw address symName x s =
     (let ann = appendPtrAnnotation (ce_maps e) (ce_gen e);
          sig = (case symName of Some n \<Rightarrow> if isKnownSigLib (ce_libs e) address then findFuncSig n else None | None \<Rightarrow> None);
          known = (symName \<noteq> None \<and> isKnownSigLib (ce_libs e) address) in
      case sig of
        Some f \<Rightarrow>
          (let r = formatKnownCall (ce_mem e) (ce_page e) ann (cs_fds s) f (the symName) x (cs_regions s);
               q = setupPendingAndEnhance (ce_mem e) (ce_page e) (the symName) x (ctx_pending tid tls_dw s) (cs_fds s) in
           (fst r @ snd (snd q),
            set_pending tid tls_dw (fst q) (s\<lparr>cs_fds := fst (snd q), cs_regions := snd r\<rparr>)))
      | None \<Rightarrow>
          (let r = hex_args ann x 0 4 (cs_regions s) in
           (call_prefix @ (if known then the symName else unknown_name e address symName) @ ''('' @ fst r @ '')'',
            s\<lparr>cs_regions := snd r\<rparr>)))"

text \<open>After the call: \<open>uc_x0\<close> is the engine's X0, \<open>ret_x0\<close> the argument.\<close>

definition emit_return ::
  "call_env \<Rightarrow> thread \<Rightarrow> bool \<Rightarrow> u64 \<Rightarrow> u64 \<Rightarrow> call_state \<Rightarrow> (string \<times> call_state) option" where
  "emit_return e tid tls_dw uc_x0 ret_x0 s =
     (if pc_type (ctx_pending tid tls_dw s) \<noteq> PEND_NONE
      then map_option (\<lambda>(out1, p, t, c). (out1, set_pending tid tls_dw p (s\<lparr>cs_fds := t, cs_regions := (cs_regions s)\<lparr>rg_syms := c\<rparr>\<rparr>)))
             (flushPendingReturn (ce_mem e) (ce_page e) (ce_os e) (ctx_pending tid tls_dw s) uc_x0 (cs_fds s) (rg_syms (cs_regions s)))
      else Some (ret_prefix @ ''0x'' @ uint64ToHex ret_x0, s))"

datatype call_event =
    CallEv u64 "string option" "nat \<Rightarrow> u64"
  | ReturnEv u64 u64

definition funcCallTraceEmit :: "call_env \<Rightarrow> thread \<Rightarrow> bool \<Rightarrow> call_event \<Rightarrow> call_state \<Rightarrow> (string \<times> call_state) option" where
  "funcCallTraceEmit e tid tls_dw ev s =
     (if \<not> cs_master_dw s \<and> \<not> tls_dw then Some ([], s)
      else (case ev of
              CallEv address symName x \<Rightarrow> Some (emit_call e tid tls_dw address symName x s)
            | ReturnEv uc_x0 ret_x0 \<Rightarrow> emit_return e tid tls_dw uc_x0 ret_x0 s))"

definition addFuncCallTrace :: "fd_table \<Rightarrow> bool \<Rightarrow> region_state \<Rightarrow> call_state" where
  "addFuncCallTrace t has_dw g =
     \<lparr>cs_fds = t, cs_master_dw = has_dw, cs_pending = pending_initial, cs_clones = Map.empty, cs_regions = g\<rparr>"

subsection \<open>Lemmas\<close>

text \<open>The demangler's cache is one more memo of a computation by key.\<close>

interpretation demangle_cache: memo_cache "\<lambda>t. True"
  "\<lambda>p. if p = 0 then None else Some (demangled dem (name_at p))"
  "\<lambda>p c. if p = 0 then Option.bind (c 0) (\<lambda>v. Some (v, c)) else demangleSymbol dem name_at p c" for dem name_at
  by unfold_locales (auto simp: demangleSymbol_def)

lemma initSigMap_lookup:
  "distinct (map fst ss) \<Longrightarrow> s \<in> set ss \<Longrightarrow> initSigMap ss mp (fst s) = Some s"
proof (induction ss arbitrary: mp)
  case (Cons a ss)
  have keep: "n \<notin> set (map fst ss) \<Longrightarrow> initSigMap ss mp n = mp n" for n mp
    by (induction ss arbitrary: mp) auto
  with Cons show ?case by (cases "s = a") auto
qed simp

lemma initSigMap_dom: "initSigMap ss mp n = Some s \<Longrightarrow> s \<in> set ss \<and> fst s = n \<or> mp n = Some s"
  by (induction ss arbitrary: mp) (fastforce split: if_splits)+

lemma sig_names_distinct: "distinct (map fst g_func_sigs)"
  unfolding g_func_sigs_def by code_simp

lemma findFuncSig_SomeD: "findFuncSig n = Some f \<Longrightarrow> f \<in> set g_func_sigs \<and> fst f = n"
  using initSigMap_dom [of g_func_sigs Map.empty n f] by (simp add: findFuncSig_def)

lemma strip_chk:
  assumes "0 < length b" and "length b < 64"
  shows "stripChkWrapper (''__'' @ b @ ''_chk'') 64 = b"
  using assms by (simp add: stripChkWrapper_def Let_def)

lemma set_pending_get [simp]:
  "ctx_pending tid tls_dw (set_pending tid tls_dw p s) = p"
  "uses_clone tls_dw (set_pending tid tls_dw p s) = uses_clone tls_dw s"
  "cs_fds (set_pending tid tls_dw p s) = cs_fds s"
  "cs_regions (set_pending tid tls_dw p s) = cs_regions s"
  "cs_master_dw (set_pending tid tls_dw p s) = cs_master_dw s"
  by (simp_all add: ctx_pending_def set_pending_def uses_clone_def)

lemma ctx_pending_upd [simp]:
  "ctx_pending tid tls_dw (s\<lparr>cs_fds := t, cs_regions := g\<rparr>) = ctx_pending tid tls_dw s"
  "ctx_pending tid tls_dw (s\<lparr>cs_regions := g\<rparr>) = ctx_pending tid tls_dw s"
  "ctx_pending tid tls_dw (s\<lparr>cs_fds := t\<rparr>) = ctx_pending tid tls_dw s"
  "uses_clone tls_dw (s\<lparr>cs_fds := t, cs_regions := g\<rparr>) = uses_clone tls_dw s"
  by (simp_all add: ctx_pending_def uses_clone_def)

lemma set_pending_other [simp]:
  "tid \<noteq> tid' \<Longrightarrow> \<not> cs_master_dw s \<Longrightarrow> ctx_pending tid' True (set_pending tid True p s) = ctx_pending tid' True s"
  by (simp add: ctx_pending_def set_pending_def uses_clone_def)

lemma uint64ToDec_not_Nil [simp]: "uint64ToDec v \<noteq> []"
  using uint64ToDec_length [of v] by auto

lemma result_text_prefix:
  "pc_type p \<noteq> PEND_NONE \<Longrightarrow> result_text m ps os p ret syms = Some (out1, c) \<Longrightarrow>
   \<exists>rest. out1 = ret_prefix @ rest \<and> rest \<noteq> []"
  by (cases "pc_type p")
    (auto simp: result_text_def NL_def quoted_result_def split: if_splits prod.splits)

lemma ret_prefix_len [simp]: "length ret_prefix = 7" "take 7 ret_prefix = ret_prefix"
  by (simp_all add: ret_prefix_def)

lemma take_drop_newline: "rest \<noteq> [] \<Longrightarrow> take 7 (drop_newline (ret_prefix @ rest)) = ret_prefix"
  by (simp add: drop_newline_def butlast_append)

lemma pending_open_iff: "pending_type_of n b = PEND_FD_OPEN \<longleftrightarrow> b = ''open'' \<or> b = ''openat''"
  by (simp add: pending_type_of_def)

subsection \<open>A library and calls of it\<close>

definition demo_call_env :: call_env where
  "demo_call_env = \<lparr>ce_mem = (\<lambda>a. if a = 4096 then Some 65 else if a div 4096 = 1 then Some 0 else None), ce_page = 4096,
     ce_os = demo_os, ce_maps = demo_maps, ce_gen = 1, ce_libs = [\<lparr>sl_base = 0x70000, sl_end = 0x80000\<rparr>],
     ce_demangle = (\<lambda>n. None), ce_module = (\<lambda>a. ([], 0))\<rparr>"

definition demo_calls :: call_state where
  "demo_calls = addFuncCallTrace Map.empty True (snd region_start)"

lemma find_open: "findFuncSig ''open'' = Some (''open'', 3, [(''pathname'', PT_STR), (''flags'', PT_FLAGS), (''mode'', PT_FLAGS)])"
  using initSigMap_lookup [OF sig_names_distinct,
    of "(''open'', 3, [(''pathname'', PT_STR), (''flags'', PT_FLAGS), (''mode'', PT_FLAGS)])" Map.empty]
  by (simp add: findFuncSig_def g_func_sigs_def del: initSigMap.simps)

lemma find_close: "findFuncSig ''close'' = Some (''close'', 1, [(''fd'', PT_FD)])"
  using initSigMap_lookup [OF sig_names_distinct, of "(''close'', 1, [(''fd'', PT_FD)])" Map.empty]
  by (simp add: findFuncSig_def g_func_sigs_def del: initSigMap.simps)

lemma demo_path: "read_path (ce_mem demo_call_env) (ce_page demo_call_env) 4096 = ''A''"
proof -
  let ?m = "\<lambda>a. if a = 4096 then Some 65 else if a div 4096 = 1 then Some (0 :: byte) else None"
  have "?m a = None \<longleftrightarrow> a div 4096 \<noteq> 1" for a :: nat by auto
  then have pg: "pagewise ?m 4096" unfolding pagewise_def by simp
  have "cstr_at ?m 4096 256 = [65]"
    by (simp add: cstr_at_def upt_conv_Cons readable_char_def del: upt_rec_numeral)
  with cstr_loop_eq [OF pg, of 4096 0 256] have "cstr_loop ?m 4096 4096 256 0 = ([65], True)"
    by (simp add: prod_eq_iff)
  moreover have "char_of (65 :: nat) = CHR ''A''" by code_simp
  ultimately show ?thesis by (simp add: read_path_def demo_call_env_def safe_read_cstr_def chars_of_def)
qed

lemma demo_libs: "isKnownSigLib (ce_libs demo_call_env) 0x70010" "\<not> isKnownSigLib (ce_libs demo_call_env) 0x90000"
  by (simp_all add: isKnownSigLib_def demo_call_env_def)

subsection \<open>Properties\<close>

text \<open>C28 (the signature table): every signature is found under its name, declares as many parameters as
  it lists, and needs at most six of the eight argument registers that a call event carries.\<close>

theorem signature_table_ok:
  "list_all (\<lambda>s. findFuncSig (fst s) = Some s \<and> fst (snd s) = length (snd (snd s)) \<and> fst (snd s) \<le> 6) g_func_sigs"
proof -
  have "list_all (\<lambda>s. fst (snd s) = length (snd (snd s)) \<and> fst (snd s) \<le> 6) g_func_sigs"
    by (simp add: g_func_sigs_def)
  moreover have "list_all (\<lambda>s. findFuncSig (fst s) = Some s) g_func_sigs"
    using initSigMap_lookup [OF sig_names_distinct] by (simp add: list_all_iff findFuncSig_def)
  ultimately show ?thesis unfolding list_all_iff by fast
qed

text \<open>C26 (descriptors of library calls): a call of a known function and its return on the same thread
  change the shared descriptor table exactly as the call changes descriptors: \<open>close\<close> drops its
  argument, a successful \<open>open\<close> or \<open>openat\<close> binds the result to the path that was read before the call,
  and nothing else changes it; the pending record is spent, and the second text is a result line.\<close>

theorem call_fd_lifecycle:
  assumes "isKnownSigLib (ce_libs e) address" and "findFuncSig n = Some f"
    and "emit_call e tid tls_dw address (Some n) x s = (out1, s1)"
    and "emit_return e' tid tls_dw uc_x0 ret_x0 s1 = Some (out2, s2)"
    and "b = stripChkWrapper n 64" and "path = read_path (ce_mem e) (ce_page e) (x (if b = ''open'' then 0 else 1))"
  shows "cs_fds s2 =
      (if b = ''close'' then (cs_fds s)(int32 (x 0) := None)
       else if (b = ''open'' \<or> b = ''openat'') \<and> 0 \<le> int32 uc_x0 \<and> path \<noteq> []
       then (cs_fds s)(int32 uc_x0 \<mapsto> path)
       else cs_fds s) \<and>
    pc_type (ctx_pending tid tls_dw s2) = PEND_NONE \<and> take 7 out2 = ret_prefix"
proof -
  let ?q = "setupPendingAndEnhance (ce_mem e) (ce_page e) n x (ctx_pending tid tls_dw s) (cs_fds s)"
  have s1: "ctx_pending tid tls_dw s1 = fst ?q" "cs_fds s1 = fst (snd ?q)" "uses_clone tls_dw s1 = uses_clone tls_dw s"
    using assms(1-3) by (auto simp: emit_call_def Let_def)
  have q: "pc_type (fst ?q) = pending_type_of n b" "pc_path (fst ?q) =
      (if b = ''open'' then read_path (ce_mem e) (ce_page e) (x 0) else if b = ''openat'' then read_path (ce_mem e) (ce_page e) (x 1) else [])"
    "fst (snd ?q) = (if b = ''close'' then fd_remove (int32 (x 0)) (cs_fds s) else cs_fds s)"
    by (simp_all add: setupPendingAndEnhance_def Let_def assms(5))
  show ?thesis
  proof (cases "pending_type_of n b = PEND_NONE")
    case True
    then have "s2 = s1" "take 7 out2 = ret_prefix" using assms(4) s1 q by (auto simp: emit_return_def)
    moreover have "b \<noteq> ''open''" "b \<noteq> ''openat''" using True by (auto simp: pending_type_of_def)
    ultimately show ?thesis using s1 q True by (auto simp: fd_remove_def)
  next
    case False
    then have "cs_fds s2 = result_fds (fst ?q) uc_x0 (fst (snd ?q))" "pc_type (ctx_pending tid tls_dw s2) = PEND_NONE"
      "take 7 out2 = ret_prefix"
      using assms(4) s1 q(1)
      by (auto simp: emit_return_def flushPendingReturn_def take_drop_newline dest!: result_text_prefix [rotated])
    then show ?thesis using q
      by (auto simp: result_fds_def pending_open_iff fd_add_def fd_remove_def assms(6))
  qed
qed

lemma call_fd_lifecycle_witness:
  "\<exists>out1 s1 out2 s2. emit_call demo_call_env 0 True 0x70010 (Some ''open'') (\<lambda>i. if i = 0 then 4096 else 0) demo_calls = (out1, s1) \<and>
    emit_return demo_call_env 0 True 7 7 s1 = Some (out2, s2) \<and> cs_fds s2 = (cs_fds demo_calls)(7 \<mapsto> ''A'')"
proof -
  let ?x = "\<lambda>i::nat. if i = 0 then 4096 else (0::u64)"
  obtain out1 s1 where e: "emit_call demo_call_env 0 True 0x70010 (Some ''open'') ?x demo_calls = (out1, s1)"
    by (cases "emit_call demo_call_env 0 True 0x70010 (Some ''open'') ?x demo_calls")
  have st: "stripChkWrapper ''open'' 64 = ''open''" by (simp add: stripChkWrapper_def)
  then have "pc_type (ctx_pending 0 True s1) = PEND_FD_OPEN"
    using e by (auto simp: emit_call_def Let_def demo_libs find_open setupPendingAndEnhance_def pending_type_of_def)
  then have "emit_return demo_call_env 0 True 7 7 s1 \<noteq> None"
    by (simp add: emit_return_def flushPendingReturn_def result_text_def)
  then obtain out2 s2 where r: "emit_return demo_call_env 0 True 7 7 s1 = Some (out2, s2)" by auto
  from call_fd_lifecycle [OF demo_libs(1) find_open e r st [symmetric] refl]
  show ?thesis using e r by (simp add: demo_path int32_def)
qed

text \<open>C27 (threads do not mix): without a buffer of its own the master hands each thread a clone; an event
  of one thread leaves the pending call of every other thread alone.\<close>

theorem call_threads_isolated:
  assumes "\<not> cs_master_dw s" and "tid' \<noteq> tid" and "funcCallTraceEmit e tid True ev s = Some (out1, s')"
  shows "ctx_pending tid' True s' = ctx_pending tid' True s \<and> \<not> cs_master_dw s'"
proof (cases ev)
  case (CallEv address symName x)
  then show ?thesis using assms
    by (auto simp: funcCallTraceEmit_def emit_call_def Let_def split: option.splits)
next
  case (ReturnEv uc_x0 ret_x0)
  then show ?thesis using assms
    by (auto simp: funcCallTraceEmit_def emit_return_def split: if_splits)
qed

lemma call_threads_isolated_witness:
  "\<exists>out1 s'. funcCallTraceEmit demo_call_env 1 True (ReturnEv 0 0) (addFuncCallTrace Map.empty False (snd region_start)) = Some (out1, s') \<and>
    ctx_pending 2 True s' = ctx_pending 2 True (addFuncCallTrace Map.empty False (snd region_start))"
proof -
  let ?s = "addFuncCallTrace Map.empty False (snd region_start)"
  have n: "\<not> cs_master_dw ?s" by (simp add: addFuncCallTrace_def)
  have "funcCallTraceEmit demo_call_env 1 True (ReturnEv 0 0) ?s \<noteq> None"
    by (simp add: funcCallTraceEmit_def emit_return_def addFuncCallTrace_def ctx_pending_def uses_clone_def pending_initial_def)
  then obtain out1 s' where "funcCallTraceEmit demo_call_env 1 True (ReturnEv 0 0) ?s = Some (out1, s')" by auto
  with call_threads_isolated [OF n _ this, of 2] show ?thesis by auto
qed

text \<open>C38 (an inner call without a signature takes the result of the outer one). Let a call leave a pending record \<open>p\<close>, and let the
  thread make another call before it returns, which has no name, leads outside the libraries with signatures, or has none in the
  table. Then the return of the inner call prints the result line of the outer call with the inner X0, and binds a descriptor from it
  when the outer call is an \<open>open\<close>; the return of the outer call prints the bare value and changes nothing.\<close>

theorem nested_call_takes_result:
  assumes "isKnownSigLib (ce_libs e1) a1" and "findFuncSig n = Some f"
    and "fst (setupPendingAndEnhance (ce_mem e1) (ce_page e1) n x (ctx_pending tid tls_dw s) (cs_fds s)) = p"
    and "pc_type p \<noteq> PEND_NONE"
    and "inner = None \<or> \<not> isKnownSigLib (ce_libs e2) a2 \<or> findFuncSig (the inner) = None"
    and "emit_call e1 tid tls_dw a1 (Some n) x s = (t1, s1)"
    and "emit_call e2 tid tls_dw a2 inner x' s1 = (t2, s2)"
    and "emit_return e3 tid tls_dw u ret3 s2 = Some (t3, s3)" and "emit_return e4 tid tls_dw v ret4 s3 = Some (t4, s4)"
  shows "map_option (drop_newline \<circ> fst) (result_text (ce_mem e3) (ce_page e3) (ce_os e3) p u (rg_syms (cs_regions s2))) = Some t3 \<and>
    cs_fds s3 = result_fds p u (cs_fds s1) \<and> t4 = ret_prefix @ ''0x'' @ uint64ToHex ret4 \<and> s4 = s3"
proof -
  have s1: "ctx_pending tid tls_dw s1 = p"
    using assms(1-3,6) by (auto simp: emit_call_def Let_def)
  have s2: "ctx_pending tid tls_dw s2 = p" "cs_fds s2 = cs_fds s1"
    using assms(5,7) s1 by (auto simp: emit_call_def Let_def split: option.splits if_splits)
  have s3: "cs_fds s3 = result_fds p u (cs_fds s1)" "pc_type (ctx_pending tid tls_dw s3) = PEND_NONE"
    "map_option (drop_newline \<circ> fst) (result_text (ce_mem e3) (ce_page e3) (ce_os e3) p u (rg_syms (cs_regions s2))) = Some t3"
    using assms(4,8) s2 by (auto simp: emit_return_def flushPendingReturn_def comp_def split_beta)
  then show ?thesis using assms(9) by (auto simp: emit_return_def)
qed

lemma nested_call_takes_result_witness:
  "\<exists>s1 s2 t3 s3 t4 s4. s1 = snd (emit_call demo_call_env 0 True 0x70010 (Some ''open'') (\<lambda>i. 4096) demo_calls) \<and>
    s2 = snd (emit_call demo_call_env 0 True 0x90000 None (\<lambda>i. 0) s1) \<and>
    emit_return demo_call_env 0 True 7 7 s2 = Some (t3, s3) \<and> emit_return demo_call_env 0 True 9 9 s3 = Some (t4, s4) \<and>
    cs_fds s4 = (cs_fds demo_calls)(7 \<mapsto> ''A'')"
proof -
  obtain t1 s1 where e1: "emit_call demo_call_env 0 True 0x70010 (Some ''open'') (\<lambda>i. 4096) demo_calls = (t1, s1)"
    by (cases "emit_call demo_call_env 0 True 0x70010 (Some ''open'') (\<lambda>i. 4096) demo_calls")
  obtain t2 s2 where e2: "emit_call demo_call_env 0 True 0x90000 None (\<lambda>i. 0) s1 = (t2, s2)"
    by (cases "emit_call demo_call_env 0 True 0x90000 None (\<lambda>i. 0) s1")
  have st: "stripChkWrapper ''open'' 64 = ''open''" by (simp add: stripChkWrapper_def)
  have "pc_type (ctx_pending 0 True s1) = PEND_FD_OPEN"
    using e1 st by (auto simp: emit_call_def Let_def demo_libs find_open setupPendingAndEnhance_def pending_type_of_def)
  then have p2: "pc_type (ctx_pending 0 True s2) = PEND_FD_OPEN" using e2 by (auto simp: emit_call_def Let_def)
  then obtain t3 s3 where e3: "emit_return demo_call_env 0 True 7 7 s2 = Some (t3, s3)"
    by (auto simp: emit_return_def flushPendingReturn_def result_text_def)
  then have "pc_type (ctx_pending 0 True s3) = PEND_NONE" using p2
    by (auto simp: emit_return_def flushPendingReturn_def)
  then obtain t4 s4 where e4: "emit_return demo_call_env 0 True 9 9 s3 = Some (t4, s4)" by (simp add: emit_return_def)
  let ?p = "fst (setupPendingAndEnhance (ce_mem demo_call_env) (ce_page demo_call_env) ''open'' (\<lambda>i. 4096)
    (ctx_pending 0 True demo_calls) (cs_fds demo_calls))"
  have p: "pc_type ?p = PEND_FD_OPEN" "pc_path ?p = ''A''"
    by (simp_all add: setupPendingAndEnhance_def Let_def st pending_type_of_def demo_path)
  have "cs_fds s1 = cs_fds demo_calls"
    using e1 st by (auto simp: emit_call_def Let_def demo_libs find_open setupPendingAndEnhance_def)
  moreover note nested_call_takes_result [OF demo_libs(1) find_open refl _ _ e1 e2 e3 e4]
  ultimately have "cs_fds s4 = (cs_fds demo_calls)(7 \<mapsto> ''A'')"
    using p by (simp add: result_fds_def fd_add_def int32_def)
  with e1 e2 e3 e4 show ?thesis by auto
qed

end
