(* ===== verification/Library_Utils.thy ===== *)
theory Library_Utils
  imports Ptr_Regions Safe_Mem
begin

text \<open>
  \<open>trace/Utils/LibraryUtils.cpp\<close>: the list of mapped segments and its cache, the search by name and by
  address with one refresh, the module range read from the ELF headers in memory, and the symbol queries
  through \<open>dladdr\<close>. \<open>lines\<close> is the content of \<open>/proc/self/maps\<close> at the time of the call, as \<open>sscanf\<close> left it.
  Memory that holds library headers is read directly, so an unmapped byte is a fault (\<open>None\<close>).
\<close>

record library_info =
  li_name :: string
  li_base_address :: u64
  li_segments_start :: u64
  li_segments_end :: u64
  li_size :: u64
  li_permissions :: nat

definition no_library :: library_info where
  "no_library = \<lparr>li_name = [], li_base_address = 0, li_segments_start = 0, li_segments_end = 0, li_size = 0,
     li_permissions = 0\<rparr>"

subsection \<open>Segments\<close>

definition perms_short :: "string \<Rightarrow> nat" where
  "perms_short perms = (if CHR ''r'' \<in> set perms then 1 else 0) + (if CHR ''w'' \<in> set perms then 2 else 0) +
     (if CHR ''x'' \<in> set perms then 4 else 0)"

definition library_of :: "map_line \<Rightarrow> library_info" where
  "library_of l = \<lparr>li_name = ml_path l, li_base_address = ml_start l, li_segments_start = ml_start l,
     li_segments_end = ml_end l, li_size = ml_end l - ml_start l, li_permissions = perms_short (ml_perms l)\<rparr>"

definition getLoadedLibraries :: "map_line list option \<Rightarrow> library_info list" where
  "getLoadedLibraries lines =
     (case lines of None \<Rightarrow> [] | Some ls \<Rightarrow> map library_of (filter (\<lambda>l. \<not> ml_n l < 7) ls))"

definition contains_substring :: "string \<Rightarrow> string \<Rightarrow> bool" where
  "contains_substring s t = list_ex (\<lambda>k. take (length t) (drop k s) = t) [0..<length s + 1]"

text \<open>\<open>libs\<close> is the static cache; the second component of the results is its new content.\<close>

definition findModuleByName ::
  "map_line list option \<Rightarrow> string \<Rightarrow> library_info list \<Rightarrow> library_info list \<times> library_info list" where
  "findModuleByName lines name libs =
     (let libs' = (if libs = [] then getLoadedLibraries lines else libs) in
      (filter (\<lambda>l. contains_substring (li_name l) name) libs', libs'))"

definition refreshLibraryCache :: "map_line list option \<Rightarrow> library_info list \<Rightarrow> library_info list" where
  "refreshLibraryCache lines libs = getLoadedLibraries lines"

definition holds_address :: "u64 \<Rightarrow> library_info \<Rightarrow> bool" where
  "holds_address a l \<longleftrightarrow> li_name l \<noteq> [] \<and> hd (li_name l) = CHR 0x2F \<and> li_segments_start l \<le> a \<and> a < li_segments_end l"

definition findModuleByAddress ::
  "map_line list option \<Rightarrow> u64 \<Rightarrow> library_info list \<Rightarrow> library_info \<times> library_info list" where
  "findModuleByAddress lines a libs =
     (let libs1 = (if libs = [] then getLoadedLibraries lines else libs) in
      case find (holds_address a) libs1 of
        Some l \<Rightarrow> (l, libs1)
      | None \<Rightarrow>
          (let libs2 = refreshLibraryCache lines libs1 in
           case find (holds_address a) libs2 of
             Some l \<Rightarrow> (l, libs2)
           | None \<Rightarrow> (no_library, libs2)))"

subsection \<open>The range of a module\<close>

fun load_range :: "u64 \<Rightarrow> phdr list \<Rightarrow> u64 \<times> u64 \<Rightarrow> u64 \<times> u64" where
  "load_range base [] r = r"
| "load_range base (p # ps) r =
     (if p_type p \<noteq> PT_LOAD then load_range base ps r
      else (let s = base + p_vaddr p; e = s + p_memsz p in
            load_range base ps (if s < fst r then s else fst r, if snd r < e then e else snd r)))"

text \<open>The outer \<open>None\<close> is a read of unmapped memory, the inner one \<open>return false\<close>.\<close>

definition resolveModuleRangeFromElf :: "mem \<Rightarrow> u64 \<Rightarrow> (u64 \<times> u64) option option" where
  "resolveModuleRangeFromElf m base =
     (if base = 0 then Some None
      else (case read_range m (unat base) 64 of
              None \<Rightarrow> None
            | Some h \<Rightarrow>
                (let e_phoff = (fld 8 32 h :: u64); e_phnum = (fld 2 56 h :: u16) in
                 if take 4 h \<noteq> [0x7f, 0x45, 0x4c, 0x46] then Some None
                 else if h ! 4 \<noteq> 2 \<or> e_phoff = 0 \<or> e_phnum = 0 then Some None
                 else if 128 < e_phnum \<or> 0x10000 < e_phoff then Some None
                 else (case read_range m (unat (base + e_phoff)) (56 * unat e_phnum) of
                         None \<Rightarrow> None
                       | Some tbl \<Rightarrow>
                           (let r = load_range base (phdrs_of tbl (unat e_phnum)) (0xFFFFFFFFFFFFFFFF, 0) in
                            Some (if fst r = 0xFFFFFFFFFFFFFFFF \<or> snd r \<le> fst r then None else Some r))))))"

definition findModuleByAddressExact ::
  "mem \<Rightarrow> os_env \<Rightarrow> map_line list option \<Rightarrow> u64 \<Rightarrow> library_info list \<Rightarrow> (library_info \<times> library_info list) option" where
  "findModuleByAddressExact m os lines a libs =
     (case findModuleByAddress lines a libs of (fallback, libs') \<Rightarrow>
       (case os_dladdr os a of
          Some (base, fname) \<Rightarrow>
            (case (if base = 0 then Some None else resolveModuleRangeFromElf m base) of
               None \<Rightarrow> None
             | Some (Some (s, e)) \<Rightarrow>
                 Some (\<lparr>li_name = (case fname of None \<Rightarrow> li_name fallback | Some n \<Rightarrow> n), li_base_address = base,
                        li_segments_start = s, li_segments_end = e, li_size = e - s,
                        li_permissions = (if li_permissions fallback \<noteq> 0 then li_permissions fallback else 7)\<rparr>, libs')
             | Some None \<Rightarrow> Some (if li_base_address fallback \<noteq> 0 \<or> li_size fallback \<noteq> 0 then fallback else no_library, libs'))
        | None \<Rightarrow> Some (if li_base_address fallback \<noteq> 0 \<or> li_size fallback \<noteq> 0 then fallback else no_library, libs')))"

subsection \<open>Permissions and symbols\<close>

text \<open>The static buffer keeps what earlier calls wrote; the text ends at the first NUL.\<close>

definition get_permissions_string :: "nat \<Rightarrow> string \<Rightarrow> string \<times> string" where
  "get_permissions_string p buf =
     (let b1 = (if odd p then buf[0 := CHR ''R''] else buf);
          b2 = (if odd (p div 2) then b1[1 := CHR ''W''] else b1);
          b3 = (if odd (p div 4) then b2[2 := CHR ''X''] else b2);
          b4 = b3[3 := CHR 0x00] in
      (c_str b4, b4))"

text \<open>What \<open>dladdr\<close> fills in: file name and base of the library, and the nearest symbol with its address.\<close>

record dl_info =
  dli_fname :: "string option"
  dli_fbase :: u64
  dli_sname :: "string option"
  dli_saddr :: u64

definition findFuncSymbolName :: "(u64 \<Rightarrow> dl_info option) \<Rightarrow> u64 \<Rightarrow> string" where
  "findFuncSymbolName dladdr a =
     (case dladdr a of
        None \<Rightarrow> []
      | Some i \<Rightarrow>
          (case dli_sname i of
             None \<Rightarrow> []
           | Some n \<Rightarrow> if dli_saddr i \<noteq> 0 \<and> dli_saddr i \<le> a \<and> a - dli_saddr i < 0x1000 then n else []))"

definition no_dl_info :: dl_info where
  "no_dl_info = \<lparr>dli_fname = None, dli_fbase = 0, dli_sname = None, dli_saddr = 0\<rparr>"

definition findAddressDlInfo :: "(u64 \<Rightarrow> dl_info option) \<Rightarrow> u64 \<Rightarrow> dl_info" where
  "findAddressDlInfo dladdr a =
     (case dladdr a of
        None \<Rightarrow> no_dl_info
      | Some i \<Rightarrow>
          if dli_saddr i \<noteq> 0 \<and> (a < dli_saddr i \<or> 0x1000 \<le> a - dli_saddr i)
          then i\<lparr>dli_sname := None, dli_saddr := 0\<rparr> else i)"

definition findExactSymbolAtAddress :: "(u64 \<Rightarrow> dl_info option) \<Rightarrow> u64 \<Rightarrow> dl_info" where
  "findExactSymbolAtAddress dladdr a =
     (case dladdr a of
        None \<Rightarrow> no_dl_info
      | Some i \<Rightarrow>
          if dli_saddr i \<noteq> 0 \<and> dli_saddr i = a then i else i\<lparr>dli_sname := None, dli_saddr := 0\<rparr>)"

definition getPathFileName :: "string option \<Rightarrow> string" where
  "getPathFileName path = (case path of None \<Rightarrow> ''NULL'' | Some p \<Rightarrow> after_slash p)"

subsection \<open>Lemmas\<close>

lemma load_range_Cons:
  "load_range base (p # ps) r =
    (if p_type p \<noteq> PT_LOAD then load_range base ps r
     else load_range base ps (min (base + p_vaddr p) (fst r), max (snd r) (base + p_vaddr p + p_memsz p)))"
proof -
  have "(if s < a then s else a) = min s a" "(if a < s then s else a) = max a s" for a s :: u64
    by (auto simp: min_def max_def)
  then show ?thesis by (simp add: Let_def)
qed

lemma load_range_mono: "fst (load_range base ps r) \<le> fst r \<and> snd r \<le> snd (load_range base ps r)"
proof (induction ps arbitrary: r)
  case (Cons p ps)
  show ?case
  proof (cases "p_type p = PT_LOAD")
    case True
    then show ?thesis
      using Cons.IH [of "(min (base + p_vaddr p) (fst r), max (snd r) (base + p_vaddr p + p_memsz p))"]
      unfolding load_range_Cons by simp
  qed (use Cons.IH [of r] in \<open>simp add: load_range_Cons\<close>)
qed simp

lemma load_range_covers:
  "p \<in> set ps \<Longrightarrow> p_type p = PT_LOAD \<Longrightarrow>
   fst (load_range base ps r) \<le> base + p_vaddr p \<and> base + p_vaddr p + p_memsz p \<le> snd (load_range base ps r)"
proof (induction ps arbitrary: r)
  case (Cons q ps)
  show ?case
  proof (cases "p = q")
    case True
    then show ?thesis
      using load_range_mono [of base ps "(min (base + p_vaddr p) (fst r), max (snd r) (base + p_vaddr p + p_memsz p))"]
        Cons.prems(2) unfolding load_range_Cons by simp
  qed (use Cons in \<open>simp add: load_range_Cons del: load_range.simps\<close>)
qed simp

lemma getPathFileName_no_slash: "CHR 0x2F \<notin> set (getPathFileName (Some p))"
  by (auto simp: getPathFileName_def after_slash_def dest: set_takeWhileD)

text \<open>The permission text of a readable segment after a writable one: the \<open>W\<close> of the earlier call stays.\<close>

lemma permissions_stick:
  "fst (get_permissions_string 1 (snd (get_permissions_string 3 (replicate 4 (CHR 0x00))))) = ''RW''"
  by code_simp

text \<open>A segment that is still in the cache is returned although it is no longer mapped.\<close>

lemma cached_module_stays:
  "find (holds_address a) libs = Some l \<Longrightarrow> fst (findModuleByAddress lines a libs) = l"
  by (cases libs) (auto simp: findModuleByAddress_def)

end
