(* ===== verification/Jni_Names.thy ===== *)
theory Jni_Names
  imports Prelude
begin

text \<open>
  Names of Java methods and fields in \<open>trace/src/JniTrace.cpp\<close>: type descriptors from class names
  (\<open>classNameToSig\<close>), the parser of what \<open>ArtMethod::PrettyMethod\<close> and \<open>ArtField::PrettyField\<close> return, and the two caches
  of resolved ids. The main result is a round trip: the parser gives back class, name and descriptor of any
  method that is printed the way ART prints it.
\<close>

subsection \<open>Positions in a string\<close>

definition str_find :: "char \<Rightarrow> string \<Rightarrow> nat option" where
  "str_find c s = find (\<lambda>k. s ! k = c) [0..<length s]"

definition str_rfind :: "char \<Rightarrow> string \<Rightarrow> nat option" where
  "str_rfind c s = map_option (\<lambda>k. length s - 1 - k) (str_find c (rev s))"

definition dotToSlash :: "string \<Rightarrow> string" where
  "dotToSlash s = map (\<lambda>c. if c = CHR ''.'' then CHR ''/'' else c) s"

subsection \<open>Type descriptors\<close>

fun primitive_sig :: "string \<Rightarrow> string option" where
  "primitive_sig name =
     map_of [(''void'', ''V''), (''boolean'', ''Z''), (''byte'', ''B''), (''char'', ''C''), (''short'', ''S''),
             (''int'', ''I''), (''long'', ''J''), (''float'', ''F''), (''double'', ''D'')] name"

definition ends_brackets :: "string \<Rightarrow> bool" where
  "ends_brackets s \<longleftrightarrow> 2 \<le> length s \<and> drop (length s - 2) s = ''[]''"

text \<open>The loop that strips \<open>[]\<close> from the end and collects a \<open>[\<close> for each.\<close>

function strip_brackets :: "string \<Rightarrow> string \<times> string" where
  "strip_brackets base =
     (if ends_brackets base
      then (case strip_brackets (take (length base - 2) base) of (p, b) \<Rightarrow> (CHR ''['' # p, b))
      else ([], base))"
  by pat_completeness auto
termination
  by (relation "measure length") (auto simp: ends_brackets_def)

declare strip_brackets.simps [simp del]

lemma strip_brackets_step:
  "ends_brackets s \<Longrightarrow> strip_brackets s = (CHR ''['' # fst (strip_brackets (take (length s - 2) s)), snd (strip_brackets (take (length s - 2) s)))"
  by (subst strip_brackets.simps) (simp split: prod.splits)

lemma strip_brackets_stop: "\<not> ends_brackets s \<Longrightarrow> strip_brackets s = ([], s)"
  by (subst strip_brackets.simps) simp

lemma strip_brackets_length: "length (snd (strip_brackets s)) \<le> length s"
proof (induction s rule: length_induct)
  case (1 s)
  show ?case
  proof (cases "ends_brackets s")
    case True
    then have "length (take (length s - 2) s) < length s" by (auto simp: ends_brackets_def)
    then show ?thesis using 1 strip_brackets_step [OF True] by fastforce
  qed (simp add: strip_brackets_stop)
qed

lemma strip_brackets_shorter:
  assumes "ends_brackets s"
  shows "length (snd (strip_brackets s)) < length s"
proof -
  have "length (snd (strip_brackets (take (length s - 2) s))) \<le> length s - 2"
    using strip_brackets_length [of "take (length s - 2) s"] by simp
  then show ?thesis
    using assms strip_brackets_step [OF assms] by (auto simp: ends_brackets_def)
qed

function classNameToSig :: "string \<Rightarrow> string" where
  "classNameToSig name =
     (case primitive_sig name of
        Some s \<Rightarrow> s
      | None \<Rightarrow>
          if name \<noteq> [] \<and> hd name = CHR ''['' then dotToSlash name
          else if 3 \<le> length name \<and> ends_brackets name
          then fst (strip_brackets name) @ classNameToSig (snd (strip_brackets name))
          else ''L'' @ dotToSlash name @ '';'')"
  by pat_completeness auto
termination
  by (relation "measure length") (auto simp: strip_brackets_shorter)

declare classNameToSig.simps [simp del]

definition sigReturnType :: "string \<Rightarrow> string" where
  "sigReturnType sig =
     (case str_rfind CHR '')'' sig of
        None \<Rightarrow> []
      | Some pos \<Rightarrow> if length sig \<le> pos + 1 then [] else drop (pos + 1) sig)"

subsection \<open>Parsing what ART prints\<close>

record method_info =
  mi_class :: string
  mi_name :: string
  mi_sig :: string

record field_info =
  fi_class :: string
  fi_name :: string
  fi_type :: string

definition no_method :: method_info where
  "no_method = \<lparr>mi_class = [], mi_name = [], mi_sig = []\<rparr>"

text \<open>The parameter loop on what is left of the list: skip blanks, cut at the comma, trim, convert.\<close>

definition trim_right :: "string \<Rightarrow> string" where
  "trim_right s = rev (dropWhile (\<lambda>c. c = CHR '' '') (rev s))"

lemma param_rest_shorter:
  assumes "\<exists>c \<in> set rest. \<not> P c"
  shows "length (dropWhile Q (dropWhile P rest)) - 1 < length rest"
proof -
  have "length (dropWhile Q (dropWhile P rest)) \<le> length (dropWhile P rest)" "length (dropWhile P rest) \<le> length rest"
    using length_dropWhile_le by auto
  moreover have "0 < length rest" using assms by (cases rest) auto
  ultimately show ?thesis by linarith
qed

function param_sigs :: "string \<Rightarrow> string" where
  "param_sigs rest =
     (let r = dropWhile (\<lambda>c. c = CHR '' '') rest in
      if r = [] then []
      else (let t = trim_right (takeWhile (\<lambda>c. c \<noteq> CHR '','') r) in
            (if t \<noteq> [] then classNameToSig t else []) @ param_sigs (drop 1 (dropWhile (\<lambda>c. c \<noteq> CHR '','') r))))"
  by pat_completeness auto
termination
  by (relation "measure length") (simp_all del: drop_Suc One_nat_def add: param_rest_shorter)

declare param_sigs.simps [simp del]

definition parsePrettyMethod :: "string \<Rightarrow> method_info" where
  "parsePrettyMethod pretty =
     (case str_find CHR ''('' pretty of
        None \<Rightarrow> no_method
      | Some po \<Rightarrow>
         (case str_find CHR '' '' (take po pretty) of
            None \<Rightarrow> no_method
          | Some sp \<Rightarrow>
             (let retType = take sp (take po pretty); cm = drop (sp + 1) (take po pretty) in
              case str_rfind CHR ''.'' cm of
                None \<Rightarrow> no_method
              | Some ld \<Rightarrow>
                 (let params = (case str_rfind CHR '')'' pretty of
                                  None \<Rightarrow> []
                                | Some pc \<Rightarrow> if po + 1 < pc then take (pc - po - 1) (drop (po + 1) pretty) else []) in
                  \<lparr>mi_class = dotToSlash (take ld cm), mi_name = drop (ld + 1) cm,
                   mi_sig = ''('' @ param_sigs params @ '')'' @ classNameToSig retType\<rparr>))))"

definition parsePrettyField :: "string \<Rightarrow> field_info" where
  "parsePrettyField pretty =
     (let fi = \<lparr>fi_class = [], fi_name = ''?'', fi_type = ''?''\<rparr> in
      case str_find CHR '' '' pretty of
        None \<Rightarrow> fi
      | Some sp \<Rightarrow>
         (case str_rfind CHR ''.'' (drop (sp + 1) pretty) of
            None \<Rightarrow> fi
          | Some ld \<Rightarrow> \<lparr>fi_class = dotToSlash (take ld (drop (sp + 1) pretty)),
                        fi_name = drop (ld + 1) (drop (sp + 1) pretty), fi_type = classNameToSig (take sp pretty)\<rparr>))"

subsection \<open>The caches\<close>

type_synonym method_cache = "u64 \<Rightarrow> method_info option"
type_synonym field_cache = "u64 \<Rightarrow> field_info option"

definition cacheMethod :: "u64 \<Rightarrow> string \<Rightarrow> string \<Rightarrow> string \<Rightarrow> method_cache \<Rightarrow> method_cache" where
  "cacheMethod mid cls name sig t = t(mid \<mapsto> \<lparr>mi_class = cls, mi_name = name, mi_sig = sig\<rparr>)"

definition getCachedMethod :: "u64 \<Rightarrow> method_cache \<Rightarrow> method_info" where
  "getCachedMethod mid t = (case t mid of Some mi \<Rightarrow> mi | None \<Rightarrow> no_method)"

definition cacheField :: "u64 \<Rightarrow> string \<Rightarrow> string \<Rightarrow> string \<Rightarrow> field_cache \<Rightarrow> field_cache" where
  "cacheField fid cls name sig t = t(fid \<mapsto> \<lparr>fi_class = cls, fi_name = name, fi_type = sig\<rparr>)"

definition getCachedField :: "u64 \<Rightarrow> field_cache \<Rightarrow> field_info" where
  "getCachedField fid t = (case t fid of Some fi \<Rightarrow> fi | None \<Rightarrow> \<lparr>fi_class = [], fi_name = ''?'', fi_type = []\<rparr>)"

subsection \<open>Searches\<close>

lemma str_find_first: "c \<notin> set xs \<Longrightarrow> str_find c (xs @ c # ys) = Some (length xs)"
  unfolding str_find_def find_Some_iff
  by (rule exI [of _ "length xs"]) (auto simp: nth_append in_set_conv_nth)

lemma str_find_none: "c \<notin> set xs \<Longrightarrow> str_find c xs = None"
  by (auto simp: str_find_def find_None_iff)

lemma str_rfind_last: "c \<notin> set ys \<Longrightarrow> str_rfind c (xs @ c # ys) = Some (length xs)"
  using str_find_first [of c "rev ys" "rev xs"] by (simp add: str_rfind_def)

subsection \<open>What ART prints\<close>

text \<open>
  The specification: a type is a primitive one, a class given by its dotted name, or an array; \<open>pretty_type\<close>
  is how ART prints it and \<open>descriptor\<close> its descriptor.
\<close>

datatype jtype = JPrim string | JObj string | JArr jtype

primrec pretty_type :: "jtype \<Rightarrow> string" where
  "pretty_type (JPrim p) = p"
| "pretty_type (JObj n) = n"
| "pretty_type (JArr t) = pretty_type t @ ''[]''"

primrec descriptor :: "jtype \<Rightarrow> string" where
  "descriptor (JPrim p) = the (primitive_sig p)"
| "descriptor (JObj n) = ''L'' @ dotToSlash n @ '';''"
| "descriptor (JArr t) = ''['' @ descriptor t"

definition name_char :: "char \<Rightarrow> bool" where
  "name_char c \<longleftrightarrow> c \<notin> set '' (),[]''"

primrec type_ok :: "jtype \<Rightarrow> bool" where
  "type_ok (JPrim p) \<longleftrightarrow> primitive_sig p \<noteq> None"
| "type_ok (JObj n) \<longleftrightarrow> n \<noteq> [] \<and> list_all name_char n \<and> primitive_sig n = None"
| "type_ok (JArr t) \<longleftrightarrow> type_ok t"

fun join_comma :: "string list \<Rightarrow> string" where
  "join_comma [] = []"
| "join_comma [x] = x"
| "join_comma (x # xs) = x @ '', '' @ join_comma xs"

definition pretty_method :: "jtype \<Rightarrow> string \<Rightarrow> string \<Rightarrow> jtype list \<Rightarrow> string" where
  "pretty_method ret cls name ps =
     pretty_type ret @ '' '' @ cls @ ''.'' @ name @ ''('' @ join_comma (map pretty_type ps) @ '')''"

primrec base_type :: "jtype \<Rightarrow> jtype" where
  "base_type (JPrim p) = JPrim p"
| "base_type (JObj n) = JObj n"
| "base_type (JArr t) = base_type t"

primrec dims :: "jtype \<Rightarrow> nat" where
  "dims (JPrim p) = 0"
| "dims (JObj n) = 0"
| "dims (JArr t) = Suc (dims t)"

lemma primitive_name_chars: "primitive_sig p \<noteq> None \<Longrightarrow> p \<noteq> [] \<and> list_all name_char p"
  by (auto simp: name_char_def split: if_splits)

lemma base_name: "type_ok t \<Longrightarrow> pretty_type (base_type t) \<noteq> [] \<and> list_all name_char (pretty_type (base_type t))"
  using primitive_name_chars by (induction t) (auto simp del: primitive_sig.simps)

lemma pretty_hd: "type_ok t \<Longrightarrow> pretty_type t \<noteq> [] \<and> name_char (hd (pretty_type t))"
proof (induction t)
  case (JPrim p)
  then show ?case using primitive_name_chars [of p] by (cases p) (auto simp del: primitive_sig.simps)
next
  case (JObj n)
  then show ?case by (cases n) auto
qed auto

lemma pretty_chars: "type_ok t \<Longrightarrow> c \<in> set (pretty_type t) \<Longrightarrow> c \<notin> set '' (),''"
proof (induction t)
  case (JPrim p)
  then show ?case
    using primitive_name_chars [of p] by (auto simp: list_all_iff name_char_def simp del: primitive_sig.simps)
qed (auto simp: list_all_iff name_char_def)

lemma ends_brackets_last: "ends_brackets s \<Longrightarrow> \<not> list_all name_char s"
proof -
  assume "ends_brackets s"
  then have "CHR '']'' \<in> set (drop (length s - 2) s)" by (simp add: ends_brackets_def)
  then show ?thesis by (auto simp: list_all_iff name_char_def dest: in_set_dropD)
qed

lemma ends_brackets_append [simp]: "ends_brackets (s @ ''[]'')"
  by (simp add: ends_brackets_def)

lemma pretty_strip:
  "type_ok t \<Longrightarrow> strip_brackets (pretty_type t) = (replicate (dims t) CHR ''['', pretty_type (base_type t))"
proof (induction t)
  case (JPrim p)
  then have "\<not> ends_brackets p" using ends_brackets_last primitive_name_chars by (auto simp del: primitive_sig.simps)
  then show ?case by (simp add: strip_brackets_stop)
next
  case (JObj n)
  then have "\<not> ends_brackets n" using ends_brackets_last by auto
  then show ?case by (simp add: strip_brackets_stop)
next
  case (JArr t)
  then show ?case using strip_brackets_step [of "pretty_type t @ ''[]''"] by simp
qed

lemma descriptor_dims: "descriptor t = replicate (dims t) CHR ''['' @ descriptor (base_type t)"
  by (induction t) auto

lemma classNameToSig_base: "type_ok t \<Longrightarrow> classNameToSig (pretty_type (base_type t)) = descriptor (base_type t)"
proof (induction t)
  case (JPrim p)
  then show ?case by (subst classNameToSig.simps) (auto simp del: primitive_sig.simps)
next
  case (JObj n)
  then have "hd n \<noteq> CHR ''[''" "\<not> ends_brackets n"
    using ends_brackets_last by (auto simp: name_char_def neq_Nil_conv)
  with JObj show ?case by (subst classNameToSig.simps) (auto simp del: primitive_sig.simps)
qed auto

lemma classNameToSig_pretty:
  assumes "type_ok t"
  shows "classNameToSig (pretty_type t) = descriptor t"
proof (cases t)
  case (JArr u)
  let ?p = "pretty_type u @ ''[]''"
  have "\<not> list_all name_char ?p" by (simp add: name_char_def)
  then have prim: "primitive_sig ?p = None" using primitive_name_chars [of ?p] by blast
  have u: "pretty_type u \<noteq> []" "hd (pretty_type u) \<noteq> CHR ''[''"
    using pretty_hd [of u] assms JArr by (auto simp: name_char_def)
  then have "3 \<le> length ?p" by (cases "pretty_type u") auto
  then have "classNameToSig ?p = fst (strip_brackets ?p) @ classNameToSig (snd (strip_brackets ?p))"
    using u prim by (subst classNameToSig.simps) (auto simp del: primitive_sig.simps)
  also have "\<dots> = descriptor t"
    using pretty_strip [OF assms] classNameToSig_base [OF assms] descriptor_dims [of t] JArr by simp
  finally show ?thesis using JArr by simp
qed (use classNameToSig_base [OF assms] in auto)

lemma trim_right_pretty: "type_ok t \<Longrightarrow> trim_right (pretty_type t) = pretty_type t"
  using pretty_hd [of t] pretty_chars [of t "last (pretty_type t)"]
  by (cases "pretty_type t" rule: rev_cases) (auto simp: trim_right_def)

lemma pretty_no_skip: "type_ok t \<Longrightarrow> dropWhile (\<lambda>c. c = CHR '' '') (pretty_type t @ s) = pretty_type t @ s"
  using pretty_hd [of t] by (cases "pretty_type t") (auto simp: name_char_def)

lemma param_sigs_blank: "param_sigs (CHR '' '' # s) = param_sigs s"
  by (subst (1 2) param_sigs.simps) simp

lemma takeWhile_no_comma: "type_ok t \<Longrightarrow> takeWhile (\<lambda>c. c \<noteq> CHR '','') (pretty_type t @ s) = pretty_type t @ takeWhile (\<lambda>c. c \<noteq> CHR '','') s"
  and dropWhile_no_comma: "type_ok t \<Longrightarrow> dropWhile (\<lambda>c. c \<noteq> CHR '','') (pretty_type t @ s) = dropWhile (\<lambda>c. c \<noteq> CHR '','') s"
  using pretty_chars [of t] by (auto intro!: takeWhile_append2 dropWhile_append2)

lemma param_sigs_first:
  assumes t: "type_ok t" and s: "s = [] \<or> hd s = CHR '',''"
  shows "param_sigs (pretty_type t @ s) = descriptor t @ param_sigs (drop 1 s)"
proof -
  have "takeWhile (\<lambda>c. c \<noteq> CHR '','') s = []" "dropWhile (\<lambda>c. c \<noteq> CHR '','') s = s"
    using s by (cases s, simp_all)+
  then show ?thesis
    using pretty_hd [OF t]
    by (subst param_sigs.simps)
      (simp add: Let_def pretty_no_skip [OF t] takeWhile_no_comma [OF t] dropWhile_no_comma [OF t] trim_right_pretty [OF t]
        classNameToSig_pretty [OF t])
qed

lemma param_sigs_Nil [simp]: "param_sigs [] = []"
  by (subst param_sigs.simps) simp

lemma param_sigs_join:
  "list_all type_ok ps \<Longrightarrow> param_sigs (join_comma (map pretty_type ps)) = concat (map descriptor ps)"
proof (induction ps rule: induct_list012)
  case (2 t)
  then show ?case using param_sigs_first [of t "[]"] by simp
next
  case (3 t u ps)
  let ?r = "join_comma (map pretty_type (u # ps))"
  have "param_sigs (pretty_type t @ '', '' @ ?r) = descriptor t @ param_sigs (CHR '' '' # ?r)"
    using 3 param_sigs_first [of t "'', '' @ ?r"] by simp
  then show ?case using 3 by (simp add: param_sigs_blank)
qed simp

text \<open>The class and the name of the method.\<close>

definition class_ok :: "string \<Rightarrow> bool" where
  "class_ok cls \<longleftrightarrow> set cls \<inter> set '' ()'' = {}"

definition member_ok :: "string \<Rightarrow> bool" where
  "member_ok name \<longleftrightarrow> set name \<inter> set '' ().'' = {}"

lemma cut_between:
  "(if length xs + 1 < length (xs @ c # ys) then take (length (xs @ c # ys) - length xs - 1) (drop (length xs + 1) (xs @ c # ys @ zs))
    else []) = ys"
  by (cases ys) auto

text \<open>C14 (parser round trip). Whatever method ART prints (any return type, parameters of any types, arrays included), the parser
  gives back its class with slashes, its name and its descriptor.\<close>

theorem pretty_method_parsed:
  assumes "type_ok ret" and "list_all type_ok ps" and "class_ok cls" and "member_ok name"
  shows "parsePrettyMethod (pretty_method ret cls name ps) =
    \<lparr>mi_class = dotToSlash cls, mi_name = name,
     mi_sig = ''('' @ concat (map descriptor ps) @ '')'' @ descriptor ret\<rparr>"
proof -
  let ?cm = "cls @ CHR ''.'' # name" and ?ps = "join_comma (map pretty_type ps)"
  let ?p = "pretty_method ret cls name ps"
  have p: "?p = (pretty_type ret @ CHR '' '' # ?cm) @ CHR ''('' # ?ps @ '')''" by (simp add: pretty_method_def)
  have "CHR ''('' \<notin> set (pretty_type ret @ CHR '' '' # ?cm)"
    using pretty_chars [OF assms(1)] assms by (auto simp: class_ok_def member_ok_def)
  then have po: "str_find CHR ''('' ?p = Some (length (pretty_type ret @ CHR '' '' # ?cm))"
    unfolding p by (rule str_find_first)
  have sp: "str_find CHR '' '' (pretty_type ret @ CHR '' '' # ?cm) = Some (length (pretty_type ret))"
    using pretty_chars [OF assms(1)] by (intro str_find_first) auto
  have ld: "str_rfind CHR ''.'' ?cm = Some (length cls)"
    using assms(4) by (intro str_rfind_last) (auto simp: member_ok_def)
  have pc: "str_rfind CHR '')'' ?p = Some (length ((pretty_type ret @ CHR '' '' # ?cm) @ CHR ''('' # ?ps))"
    using str_rfind_last [of "CHR '')''" "[]" "(pretty_type ret @ CHR '' '' # ?cm) @ CHR ''('' # ?ps"] by (simp add: p)
  have take_po: "take (length (pretty_type ret @ CHR '' '' # ?cm)) ?p = pretty_type ret @ CHR '' '' # ?cm"
    by (simp add: p)
  note params = cut_between [of "pretty_type ret @ CHR '' '' # ?cm" "CHR ''(''" ?ps "'')''", folded p]
  show ?thesis
    unfolding parsePrettyMethod_def po option.case take_po sp pc params
    using ld param_sigs_join [OF assms(2)] classNameToSig_pretty [OF assms(1)] by (simp add: Let_def)
qed

text \<open>\<open>java.lang.String[] a.B.<init>(int, byte[][])\<close>.\<close>

lemma pretty_method_parsed_witness:
  "parsePrettyMethod (pretty_method (JArr (JObj ''java.lang.String'')) ''a.B'' ''<init>'' [JPrim ''int'', JArr (JArr (JPrim ''byte''))]) =
    \<lparr>mi_class = ''a/B'', mi_name = ''<init>'', mi_sig = ''(I[[B)[Ljava/lang/String;''\<rparr>"
proof -
  have "type_ok (JArr (JObj ''java.lang.String''))" "list_all type_ok [JPrim ''int'', JArr (JArr (JPrim ''byte''))]"
    "class_ok ''a.B''" "member_ok ''<init>''"
    by (simp_all add: class_ok_def member_ok_def name_char_def)
  from pretty_method_parsed [OF this] show ?thesis by (simp add: dotToSlash_def)
qed

text \<open>The same for fields, whose text has the type, a blank, the class, a dot and the name.\<close>

lemma pretty_field_parsed:
  assumes "type_ok t" and "CHR ''.'' \<notin> set name"
  shows "parsePrettyField (pretty_type t @ '' '' @ cls @ ''.'' @ name) =
    \<lparr>fi_class = dotToSlash cls, fi_name = name, fi_type = descriptor t\<rparr>"
proof -
  have "str_find CHR '' '' (pretty_type t @ CHR '' '' # cls @ CHR ''.'' # name) = Some (length (pretty_type t))"
    using pretty_chars [OF assms(1)] by (intro str_find_first) auto
  moreover have "str_rfind CHR ''.'' (cls @ CHR ''.'' # name) = Some (length cls)"
    using assms(2) by (rule str_rfind_last)
  ultimately show ?thesis
    using classNameToSig_pretty [OF assms(1)] by (simp add: parsePrettyField_def)
qed

end
