(* ===== verification/Plt_Stub.thy ===== *)
theory Plt_Stub
  imports Safe_Mem Elf_File
begin

text \<open>
  Branch targets of \<open>trace/src/EastTrace.cpp\<close>: the target of \<open>bl\<close>/\<open>b\<close>, the registers of \<open>br\<close>/\<open>blr\<close>, the GOT slot
  behind a PLT stub (\<open>resolvePltTarget\<close>), and the search for the \<open>.plt\<close> section in the file. Code and
  GOT are read directly, so an unmapped byte is a fault (\<open>None\<close>). A descriptor is the file with its position;
  \<open>mal\<close> says which allocations succeed.
\<close>

definition load32 :: "mem \<Rightarrow> u64 \<Rightarrow> u32 option" where
  "load32 m a = map_option (\<lambda>bs. word_of_nat (le_nat bs)) (read_range m (unat a) 4)"

definition load64 :: "mem \<Rightarrow> u64 \<Rightarrow> u64 option" where
  "load64 m a = map_option (\<lambda>bs. word_of_nat (le_nat bs)) (read_range m (unat a) 8)"

subsection \<open>Branches\<close>

definition bl_target :: "u32 \<Rightarrow> u64 \<Rightarrow> u64" where
  "bl_target raw address =
     (let imm26 = raw AND 0x03FFFFFF;
          imm = (if imm26 AND push_bit 25 1 \<noteq> 0 then imm26 OR 0xFC000000 else imm26) in
      address + push_bit 2 (scast imm))"

definition is_blr :: "u32 \<Rightarrow> bool" where
  "is_blr raw \<longleftrightarrow> raw AND 0xFFFFFC1F = 0xD63F0000"

definition is_br :: "u32 \<Rightarrow> bool" where
  "is_br raw \<longleftrightarrow> raw AND 0xFFFFFC1F = 0xD61F0000"

definition branch_reg :: "u32 \<Rightarrow> nat" where
  "branch_reg raw = unat (drop_bit 5 raw AND 0x1F)"

subsection \<open>PLT stubs\<close>

definition adrp_imm21 :: "u32 \<Rightarrow> u32" where
  "adrp_imm21 inst0 =
     (let immlo = drop_bit 29 inst0 AND 0x3; immhi = drop_bit 5 inst0 AND 0x7FFFF;
          imm21 = push_bit 2 immhi OR immlo in
      if imm21 AND push_bit 20 1 \<noteq> 0 then imm21 OR 0xFFE00000 else imm21)"

definition got_slot :: "u32 \<Rightarrow> u32 \<Rightarrow> u64 \<Rightarrow> u64" where
  "got_slot inst0 inst1 a =
     (a AND NOT 0xFFF) + push_bit 12 (scast (adrp_imm21 inst0)) + push_bit 3 (ucast (drop_bit 10 inst1 AND 0xFFF))"

text \<open>0 is \<open>return 0\<close>: not a stub (or an empty slot).\<close>

definition resolvePltTarget :: "mem \<Rightarrow> u64 \<Rightarrow> u64 option" where
  "resolvePltTarget m a =
     (case (load32 m a, load32 m (a + 4)) of
        (Some inst0, Some inst1) \<Rightarrow>
          if inst0 AND 0x9F00001F \<noteq> 0x90000010 then Some 0
          else if inst1 AND 0xFFC003FF \<noteq> 0xF9400211 then Some 0
          else load64 m (got_slot inst0 inst1 a)
      | _ \<Rightarrow> None)"

subsection \<open>The section\<close>

text \<open>\<open>lseek\<close> to a negative offset fails and leaves the position.\<close>

definition seek :: "u64 \<Rightarrow> nat \<Rightarrow> nat" where
  "seek off pos = (if sint off < 0 then pos else unat off)"

text \<open>\<open>read\<close>: the bytes when all were there, and the new position.\<close>

definition fd_read :: "byte list \<Rightarrow> nat \<Rightarrow> nat \<Rightarrow> byte list option \<times> nat" where
  "fd_read f n pos =
     (let bs = take (min n 0x7ffff000) (drop pos f) in
      (if length bs = n then Some bs else None, pos + length bs))"

text \<open>\<open>strcmp\<close> with a literal and its NUL; \<open>None\<close> is a read behind the block.\<close>

fun strcmp_at :: "byte list \<Rightarrow> byte list \<Rightarrow> bool option" where
  "strcmp_at s [] = Some True"
| "strcmp_at [] (c # cs) = None"
| "strcmp_at (b # s) (c # cs) = (if b = c then strcmp_at s cs else Some False)"

definition plt_name :: "byte list" where
  "plt_name = [0x2E, 0x70, 0x6C, 0x74, 0]"

fun plt_loop :: "byte list \<Rightarrow> u64 \<Rightarrow> byte list \<Rightarrow> u64 \<Rightarrow> nat \<Rightarrow> nat \<Rightarrow> nat \<Rightarrow> (u64 \<times> u64) option" where
  "plt_loop f e_shoff shstrtab loadBias pos i 0 = Some (0, 0)"
| "plt_loop f e_shoff shstrtab loadBias pos i (Suc n) =
     (case fd_read f 64 (seek (e_shoff + word_of_nat (64 * i)) pos) of
        (None, pos') \<Rightarrow> Some (0, 0)
      | (Some sh, pos') \<Rightarrow>
          (let nm = unat (fld 4 0 sh :: u32) in
           case (if nm < length shstrtab then strcmp_at (drop nm shstrtab) plt_name else Some False) of
             None \<Rightarrow> None
           | Some True \<Rightarrow> Some (loadBias + sh_addr (shdr_of sh), loadBias + sh_addr (shdr_of sh) + sh_size (shdr_of sh))
           | Some False \<Rightarrow> plt_loop f e_shoff shstrtab loadBias pos' (i + 1) n))"

definition findPltSection :: "(nat \<Rightarrow> bool) \<Rightarrow> byte list option \<Rightarrow> u64 \<Rightarrow> (u64 \<times> u64) option" where
  "findPltSection mal file loadBias =
     (case file of
        None \<Rightarrow> Some (0, 0)
      | Some f \<Rightarrow>
          (case fd_read f 64 0 of
             (None, pos) \<Rightarrow> Some (0, 0)
           | (Some eh, pos) \<Rightarrow>
               (let e_shoff = (fld 8 40 eh :: u64); e_shnum = (fld 2 60 eh :: u16); e_shstrndx = (fld 2 62 eh :: u16) in
                if take 4 eh \<noteq> [0x7f, 0x45, 0x4c, 0x46] then Some (0, 0)
                else if e_shoff = 0 \<or> e_shnum = 0 \<or> e_shnum \<le> e_shstrndx then Some (0, 0)
                else (case fd_read f 64 (seek (e_shoff + word_of_nat (64 * unat e_shstrndx)) pos) of
                        (None, pos1) \<Rightarrow> Some (0, 0)
                      | (Some st, pos1) \<Rightarrow>
                          if \<not> mal (unat (sh_size (shdr_of st))) then Some (0, 0)
                          else (case fd_read f (unat (sh_size (shdr_of st))) (seek (sh_offset (shdr_of st)) pos1) of
                                  (None, pos2) \<Rightarrow> Some (0, 0)
                                | (Some strs, pos2) \<Rightarrow> plt_loop f e_shoff strs loadBias pos2 0 (unat e_shnum))))))"

subsection \<open>Immediates\<close>

lemma sign_extend:
  assumes "n < 31" and "hi = NOT (mask (Suc n))" and "x = take_bit (Suc n) w"
  shows "(if x AND push_bit n 1 \<noteq> 0 then x OR hi else x) = signed_take_bit n (w :: 32 word)"
proof -
  have "x AND push_bit n 1 \<noteq> 0 \<longleftrightarrow> bit x n"
    using assms(1) by (simp add: bit_iff_and_push_bit_not_eq_0)
  then have x: "x AND push_bit n 1 \<noteq> 0 \<longleftrightarrow> bit w n" using assms(1,3) by (simp add: bit_take_bit_iff)
  have b: "bit (signed_take_bit n w) k \<longleftrightarrow> k < 32 \<and> bit w (if n \<le> k then n else k)" for k
    by (auto simp: bit_signed_take_bit_iff min_def)
  have t: "bit x k \<longleftrightarrow> k < 32 \<and> k \<le> n \<and> bit w k" for k
    by (auto simp: assms(3) bit_take_bit_iff dest: bit_imp_le_length)
  have h: "bit hi k \<longleftrightarrow> k < 32 \<and> n < k" for k
    using assms(1) by (auto simp: assms(2) bit_not_iff bit_mask_iff)
  show ?thesis
  proof (cases "bit w n")
    case True
    then have "x OR hi = signed_take_bit n w"
      by (intro bit_eqI) (auto simp: bit_or_iff b t h)
    with True x show ?thesis by simp
  next
    case False
    then have "x = signed_take_bit n w"
      by (intro bit_eqI) (auto simp: b t split: if_splits intro: le_neq_implies_less)
    with False x show ?thesis by simp
  qed
qed

lemma signed_take_word_of_int:
  assumes "n < 31" and "- (2 ^ n) \<le> i" and "i < 2 ^ n"
  shows "scast (signed_take_bit n (word_of_int i :: 32 word)) = (word_of_int i :: 64 word)"
proof -
  have i: "signed_take_bit n i = i" using assms by (simp add: signed_take_bit_int_eq_self)
  have "signed_take_bit n (word_of_int i :: 32 word) = word_of_int (signed_take_bit n i)"
    using assms(1) by (auto intro!: bit_eqI simp: bit_signed_take_bit_iff bit_word_of_int_iff min_def)
  then have w: "signed_take_bit n (word_of_int i :: 32 word) = word_of_int i" by (simp add: i)
  have "(2::int) ^ n \<le> 2 ^ 31" using assms(1) by (intro power_increasing) auto
  then have "signed_take_bit 31 i = i" using assms by (intro signed_take_bit_int_eq_self) auto
  then have "sint (word_of_int i :: 32 word) = i" using sint_sbintrunc' [of i, where 'a = 32] by simp
  then show ?thesis unfolding w by (simp add: scast_eq)
qed

subsection \<open>What the assembler emits\<close>

definition enc_bl :: "int \<Rightarrow> u32" where
  "enc_bl i = 0x94000000 OR take_bit 26 (word_of_int i)"

definition enc_adrp_x16 :: "int \<Rightarrow> u32" where
  "enc_adrp_x16 i = 0x90000010 OR push_bit 29 (take_bit 2 (word_of_int i)) OR push_bit 5 (drop_bit 2 (take_bit 21 (word_of_int i)))"

definition enc_ldr_x17 :: "u32 \<Rightarrow> u32" where
  "enc_ldr_x17 k = 0xF9400211 OR push_bit 10 k"

lemma and_take:
  "(x :: u32) AND 0x3 = take_bit 2 x" "x AND 0x1F = take_bit 5 x" "x AND 0xFFF = take_bit 12 x"
  "x AND 0x7FFFF = take_bit 19 x" "x AND 0x03FFFFFF = take_bit 26 x"
  by (simp_all add: take_bit_eq_mask mask_eq_exp_minus_1)

lemma hi_masks: "(0xFC000000 :: u32) = NOT (mask (Suc 25))" "(0xFFE00000 :: u32) = NOT (mask (Suc 20))"
  by (simp_all add: mask_eq_exp_minus_1)

lemma bl_target_enc:
  assumes "- (2 ^ 25) \<le> i" and "i < 2 ^ 25"
  shows "bl_target (enc_bl i) a = a + word_of_int (4 * i)"
proof -
  let ?w = "word_of_int i :: u32"
  have imm: "enc_bl i AND 0x03FFFFFF = take_bit (Suc 25) ?w"
    by (simp add: and_take enc_bl_def take_bit_or)
  have "(if (enc_bl i AND 0x03FFFFFF) AND push_bit 25 1 \<noteq> 0 then (enc_bl i AND 0x03FFFFFF) OR 0xFC000000
      else enc_bl i AND 0x03FFFFFF) = signed_take_bit 25 ?w"
    unfolding imm by (rule sign_extend [OF _ hi_masks(1) refl]) simp
  moreover have "push_bit 2 (word_of_int i :: u64) = word_of_int (4 * i)"
    by (simp add: push_bit_eq_mult)
  ultimately show ?thesis
    using signed_take_word_of_int [of 25 i] assms by (simp only: bl_target_def Let_def)
qed

lemma field_outside:
  assumes "take_bit k (drop_bit j m) = (0 :: u32)"
  shows "push_bit j (take_bit k x) AND m = 0"
proof (rule bit_eqI)
  fix n
  have "\<not> (j \<le> n \<and> n - j < k \<and> bit m n)"
    using arg_cong [OF assms, of "\<lambda>v. bit v (n - j)"] by (auto simp: bit_take_bit_iff bit_drop_bit_eq)
  then show "bit (push_bit j (take_bit k x) AND m) n \<longleftrightarrow> bit (0 :: u32) n"
    by (auto simp: bit_and_iff bit_push_bit_iff bit_take_bit_iff)
qed

lemma adrp_fields:
  fixes w :: u32
  defines "c \<equiv> 0x90000010 OR push_bit 29 (take_bit 2 w) OR push_bit 5 (drop_bit 2 (take_bit 21 w))"
  shows "take_bit 2 (drop_bit 29 c) = take_bit 2 w" and "take_bit 19 (drop_bit 5 c) = drop_bit 2 (take_bit 21 w)"
    and "c AND 0x9F00001F = 0x90000010"
proof -
  let ?A = "0x90000010 :: u32" and ?B = "push_bit 29 (take_bit 2 w)" and ?C = "push_bit 5 (drop_bit 2 (take_bit 21 w))"
  have B: "take_bit 2 (drop_bit 29 ?B) = take_bit 2 w" "take_bit 19 (drop_bit 5 ?B) = 0"
    by (rule bit_eqI; auto simp: bit_simps)+
  have C: "take_bit 2 (drop_bit 29 ?C) = 0" "take_bit 19 (drop_bit 5 ?C) = drop_bit 2 (take_bit 21 w)"
    by (rule bit_eqI; auto simp: bit_simps)+
  have A: "take_bit 2 (drop_bit 29 ?A) = 0" "take_bit 19 (drop_bit 5 ?A) = 0" by simp_all
  show "take_bit 2 (drop_bit 29 c) = take_bit 2 w" "take_bit 19 (drop_bit 5 c) = drop_bit 2 (take_bit 21 w)"
    by (simp_all add: c_def drop_bit_or take_bit_or A B C)
  have "?B AND 0x9F00001F = 0" by (rule field_outside) simp
  moreover have "?C = push_bit 5 (take_bit 19 (drop_bit 2 w))" by (simp add: drop_bit_take_bit)
  then have "?C AND 0x9F00001F = 0" using field_outside [of 19 5 "0x9F00001F" "drop_bit 2 w"] by simp
  ultimately show "c AND 0x9F00001F = 0x90000010"
    by (simp add: c_def bit.conj_disj_distrib2)
qed

lemma join_fields:
  assumes "j \<le> k"
  shows "push_bit j (drop_bit j (take_bit k w)) OR take_bit j w = take_bit k (w :: u32)"
proof (rule bit_eqI)
  fix n
  show "bit (push_bit j (drop_bit j (take_bit k w)) OR take_bit j w) n \<longleftrightarrow> bit (take_bit k w) n"
    using assms by (cases "j \<le> n") (auto simp: bit_or_iff bit_push_bit_iff bit_drop_bit_eq bit_take_bit_iff
        dest: bit_imp_le_length)
qed

lemma adrp_imm21_enc:
  assumes "- (2 ^ 20) \<le> i" and "i < 2 ^ 20"
  shows "push_bit 12 (scast (adrp_imm21 (enc_adrp_x16 i))) = (word_of_int (4096 * i) :: u64)"
proof -
  let ?w = "word_of_int i :: u32"
  have "push_bit 2 (drop_bit 2 (take_bit 21 ?w)) OR take_bit 2 ?w = take_bit (Suc 20) ?w"
    using join_fields [of 2 21 ?w] by simp
  then have imm: "push_bit 2 (drop_bit 5 (enc_adrp_x16 i) AND 0x7FFFF) OR (drop_bit 29 (enc_adrp_x16 i) AND 0x3) =
      take_bit (Suc 20) ?w"
    by (simp only: and_take enc_adrp_x16_def adrp_fields)
  have "adrp_imm21 (enc_adrp_x16 i) = signed_take_bit 20 ?w"
    unfolding adrp_imm21_def Let_def imm by (rule sign_extend [OF _ hi_masks(2) refl]) simp
  moreover have "push_bit 12 (word_of_int i :: u64) = word_of_int (4096 * i)" by (simp add: push_bit_eq_mult)
  ultimately show ?thesis using signed_take_word_of_int [of 20 i] assms by simp
qed

lemma ldr_fields:
  assumes "k < 4096"
  shows "drop_bit 10 (enc_ldr_x17 k) AND 0xFFF = k" and "enc_ldr_x17 k AND 0xFFC003FF = 0xF9400211"
proof -
  have k: "take_bit 12 k = k" using assms
    by (intro word_unat_eq_iff [THEN iffD2]) (simp add: unsigned_take_bit_eq take_bit_nat_eq_self word_less_nat_alt)
  have "take_bit 12 (drop_bit 10 (push_bit 10 k)) = take_bit 12 k"
    by (rule bit_eqI) (auto simp: bit_simps)
  then show "drop_bit 10 (enc_ldr_x17 k) AND 0xFFF = k"
    by (simp add: and_take enc_ldr_x17_def drop_bit_or take_bit_or k)
  have "push_bit 10 k AND 0xFFC003FF = 0" using field_outside [of 12 10 "0xFFC003FF" k] by (simp add: k)
  then show "enc_ldr_x17 k AND 0xFFC003FF = 0xF9400211"
    by (simp add: enc_ldr_x17_def bit.conj_disj_distrib2)
qed

subsection \<open>Properties\<close>

text \<open>C33 (branch and stub targets): for every offset an assembler can encode, the target computed for a
  \<open>bl\<close> is PC plus four times the offset, and a PLT stub \<open>adrp x16, page; ldr x17, [x16, #8k]\<close> resolves to the
  word at the page of PC plus 4096 times the page offset plus 8k.\<close>

theorem branch_targets_decode:
  assumes "- (2 ^ 25) \<le> i" and "i < 2 ^ 25" and "- (2 ^ 20) \<le> j" and "j < 2 ^ 20" and "k < 4096"
    and "load32 m a = Some (enc_adrp_x16 j)" and "load32 m (a + 4) = Some (enc_ldr_x17 k)"
  shows "bl_target (enc_bl i) pc = pc + word_of_int (4 * i) \<and>
    resolvePltTarget m a = load64 m ((a AND NOT 0xFFF) + word_of_int (4096 * j) + push_bit 3 (ucast k))"
proof -
  have "got_slot (enc_adrp_x16 j) (enc_ldr_x17 k) a = (a AND NOT 0xFFF) + word_of_int (4096 * j) + push_bit 3 (ucast k)"
    by (simp only: got_slot_def adrp_imm21_enc [OF assms(3,4)] ldr_fields(1) [OF assms(5)])
  moreover have "enc_adrp_x16 j AND 0x9F00001F = 0x90000010"
    unfolding enc_adrp_x16_def by (rule adrp_fields(3))
  ultimately show ?thesis
    using bl_target_enc [OF assms(1,2)] ldr_fields(2) [OF assms(5)] assms(6,7)
    by (simp add: resolvePltTarget_def)
qed

text \<open>A stub at 4096: \<open>adrp x16, .+8192\<close> and \<open>ldr x17, [x16, #24]\<close>.\<close>

definition demo_stub :: mem where
  "demo_stub a =
     (if 4096 \<le> a \<and> a < 4104 then Some ([0x10, 0, 0, 0xD0, 0x11, 0x0E, 0x40, 0xF9] ! (a - 4096))
      else if 12312 \<le> a \<and> a < 12320 then Some ([0, 0, 5, 0, 0, 0, 0, 0] ! (a - 12312)) else None)"

lemma demo_stub_words: "load32 demo_stub 4096 = Some 0xD0000010" "load32 demo_stub 4100 = Some 0xF9400E11"
  by (simp_all add: load32_def read_range_def demo_stub_def upt_rec_numeral)

lemma branch_targets_decode_witness:
  "bl_target (enc_bl (-3)) 4096 = 4084 \<and>
    resolvePltTarget demo_stub 4096 = load64 demo_stub 12312"
proof -
  have a: "enc_adrp_x16 2 = 0xD0000010" by (simp add: enc_adrp_x16_def)
  have l: "enc_ldr_x17 3 = 0xF9400E11" by (simp add: enc_ldr_x17_def)
  have "bl_target (enc_bl (-3)) 4096 = 4096 + word_of_int (4 * (-3)) \<and>
    resolvePltTarget demo_stub 4096 =
      load64 demo_stub ((4096 AND NOT 0xFFF) + word_of_int (4096 * 2) + push_bit 3 (ucast (3 :: u32)))"
    by (rule branch_targets_decode) (simp_all add: a l demo_stub_words)
  then show ?thesis by simp
qed

end
