(* ===== verification/Jni_Env.thy ===== *)
theory Jni_Env
  imports Jni_Names Plt_Stub Library_Utils Svc_Handler "HOL-Library.Multiset" "HOL-Library.Monad_Syntax"
begin

text \<open>
  The calls that the tracer itself makes into the Java VM (\<open>trace/src/JniTrace.cpp\<close>), and the two classes that
  hide them from the traced program: \<open>JniExceptionGuard\<close> and \<open>JniLocalFrame\<close>. The VM is a parameter: what it answers
  to a call may depend on every call the tracer made before (the history, latest first). Of a VM the
  code relies on the rules of the JNI specification about pending exceptions and local references; \<open>jvm_ok\<close> states them.
\<close>

subsection \<open>The VM\<close>

datatype jni_call =
  ExceptionOccurred | ExceptionClear | ExceptionCheck | Throw u64
| DeleteLocalRef u64 | PushLocalFrame nat | PopLocalFrame u64
| FindClass string | GetMethodID u64 string string | CallObjectMethod u64 u64 | CallIntMethod u64 u64
| GetObjectClass u64 | IsInstanceOf u64 u64 | GetStringUTFChars u64 | ReleaseStringUTFChars u64 u64
| ToReflectedMethod u64 u64 bool | ToReflectedField u64 u64 bool
| GetArrayLength u64 | GetObjectArrayElement u64 int

type_synonym jhist = "jni_call list"

text \<open>
  What a call returns in X0; the pending exception, the local references (a multiset for each frame, innermost first)
  and the object behind a reference, as they are after a history; the memory; what \<open>dladdr\<close> says of an address
  (base, file); \<open>ArtMethod::PrettyMethod\<close> and \<open>ArtField::PrettyField\<close>, where libart exports them (no text: a C++ exception);
  and how a stream prints floating point numbers.
\<close>

record jvm =
  jv_ans :: "jhist \<Rightarrow> jni_call \<Rightarrow> u64"
  jv_exc :: "jhist \<Rightarrow> u64 option"
  jv_refs :: "jhist \<Rightarrow> u64 multiset list"
  jv_obj :: "jhist \<Rightarrow> u64 \<Rightarrow> u64"
  jv_mem :: "jhist \<Rightarrow> mem"
  jv_dladdr :: "u64 \<Rightarrow> (u64 \<times> string option) option"
  jv_art_method :: "(u64 \<Rightarrow> string option) option"
  jv_art_field :: "(u64 \<Rightarrow> string option) option"
  jv_float :: "u32 \<Rightarrow> string"
  jv_double :: "u64 \<Rightarrow> string"

text \<open>
  The functions that the specification allows while an exception is pending; ART aborts the process in the others,
  which is the result None.
\<close>

fun exc_safe :: "jni_call \<Rightarrow> bool" where
  "exc_safe ExceptionOccurred = True"
| "exc_safe ExceptionClear = True"
| "exc_safe ExceptionCheck = True"
| "exc_safe (DeleteLocalRef r) = True"
| "exc_safe (PushLocalFrame n) = True"
| "exc_safe (PopLocalFrame r) = True"
| "exc_safe (ReleaseStringUTFChars s u) = True"
| "exc_safe c = False"

definition proxy_Jni :: "jvm \<Rightarrow> jni_call \<Rightarrow> jhist \<Rightarrow> (u64 \<times> jhist) option" where
  "proxy_Jni J c h = (if jv_exc J h = None \<or> exc_safe c then Some (jv_ans J h c, c # h) else None)"

definition exec_Jni :: "jvm \<Rightarrow> jni_call \<Rightarrow> jhist \<Rightarrow> jhist option" where
  "exec_Jni J c h = map_option snd (proxy_Jni J c h)"

text \<open>A C string at an address; a read of an unmapped byte is the fault.\<close>

function cstr_from :: "mem \<Rightarrow> nat \<Rightarrow> string option" where
  "cstr_from m a =
     (if 2 ^ 64 \<le> a then None
      else (case m a of
              None \<Rightarrow> None
            | Some b \<Rightarrow> if b = 0 then Some [] else map_option (Cons (char_of (unat b))) (cstr_from m (a + 1))))"
  by pat_completeness auto
termination
  by (relation "measure (\<lambda>(m, a). 2 ^ 64 - a)") auto

declare cstr_from.simps [simp del]

text \<open>\<open>read_cstr\<close>; its length limit is not used.\<close>

definition read_cstr :: "jvm \<Rightarrow> jhist \<Rightarrow> u64 \<Rightarrow> string option" where
  "read_cstr J h addr = (if addr = 0 then Some ''null'' else cstr_from (jv_mem J h) (unat addr))"

subsection \<open>The guard and the local frame\<close>

definition with_guard :: "jvm \<Rightarrow> (jhist \<Rightarrow> ('a \<times> jhist) option) \<Rightarrow> jhist \<Rightarrow> ('a \<times> jhist) option" where
  "with_guard J f h0 =
     do { (saved, h1) \<leftarrow> proxy_Jni J ExceptionOccurred h0;
          h2 \<leftarrow> (if saved \<noteq> 0 then exec_Jni J ExceptionClear h1 else Some h1);
          (r, h3) \<leftarrow> f h2;
          (pend, h4) \<leftarrow> proxy_Jni J ExceptionCheck h3;
          h5 \<leftarrow> (if (ucast pend :: u8) \<noteq> 0 then exec_Jni J ExceptionClear h4 else Some h4);
          h6 \<leftarrow> (if saved \<noteq> 0
                then do { h' \<leftarrow> exec_Jni J (Throw saved) h5; exec_Jni J (DeleteLocalRef saved) h' }
                else Some h5);
          Some (r, h6) }"

definition jni_delete_local_ref :: "jvm \<Rightarrow> u64 \<Rightarrow> jhist \<Rightarrow> jhist option" where
  "jni_delete_local_ref J ref h = (if ref \<noteq> 0 then exec_Jni J (DeleteLocalRef ref) h else Some h)"

text \<open>When the frame cannot be pushed, the function returns its default at once.\<close>

definition with_local_frame :: "jvm \<Rightarrow> nat \<Rightarrow> 'a \<Rightarrow> (jhist \<Rightarrow> ('a \<times> jhist) option) \<Rightarrow> jhist \<Rightarrow> ('a \<times> jhist) option" where
  "with_local_frame J cap dflt f h0 =
     do { (r, h1) \<leftarrow> proxy_Jni J (PushLocalFrame cap) h0;
          if (ucast r :: u32) \<noteq> 0 then Some (dflt, h1)
          else do { (a, h2) \<leftarrow> f h1; h3 \<leftarrow> exec_Jni J (PopLocalFrame 0) h2; Some (a, h3) } }"

subsection \<open>What the code relies on\<close>

definition ref_live :: "u64 multiset list \<Rightarrow> u64 \<Rightarrow> bool" where
  "ref_live fs r \<longleftrightarrow> list_ex (\<lambda>f. r \<in># f) fs"

fun top_add :: "u64 multiset \<Rightarrow> u64 multiset list \<Rightarrow> u64 multiset list" where
  "top_add X [] = []"
| "top_add X (f # fs) = (f + X) # fs"

fun top_has :: "u64 \<Rightarrow> u64 multiset list \<Rightarrow> bool" where
  "top_has r [] = False"
| "top_has r (f # fs) = (r \<in># f)"

fun top_del :: "u64 \<Rightarrow> u64 multiset list \<Rightarrow> u64 multiset list" where
  "top_del r [] = []"
| "top_del r (f # fs) = (f - {#r#}) # fs"

definition same_refs :: "jvm \<Rightarrow> jhist \<Rightarrow> jhist \<Rightarrow> bool" where
  "same_refs J h h' \<longleftrightarrow> jv_refs J h' = jv_refs J h"

definition adds_ref :: "jvm \<Rightarrow> u64 \<Rightarrow> jhist \<Rightarrow> jhist \<Rightarrow> bool" where
  "adds_ref J r h h' \<longleftrightarrow> jv_refs J h' = top_add {#r#} (jv_refs J h)"

text \<open>
  The rules of the single functions, for the answer \<open>r\<close> and the history after the call. A function that gives a
  reference adds a local reference or returns NULL, and does not leave an exception behind a reference (as in ART,
  where the result of a call that throws is NULL).
\<close>

fun call_law :: "jvm \<Rightarrow> jhist \<Rightarrow> jni_call \<Rightarrow> u64 \<Rightarrow> jhist \<Rightarrow> bool" where
  "call_law J h ExceptionOccurred r h' =
     (jv_exc J h' = jv_exc J h \<and>
      (case jv_exc J h of
         None \<Rightarrow> r = 0 \<and> same_refs J h h'
       | Some t \<Rightarrow> r \<noteq> 0 \<and> adds_ref J r h h' \<and> jv_obj J h' r = t))"
| "call_law J h ExceptionClear r h' = (jv_exc J h' = None \<and> same_refs J h h')"
| "call_law J h ExceptionCheck r h' =
     (((ucast r :: u8) \<noteq> 0) = (jv_exc J h \<noteq> None) \<and> jv_exc J h' = jv_exc J h \<and> same_refs J h h')"
| "call_law J h (Throw t) r h' = (jv_exc J h' = Some (jv_obj J h t) \<and> same_refs J h h')"
| "call_law J h (DeleteLocalRef l) r h' =
     (top_has l (jv_refs J h) \<longrightarrow> jv_exc J h' = jv_exc J h \<and> jv_refs J h' = top_del l (jv_refs J h))"
| "call_law J h (PushLocalFrame n) r h' =
     (if (ucast r :: u32) = 0 then jv_exc J h' = jv_exc J h \<and> jv_refs J h' = {#} # jv_refs J h else same_refs J h h')"
| "call_law J h (PopLocalFrame l) r h' =
     (l = 0 \<and> 1 < length (jv_refs J h) \<longrightarrow> jv_exc J h' = jv_exc J h \<and> jv_refs J h' = tl (jv_refs J h))"
| "call_law J h (GetMethodID c n s) r h' = (same_refs J h h' \<and> (r \<noteq> 0 \<longrightarrow> jv_exc J h' = None))"
| "call_law J h (CallIntMethod ob m) r h' = same_refs J h h'"
| "call_law J h (IsInstanceOf ob c) r h' = (same_refs J h h' \<and> jv_exc J h' = None)"
| "call_law J h (GetArrayLength a) r h' = (same_refs J h h' \<and> jv_exc J h' = None)"
| "call_law J h (GetStringUTFChars s) r h' =
     (same_refs J h h' \<and> (r \<noteq> 0 \<longrightarrow> jv_exc J h' = None \<and> cstr_from (jv_mem J h') (unat r) \<noteq> None))"
| "call_law J h (ReleaseStringUTFChars s u) r h' = (same_refs J h h' \<and> jv_exc J h' = jv_exc J h)"
| "call_law J h c r h' = (if r = 0 then same_refs J h h' else adds_ref J r h h' \<and> jv_exc J h' = None)"

definition jvm_ok :: "jvm \<Rightarrow> bool" where
  "jvm_ok J \<longleftrightarrow>
     (\<forall>h. jv_refs J h \<noteq> []) \<and>
     (\<forall>h c. jv_exc J h = None \<or> exc_safe c \<longrightarrow>
        call_law J h c (jv_ans J h c) (c # h) \<and>
        (\<forall>r. ref_live (jv_refs J h) r \<and> ref_live (jv_refs J (c # h)) r \<longrightarrow> jv_obj J (c # h) r = jv_obj J h r))"

text \<open>What the traced program sees: its pending exception, its local references and the objects behind them.\<close>

definition neutral :: "jvm \<Rightarrow> jhist \<Rightarrow> jhist \<Rightarrow> bool" where
  "neutral J h h' \<longleftrightarrow>
     jv_exc J h' = jv_exc J h \<and> jv_refs J h' = jv_refs J h \<and>
     (\<forall>r. ref_live (jv_refs J h) r \<longrightarrow> jv_obj J h' r = jv_obj J h r)"

text \<open>Between a call and the end of a helper there are references of its own in the innermost frame.\<close>

definition grown :: "jvm \<Rightarrow> jhist \<Rightarrow> u64 multiset \<Rightarrow> jhist \<Rightarrow> bool" where
  "grown J h X h' \<longleftrightarrow>
     jv_refs J h' = top_add X (jv_refs J h) \<and> (\<forall>r. ref_live (jv_refs J h) r \<longrightarrow> jv_obj J h' r = jv_obj J h r)"

subsection \<open>Steps\<close>

lemma top_add_empty [simp]: "top_add {#} fs = fs"
  by (cases fs) auto

lemma top_add_add: "top_add Y (top_add X fs) = top_add (X + Y) fs"
  by (cases fs) auto

lemma top_add_del: "r \<in># X \<Longrightarrow> top_del r (top_add X fs) = top_add (X - {#r#}) fs"
  by (cases fs) (auto simp: multiset_eq_iff)

lemma ref_live_top_add: "ref_live fs r \<Longrightarrow> ref_live (top_add X fs) r"
  by (cases fs) (auto simp: ref_live_def)

lemma top_has_add: "fs \<noteq> [] \<Longrightarrow> r \<in># X \<Longrightarrow> top_has r (top_add X fs)"
  by (cases fs) auto

lemma neutral_refl [simp, intro]: "neutral J h h"
  by (simp add: neutral_def)

lemma neutral_trans: "neutral J h h' \<Longrightarrow> neutral J h' h'' \<Longrightarrow> neutral J h h''"
  by (simp add: neutral_def)

lemma grown_refl [simp, intro]: "grown J h {#} h"
  by (simp add: grown_def)

lemma neutral_grown: "neutral J h h' \<longleftrightarrow> grown J h {#} h' \<and> jv_exc J h' = jv_exc J h"
  by (auto simp: grown_def neutral_def)

lemma grown_trans: "grown J h X h' \<Longrightarrow> grown J h' Y h'' \<Longrightarrow> grown J h (X + Y) h''"
  by (simp add: grown_def top_add_add ref_live_top_add)

text \<open>A call of each kind, from a history that is reached from \<open>h0\<close>.\<close>

lemma jvm_call:
  assumes "jvm_ok J" "jv_exc J h = None \<or> exc_safe c"
  shows "proxy_Jni J c h = Some (jv_ans J h c, c # h)" "call_law J h c (jv_ans J h c) (c # h)"
    "ref_live (jv_refs J h) r \<Longrightarrow> ref_live (jv_refs J (c # h)) r \<Longrightarrow> jv_obj J (c # h) r = jv_obj J h r"
  using assms by (auto simp: proxy_Jni_def jvm_ok_def)

lemma grown_same:
  assumes "jvm_ok J" "jv_exc J h = None \<or> exc_safe c" "grown J h0 X h" "same_refs J h (c # h)"
  shows "grown J h0 X (c # h)"
  using assms jvm_call(3) [OF assms(1,2)] by (simp add: grown_def same_refs_def ref_live_top_add)

lemma grown_adds:
  assumes "jvm_ok J" "jv_exc J h = None \<or> exc_safe c" "grown J h0 X h" "adds_ref J r h (c # h)"
  shows "grown J h0 (add_mset r X) (c # h)"
  using assms jvm_call(3) [OF assms(1,2)] by (simp add: grown_def adds_ref_def top_add_add ref_live_top_add)

lemma grown_delete:
  assumes "jvm_ok J" "grown J h0 X h" "r \<in># X"
  shows "grown J h0 (X - {#r#}) (DeleteLocalRef r # h) \<and> jv_exc J (DeleteLocalRef r # h) = jv_exc J h"
proof -
  have "top_has r (jv_refs J h)"
    using assms by (simp add: grown_def jvm_ok_def top_has_add)
  then have "jv_exc J (DeleteLocalRef r # h) = jv_exc J h" "jv_refs J (DeleteLocalRef r # h) = top_add (X - {#r#}) (jv_refs J h0)"
    using jvm_call(2) [OF assms(1), of h "DeleteLocalRef r"] assms by (simp_all add: grown_def top_add_del)
  then show ?thesis
    using jvm_call(3) [OF assms(1), of h "DeleteLocalRef r"] assms by (simp add: grown_def ref_live_top_add)
qed

subsection \<open>The guard hides what runs under it\<close>

text \<open>\<open>tot Q m\<close>: the routine returns, and the result satisfies \<open>Q\<close>.\<close>

definition tot :: "('a \<Rightarrow> bool) \<Rightarrow> 'a option \<Rightarrow> bool" where
  "tot Q m \<longleftrightarrow> (\<exists>x. m = Some x \<and> Q x)"

lemma tot_bind: "tot (\<lambda>x. tot Q (k x)) m \<Longrightarrow> tot Q (m \<bind> k)"
  by (auto simp: tot_def)

lemma tot_Some [simp]: "tot Q (Some x) = Q x"
  by (simp add: tot_def)

lemma tot_ex: "tot (\<lambda>(a, b). P a b) m \<Longrightarrow> \<exists>a b. m = Some (a, b) \<and> P a b"
  by (auto simp: tot_def)

lemma tot_mono: "tot Q m \<Longrightarrow> (\<And>x. Q x \<Longrightarrow> R x) \<Longrightarrow> tot R m"
  by (auto simp: tot_def)

lemma exec_Jni_tot: "tot (\<lambda>x. Q (snd x)) (proxy_Jni J c h) \<Longrightarrow> tot Q (exec_Jni J c h)"
  by (auto simp: tot_def exec_Jni_def)

lemma tot_occurred:
  assumes "jvm_ok J"
  shows "tot (\<lambda>(r, h'). case jv_exc J h of
       None \<Rightarrow> r = 0 \<and> jv_exc J h' = None \<and> grown J h {#} h'
     | Some t \<Rightarrow> r \<noteq> 0 \<and> jv_exc J h' = Some t \<and> grown J h {#r#} h' \<and> jv_obj J h' r = t) (proxy_Jni J ExceptionOccurred h)"
  using jvm_call(1,2) [OF assms, of h ExceptionOccurred] grown_same [OF assms, of h ExceptionOccurred h "{#}"]
    grown_adds [OF assms, of h ExceptionOccurred h "{#}"]
  by (auto simp: tot_def split: option.splits)

lemma tot_clear:
  assumes "jvm_ok J" "grown J h0 X h"
  shows "tot (\<lambda>h'. jv_exc J h' = None \<and> grown J h0 X h') (exec_Jni J ExceptionClear h)"
  using jvm_call(1,2) [OF assms(1), of h ExceptionClear] grown_same [OF assms(1), of h ExceptionClear h0 X] assms(2)
  by (auto simp: tot_def exec_Jni_def)

lemma tot_check:
  assumes "jvm_ok J" "grown J h0 X h"
  shows "tot (\<lambda>(r, h'). ((ucast r :: u8) \<noteq> 0) = (jv_exc J h \<noteq> None) \<and> jv_exc J h' = jv_exc J h \<and> grown J h0 X h')
    (proxy_Jni J ExceptionCheck h)"
  using jvm_call(1,2) [OF assms(1), of h ExceptionCheck] grown_same [OF assms(1), of h ExceptionCheck h0 X] assms(2)
  by (auto simp: tot_def)

lemma tot_throw:
  assumes "jvm_ok J" "grown J h0 X h" "jv_exc J h = None"
  shows "tot (\<lambda>h'. jv_exc J h' = Some (jv_obj J h t) \<and> grown J h0 X h') (exec_Jni J (Throw t) h)"
  using jvm_call(1,2) [OF assms(1), of h "Throw t"] grown_same [OF assms(1), of h "Throw t" h0 X] assms(2,3)
  by (auto simp: tot_def exec_Jni_def)

lemma tot_delete:
  assumes "jvm_ok J" "grown J h0 X h" "r \<in># X"
  shows "tot (\<lambda>h'. jv_exc J h' = jv_exc J h \<and> grown J h0 (X - {#r#}) h') (exec_Jni J (DeleteLocalRef r) h)"
  using jvm_call(1) [OF assms(1), of h "DeleteLocalRef r"] grown_delete [OF assms]
  by (auto simp: tot_def exec_Jni_def)

text \<open>After the body: the exception of the body is cleared, the saved one is thrown again and its reference deleted.\<close>

definition guard_end :: "jvm \<Rightarrow> u64 \<Rightarrow> jhist \<Rightarrow> jhist option" where
  "guard_end J saved h3 =
     do { (pend, h4) \<leftarrow> proxy_Jni J ExceptionCheck h3;
          h5 \<leftarrow> (if (ucast pend :: u8) \<noteq> 0 then exec_Jni J ExceptionClear h4 else Some h4);
          (if saved \<noteq> 0
           then do { h' \<leftarrow> exec_Jni J (Throw saved) h5; exec_Jni J (DeleteLocalRef saved) h' }
           else Some h5) }"

lemma guard_clears:
  assumes "jvm_ok J" "grown J h0 X h"
  shows "tot (\<lambda>h'. jv_exc J h' = None \<and> grown J h0 X h')
    (do { (pend, h4) \<leftarrow> proxy_Jni J ExceptionCheck h;
          (if (ucast pend :: u8) \<noteq> 0 then exec_Jni J ExceptionClear h4 else Some h4) })"
  by (rule tot_bind, rule tot_mono [OF tot_check [OF assms]]) (auto intro: tot_clear [OF assms(1)])

lemma guard_end_alt:
  "guard_end J saved h =
    do { h5 \<leftarrow> (do { (pend, h4) \<leftarrow> proxy_Jni J ExceptionCheck h;
                     (if (ucast pend :: u8) \<noteq> 0 then exec_Jni J ExceptionClear h4 else Some h4) });
         (if saved \<noteq> 0
          then do { h' \<leftarrow> exec_Jni J (Throw saved) h5; exec_Jni J (DeleteLocalRef saved) h' }
          else Some h5) }"
  by (simp add: guard_end_def split_def)

lemma guard_end_none:
  assumes "jvm_ok J" "grown J h0 X h"
  shows "tot (\<lambda>h'. jv_exc J h' = None \<and> grown J h0 X h') (guard_end J 0 h)"
  unfolding guard_end_alt by (rule tot_bind, rule tot_mono [OF guard_clears [OF assms]]) simp

lemma guard_end_some:
  assumes J: "jvm_ok J" and h1: "grown J h0 {#saved#} h1" and h: "grown J h1 {#} h" and saved: "saved \<noteq> 0"
  shows "tot (\<lambda>h'. jv_exc J h' = Some (jv_obj J h1 saved) \<and> grown J h0 {#} h') (guard_end J saved h)"
proof -
  have live: "ref_live (jv_refs J h1) saved"
    using J h1 by (cases "jv_refs J h0") (auto simp: grown_def ref_live_def jvm_ok_def)
  have fin: "tot (\<lambda>h'. jv_exc J h' = Some (jv_obj J h1 saved) \<and> grown J h0 {#} h')
      (do { h' \<leftarrow> exec_Jni J (Throw saved) h5; exec_Jni J (DeleteLocalRef saved) h' })"
    if "jv_exc J h5 = None \<and> grown J h1 {#} h5" for h5
  proof (rule tot_bind, rule tot_mono [OF tot_throw [OF J, of h1 "{#}" h5 saved]])
    fix h' assume h': "jv_exc J h' = Some (jv_obj J h5 saved) \<and> grown J h1 {#} h'"
    have "grown J h0 {#saved#} h'" using grown_trans [OF h1, of "{#}" h'] h' by simp
    from tot_delete [OF J this] h' that live
    show "tot (\<lambda>h'. jv_exc J h' = Some (jv_obj J h1 saved) \<and> grown J h0 {#} h') (exec_Jni J (DeleteLocalRef saved) h')"
      by (auto simp: grown_def elim!: tot_mono)
  qed (use that in auto)
  show ?thesis
    unfolding guard_end_alt by (rule tot_bind, rule tot_mono [OF guard_clears [OF J h]]) (simp add: saved fin)
qed

lemma with_guard_end:
  "with_guard J f h0 =
    do { (saved, h1) \<leftarrow> proxy_Jni J ExceptionOccurred h0;
         h2 \<leftarrow> (if saved \<noteq> 0 then exec_Jni J ExceptionClear h1 else Some h1);
         (r, h3) \<leftarrow> f h2;
         h6 \<leftarrow> guard_end J saved h3;
         Some (r, h6) }"
  by (simp add: with_guard_def guard_end_def split_def)

lemma guard_body:
  assumes J: "jvm_ok J"
  obtains h2 where "jv_exc J h2 = None" and "f h2 = None \<Longrightarrow> with_guard J f h0 = None"
    and "\<And>a h3. f h2 = Some (a, h3) \<Longrightarrow> grown J h2 {#} h3 \<Longrightarrow> tot (\<lambda>(b, h'). b = a \<and> neutral J h0 h') (with_guard J f h0)"
proof (cases "jv_exc J h0")
  case None
  then obtain h1 where h1: "proxy_Jni J ExceptionOccurred h0 = Some (0, h1)" "jv_exc J h1 = None" "grown J h0 {#} h1"
    using tot_occurred [OF J, of h0] by (auto simp: tot_def)
  have "tot (\<lambda>(b, h'). b = a \<and> neutral J h0 h') (with_guard J f h0)" if "f h1 = Some (a, h3)" "grown J h1 {#} h3" for a h3
    using guard_end_none [OF J grown_trans [OF h1(3) that(2)]] h1 None that
    by (auto simp: with_guard_end tot_def neutral_grown)
  then show ?thesis using that [of h1] h1 by (auto simp: with_guard_end)
next
  case (Some t)
  then obtain s h1 where h1: "proxy_Jni J ExceptionOccurred h0 = Some (s, h1)" "s \<noteq> 0" "grown J h0 {#s#} h1" "jv_obj J h1 s = t"
    using tot_occurred [OF J, of h0] by (auto simp: tot_def)
  obtain h2 where h2: "exec_Jni J ExceptionClear h1 = Some h2" "jv_exc J h2 = None" "grown J h1 {#} h2"
    using tot_clear [OF J grown_refl, of h1] by (auto simp: tot_def)
  have "tot (\<lambda>(b, h'). b = a \<and> neutral J h0 h') (with_guard J f h0)" if "f h2 = Some (a, h3)" "grown J h2 {#} h3" for a h3
    using guard_end_some [OF J h1(3) _ h1(2), of h3] grown_trans [OF h2(3) that(2)] h1 h2 Some that
    by (auto simp: with_guard_end tot_def neutral_grown)
  then show ?thesis using that [of h2] h1 h2 by (auto simp: with_guard_end)
qed

definition par :: "('a \<Rightarrow> bool) \<Rightarrow> 'a option \<Rightarrow> bool" where
  "par Q m \<longleftrightarrow> (\<forall>x. m = Some x \<longrightarrow> Q x)"

lemma guard_runs:
  assumes "jvm_ok J" and "\<And>h. jv_exc J h = None \<Longrightarrow> tot (\<lambda>(a, h'). grown J h {#} h') (f h)"
  shows "tot (\<lambda>(a, h'). neutral J h0 h') (with_guard J f h0)"
proof -
  obtain h2 where h2: "jv_exc J h2 = None"
    "\<And>a h3. f h2 = Some (a, h3) \<Longrightarrow> grown J h2 {#} h3 \<Longrightarrow> tot (\<lambda>(b, h'). b = a \<and> neutral J h0 h') (with_guard J f h0)"
    by (rule guard_body [OF assms(1), of f h0]) blast
  from assms(2) [OF h2(1)] obtain a h3 where "f h2 = Some (a, h3)" "grown J h2 {#} h3" by (auto simp: tot_def)
  from h2(2) [OF this] show ?thesis by (rule tot_mono) auto
qed

lemma guard_neutral:
  assumes "jvm_ok J" and "\<And>h. jv_exc J h = None \<Longrightarrow> par (\<lambda>(a, h'). grown J h {#} h') (f h)"
  shows "par (\<lambda>(a, h'). neutral J h0 h') (with_guard J f h0)"
proof -
  obtain h2 where h2: "jv_exc J h2 = None" "f h2 = None \<Longrightarrow> with_guard J f h0 = None"
    "\<And>a h3. f h2 = Some (a, h3) \<Longrightarrow> grown J h2 {#} h3 \<Longrightarrow> tot (\<lambda>(b, h'). b = a \<and> neutral J h0 h') (with_guard J f h0)"
    by (rule guard_body [OF assms(1), of f h0]) (rule that)
  show ?thesis
  proof (cases "f h2")
    case (Some p)
    then have "tot (\<lambda>(b, h'). b = fst p \<and> neutral J h0 h') (with_guard J f h0)"
      using assms(2) [OF h2(1)] h2(3) [of "fst p" "snd p"] by (auto simp: par_def split_beta)
    then show ?thesis by (auto simp: par_def tot_def)
  qed (use h2(2) in \<open>simp add: par_def\<close>)
qed

subsection \<open>Calls without a pending exception\<close>

lemma tot_step: "tot P m \<Longrightarrow> (\<And>x. P x \<Longrightarrow> tot Q (k x)) \<Longrightarrow> tot Q (m \<bind> k)"
  by (auto simp: tot_def)

fun ref_call :: "jni_call \<Rightarrow> bool" where
  "ref_call (FindClass n) = True"
| "ref_call (CallObjectMethod ob m) = True"
| "ref_call (GetObjectClass ob) = True"
| "ref_call (ToReflectedMethod c m s) = True"
| "ref_call (ToReflectedField c f s) = True"
| "ref_call (GetObjectArrayElement a i) = True"
| "ref_call c = False"

lemma tot_ref:
  assumes "jvm_ok J" "jv_exc J h = None" "grown J h0 X h" "ref_call c"
  shows "tot (\<lambda>(r, h'). if r = 0 then grown J h0 X h' else jv_exc J h' = None \<and> grown J h0 (add_mset r X) h') (proxy_Jni J c h)"
proof -
  have "call_law J h c r h' = (if r = 0 then same_refs J h h' else adds_ref J r h h' \<and> jv_exc J h' = None)" for r h'
    using assms(4) by (cases c) auto
  then show ?thesis
    using jvm_call(1,2) [OF assms(1), of h c] grown_same [OF assms(1) _ assms(3), of c] grown_adds [OF assms(1) _ assms(3), of c]
      assms(2)
    by (auto simp: tot_def split: if_splits)
qed

lemma tot_method:
  assumes "jvm_ok J" "jv_exc J h = None" "grown J h0 X h"
  shows "tot (\<lambda>(r, h'). (r \<noteq> 0 \<longrightarrow> jv_exc J h' = None) \<and> grown J h0 X h') (proxy_Jni J (GetMethodID c n s) h)"
  using jvm_call(1,2) [OF assms(1), of h "GetMethodID c n s"] grown_same [OF assms(1) _ assms(3)] assms(2)
  by (auto simp: tot_def)

lemma tot_chars:
  assumes "jvm_ok J" "jv_exc J h = None" "grown J h0 X h"
  shows "tot (\<lambda>(r, h'). (r \<noteq> 0 \<longrightarrow> jv_exc J h' = None \<and> (\<exists>s. cstr_from (jv_mem J h') (unat r) = Some s)) \<and> grown J h0 X h')
    (proxy_Jni J (GetStringUTFChars js) h)"
  using jvm_call(1,2) [OF assms(1), of h "GetStringUTFChars js"] grown_same [OF assms(1) _ assms(3)] assms(2)
  by (auto simp: tot_def)

lemma tot_int:
  assumes "jvm_ok J" "jv_exc J h = None" "grown J h0 X h"
  shows "tot (\<lambda>(r, h'). grown J h0 X h') (proxy_Jni J (CallIntMethod ob m) h)"
  using jvm_call(1,2) [OF assms(1), of h "CallIntMethod ob m"] grown_same [OF assms(1) _ assms(3)] assms(2)
  by (auto simp: tot_def)

lemma tot_instance:
  assumes "jvm_ok J" "jv_exc J h = None" "grown J h0 X h"
  shows "tot (\<lambda>(r, h'). jv_exc J h' = None \<and> grown J h0 X h') (proxy_Jni J (IsInstanceOf ob c) h)"
  using jvm_call(1,2) [OF assms(1), of h "IsInstanceOf ob c"] grown_same [OF assms(1) _ assms(3)] assms(2)
  by (auto simp: tot_def)

lemma tot_length:
  assumes "jvm_ok J" "jv_exc J h = None" "grown J h0 X h"
  shows "tot (\<lambda>(r, h'). jv_exc J h' = None \<and> grown J h0 X h') (proxy_Jni J (GetArrayLength a) h)"
  using jvm_call(1,2) [OF assms(1), of h "GetArrayLength a"] grown_same [OF assms(1) _ assms(3)] assms(2)
  by (auto simp: tot_def)

lemma tot_release:
  assumes "jvm_ok J" "grown J h0 X h"
  shows "tot (\<lambda>h'. jv_exc J h' = jv_exc J h \<and> grown J h0 X h') (exec_Jni J (ReleaseStringUTFChars js u) h)"
  using jvm_call(1,2) [OF assms(1), of h "ReleaseStringUTFChars js u"] grown_same [OF assms(1) _ assms(2)]
  by (auto simp: tot_def exec_Jni_def)

lemma tot_drop:
  assumes "jvm_ok J" "grown J h0 (add_mset r X) h" "r \<noteq> 0"
  shows "tot (\<lambda>h'. jv_exc J h' = jv_exc J h \<and> grown J h0 X h') (jni_delete_local_ref J r h)"
  using tot_delete [OF assms(1,2), of r] assms(3) by (simp add: jni_delete_local_ref_def)

lemma neutral_step: "grown J h0 X h \<Longrightarrow> neutral J h h' \<Longrightarrow> jv_exc J h' = jv_exc J h \<and> grown J h0 X h'"
  using grown_trans [of J h0 X h "{#}" h'] by (auto simp: neutral_grown)

lemma tot_neutral: "grown J h0 X h \<Longrightarrow> tot (\<lambda>(s, h'). neutral J h h') m \<Longrightarrow> tot (\<lambda>(s, h'). grown J h0 X h') m"
  by (auto simp: tot_def dest: neutral_step)

text \<open>The same as steps of a routine: one case for NULL, one for an answer.\<close>

lemma ref_step:
  assumes "jvm_ok J" "jv_exc J h = None" "grown J h0 X h" "ref_call c"
    and "\<And>h'. grown J h0 X h' \<Longrightarrow> tot Q (k (0, h'))"
    and "\<And>r h'. r \<noteq> 0 \<Longrightarrow> jv_exc J h' = None \<Longrightarrow> grown J h0 (add_mset r X) h' \<Longrightarrow> tot Q (k (r, h'))"
  shows "tot Q (proxy_Jni J c h \<bind> k)"
proof (rule tot_step [OF tot_ref [OF assms(1-4)]], clarify)
  fix r :: u64 and h' assume "if r = 0 then grown J h0 X h' else jv_exc J h' = None \<and> grown J h0 (add_mset r X) h'"
  then show "tot Q (k (r, h'))" using assms(5,6) by (cases "r = 0") auto
qed

lemma method_step:
  assumes "jvm_ok J" "jv_exc J h = None" "grown J h0 X h"
    and "\<And>h'. grown J h0 X h' \<Longrightarrow> tot Q (k (0, h'))"
    and "\<And>r h'. r \<noteq> 0 \<Longrightarrow> jv_exc J h' = None \<Longrightarrow> grown J h0 X h' \<Longrightarrow> tot Q (k (r, h'))"
  shows "tot Q (proxy_Jni J (GetMethodID c n s) h \<bind> k)"
proof (rule tot_step [OF tot_method [OF assms(1-3)]], clarify)
  fix r :: u64 and h' assume "r \<noteq> 0 \<longrightarrow> jv_exc J h' = None" "grown J h0 X h'"
  then show "tot Q (k (r, h'))" using assms(4,5) by (cases "r = 0") auto
qed

lemma chars_step:
  assumes "jvm_ok J" "jv_exc J h = None" "grown J h0 X h"
    and "\<And>h'. grown J h0 X h' \<Longrightarrow> tot Q (k (0, h'))"
    and "\<And>r h' s. r \<noteq> 0 \<Longrightarrow> jv_exc J h' = None \<Longrightarrow> grown J h0 X h' \<Longrightarrow> cstr_from (jv_mem J h') (unat r) = Some s \<Longrightarrow> tot Q (k (r, h'))"
  shows "tot Q (proxy_Jni J (GetStringUTFChars js) h \<bind> k)"
proof (rule tot_step [OF tot_chars [OF assms(1-3)]], clarify)
  fix r :: u64 and h'
  assume "r \<noteq> 0 \<longrightarrow> jv_exc J h' = None \<and> (\<exists>s. cstr_from (jv_mem J h') (unat r) = Some s)" "grown J h0 X h'"
  then show "tot Q (k (r, h'))" using assms(4,5) by (cases "r = 0") auto
qed

lemma drop_step:
  assumes "jvm_ok J" "grown J h0 (add_mset r X) h" "r \<noteq> 0"
    and "\<And>h'. jv_exc J h' = jv_exc J h \<Longrightarrow> grown J h0 X h' \<Longrightarrow> tot Q (k h')"
  shows "tot Q (jni_delete_local_ref J r h \<bind> k)"
  by (rule tot_step [OF tot_drop [OF assms(1-3)]]) (use assms(4) in auto)

end
