(* ===== verification/Jni_Print.thy ===== *)
theory Jni_Print
  imports Jni_Env
begin

text \<open>
  How the handlers of \<open>trace/src/JniTrace.cpp\<close> print objects, strings and addresses. Whatever the VM does, these
  routines return, never call into it with an exception pending, and leave the traced program's pending exception and
  its local references as they were.
\<close>

subsection \<open>Printing objects\<close>

definition dq :: string where
  "dq = [CHR 0x22]"

definition hex64 :: "u64 \<Rightarrow> string" where
  "hex64 v = uint64ToHex v"

definition hex32 :: "u64 \<Rightarrow> string" where
  "hex32 v = uint64ToHex (ucast (ucast v :: u32))"

definition getJClassName :: "jvm \<Rightarrow> u64 \<Rightarrow> jhist \<Rightarrow> (string \<times> jhist) option" where
  "getJClassName J clazz h0 =
     (if clazz = 0 then Some (''null'', h0)
      else with_guard J (\<lambda>h.
        do { (classClass, h) \<leftarrow> proxy_Jni J (FindClass ''java/lang/Class'') h;
             if classClass = 0 then Some (''?'', h)
             else do {
               (mid, h) \<leftarrow> proxy_Jni J (GetMethodID classClass ''getName'' ''()Ljava/lang/String;'') h;
               if mid = 0 then do { h \<leftarrow> jni_delete_local_ref J classClass h; Some (''?'', h) }
               else do {
                 (nameStr, h) \<leftarrow> proxy_Jni J (CallObjectMethod clazz mid) h;
                 if nameStr = 0 then do { h \<leftarrow> jni_delete_local_ref J classClass h; Some (''?'', h) }
                 else do {
                   (utf, h) \<leftarrow> proxy_Jni J (GetStringUTFChars nameStr) h;
                   if utf = 0
                   then do { h \<leftarrow> jni_delete_local_ref J nameStr h; h \<leftarrow> jni_delete_local_ref J classClass h; Some (''?'', h) }
                   else do {
                     result \<leftarrow> cstr_from (jv_mem J h) (unat utf);
                     h \<leftarrow> exec_Jni J (ReleaseStringUTFChars nameStr utf) h;
                     h \<leftarrow> jni_delete_local_ref J nameStr h;
                     h \<leftarrow> jni_delete_local_ref J classClass h;
                     Some (result, h) } } } } }) h0)"

definition print_jstring :: "jvm \<Rightarrow> u64 \<Rightarrow> jhist \<Rightarrow> (string \<times> jhist) option" where
  "print_jstring J js h0 =
     (if js = 0 then Some (''null'', h0)
      else with_guard J (\<lambda>h.
        do { (utf, h) \<leftarrow> proxy_Jni J (GetStringUTFChars js) h;
             if utf = 0 then Some (''jstring@0x'' @ hex64 js, h)
             else do { s \<leftarrow> cstr_from (jv_mem J h) (unat utf);
                       h \<leftarrow> exec_Jni J (ReleaseStringUTFChars js utf) h;
                       Some (dq @ s @ dq, h) } }) h0)"

definition print_jobject_safe :: "jvm \<Rightarrow> u64 \<Rightarrow> jhist \<Rightarrow> (string \<times> jhist) option" where
  "print_jobject_safe J obj h0 =
     (if obj = 0 then Some (''null'', h0)
      else with_guard J (\<lambda>h.
        do { (cls, h) \<leftarrow> proxy_Jni J (GetObjectClass obj) h;
             if cls = 0 then Some (''object@0x'' @ hex64 obj, h)
             else do {
               (name, h) \<leftarrow> getJClassName J cls h;
               (mid_hash, h) \<leftarrow> proxy_Jni J (GetMethodID cls ''hashCode'' ''()I'') h;
               (s, h) \<leftarrow> (if mid_hash \<noteq> 0
                  then do { (hash, h) \<leftarrow> proxy_Jni J (CallIntMethod obj mid_hash) h; Some (name @ ''@'' @ hex32 hash, h) }
                  else Some (name @ ''@'' @ hex32 obj, h));
               h \<leftarrow> jni_delete_local_ref J cls h;
               Some (s, h) } }) h0)"

text \<open>Whether an object is a string: the class is looked up, asked and deleted again.\<close>

definition is_jstring :: "jvm \<Rightarrow> u64 \<Rightarrow> jhist \<Rightarrow> (bool \<times> jhist) option" where
  "is_jstring J obj h =
     do { (strCls, h) \<leftarrow> proxy_Jni J (FindClass ''java/lang/String'') h;
          (isStr, h) \<leftarrow> (if strCls \<noteq> 0 then proxy_Jni J (IsInstanceOf obj strCls) h else Some (0, h));
          h \<leftarrow> jni_delete_local_ref J strCls h;
          Some ((ucast isStr :: u8) \<noteq> 0, h) }"

definition print_jobject_or_string :: "jvm \<Rightarrow> u64 \<Rightarrow> jhist \<Rightarrow> (string \<times> jhist) option" where
  "print_jobject_or_string J obj h0 =
     (if obj = 0 then Some (''null'', h0)
      else with_guard J (\<lambda>h.
        do { (isStr, h) \<leftarrow> is_jstring J obj h;
             if isStr then print_jstring J obj h else print_jobject_safe J obj h }) h0)"

subsection \<open>Addresses\<close>

definition format_lr :: "jvm \<Rightarrow> u64 \<Rightarrow> string" where
  "format_lr J lr =
     (let (base, file) = (case jv_dladdr J lr of Some i \<Rightarrow> i | None \<Rightarrow> (0, None));
          so = (case file of Some f \<Rightarrow> after_slash f | None \<Rightarrow> ''unknown'') in
      '' @ ['' @ so @ '']0x'' @ hex64 (lr - base))"

definition format_addr :: "jvm \<Rightarrow> u64 \<Rightarrow> string" where
  "format_addr J addr =
     (if addr = 0 then ''null''
      else ''0x'' @ hex64 addr @
        (case jv_dladdr J addr of
           None \<Rightarrow> []
         | Some (base, file) \<Rightarrow>
             if base = 0 then []
             else ''['' @ (case file of Some f \<Rightarrow> after_slash f | None \<Rightarrow> ''?'') @ '']0x'' @ hex64 (addr - base)))"

subsection \<open>The printers return and are neutral\<close>

text \<open>The end of \<open>getJClassName\<close>, with the name and the class as references of its own.\<close>

lemma class_name_chars:
  assumes J: "jvm_ok J" and "jv_exc J h1 = None" "grown J h {#name, cc#} h1" "name \<noteq> 0" "cc \<noteq> 0"
  shows "tot (\<lambda>(s, h'). grown J h {#} h')
    (do { (utf, h2) \<leftarrow> proxy_Jni J (GetStringUTFChars name) h1;
          if utf = 0
          then do { h3 \<leftarrow> jni_delete_local_ref J name h2; h4 \<leftarrow> jni_delete_local_ref J cc h3; Some (''?'', h4) }
          else do {
            result \<leftarrow> cstr_from (jv_mem J h2) (unat utf);
            h3 \<leftarrow> exec_Jni J (ReleaseStringUTFChars name utf) h2;
            h4 \<leftarrow> jni_delete_local_ref J name h3;
            h5 \<leftarrow> jni_delete_local_ref J cc h4;
            Some (result, h5) } })"
  by (rule tot_step [OF tot_chars [OF J assms(2,3)]])
    (use assms(4,5) in \<open>auto intro!: tot_step [OF tot_drop [OF J]] tot_step [OF tot_release [OF J]]\<close>)

lemma getJClassName_runs:
  assumes J: "jvm_ok J"
  shows "tot (\<lambda>(s, h'). neutral J h0 h') (getJClassName J clazz h0)"
proof (cases "clazz = 0")
  case False
  show ?thesis
    unfolding getJClassName_def if_not_P [OF False]
    apply (rule guard_runs [OF J])
    apply (rule ref_step [OF J _ grown_refl], assumption, simp, simp, simp)
    apply (rule method_step [OF J], assumption, assumption, simp)
     apply (rule drop_step [OF J], assumption, assumption, simp)
    apply simp
    apply (rule ref_step [OF J], assumption, assumption, simp, simp)
     apply (rule drop_step [OF J], assumption, assumption, simp)
    apply simp
    apply (rule class_name_chars [OF J, simplified], assumption+)
    done
qed (simp add: getJClassName_def)

lemma print_jstring_runs:
  assumes J: "jvm_ok J"
  shows "tot (\<lambda>(s, h'). neutral J h0 h') (print_jstring J js h0)"
proof (cases "js = 0")
  case False
  show ?thesis
    unfolding print_jstring_def if_not_P [OF False]
    by (rule guard_runs [OF J], rule chars_step [OF J _ grown_refl])
      (auto intro!: tot_step [OF tot_release [OF J]])
qed (simp add: print_jstring_def)

lemma is_jstring_runs:
  assumes J: "jvm_ok J" and h: "jv_exc J h = None"
  shows "tot (\<lambda>(b, h'). grown J h {#} h') (is_jstring J ob h)"
  unfolding is_jstring_def
  apply (rule ref_step [OF J h grown_refl], simp)
   apply (simp add: jni_delete_local_ref_def)
  apply (simp, rule tot_step [OF tot_instance [OF J]], assumption, assumption)
  apply (clarsimp, rule drop_step [OF J], assumption, assumption, simp)
  done

lemma print_jobject_safe_runs:
  assumes J: "jvm_ok J"
  shows "tot (\<lambda>(s, h'). neutral J h0 h') (print_jobject_safe J ob h0)"
proof (cases "ob = 0")
  case False
  show ?thesis
    unfolding print_jobject_safe_def if_not_P [OF False]
    apply (rule guard_runs [OF J])
    apply (rule ref_step [OF J _ grown_refl], assumption, simp, simp, simp)
    apply (rule tot_step [OF getJClassName_runs [OF J]])
    apply (clarsimp, drule (1) neutral_step, clarsimp)
    apply (rule method_step [OF J], assumption, assumption, simp)
     apply (rule drop_step [OF J], assumption, assumption, simp)
    apply simp
    apply (rule tot_step [OF tot_int [OF J]], assumption, assumption)
    apply (clarsimp, rule drop_step [OF J], assumption, assumption, simp)
    done
qed (simp add: print_jobject_safe_def)

lemma print_jobject_or_string_runs:
  assumes J: "jvm_ok J"
  shows "tot (\<lambda>(s, h'). neutral J h0 h') (print_jobject_or_string J ob h0)"
proof (cases "ob = 0")
  case False
  have "tot (\<lambda>(s, h'). grown J h {#} h') (do { (b, h) \<leftarrow> is_jstring J ob h; if b then print_jstring J ob h else print_jobject_safe J ob h })"
    if h: "jv_exc J h = None" for h
  proof (rule tot_step [OF is_jstring_runs [OF J h]], clarify)
    fix b h1 assume "grown J h {#} h1"
    then show "tot (\<lambda>(s, h'). grown J h {#} h') (if b then print_jstring J ob h1 else print_jobject_safe J ob h1)"
      using tot_neutral [OF _ print_jstring_runs [OF J]] tot_neutral [OF _ print_jobject_safe_runs [OF J]] by simp
  qed
  then show ?thesis
    unfolding print_jobject_or_string_def if_not_P [OF False] by (rule guard_runs [OF J])
qed (simp add: print_jobject_or_string_def)

subsection \<open>A concrete VM\<close>

text \<open>
  An exception (object 7) is pending from the start, object 5 is a string, every class is object 16, every method
  has id 32, and every string has the characters \<open>a.B\<close> at address 4096. References are the objects themselves.
\<close>

fun demo_exc :: "jhist \<Rightarrow> u64 option" where
  "demo_exc [] = Some 7"
| "demo_exc (ExceptionClear # h) = None"
| "demo_exc (Throw t # h) = Some (if t = 0 then 7 else t)"
| "demo_exc (c # h) = demo_exc h"

fun demo_ans :: "jhist \<Rightarrow> jni_call \<Rightarrow> u64" where
  "demo_ans h ExceptionOccurred = (case demo_exc h of None \<Rightarrow> 0 | Some t \<Rightarrow> t)"
| "demo_ans h ExceptionCheck = (if demo_exc h = None then 0 else 1)"
| "demo_ans h (GetMethodID c n s) = 32"
| "demo_ans h (CallIntMethod ob m) = 0xBEEF"
| "demo_ans h (IsInstanceOf ob c) = (if ob = 5 then 1 else 0)"
| "demo_ans h (GetStringUTFChars s) = 4096"
| "demo_ans h c = (if ref_call c then 16 else 0)"

fun demo_refs :: "jhist \<Rightarrow> u64 multiset list" where
  "demo_refs [] = [{#}]"
| "demo_refs (c # h) =
    (case c of
       ExceptionOccurred \<Rightarrow> (if demo_exc h = None then demo_refs h else top_add {#demo_ans h c#} (demo_refs h))
     | DeleteLocalRef l \<Rightarrow> top_del l (demo_refs h)
     | PushLocalFrame n \<Rightarrow> {#} # demo_refs h
     | PopLocalFrame l \<Rightarrow> (if 1 < length (demo_refs h) then tl (demo_refs h) else demo_refs h)
     | _ \<Rightarrow> (if ref_call c then top_add {#demo_ans h c#} (demo_refs h) else demo_refs h))"

definition demo_jvm :: jvm where
  "demo_jvm =
     \<lparr>jv_ans = demo_ans, jv_exc = demo_exc, jv_refs = demo_refs, jv_obj = (\<lambda>h r. if r = 0 then 7 else r),
      jv_mem = (\<lambda>h. [4096 \<mapsto> 0x61, 4097 \<mapsto> 0x2E, 4098 \<mapsto> 0x42, 4099 \<mapsto> 0]),
      jv_dladdr = (\<lambda>a. Some (0x7000, Some ''/system/lib64/libapp.so'')), jv_art_method = None, jv_art_field = None,
      jv_float = (\<lambda>v. ''1.5''), jv_double = (\<lambda>v. ''2.5'')\<rparr>"

lemma demo_exc_nonzero: "demo_exc h = Some t \<Longrightarrow> t \<noteq> 0"
  by (induction h rule: demo_exc.induct) (auto split: if_splits)

lemma demo_refs_nonempty: "demo_refs h \<noteq> []"
proof (induction h)
  case (Cons c h)
  have "top_add X (demo_refs h) \<noteq> []" "top_del l (demo_refs h) \<noteq> []" for X l
    using Cons by (cases "demo_refs h"; simp)+
  moreover have "1 < length (demo_refs h) \<Longrightarrow> tl (demo_refs h) \<noteq> []" by (cases "demo_refs h") auto
  ultimately show ?case using Cons by (cases c) (simp_all)
qed simp

lemma demo_chars: "cstr_from [4096 \<mapsto> 0x61, 4097 \<mapsto> 0x2E, 4098 \<mapsto> 0x42, 4099 \<mapsto> 0] 4096 = Some ''a.B''"
  by (simp add: cstr_from.simps) code_simp

lemma demo_jvm_ok: "jvm_ok demo_jvm"
proof -
  have "call_law demo_jvm h c (demo_ans h c) (c # h)" if "demo_exc h = None \<or> exc_safe c" for h c
    using that by (cases c) (auto simp: demo_jvm_def same_refs_def adds_ref_def demo_chars split: option.splits dest: demo_exc_nonzero)
  then show ?thesis unfolding jvm_ok_def by (simp add: demo_jvm_def demo_refs_nonempty)
qed

text \<open>The tracer is invisible to the VM's exceptions and references: For every VM that keeps the rules of JNI, whatever is pending
  and whatever fails, the four printers return, make no call that is forbidden while an exception is pending, and leave the pending
  exception, the local references and the objects behind them as they were.\<close>

lemma printers_neutral:
  assumes "jvm_ok J"
  shows "(\<exists>s h'. print_jobject_or_string J obj h = Some (s, h') \<and> neutral J h h')
    \<and> (\<exists>s h'. print_jobject_safe J obj h = Some (s, h') \<and> neutral J h h')
    \<and> (\<exists>s h'. print_jstring J obj h = Some (s, h') \<and> neutral J h h')
    \<and> (\<exists>s h'. getJClassName J obj h = Some (s, h') \<and> neutral J h h')"
  by (intro conjI tot_ex print_jobject_or_string_runs print_jobject_safe_runs print_jstring_runs getJClassName_runs assms)

text \<open>With the exception pending, object 9 prints as its class and hash, and the exception is still there.\<close>

lemma demo_print: "map_option fst (print_jobject_or_string demo_jvm 9 []) = Some ''a.B@beef''"
proof -
  have "hex32 0xBEEF = ''beef''" by code_simp
  then show ?thesis
    by (simp add: print_jobject_or_string_def print_jobject_safe_def getJClassName_def is_jstring_def with_guard_def proxy_Jni_def
        exec_Jni_def jni_delete_local_ref_def demo_jvm_def demo_chars)
qed

lemma printers_neutral_witness:
  "\<exists>h'. print_jobject_or_string demo_jvm 9 [] = Some (''a.B@beef'', h') \<and> jv_exc demo_jvm h' = Some 7 \<and> jv_refs demo_jvm h' = [{#}]"
proof -
  obtain s h' where r: "print_jobject_or_string demo_jvm 9 [] = Some (s, h')" "neutral demo_jvm [] h'"
    using printers_neutral [OF demo_jvm_ok, of 9 "[]"] by blast
  moreover have "s = ''a.B@beef''" using demo_print r(1) by simp
  ultimately show ?thesis by (auto simp: neutral_def demo_jvm_def)
qed

end
