(* ===== verification/Jni_Resolve.thy ===== *)
theory Jni_Resolve
  imports Jni_Print
begin

text \<open>
  From a method or field id to its name (\<open>trace/src/JniTrace.cpp\<close>: \<open>resolveMethodByArt\<close>, \<open>resolveFieldByArt\<close>,
  \<open>resolveMethodByReflection\<close>, \<open>resolveFieldByReflection\<close>, \<open>getMethodInfoResolved\<close>, \<open>getFieldInfoResolved\<close>): the cache first, then
  libart's printers, then Java reflection under the guard and in a local frame. Whatever the VM answers, a resolution that
  returns is invisible to the traced program; it returns whenever no call of it throws.
\<close>

subsection \<open>Through libart\<close>

definition resolveMethodByArt :: "jvm \<Rightarrow> u64 \<Rightarrow> method_cache \<Rightarrow> method_info \<times> method_cache" where
  "resolveMethodByArt J mid t =
     (if mid = 0 then (no_method, t)
      else case jv_art_method J of
             None \<Rightarrow> (no_method, t)
           | Some f \<Rightarrow>
               (case f mid of
                  None \<Rightarrow> (no_method, t)
                | Some pretty \<Rightarrow>
                    if pretty = [] then (no_method, t)
                    else (let mi = parsePrettyMethod pretty in
                          (mi, if mi_name mi \<noteq> [] then cacheMethod mid (mi_class mi) (mi_name mi) (mi_sig mi) t else t))))"

definition unknown_field :: field_info where
  "unknown_field = \<lparr>fi_class = [], fi_name = ''?'', fi_type = ''?''\<rparr>"

definition resolveFieldByArt :: "jvm \<Rightarrow> u64 \<Rightarrow> field_cache \<Rightarrow> field_info \<times> field_cache" where
  "resolveFieldByArt J fid t =
     (if fid = 0 then (unknown_field, t)
      else case jv_art_field J of
             None \<Rightarrow> (unknown_field, t)
           | Some f \<Rightarrow>
               (case f fid of
                  None \<Rightarrow> (unknown_field, t)
                | Some pretty \<Rightarrow>
                    if pretty = [] then (unknown_field, t)
                    else (let fi = parsePrettyField pretty in
                          (fi, if fi_name fi \<noteq> ''?'' then cacheField fid (fi_class fi) (fi_name fi) (fi_type fi) t else t))))"

subsection \<open>Through reflection\<close>

text \<open>The characters of a Java string, if the VM gives them; then the string that a method of an object returns.\<close>

definition utf_text :: "jvm \<Rightarrow> u64 \<Rightarrow> jhist \<Rightarrow> (string option \<times> jhist) option" where
  "utf_text J js h =
     do { (utf, h) \<leftarrow> proxy_Jni J (GetStringUTFChars js) h;
          if utf = 0 then Some (None, h)
          else do { s \<leftarrow> cstr_from (jv_mem J h) (unat utf);
                    h \<leftarrow> exec_Jni J (ReleaseStringUTFChars js utf) h;
                    Some (Some s, h) } }"

definition call_text :: "jvm \<Rightarrow> u64 \<Rightarrow> u64 \<Rightarrow> jhist \<Rightarrow> (string option \<times> jhist) option" where
  "call_text J obj mid h =
     do { (js, h) \<leftarrow> proxy_Jni J (CallObjectMethod obj mid) h;
          if js = 0 then Some (None, h) else utf_text J js h }"

definition sig_of :: "string option \<Rightarrow> string" where
  "sig_of t = (case t of None \<Rightarrow> [] | Some n \<Rightarrow> classNameToSig n)"

text \<open>The parameter loop: \<open>n\<close> elements from index \<open>i\<close>; a NULL element is skipped.\<close>

fun param_loop :: "jvm \<Rightarrow> u64 \<Rightarrow> u64 \<Rightarrow> nat \<Rightarrow> int \<Rightarrow> jhist \<Rightarrow> (string \<times> jhist) option" where
  "param_loop J params getName 0 i h = Some ([], h)"
| "param_loop J params getName (Suc n) i h =
     do { (paramCls, h) \<leftarrow> proxy_Jni J (GetObjectArrayElement params i) h;
          (t, h) \<leftarrow> (if paramCls = 0 then Some (None, h) else call_text J paramCls getName h);
          (s, h) \<leftarrow> param_loop J params getName n (i + 1) h;
          Some (sig_of t @ s, h) }"

definition param_list :: "jvm \<Rightarrow> u64 \<Rightarrow> u64 \<Rightarrow> u64 \<Rightarrow> jhist \<Rightarrow> (string \<times> jhist) option" where
  "param_list J reflected getParams getName h =
     (if getParams \<noteq> 0 \<and> getName \<noteq> 0
      then do { (params, h) \<leftarrow> proxy_Jni J (CallObjectMethod reflected getParams) h;
                if params = 0 then Some ([], h)
                else do { (count, h) \<leftarrow> proxy_Jni J (GetArrayLength params) h;
                          param_loop J params getName (nat (int32 count)) 0 h } }
      else Some ([], h))"

definition class_get_name :: "jvm \<Rightarrow> jhist \<Rightarrow> (u64 \<times> jhist) option" where
  "class_get_name J h =
     do { (clsClass, h) \<leftarrow> proxy_Jni J (FindClass ''java/lang/Class'') h;
          if clsClass \<noteq> 0 then proxy_Jni J (GetMethodID clsClass ''getName'' ''()Ljava/lang/String;'') h else Some (0, h) }"

definition reflected_name :: "jvm \<Rightarrow> u64 \<Rightarrow> u64 \<Rightarrow> jhist \<Rightarrow> (string option \<times> jhist) option" where
  "reflected_name J reflected cls h =
     do { (mid, h) \<leftarrow> proxy_Jni J (GetMethodID cls ''getName'' ''()Ljava/lang/String;'') h;
          if mid \<noteq> 0 then call_text J reflected mid h else Some (None, h) }"

definition reflected_method :: "jvm \<Rightarrow> u64 \<Rightarrow> u64 \<Rightarrow> u64 \<Rightarrow> jhist \<Rightarrow> (method_info \<times> jhist) option" where
  "reflected_method J clazz reflected clsMethod h =
     do { (name, h) \<leftarrow> reflected_name J reflected clsMethod h;
          (getParams, h) \<leftarrow> proxy_Jni J (GetMethodID clsMethod ''getParameterTypes'' ''()[Ljava/lang/Class;'') h;
          (getReturn, h) \<leftarrow> proxy_Jni J (GetMethodID clsMethod ''getReturnType'' ''()Ljava/lang/Class;'') h;
          (getName, h) \<leftarrow> class_get_name J h;
          (ps, h) \<leftarrow> param_list J reflected getParams getName h;
          (ret, h) \<leftarrow> (if getReturn \<noteq> 0 \<and> getName \<noteq> 0
             then do { (retCls, h) \<leftarrow> proxy_Jni J (CallObjectMethod reflected getReturn) h;
                       if retCls = 0 then Some (None, h) else call_text J retCls getName h }
             else Some (None, h));
          (cls, h) \<leftarrow> getJClassName J clazz h;
          Some (\<lparr>mi_class = dotToSlash cls, mi_name = (case name of Some n \<Rightarrow> n | None \<Rightarrow> []),
                 mi_sig = ''('' @ ps @ '')'' @ sig_of ret\<rparr>, h) }"

definition reflected_ctor :: "jvm \<Rightarrow> u64 \<Rightarrow> u64 \<Rightarrow> u64 \<Rightarrow> jhist \<Rightarrow> (method_info \<times> jhist) option" where
  "reflected_ctor J clazz reflected clsCtor h =
     do { (getParams, h) \<leftarrow> proxy_Jni J (GetMethodID clsCtor ''getParameterTypes'' ''()[Ljava/lang/Class;'') h;
          (getName, h) \<leftarrow> class_get_name J h;
          (ps, h) \<leftarrow> param_list J reflected getParams getName h;
          (cls, h) \<leftarrow> getJClassName J clazz h;
          Some (\<lparr>mi_class = dotToSlash cls, mi_name = ''<init>'', mi_sig = ''('' @ ps @ '')V''\<rparr>, h) }"

definition ask_instance :: "jvm \<Rightarrow> u64 \<Rightarrow> u64 \<Rightarrow> jhist \<Rightarrow> (bool \<times> jhist) option" where
  "ask_instance J obj cls h =
     (if cls = 0 then Some (False, h)
      else do { (r, h) \<leftarrow> proxy_Jni J (IsInstanceOf obj cls) h; Some ((ucast r :: u8) \<noteq> 0, h) })"

definition reflect_body :: "jvm \<Rightarrow> u64 \<Rightarrow> u64 \<Rightarrow> bool \<Rightarrow> jhist \<Rightarrow> (method_info \<times> jhist) option" where
  "reflect_body J clazz mid isStatic h =
     do { (reflected, h) \<leftarrow> proxy_Jni J (ToReflectedMethod clazz mid isStatic) h;
          if reflected = 0 then Some (no_method, h)
          else do {
            (clsMethod, h) \<leftarrow> proxy_Jni J (FindClass ''java/lang/reflect/Method'') h;
            (clsCtor, h) \<leftarrow> proxy_Jni J (FindClass ''java/lang/reflect/Constructor'') h;
            (isMethod, h) \<leftarrow> ask_instance J reflected clsMethod h;
            if isMethod then reflected_method J clazz reflected clsMethod h
            else do {
              (isCtor, h) \<leftarrow> ask_instance J reflected clsCtor h;
              if isCtor then reflected_ctor J clazz reflected clsCtor h else Some (no_method, h) } } }"

text \<open>Caching writes no state that the VM sees, so it follows the end of the frame and of the guard here.\<close>

definition resolveMethodByReflection ::
  "jvm \<Rightarrow> u64 \<Rightarrow> u64 \<Rightarrow> bool \<Rightarrow> method_cache \<Rightarrow> jhist \<Rightarrow> ((method_info \<times> method_cache) \<times> jhist) option" where
  "resolveMethodByReflection J clazz mid isStatic t h =
     (if mid = 0 \<or> clazz = 0 then Some ((no_method, t), h)
      else do {
        (mi, h) \<leftarrow> with_guard J (with_local_frame J 32 no_method (reflect_body J clazz mid isStatic)) h;
        Some ((mi, if mi_name mi \<noteq> [] then cacheMethod mid (mi_class mi) (mi_name mi) (mi_sig mi) t else t), h) })"

definition no_field :: field_info where
  "no_field = \<lparr>fi_class = [], fi_name = [], fi_type = []\<rparr>"

definition reflect_field_body :: "jvm \<Rightarrow> u64 \<Rightarrow> u64 \<Rightarrow> bool \<Rightarrow> jhist \<Rightarrow> (field_info \<times> jhist) option" where
  "reflect_field_body J clazz fid isStatic h =
     do { (reflected, h) \<leftarrow> proxy_Jni J (ToReflectedField clazz fid isStatic) h;
          if reflected = 0 then Some (no_field, h)
          else do {
            (clsField, h) \<leftarrow> proxy_Jni J (FindClass ''java/lang/reflect/Field'') h;
            if clsField = 0 then Some (no_field, h)
            else do {
              (name, h) \<leftarrow> reflected_name J reflected clsField h;
              (getType, h) \<leftarrow> proxy_Jni J (GetMethodID clsField ''getType'' ''()Ljava/lang/Class;'') h;
              (ty, h) \<leftarrow> (if getType = 0 then Some (None, h)
                 else do { (typeCls, h) \<leftarrow> proxy_Jni J (CallObjectMethod reflected getType) h;
                           if typeCls = 0 then Some (None, h)
                           else do { (getName, h) \<leftarrow> class_get_name J h;
                                     if getName = 0 then Some (None, h) else call_text J typeCls getName h } });
              (cls, h) \<leftarrow> getJClassName J clazz h;
              Some (\<lparr>fi_class = dotToSlash cls, fi_name = (case name of Some n \<Rightarrow> n | None \<Rightarrow> []), fi_type = sig_of ty\<rparr>, h) } } }"

definition resolveFieldByReflection ::
  "jvm \<Rightarrow> u64 \<Rightarrow> u64 \<Rightarrow> bool \<Rightarrow> field_cache \<Rightarrow> jhist \<Rightarrow> ((field_info \<times> field_cache) \<times> jhist) option" where
  "resolveFieldByReflection J clazz fid isStatic t h =
     (if fid = 0 \<or> clazz = 0 then Some ((no_field, t), h)
      else do {
        (fi, h) \<leftarrow> with_guard J (with_local_frame J 16 no_field (reflect_field_body J clazz fid isStatic)) h;
        Some ((fi, if fi_name fi \<noteq> [] then cacheField fid (fi_class fi) (fi_name fi) (fi_type fi) t else t), h) })"

subsection \<open>The cache, libart, reflection\<close>

definition getMethodInfoResolved ::
  "jvm \<Rightarrow> u64 \<Rightarrow> u64 \<Rightarrow> bool \<Rightarrow> method_cache \<Rightarrow> jhist \<Rightarrow> ((method_info \<times> method_cache) \<times> jhist) option" where
  "getMethodInfoResolved J objOrClass mid isStatic t h0 =
     (let mi = getCachedMethod mid t in
      if mi_name mi \<noteq> [] then Some ((mi, t), h0)
      else (let (mi, t) = resolveMethodByArt J mid t in
            if mi_name mi \<noteq> [] then Some ((mi, t), h0)
            else with_guard J (\<lambda>h.
              do { (clazz, h) \<leftarrow> (if isStatic then Some (objOrClass, h) else proxy_Jni J (GetObjectClass objOrClass) h);
                   if clazz = 0 then Some ((mi, t), h)
                   else do {
                     (r, h) \<leftarrow> resolveMethodByReflection J clazz mid isStatic t h;
                     h \<leftarrow> (if isStatic then Some h else jni_delete_local_ref J clazz h);
                     Some (r, h) } }) h0))"

definition getFieldInfoResolved ::
  "jvm \<Rightarrow> u64 \<Rightarrow> u64 \<Rightarrow> bool \<Rightarrow> field_cache \<Rightarrow> jhist \<Rightarrow> ((field_info \<times> field_cache) \<times> jhist) option" where
  "getFieldInfoResolved J objOrClass fid isStatic t h0 =
     (let fi = getCachedField fid t in
      if fi_name fi \<noteq> ''?'' then Some ((fi, t), h0)
      else (let (fi, t) = resolveFieldByArt J fid t in
            if fi_name fi \<noteq> ''?'' then Some ((fi, t), h0)
            else with_guard J (\<lambda>h.
              do { (clazz, h) \<leftarrow> (if isStatic then Some (objOrClass, h) else proxy_Jni J (GetObjectClass objOrClass) h);
                   if clazz = 0 then Some ((fi, t), h)
                   else do {
                     (r, h) \<leftarrow> resolveFieldByReflection J clazz fid isStatic t h;
                     h \<leftarrow> (if isStatic then Some h else jni_delete_local_ref J clazz h);
                     Some (r, h) } }) h0))"

subsection \<open>Resolution is invisible, and returns when nothing throws\<close>

text \<open>The calls that reflection makes; in a calm VM none of them throws.\<close>

fun body_call :: "jni_call \<Rightarrow> bool" where
  "body_call (GetMethodID c n s) = True"
| "body_call (IsInstanceOf ob c) = True"
| "body_call (GetArrayLength a) = True"
| "body_call (GetStringUTFChars js) = True"
| "body_call c = ref_call c"

definition calm :: "jvm \<Rightarrow> bool" where
  "calm J \<longleftrightarrow> (\<forall>h c. body_call c \<and> jv_exc J h = None \<longrightarrow> jv_exc J (c # h) = None)"

definition growing :: "jvm \<Rightarrow> jhist \<Rightarrow> jhist \<Rightarrow> bool" where
  "growing J h h' \<longleftrightarrow> (\<exists>X. grown J h X h')"

lemma growing_refl [simp]: "growing J h h"
  unfolding growing_def by blast

lemma growing_trans: "growing J h h' \<Longrightarrow> growing J h' h'' \<Longrightarrow> growing J h h''"
  unfolding growing_def using grown_trans by blast

text \<open>
  \<open>body J h m\<close>: if the routine \<open>m\<close>, started at \<open>h\<close>, returns, it has at most added local references; in a calm VM without a
  pending exception it returns, without one.
\<close>

definition body :: "jvm \<Rightarrow> jhist \<Rightarrow> ('a \<times> jhist) option \<Rightarrow> bool" where
  "body J h m \<longleftrightarrow>
     (case m of
        None \<Rightarrow> \<not> (calm J \<and> jv_exc J h = None)
      | Some (a, h') \<Rightarrow> growing J h h' \<and> (calm J \<and> jv_exc J h = None \<longrightarrow> jv_exc J h' = None))"

lemma body_Some [simp]: "body J h (Some (a, h))"
  by (simp add: body_def)

lemma body_bind:
  assumes "body J h m" and "\<And>a h'. body J h' (k (a, h'))"
  shows "body J h (m \<bind> k)"
proof (cases m)
  case (Some p)
  obtain a h1 where p: "p = (a, h1)" by (cases p)
  show ?thesis
  proof (cases "k (a, h1)")
    case None
    then show ?thesis using assms(1) assms(2) [of h1 a] Some p by (auto simp: body_def)
  next
    case k: (Some q)
    obtain b h2 where q: "q = (b, h2)" by (cases q)
    have "growing J h h1" "growing J h1 h2" using assms(1) assms(2) [of h1 a] Some p k q by (simp_all add: body_def)
    then have "growing J h h2" by (rule growing_trans)
    then show ?thesis using assms(1) assms(2) [of h1 a] Some p k q by (simp add: body_def)
  qed
qed (use assms(1) in \<open>simp add: body_def\<close>)

lemma grown_growing: "grown J h X h' \<Longrightarrow> growing J h h'"
  by (auto simp: growing_def)

lemma body_proxy:
  assumes J: "jvm_ok J" and c: "body_call c"
  shows "body J h (proxy_Jni J c h)"
proof (cases "jv_exc J h = None")
  case True
  have r: "proxy_Jni J c h = Some (jv_ans J h c, c # h)" using True by (simp add: proxy_Jni_def)
  have "growing J h (c # h)"
  proof (cases "ref_call c")
    case ref: True
    show ?thesis
      using tot_ref [OF J True grown_refl ref] by (auto simp: r split: if_splits intro: grown_growing)
  next
    case False
    then have "same_refs J h (c # h)"
      using c jvm_call(2) [OF J, of h c] True by (cases c) auto
    then show ?thesis using grown_same [OF J _ grown_refl] True grown_growing by blast
  qed
  then show ?thesis using c True by (simp add: body_def r calm_def)
next
  case False
  moreover have "\<not> exc_safe c" using c by (cases c) auto
  ultimately show ?thesis by (auto simp: body_def proxy_Jni_def)
qed

lemma body_utf_text:
  assumes J: "jvm_ok J"
  shows "body J h (utf_text J js h)"
proof (cases "jv_exc J h = None")
  case True
  obtain r h1 where r: "proxy_Jni J (GetStringUTFChars js) h = Some (r, h1)" "grown J h {#} h1"
    "r \<noteq> 0 \<longrightarrow> jv_exc J h1 = None \<and> (\<exists>s. cstr_from (jv_mem J h1) (unat r) = Some s)"
    using tot_chars [OF J True grown_refl, of js] by (auto simp: tot_def)
  have calm: "calm J \<longrightarrow> jv_exc J h1 = None"
    using body_proxy [OF J, of "GetStringUTFChars js" h] True r(1) by (simp add: body_def)
  show ?thesis
  proof (cases "r = 0")
    case True
    then show ?thesis using r calm by (auto simp: utf_text_def body_def intro: grown_growing)
  next
    case False
    then show ?thesis
      using r tot_release [OF J r(2), of js r] by (auto simp: utf_text_def body_def tot_def intro: grown_growing)
  qed
qed (auto simp: utf_text_def proxy_Jni_def body_def)

lemma body_class_name:
  assumes J: "jvm_ok J"
  shows "body J h (getJClassName J c h)"
  using getJClassName_runs [OF J, of h c] by (auto simp: tot_def body_def neutral_grown intro: grown_growing)

lemmas body_intros = body_bind body_proxy body_utf_text body_class_name

lemma body_call_text: "jvm_ok J \<Longrightarrow> body J h (call_text J ob m h)"
  unfolding call_text_def by (auto intro!: body_intros)

lemma body_param_loop: "jvm_ok J \<Longrightarrow> body J h (param_loop J ps g n i h)"
  by (induction n arbitrary: i h) (auto intro!: body_intros body_call_text)

lemma body_param_list: "jvm_ok J \<Longrightarrow> body J h (param_list J r p g h)"
  unfolding param_list_def by (auto intro!: body_intros body_param_loop)

lemma body_class_get_name: "jvm_ok J \<Longrightarrow> body J h (class_get_name J h)"
  unfolding class_get_name_def by (auto intro!: body_intros)

lemma body_reflected_name: "jvm_ok J \<Longrightarrow> body J h (reflected_name J r c h)"
  unfolding reflected_name_def by (auto intro!: body_intros body_call_text)

lemma body_ask: "jvm_ok J \<Longrightarrow> body J h (ask_instance J ob c h)"
  unfolding ask_instance_def by (auto intro!: body_intros)

lemmas body_parts = body_call_text body_param_list body_class_get_name body_reflected_name body_ask

lemma body_reflected_method: "jvm_ok J \<Longrightarrow> body J h (reflected_method J clazz r c h)"
  unfolding reflected_method_def by (auto intro!: body_intros body_parts)

lemma body_reflected_ctor: "jvm_ok J \<Longrightarrow> body J h (reflected_ctor J clazz r c h)"
  unfolding reflected_ctor_def by (auto intro!: body_intros body_parts)

lemma body_reflect: "jvm_ok J \<Longrightarrow> body J h (reflect_body J clazz mid st h)"
  unfolding reflect_body_def by (auto intro!: body_intros body_parts body_reflected_method body_reflected_ctor)

lemma body_reflect_field: "jvm_ok J \<Longrightarrow> body J h (reflect_field_body J clazz fid st h)"
  unfolding reflect_field_body_def by (auto intro!: body_intros body_parts)

text \<open>Closed: no reference is left over. Invisible: nothing of it is seen.\<close>

definition closed :: "jvm \<Rightarrow> jhist \<Rightarrow> ('a \<times> jhist) option \<Rightarrow> bool" where
  "closed J h m \<longleftrightarrow> (case m of None \<Rightarrow> \<not> calm J | Some (a, h') \<Rightarrow> grown J h {#} h')"

definition invisible :: "jvm \<Rightarrow> jhist \<Rightarrow> ('a \<times> jhist) option \<Rightarrow> bool" where
  "invisible J h m \<longleftrightarrow> (case m of None \<Rightarrow> \<not> calm J | Some (a, h') \<Rightarrow> neutral J h h')"

lemma invisible_Some [simp]: "invisible J h (Some (a, h))"
  by (simp add: invisible_def)

lemma invisible_bind:
  assumes "invisible J h m" and "\<And>a h'. invisible J h' (k (a, h'))"
  shows "invisible J h (m \<bind> k)"
proof (cases m)
  case (Some p)
  then show ?thesis
    using assms(1) assms(2) [of "snd p" "fst p"] by (cases "k p") (auto simp: invisible_def split_beta intro: neutral_trans)
qed (use assms(1) in \<open>simp add: invisible_def\<close>)

lemma tot_invisible: "tot (\<lambda>(s, h'). neutral J h h') m \<Longrightarrow> invisible J h m"
  by (auto simp: tot_def invisible_def)

lemma guard_invisible:
  assumes "jvm_ok J" and "\<And>h. jv_exc J h = None \<Longrightarrow> closed J h (f h)"
  shows "invisible J h0 (with_guard J f h0)"
proof -
  obtain h2 where h2: "jv_exc J h2 = None" "f h2 = None \<Longrightarrow> with_guard J f h0 = None"
    "\<And>a h3. f h2 = Some (a, h3) \<Longrightarrow> grown J h2 {#} h3 \<Longrightarrow> tot (\<lambda>(b, h'). b = a \<and> neutral J h0 h') (with_guard J f h0)"
    by (rule guard_body [OF assms(1), of f h0]) (rule that)
  show ?thesis
  proof (cases "f h2")
    case None
    then show ?thesis using assms(2) [OF h2(1)] h2(2) by (simp add: closed_def invisible_def)
  next
    case (Some p)
    then have "tot (\<lambda>(b, h'). b = fst p \<and> neutral J h0 h') (with_guard J f h0)"
      using assms(2) [OF h2(1)] h2(3) [of "fst p" "snd p"] by (simp add: closed_def split_beta)
    then show ?thesis by (auto simp: tot_def invisible_def)
  qed
qed

lemma pop_frame:
  assumes J: "jvm_ok J" and h1: "jv_refs J h1 = {#} # jv_refs J h" "\<And>r. ref_live (jv_refs J h) r \<Longrightarrow> jv_obj J h1 r = jv_obj J h r"
    and h2: "growing J h1 h2"
  shows "\<exists>h3. exec_Jni J (PopLocalFrame 0) h2 = Some h3 \<and> grown J h {#} h3"
proof -
  obtain X where X: "jv_refs J h2 = X # jv_refs J h" "\<And>r. ref_live (jv_refs J h1) r \<Longrightarrow> jv_obj J h2 r = jv_obj J h1 r"
    using h2 h1(1) by (auto simp: growing_def grown_def)
  have "jv_refs J h \<noteq> []" using J by (simp add: jvm_ok_def)
  then have "1 < length (jv_refs J h2)" by (cases "jv_refs J h") (simp_all add: X)
  then have "jv_refs J (PopLocalFrame 0 # h2) = jv_refs J h"
    using jvm_call(2) [OF J, of h2 "PopLocalFrame 0"] by (simp add: X)
  moreover have "ref_live (jv_refs J h1) r \<and> ref_live (jv_refs J h2) r" if "ref_live (jv_refs J h) r" for r
    using that by (simp add: h1 X ref_live_def)
  ultimately have "grown J h {#} (PopLocalFrame 0 # h2)"
    using jvm_call(3) [OF J, of h2 "PopLocalFrame 0"] h1 X by (simp add: grown_def)
  then show ?thesis using jvm_call(1) [OF J, of h2 "PopLocalFrame 0"] by (simp add: exec_Jni_def)
qed

lemma frame_closed:
  assumes J: "jvm_ok J" and h: "jv_exc J h = None" and f: "\<And>h. body J h (f h)"
  shows "closed J h (with_local_frame J n d f h)"
proof -
  let ?r = "jv_ans J h (PushLocalFrame n)" and ?h1 = "PushLocalFrame n # h"
  have p: "proxy_Jni J (PushLocalFrame n) h = Some (?r, ?h1)" using h by (simp add: proxy_Jni_def)
  have law: "call_law J h (PushLocalFrame n) ?r ?h1" using jvm_call(2) [OF J] h by blast
  show ?thesis
  proof (cases "(ucast ?r :: u32) = 0")
    case False
    then have "grown J h {#} ?h1" using law grown_same [OF J _ grown_refl] h by simp
    then show ?thesis using False by (simp add: with_local_frame_def p closed_def)
  next
    case True
    have h1: "jv_exc J ?h1 = None" "jv_refs J ?h1 = {#} # jv_refs J h" using law True h by simp_all
    have obj: "jv_obj J ?h1 r = jv_obj J h r" if "ref_live (jv_refs J h) r" for r
      using that jvm_call(3) [OF J, of h "PushLocalFrame n" r] h1(2) by (simp add: ref_live_def)
    show ?thesis
    proof (cases "f ?h1")
      case None
      then show ?thesis using f [of ?h1] h1 True by (auto simp: with_local_frame_def p closed_def body_def)
    next
      case (Some q)
      obtain a h2 where q: "q = (a, h2)" by (cases q)
      have "growing J ?h1 h2" using f [of ?h1] Some q by (simp add: body_def)
      from pop_frame [OF J h1(2) obj this] show ?thesis
        using True Some q by (auto simp: with_local_frame_def p closed_def)
    qed
  qed
qed

lemma resolve_method_invisible: "jvm_ok J \<Longrightarrow> invisible J h (resolveMethodByReflection J clazz mid st t h)"
  unfolding resolveMethodByReflection_def
  by (auto intro!: invisible_bind guard_invisible frame_closed body_reflect)

lemma resolve_field_invisible: "jvm_ok J \<Longrightarrow> invisible J h (resolveFieldByReflection J clazz fid st t h)"
  unfolding resolveFieldByReflection_def
  by (auto intro!: invisible_bind guard_invisible frame_closed body_reflect_field)

text \<open>The class of an object is a reference of the tracer, which it deletes after the resolution.\<close>

lemma resolved_class_closed:
  assumes J: "jvm_ok J" and h: "jv_exc J h = None" and res: "\<And>clazz h. invisible J h (res clazz h)"
  shows "closed J h
    (do { (clazz, h) \<leftarrow> (if st then Some (ob, h) else proxy_Jni J (GetObjectClass ob) h);
          if clazz = 0 then Some (d, h)
          else do { (r, h) \<leftarrow> res clazz h;
                    h \<leftarrow> (if st then Some h else jni_delete_local_ref J clazz h);
                    Some (r, h) } })"
proof (cases st)
  case True
  then show ?thesis using res [of h ob] by (cases "res ob h") (auto simp: closed_def invisible_def neutral_grown split: option.splits)
next
  case False
  obtain c h1 where c: "proxy_Jni J (GetObjectClass ob) h = Some (c, h1)"
    "if c = 0 then grown J h {#} h1 else jv_exc J h1 = None \<and> grown J h {#c#} h1"
    using tot_ref [OF J h grown_refl, of "GetObjectClass ob"] by (auto simp: tot_def)
  show ?thesis
  proof (cases "c = 0 \<or> res c h1 = None")
    case True
    then show ?thesis using c False res [of h1 c] by (auto simp: closed_def invisible_def)
  next
    case nz: False
    then obtain r h2 where r: "res c h1 = Some (r, h2)" by auto
    have "grown J h {#c#} h2"
      using res [of h1 c] r neutral_step [of J h "{#c#}" h1 h2] c(2) nz by (simp add: invisible_def)
    then show ?thesis
      using tot_drop [OF J, of h c "{#}" h2] nz c r False by (auto simp: closed_def tot_def)
  qed
qed

lemma getMethodInfoResolved_invisible:
  assumes J: "jvm_ok J"
  shows "invisible J h (getMethodInfoResolved J ob mid st t h)"
  unfolding getMethodInfoResolved_def Let_def
  by (auto split: prod.splits intro!: guard_invisible [OF J] resolved_class_closed [OF J] resolve_method_invisible [OF J])

lemma getFieldInfoResolved_invisible:
  assumes J: "jvm_ok J"
  shows "invisible J h (getFieldInfoResolved J ob fid st t h)"
  unfolding getFieldInfoResolved_def Let_def
  by (auto split: prod.splits intro!: guard_invisible [OF J] resolved_class_closed [OF J] resolve_field_invisible [OF J])

text \<open>C25 (resolution is invisible). Finding the name of a method, through the cache, libart or reflection, leaves the pending exception
  and the local references as they were, for every VM that keeps the rules of JNI; and it returns whenever no call that it makes throws.\<close>

theorem resolution_invisible:
  assumes "jvm_ok J"
  shows "(getMethodInfoResolved J ob mid st t h = Some (r, h') \<longrightarrow> neutral J h h')
    \<and> (calm J \<longrightarrow> (\<exists>r h'. getMethodInfoResolved J ob mid st t h = Some (r, h')))"
  using getMethodInfoResolved_invisible [OF assms, of h ob mid st t] by (auto simp: invisible_def split: option.splits)

text \<open>In the VM of before nothing throws; it says that the reflected object is neither a method nor a constructor.\<close>

lemma demo_calm: "calm demo_jvm"
proof -
  have "demo_exc (c # h) = None" if "body_call c" "demo_exc h = None" for c h using that by (cases c) auto
  then show ?thesis by (simp add: calm_def demo_jvm_def)
qed

lemma resolution_invisible_witness:
  "\<exists>r h'. getMethodInfoResolved demo_jvm 5 32 False Map.empty [] = Some (r, h') \<and> jv_exc demo_jvm h' = Some 7"
proof -
  obtain r h' where r: "getMethodInfoResolved demo_jvm 5 32 False Map.empty [] = Some (r, h')"
    using resolution_invisible [OF demo_jvm_ok, of 5 32 False Map.empty "[]"] demo_calm by blast
  then have "neutral demo_jvm [] h'" using resolution_invisible [OF demo_jvm_ok] by blast
  then show ?thesis using r by (auto simp: neutral_def demo_jvm_def)
qed

subsection \<open>A class lookup that throws\<close>

text \<open>
  The VM of before, without an exception at first, but the lookup of \<open>java/lang/reflect/Method\<close> throws object 8. It keeps the rules,
  and reflection goes on to the next lookup with the exception pending: ART aborts the process.
\<close>

fun poor_exc :: "jhist \<Rightarrow> u64 option" where
  "poor_exc [] = None"
| "poor_exc (c # h) =
    (case c of
       ExceptionClear \<Rightarrow> None
     | Throw t \<Rightarrow> Some (if t = 0 then 7 else t)
     | FindClass n \<Rightarrow> if n = ''java/lang/reflect/Method'' then Some 8 else poor_exc h
     | _ \<Rightarrow> poor_exc h)"

definition poor_ans :: "jhist \<Rightarrow> jni_call \<Rightarrow> u64" where
  "poor_ans h c =
     (case c of
        ExceptionOccurred \<Rightarrow> (case poor_exc h of None \<Rightarrow> 0 | Some t \<Rightarrow> t)
      | ExceptionCheck \<Rightarrow> (if poor_exc h = None then 0 else 1)
      | FindClass n \<Rightarrow> if n = ''java/lang/reflect/Method'' then 0 else 16
      | _ \<Rightarrow> demo_ans h c)"

fun poor_refs :: "jhist \<Rightarrow> u64 multiset list" where
  "poor_refs [] = [{#}]"
| "poor_refs (c # h) =
    (case c of
       ExceptionOccurred \<Rightarrow> (if poor_exc h = None then poor_refs h else top_add {#poor_ans h c#} (poor_refs h))
     | DeleteLocalRef l \<Rightarrow> top_del l (poor_refs h)
     | PushLocalFrame n \<Rightarrow> {#} # poor_refs h
     | PopLocalFrame l \<Rightarrow> (if 1 < length (poor_refs h) then tl (poor_refs h) else poor_refs h)
     | _ \<Rightarrow> (if ref_call c \<and> poor_ans h c \<noteq> 0 then top_add {#poor_ans h c#} (poor_refs h) else poor_refs h))"

definition poor_jvm :: jvm where
  "poor_jvm = demo_jvm\<lparr>jv_ans := poor_ans, jv_exc := poor_exc, jv_refs := poor_refs\<rparr>"

lemma poor_exc_nonzero: "poor_exc h = Some t \<Longrightarrow> t \<noteq> 0"
  by (induction h) (auto split: jni_call.splits if_splits)

lemma poor_refs_nonempty: "poor_refs h \<noteq> []"
proof (induction h)
  case (Cons c h)
  have "top_add X (poor_refs h) \<noteq> []" "top_del l (poor_refs h) \<noteq> []" for X l
    using Cons by (cases "poor_refs h"; simp)+
  moreover have "1 < length (poor_refs h) \<Longrightarrow> tl (poor_refs h) \<noteq> []" by (cases "poor_refs h") auto
  ultimately show ?case using Cons by (cases c) simp_all
qed simp

lemma reflection_aborts:
  "jvm_ok poor_jvm" "resolveMethodByReflection poor_jvm 16 32 False Map.empty [] = None"
proof -
  have "call_law poor_jvm h c (poor_ans h c) (c # h)" if "poor_exc h = None \<or> exc_safe c" for h c
    using that
    by (cases c) (auto simp: poor_jvm_def poor_ans_def demo_jvm_def same_refs_def adds_ref_def demo_chars split: option.splits
        dest: poor_exc_nonzero)
  then show "jvm_ok poor_jvm" unfolding jvm_ok_def by (simp add: poor_jvm_def demo_jvm_def poor_refs_nonempty)
  show "resolveMethodByReflection poor_jvm 16 32 False Map.empty [] = None"
    by (simp add: resolveMethodByReflection_def with_guard_def with_local_frame_def reflect_body_def proxy_Jni_def poor_jvm_def
        poor_ans_def demo_jvm_def)
qed

end
