(* ===== verification/Jni_Flight.thy ===== *)
theory Jni_Flight
  imports Jni_Resolve
begin

text \<open>
  The two halves of a traced JNI call (\<open>trace/src/JniTrace.cpp\<close>: \<open>jni_on_call\<close>, \<open>jni_on_return\<close>,
  \<open>isJniAddress\<close>, \<open>logf\<close>). A handler of the table is run at the call site, where it writes the arguments
  into the line buffer, and at the return address, where it adds the result and logs. A handler takes the VM, the
  phase, the environment pointer, the address, the return address and the registers; it changes the variables
  of the handlers and the history of the tracer's calls into the VM, and gives the lines it logs. That ART aborts
  or a read faults is the result None.
\<close>

text \<open>
  The line buffer, the two caches, and the strings that the handlers of the four id functions keep from one half to the
  other (function-level \<open>thread_local\<close>s, by the name of the function).
\<close>

record jni_vars =
  jn_oss :: string
  jn_methods :: method_cache
  jn_fields :: field_cache
  jn_bridge :: "string \<Rightarrow> string \<times> string \<times> string"

type_synonym jni_fn =
  "jvm \<Rightarrow> bool \<Rightarrow> u64 \<Rightarrow> u64 \<Rightarrow> u64 \<Rightarrow> (int \<Rightarrow> u64) \<Rightarrow> jni_vars \<Rightarrow> jhist \<Rightarrow> ((jni_vars \<times> string list) \<times> jhist) option"

record jni_state =
  js_table :: "u64 \<Rightarrow> jni_fn option"
  js_pending_ret :: u64
  js_handler :: "jni_fn option"
  js_addr :: u64
  js_env :: u64
  js_lr :: u64
  js_vars :: jni_vars

definition isJniAddress :: "jni_state \<Rightarrow> u64 \<Rightarrow> bool" where
  "isJniAddress j address \<longleftrightarrow> js_table j address \<noteq> None"

text \<open>
  \<open>logf\<close>: line feed, marker and the message; \<open>vsnprintf\<close> gets 2037 bytes, so of a message that does not fit
  it leaves 2036 and a NUL, and all 2037 are counted.
\<close>

definition logf_room :: nat where "logf_room = 2048 - 9 - 2"

definition jni_logf :: "string \<Rightarrow> string" where
  "jni_logf msg =
     [CHR 0x0A] @ ''    >>> '' @ (if length (c_str msg) < logf_room then c_str msg else take (logf_room - 1) (c_str msg) @ [CHR 0x00])"

text \<open>The VM is as it is at that moment: the history starts anew with each half.\<close>

definition jni_on_call :: "jvm \<Rightarrow> (int \<Rightarrow> u64) \<Rightarrow> u64 \<Rightarrow> u64 \<Rightarrow> jni_state \<Rightarrow> (string list \<times> jni_state) option" where
  "jni_on_call J x jniAddr retAddr j =
     (case js_table j jniAddr of
        None \<Rightarrow> Some ([], j)
      | Some h \<Rightarrow>
          map_option (\<lambda>((v, ls), hist).
            (map jni_logf ls,
             j\<lparr>js_handler := Some h, js_addr := jniAddr, js_env := x 0, js_lr := retAddr, js_pending_ret := retAddr,
               js_vars := v\<rparr>))
            (h J False (x 0) jniAddr retAddr x (js_vars j) []))"

definition jni_on_return :: "jvm \<Rightarrow> (int \<Rightarrow> u64) \<Rightarrow> jni_state \<Rightarrow> (string list \<times> jni_state) option" where
  "jni_on_return J x j =
     (let j' = j\<lparr>js_pending_ret := 0, js_handler := None\<rparr> in
      case js_handler j of
        None \<Rightarrow> Some ([], j')
      | Some h \<Rightarrow>
          map_option (\<lambda>((v, ls), hist). (map jni_logf ls, j'\<lparr>js_vars := v\<rparr>))
            (h J True (js_env j) (js_addr j) (js_lr j) x (js_vars j) []))"

text \<open>A message that does not fit ends with a NUL byte in the trace.\<close>

lemma long_message_has_nul:
  "2037 \<le> length (c_str msg) \<Longrightarrow> last (jni_logf msg) = CHR 0x00 \<and> length (jni_logf msg) = 2046"
  by (simp add: jni_logf_def logf_room_def)

lemma short_message_intact: "length (c_str msg) < 2037 \<Longrightarrow> jni_logf msg = [CHR 0x0A] @ ''    >>> '' @ c_str msg"
  by (simp add: jni_logf_def logf_room_def)

end
