(* ===== verification/Trace_Line.thy ===== *)
theory Trace_Line
  imports Mem_Printer Disasm_Cache Func_Call Library_Utils Jni_Flight Direct_Write_File "HOL-Library.Monad_Syntax"
begin

text \<open>
  One line of the trace (\<open>trace/src/EastTrace.cpp\<close>: \<open>visitLastImpl\<close>, \<open>visitImpl\<close>, \<open>printAssemble2\<close>). A line is
  built in the builder of the thread's \<open>TraceInfo\<close> and written when the next instruction is seen, so that the
  registers it wrote can be added. The text that a group of append calls leaves is appended at once,
  which the law of \<open>text_sink\<close> justifies. \<open>w_out\<close> lists the calls of the thread's \<open>DirectWriteBuf\<close>. \<open>None\<close> is
  a fault.
\<close>

subsection \<open>The state of a thread\<close>

record current_module =
  cm_name :: string
  cm_path :: string
  cm_base :: u64
  cm_end :: u64
  cm_bias :: u64
  cm_plt_start :: u64
  cm_plt_end :: u64

record trace_info =
  ti_skip :: bool
  ti_skip_ret :: u64
  ti_entryLr :: u64
  ti_entryLrSet :: bool
  ti_last :: reg_printer
  ti_hasLast :: bool
  ti_sb :: string_builder
  ti_sbInit :: bool
  ti_pending :: pending_access
  ti_pinsn :: nat
  ti_hasPending :: bool
  ti_insnCounter :: u64
  ti_flushCounter :: u32
  ti_cleanCounter :: u32
  ti_x :: "u64 list"
  ti_direct :: bool
  ti_callRet :: u64
  ti_fds :: fd_table
  ti_svc :: svc_pending
  ti_pltStart :: u64
  ti_pltEnd :: u64
  ti_so :: current_module
  ti_written :: bool

text \<open>
  With it: the calls of the output buffer, the shared disassembly cache, the thread's copy of the last region,
  the call tracer, the JNI call in flight, the segment cache and whether the thread has an active buffer.
\<close>

record trace_world =
  w_ti :: trace_info
  w_out :: "dw_op list"
  w_dc :: disasm_cache
  w_tls :: region_tls
  w_call :: call_state
  w_jni :: jni_state
  w_libs :: "library_info list"
  w_active :: bool

text \<open>
  One instruction hook: the address, the thread, the object capstone would make for it (0: it cannot decode),
  what the objects hold and which registers they access, and what the engine holds.
\<close>

record trace_ev = call_env +
  ev_addr :: u64
  ev_tid :: thread
  ev_new :: nat
  ev_insn :: "nat \<Rightarrow> insn"
  ev_access :: "nat \<Rightarrow> u16 list \<times> u16 list"
  ev_names :: "nat \<Rightarrow> string option"
  ev_NR :: "string \<Rightarrow> nat"
  ev_uc :: vc_read
  ev_x :: "u64 list"
  ev_nzcv :: u32
  ev_jvm :: jvm

subsection \<open>Builder and buffer\<close>

definition put_op :: "dw_op \<Rightarrow> trace_world \<Rightarrow> trace_world" where
  "put_op x w = w\<lparr>w_out := w_out w @ [x]\<rparr>"

text \<open>\<open>writeToFile\<close> does not pass on an empty text.\<close>

definition writeToFile :: "string \<Rightarrow> trace_world \<Rightarrow> trace_world" where
  "writeToFile s w = (if s = [] then w else put_op (DWrite (text_bytes s)) w)"

definition upd_ti :: "(trace_info \<Rightarrow> trace_info) \<Rightarrow> trace_world \<Rightarrow> trace_world" where
  "upd_ti f w = w\<lparr>w_ti := f (w_ti w)\<rparr>"

definition add_text :: "string \<Rightarrow> trace_world \<Rightarrow> trace_world option" where
  "add_text s w = map_option (\<lambda>sb. upd_ti (\<lambda>ti. ti\<lparr>ti_sb := sb\<rparr>) w) (appendStringN (ti_sb (w_ti w)) s)"

definition write_builder :: "trace_world \<Rightarrow> trace_world" where
  "write_builder w =
     upd_ti (\<lambda>ti. ti\<lparr>ti_sb := resetStringBuilder (ti_sb ti)\<rparr>) (writeToFile (sb_text (ti_sb (w_ti w))) w)"

subsection \<open>Registers\<close>

definition insn_texts :: "trace_ev \<Rightarrow> nat \<Rightarrow> string \<times> string" where
  "insn_texts e i = (ci_mnemonic (ev_insn e i), ci_op_str (ev_insn e i))"

definition visitLast :: "trace_ev \<Rightarrow> trace_world \<Rightarrow> trace_world option" where
  "visitLast e w =
     (let ti = w_ti w in
      if \<not> ti_hasLast ti then Some w
      else (case regAccessPrinterImpl (ev_uc e) (ev_names e) (ev_addr e) ((ti_last ti)\<lparr>rp_cached := Some (ti_x ti)\<rparr>) of
              (t, p) \<Rightarrow> add_text t (upd_ti (\<lambda>ti. ti\<lparr>ti_last := p, ti_hasLast := False\<rparr>) w)))"

text \<open>The registers the instruction accesses, from the cache entry or from capstone.\<close>

definition accessed_regs :: "trace_ev \<Rightarrow> nat \<Rightarrow> disasm_cache \<Rightarrow> (u16 list \<times> u16 list) \<times> disasm_cache" where
  "accessed_regs e i c =
     (case dc_getRegAccess (ev_addr e) c of
        Some a \<Rightarrow> ((ra_read a, ra_write a), c)
      | None \<Rightarrow> (ev_access e i, dc_putRegAccess (ev_addr e) (fst (ev_access e i)) (snd (ev_access e i)) c))"

definition visit :: "trace_ev \<Rightarrow> nat \<Rightarrow> trace_world \<Rightarrow> trace_world option" where
  "visit e i w =
     (case accessed_regs e i (w_dc w) of ((rd, wr), c) \<Rightarrow>
       do {
         w1 \<leftarrow> (if rd = [] then Some (w\<lparr>w_dc := c\<rparr>)
               else add_text (fst (regAccessPrinterImpl (ev_uc e) (ev_names e) (ev_addr e)
                      \<lparr>rp_address = ev_addr e, rp_regs = take 8 rd, rp_forWriteRegs = False,
                       rp_cached = Some (ti_x (w_ti w))\<rparr>)) (w\<lparr>w_dc := c\<rparr>));
         Some (if wr = [] then w1
               else upd_ti (\<lambda>ti. ti\<lparr>ti_last := \<lparr>rp_address = ev_addr e + 4, rp_regs = take 8 wr, rp_forWriteRegs = True,
                       rp_cached = None\<rparr>, ti_hasLast := True\<rparr>) w1)
       })"

subsection \<open>The access of the line before\<close>

text \<open>The vector register behind a scalar name, and how many of its bytes are stored.\<close>

definition simd_source :: "nat \<Rightarrow> (int \<times> nat) option" where
  "simd_source r =
     (if 140 \<le> r \<and> r \<le> 171 then Some (VC_REG_Q0 + int (r - 140), 16)
      else if 44 \<le> r \<and> r \<le> 75 then Some (VC_REG_Q0 + int (r - 44), 8)
      else if 172 \<le> r \<and> r \<le> 203 then Some (VC_REG_Q0 + int (r - 172), 4)
      else if 76 \<le> r \<and> r \<le> 107 then Some (VC_REG_Q0 + int (r - 76), 2)
      else if 12 \<le> r \<and> r \<le> 43 then Some (VC_REG_Q0 + int (r - 12), 1)
      else None)"

text \<open>The value stored: of the first register operand that is read.\<close>

definition stored_value :: "trace_ev \<Rightarrow> u64 list \<Rightarrow> insn \<Rightarrow> string" where
  "stored_value e x i =
     (case in_detail i of
        None \<Rightarrow> ''?''
      | Some d \<Rightarrow>
          (case find is_reg_read (cd_ops d) of
             None \<Rightarrow> ''?''
           | Some p \<Rightarrow>
               (let r = op_reg p in
                if r = 10 \<or> r = 9 then uint64ToHex 0
                else (case simd_source r of
                        Some (q, n) \<Rightarrow> concat (map byteToHex (take n (read_q (ev_uc e) q)))
                      | None \<Rightarrow>
                          if 0 \<le> reg_of r
                          then uint64ToHex (if 0 \<le> cachedXRegIndex (reg_of r) then x ! nat (cachedXRegIndex (reg_of r))
                                 else read_x (ev_uc e) (reg_of r))
                          else ''?''))))"

definition quoted_at :: "trace_ev \<Rightarrow> u64 \<Rightarrow> string" where
  "quoted_at e a = fst (appendCStr (ce_mem e) (ce_page e) (unat a)) @ [CHR 0x22]"

text \<open>The string at the address, or the string that a loaded pointer points to.\<close>

definition string_note :: "trace_ev \<Rightarrow> pending_access \<Rightarrow> string" where
  "string_note e p =
     (if 0x1000 < pa_last p \<and> 8 \<le> pa_size p
      then (if safe_looks_like_cstr (ce_mem e) (unat (pa_last p)) 4
            then '' str:'' @ [CHR 0x22] @ quoted_at e (pa_last p)
            else if pa_is_load p
            then (case safe_host_read (ce_mem e) (unat (pa_last p)) 8 of
                    None \<Rightarrow> []
                  | Some bs \<Rightarrow>
                      (let v = word_of_nat (le_nat bs) :: u64 in
                       if 0x1000 < v \<and> safe_looks_like_cstr (ce_mem e) (unat v) 4
                       then '' ->'' @ [CHR 0x22] @ quoted_at e v else []))
            else [])
      else [])"

text \<open>The note itself; it is built after the next instruction has been fetched.\<close>

definition access_note :: "trace_ev \<Rightarrow> trace_world \<Rightarrow> (string \<times> region_tls \<times> region_state) option" where
  "access_note e w =
     (let ti = w_ti w; p = ti_pending ti; g = cs_regions (w_call w) in
      if \<not> ti_hasPending ti \<or> pa_last p = 0 then Some ([], w_tls w, g)
      else map_option (\<lambda>(tag, th, g').
             ((if pa_is_load p then ''  mem_r[0x'' else ''  mem_w[0x'') @ uint64ToHex (pa_last p) @ tag @
              (if pa_is_load p then '']'' else '']=0x'' @ stored_value e (ti_x ti) (ev_insn e (ti_pinsn ti))) @
              string_note e p, th, g'))
             (appendRegionTag (ce_os e) (ce_maps e) (ce_gen e) (pa_last p) (w_tls w, g)))"

definition print_access :: "trace_ev \<Rightarrow> trace_world \<Rightarrow> trace_world option" where
  "print_access e w =
     do {
       (t, th, g) \<leftarrow> access_note e w;
       w1 \<leftarrow> (if t = [] then Some w else add_text t w);
       Some (upd_ti (\<lambda>ti. ti\<lparr>ti_hasPending := False\<rparr>) (w1\<lparr>w_tls := th, w_call := (w_call w1)\<lparr>cs_regions := g\<rparr>\<rparr>))
     }"

subsection \<open>The line\<close>

text \<open>The texts of the instruction, as long as the cache measured them.\<close>

definition asm_text :: "trace_ev \<Rightarrow> nat \<Rightarrow> disasm_cache \<Rightarrow> string" where
  "asm_text e i c =
     (case dc_getStrLens (ev_addr e) c of
        Some (mn, opl) \<Rightarrow> take mn (fst (insn_texts e i)) @ '' '' @ take opl (snd (insn_texts e i))
      | None \<Rightarrow> take (strnlen (fst (insn_texts e i)) 32) (fst (insn_texts e i)) @ '' '' @
                take (strnlen (snd (insn_texts e i)) 160) (snd (insn_texts e i)))"

definition line_head :: "trace_ev \<Rightarrow> nat \<Rightarrow> current_module \<Rightarrow> disasm_cache \<Rightarrow> string" where
  "line_head e i so c =
     [CHR 0x0A] @ cm_name so @ ''+0x'' @ uint64ToHex (ev_addr e - cm_base so) @ '' '' @
     ''0x'' @ uint64ToHex (ev_addr e) @ '': '' @ asm_text e i c"

definition note_access :: "trace_ev \<Rightarrow> nat \<Rightarrow> trace_world \<Rightarrow> trace_world" where
  "note_access e i w =
     upd_ti (\<lambda>ti. ti\<lparr>ti_pending := pending_of (\<lambda>r. Some (read_x (ev_uc e) r)) (Some (ti_x ti)) (ev_insn e i)
         ((ti_pending ti)\<lparr>pa_last := 0\<rparr>), ti_pinsn := i, ti_hasPending := True\<rparr>) w"

definition print_svc :: "trace_ev \<Rightarrow> nat \<Rightarrow> trace_world \<Rightarrow> trace_world option" where
  "print_svc e i w =
     do {
       w1 \<leftarrow> (let o1 = svc_flush_pending (ce_mem e) (ti_x (w_ti w) ! 0) (ti_fds (w_ti w)) (ti_svc (w_ti w)) in
             if sp_type (ti_svc (w_ti w)) = SVC_PEND_NONE then Some w
             else add_text (so_text o1) (upd_ti (\<lambda>ti. ti\<lparr>ti_fds := so_fds o1, ti_svc := so_pending o1\<rparr>) w));
       (let o2 = svc_handle (ev_NR e) (ce_mem e) (ce_page e) (\<lambda>k. read_x (ev_uc e) (int k)) (ti_x (w_ti w1) ! 8)
                   (ti_fds (w_ti w1)) (ti_svc (w_ti w1)) in
        if in_id (ev_insn e i) = INS_SVC
        then add_text (so_text o2) (upd_ti (\<lambda>ti. ti\<lparr>ti_fds := so_fds o2, ti_svc := so_pending o2\<rparr>) w1)
        else Some w1)
     }"

text \<open>A return is written at once; the one that leaves the traced function flushes the file.\<close>

definition print_ret :: "trace_ev \<Rightarrow> nat \<Rightarrow> trace_world \<Rightarrow> trace_world option" where
  "print_ret e i w =
     (if in_id (ev_insn e i) \<noteq> INS_RET then Some w
      else map_option (\<lambda>w1.
             (let w2 = upd_ti (\<lambda>ti. ti\<lparr>ti_hasLast := False\<rparr>) (write_builder w1) in
              if ti_entryLrSet (w_ti w2) \<and> ti_x (w_ti w2) ! 30 = ti_entryLr (w_ti w2) then put_op DFlush w2 else w2))
             (add_text ('' x0=0x'' @ uint64ToHex (ti_x (w_ti w) ! 0)) w))"

text \<open>Before anything of the instruction is printed: the line before it, when it wrote no register.\<close>

definition print_begin :: "trace_world \<Rightarrow> trace_world" where
  "print_begin w =
     (let w0 = (if ti_sbInit (w_ti w) then w else upd_ti (\<lambda>ti. ti\<lparr>ti_sb := initStringBuilder, ti_sbInit := True\<rparr>) w) in
      if sb_text (ti_sb (w_ti w0)) \<noteq> [] \<and> \<not> ti_hasLast (w_ti w0) then write_builder w0 else w0)"

text \<open>The instruction, from the cache or from capstone; 0 when it cannot be decoded.\<close>

definition fetch_insn :: "trace_ev \<Rightarrow> disasm_cache \<Rightarrow> nat \<times> disasm_cache" where
  "fetch_insn e c =
     (let r = dc_get (ev_addr e) c in
      if fst r \<noteq> 0 then r
      else if ev_new e = 0 then (0, snd r)
      else (ev_new e, dc_put (insn_texts e) (ev_addr e) (ev_new e) (snd r)))"

definition printAssemble2 :: "trace_ev \<Rightarrow> trace_world \<Rightarrow> trace_world option" where
  "printAssemble2 e w =
     (let w0 = print_begin w; r = fetch_insn e (w_dc w0); i = fst r; w1 = w0\<lparr>w_dc := snd r\<rparr> in
      if i = 0 then Some w1
      else do {
        w2 \<leftarrow> (if ti_hasLast (w_ti w1) then map_option write_builder (visitLast e w1) else Some w1);
        w3 \<leftarrow> print_access e w2;
        w4 \<leftarrow> add_text (line_head e i (ti_so (w_ti w3)) (w_dc w3)) (upd_ti (\<lambda>ti. ti\<lparr>ti_insnCounter := ti_insnCounter ti + 1\<rparr>) w3);
        w5 \<leftarrow> visit e i w4;
        w6 \<leftarrow> print_svc e i (note_access e i w5);
        print_ret e i w6
      })"

end
