(* ===== verification/Trace_Code.thy ===== *)
theory Trace_Code
  imports Trace_Line Plt_Stub
begin

text \<open>
  The hook before every instruction (\<open>trace_code\<close> of \<open>trace/src/EastTrace.cpp\<close>) on a thread's own \<open>TraceInfo\<close>:
  results of JNI and library calls, the instructions that are not shown (PLT stubs, JNI wrappers), the change of
  module, the line itself, the periodic flush and cleanup, and the calls recognised at a branch. The steps
  are definitions of their own, composed in the order of the code.
\<close>

subsection \<open>Before the line\<close>

text \<open>Lines that other writers add: each is one call of the thread's active buffer.\<close>

definition write_active :: "string list \<Rightarrow> trace_world \<Rightarrow> trace_world" where
  "write_active ls w = (if w_active w then fold writeToFile ls w else w)"

definition x_of :: "trace_ev \<Rightarrow> int \<Rightarrow> u64" where
  "x_of e r = read_x (ev_uc e) r"

text \<open>Where the code stops holding back the line of the last instruction.\<close>

definition settle_line :: "trace_world \<Rightarrow> trace_world" where
  "settle_line w = upd_ti (\<lambda>ti. ti\<lparr>ti_hasLast := False, ti_hasPending := False\<rparr>) (write_builder w)"

definition jni_returned :: "trace_ev \<Rightarrow> trace_world \<Rightarrow> trace_world option" where
  "jni_returned e w =
     (if js_pending_ret (w_jni w) \<noteq> 0 \<and> ev_addr e = js_pending_ret (w_jni w)
      then (let w1 = upd_ti (\<lambda>ti. ti\<lparr>ti_hasLast := False, ti_hasPending := False\<rparr>)
                       (if ti_sbInit (w_ti w) then write_builder w else w) in
            map_option (\<lambda>r. write_active (fst r) (w1\<lparr>w_jni := snd r\<rparr>)) (jni_on_return (ev_jvm e) (x_of e) (w_jni w1)))
      else Some w)"

definition call_jni :: "trace_ev \<Rightarrow> u64 \<Rightarrow> u64 \<Rightarrow> trace_world \<Rightarrow> trace_world option" where
  "call_jni e target ret w =
     map_option (\<lambda>r. write_active (fst r) (w\<lparr>w_jni := snd r\<rparr>)) (jni_on_call (ev_jvm e) (x_of e) target ret (w_jni w))"

text \<open>Inside a JNI wrapper nothing is shown, but its call of the JNI function is recognised.\<close>

definition wrapper_insn :: "trace_ev \<Rightarrow> trace_world \<Rightarrow> trace_world option" where
  "wrapper_insn e w =
     (if \<not> ti_direct (w_ti w) then Some w
      else do {
        raw \<leftarrow> load32 (ce_mem e) (ev_addr e);
        (if (is_blr raw \<or> is_br raw) \<and> isJniAddress (w_jni w) (ev_x e ! branch_reg raw)
         then call_jni e (ev_x e ! branch_reg raw) (if is_blr raw then ev_addr e + 4 else ti_skip_ret (w_ti w)) w
         else Some w)
      })"

text \<open>Another module than that of the last instruction.\<close>

definition module_of :: "'a call_env_scheme \<Rightarrow> library_info \<Rightarrow> current_module option" where
  "module_of e l =
     map_option (\<lambda>plt. \<lparr>cm_name = getPathFileName (Some (li_name l)), cm_path = li_name l, cm_base = li_segments_start l,
         cm_end = li_segments_end l, cm_bias = li_base_address l, cm_plt_start = fst plt, cm_plt_end = snd plt\<rparr>)
       (findPltSection (os_malloc (ce_os e)) (os_open (ce_os e) (li_name l)) (li_base_address l))"

definition outside_module :: "u64 \<Rightarrow> current_module \<Rightarrow> bool" where
  "outside_module a so \<longleftrightarrow> cm_base so = 0 \<or> a < cm_base so \<or> cm_end so \<le> a"

definition update_module :: "trace_ev \<Rightarrow> trace_world \<Rightarrow> trace_world option" where
  "update_module e w =
     (if outside_module (ev_addr e) (ti_so (w_ti w))
      then do {
        (l, libs) \<leftarrow> findModuleByAddressExact (ce_mem e) (ce_os e) (ce_maps e (ce_gen e)) (ev_addr e) (w_libs w);
        so \<leftarrow> module_of e l;
        Some (upd_ti (\<lambda>ti. ti\<lparr>ti_so := so\<rparr>) (w\<lparr>w_libs := libs\<rparr>))
      }
      else Some w)"

text \<open>The 32 registers and the flags; the first X30 of the thread is where the traced function returns to.\<close>

definition read_registers :: "trace_ev \<Rightarrow> trace_world \<Rightarrow> trace_world" where
  "read_registers e w =
     upd_ti (\<lambda>ti. ti\<lparr>ti_direct := True, ti_x := take 32 (ev_x e) @ [ucast (ev_nzcv e)],
         ti_entryLr := (if ti_entryLrSet ti then ti_entryLr ti else ev_x e ! 30), ti_entryLrSet := True\<rparr>) w"

definition emit_event :: "trace_ev \<Rightarrow> call_event \<Rightarrow> trace_world \<Rightarrow> trace_world option" where
  "emit_event e ev w =
     map_option (\<lambda>(s, c). write_active [s] (w\<lparr>w_call := c\<rparr>))
       (funcCallTraceEmit (call_env.truncate e) (ev_tid e) (w_active w) ev (w_call w))"

definition call_returned :: "trace_ev \<Rightarrow> trace_world \<Rightarrow> trace_world option" where
  "call_returned e w =
     (if ti_callRet (w_ti w) \<noteq> 0 \<and> ev_addr e = ti_callRet (w_ti w)
      then map_option (upd_ti (\<lambda>ti. ti\<lparr>ti_callRet := 0\<rparr>)) (emit_event e (ReturnEv (x_of e 0) (ti_x (w_ti w) ! 0)) w)
      else Some w)"

subsection \<open>Periodic work\<close>

definition FLUSH_INTERVAL :: u32 where "FLUSH_INTERVAL = 100000"
definition MEM_CLEANUP_INTERVAL :: u32 where "MEM_CLEANUP_INTERVAL = 3000000"

definition periodic_flush :: "trace_world \<Rightarrow> trace_world" where
  "periodic_flush w =
     (let n = ti_flushCounter (w_ti w) + 1 in
      if FLUSH_INTERVAL \<le> n then put_op DFlush (upd_ti (\<lambda>ti. ti\<lparr>ti_flushCounter := 0\<rparr>) w)
      else upd_ti (\<lambda>ti. ti\<lparr>ti_flushCounter := n\<rparr>) w)"

definition shrink_builder :: "trace_info \<Rightarrow> trace_info" where
  "shrink_builder ti =
     (if ti_sbInit ti \<and> 8192 < sb_capacity (ti_sb ti) then ti\<lparr>ti_sb := initStringBuilder\<rparr> else ti)"

definition periodic_cleanup :: "trace_world \<Rightarrow> trace_world" where
  "periodic_cleanup w =
     (let n = ti_cleanCounter (w_ti w) + 1 in
      if MEM_CLEANUP_INTERVAL \<le> n
      then upd_ti (\<lambda>ti. shrink_builder (ti\<lparr>ti_cleanCounter := 0\<rparr>)) (w\<lparr>w_dc := dc_trimCold (w_dc w)\<rparr>)
      else upd_ti (\<lambda>ti. ti\<lparr>ti_cleanCounter := n\<rparr>) w)"

subsection \<open>Calls\<close>

definition start_skip :: "u64 \<Rightarrow> trace_world \<Rightarrow> trace_world" where
  "start_skip ret w = upd_ti (\<lambda>ti. ti\<lparr>ti_skip := True, ti_skip_ret := ret\<rparr>) w"

text \<open>\<open>std::string::find\<close>.\<close>

definition is_jni_wrapper :: "string \<Rightarrow> bool" where
  "is_jni_wrapper pretty = contains_substring pretty ''_JNIEnv::''"

definition look_symbol :: "trace_ev \<Rightarrow> u64 \<Rightarrow> trace_world \<Rightarrow> (string option \<times> trace_world) option" where
  "look_symbol e a w =
     map_option (\<lambda>(s, c). (map_option chars_of s,
         w\<lparr>w_call := (w_call w)\<lparr>cs_regions := (cs_regions (w_call w))\<lparr>rg_syms := c\<rparr>\<rparr>\<rparr>))
       (lookupSymbolExact (ce_os e) a (rg_syms (cs_regions (w_call w))))"

text \<open>A function of this module: its name, and a JNI wrapper is skipped.\<close>

definition show_symbol :: "trace_ev \<Rightarrow> string option \<Rightarrow> trace_world \<Rightarrow> trace_world" where
  "show_symbol e s w =
     (case s of
        None \<Rightarrow> w
      | Some n \<Rightarrow>
          (let pretty = demangled (ce_demangle e) n; w1 = writeToFile pretty (writeToFile ''  [CALL] '' w) in
           if is_jni_wrapper pretty then start_skip (ev_addr e + 4) w1 else w1))"

text \<open>What a stub leads to: a function of this module, a JNI function, or another library.\<close>

definition show_call :: "trace_ev \<Rightarrow> u64 \<Rightarrow> trace_world \<Rightarrow> trace_world option" where
  "show_call e target w =
     (let so = ti_so (w_ti w) in
      if cm_base so \<le> target \<and> target < cm_end so
      then map_option (\<lambda>(s, w1). show_symbol e s w1) (look_symbol e target w)
      else if isJniAddress (w_jni w) target
      then map_option (start_skip (ev_addr e + 4)) (call_jni e target (ev_addr e + 4) w)
      else do {
        (s, w1) \<leftarrow> look_symbol e target w;
        w2 \<leftarrow> emit_event e (CallEv target s (\<lambda>k. ti_x (w_ti w1) ! k)) w1;
        Some (upd_ti (\<lambda>ti. ti\<lparr>ti_callRet := ev_addr e + 4\<rparr>) w2)
      })"

definition pending_id :: "trace_ev \<Rightarrow> trace_world \<Rightarrow> insn_id option" where
  "pending_id e w =
     (if ti_hasPending (w_ti w) \<and> ti_pinsn (w_ti w) \<noteq> 0 then Some (in_id (ev_insn e (ti_pinsn (w_ti w)))) else None)"

text \<open>Step C: a direct branch into the \<open>.plt\<close> section.\<close>

definition plt_call :: "trace_ev \<Rightarrow> trace_world \<Rightarrow> trace_world option" where
  "plt_call e w =
     (if pending_id e w \<noteq> Some INS_BL \<and> pending_id e w \<noteq> Some INS_B then Some w
      else do {
        raw \<leftarrow> load32 (ce_mem e) (ev_addr e);
        (let target = bl_target raw (ev_addr e); s = cm_plt_start (ti_so (w_ti w)); t = cm_plt_end (ti_so (w_ti w)) in
         if s \<noteq> 0 \<and> t \<noteq> 0 \<and> s \<le> target \<and> target < t
         then do {
           resolved \<leftarrow> resolvePltTarget (ce_mem e) target;
           w1 \<leftarrow> (if resolved = 0 then Some (settle_line w) else show_call e resolved (settle_line w));
           Some (upd_ti (\<lambda>ti. ti\<lparr>ti_pltStart := s, ti_pltEnd := t\<rparr>) w1)
         }
         else Some w)
      })"

text \<open>Step D: a register branch out of the module.\<close>

definition far_branch :: "trace_ev \<Rightarrow> trace_world \<Rightarrow> trace_world option" where
  "far_branch e w =
     (if pending_id e w \<noteq> Some INS_BR \<and> pending_id e w \<noteq> Some INS_BLR then Some w
      else map_option (\<lambda>raw.
             (let target = ti_x (w_ti w) ! branch_reg raw; so = ti_so (w_ti w) in
              if branch_reg raw \<le> 30 \<and> (target < cm_base so \<or> cm_end so \<le> target) then settle_line w else w))
             (load32 (ce_mem e) (ev_addr e)))"

subsection \<open>The hook\<close>

text \<open>What is done for an instruction that is shown.\<close>

definition shown_insn :: "trace_ev \<Rightarrow> trace_world \<Rightarrow> trace_world option" where
  "shown_insn e w =
     do {
       w1 \<leftarrow> update_module e w;
       w2 \<leftarrow> call_returned e (read_registers e w1);
       w3 \<leftarrow> printAssemble2 e (upd_ti (\<lambda>ti. ti\<lparr>ti_written := True\<rparr>) w2);
       w4 \<leftarrow> plt_call e (periodic_cleanup (periodic_flush w3));
       far_branch e w4
     }"

definition in_plt_skip :: "trace_ev \<Rightarrow> trace_info \<Rightarrow> bool" where
  "in_plt_skip e ti \<longleftrightarrow> ti_pltEnd ti \<noteq> 0 \<and> ti_pltStart ti \<le> ev_addr e \<and> ev_addr e < ti_pltEnd ti"

definition trace_code :: "trace_ev \<Rightarrow> trace_world \<Rightarrow> trace_world option" where
  "trace_code e w =
     Option.bind (jni_returned e w) (\<lambda>w1.
      if in_plt_skip e (w_ti w1) then Some w1
      else (let w2 = (if ti_pltEnd (w_ti w1) \<noteq> 0 then upd_ti (\<lambda>ti. ti\<lparr>ti_pltEnd := 0, ti_pltStart := 0\<rparr>) w1 else w1) in
            if ti_skip (w_ti w2) \<and> ev_addr e \<noteq> ti_skip_ret (w_ti w2) then wrapper_insn e w2
            else (let w3 = (if ti_skip (w_ti w2) then upd_ti (\<lambda>ti. ti\<lparr>ti_skip := False, ti_skip_ret := 0\<rparr>) w2 else w2) in
                  shown_insn e w3)))"

fun trace_run :: "trace_ev list \<Rightarrow> trace_world \<Rightarrow> trace_world option" where
  "trace_run [] w = Some w"
| "trace_run (e # es) w = Option.bind (trace_code e w) (trace_run es)"

end
