(* ===== verification/Trace_Text.thy ===== *)
theory Trace_Text
  imports Trace_Code
begin

text \<open>
  What a thread's trace contains. \<open>shown_text\<close> is everything handed to the output buffer, then the line still
  in the builder. The lemmas follow the steps of \<open>trace_code\<close>; each leaves a well-formed builder and only
  adds at the end, as long as nothing else writes to the buffer while a line is held back.
\<close>

definition shown_text :: "trace_world \<Rightarrow> byte list" where
  "shown_text w = concat (map op_bytes (w_out w)) @ text_bytes (sb_text (ti_sb (w_ti w)))"

definition held_text :: "trace_world \<Rightarrow> string" where
  "held_text w = sb_text (ti_sb (w_ti w))"

text \<open>The builder is well-formed once it is initialised, and empty before; a skipped wrapper holds no line.\<close>

definition builder_ok :: "trace_world \<Rightarrow> bool" where
  "builder_ok w \<longleftrightarrow> (if ti_sbInit (w_ti w) then sb_wf (ti_sb (w_ti w)) else held_text w = [])"

definition text_ok :: "trace_world \<Rightarrow> bool" where
  "text_ok w \<longleftrightarrow> builder_ok w \<and> (ti_skip (w_ti w) \<longrightarrow> held_text w = [])"

definition grows :: "trace_world \<Rightarrow> trace_world \<Rightarrow> bool" where
  "grows w w' \<longleftrightarrow> builder_ok w' \<and> (\<exists>t. shown_text w' = shown_text w @ t)"

text \<open>What the steps of a line leave alone.\<close>

definition same_flow :: "trace_world \<Rightarrow> trace_world \<Rightarrow> bool" where
  "same_flow w w' \<longleftrightarrow> ti_sbInit (w_ti w') = ti_sbInit (w_ti w) \<and> ti_so (w_ti w') = ti_so (w_ti w) \<and>
     ti_skip (w_ti w') = ti_skip (w_ti w) \<and> ti_cleanCounter (w_ti w') = ti_cleanCounter (w_ti w)"

lemma grows_refl: "builder_ok w \<Longrightarrow> grows w w"
  by (simp add: grows_def)

lemma grows_trans: "grows w w' \<Longrightarrow> grows w' w'' \<Longrightarrow> grows w w''"
  by (auto simp: grows_def)

lemma same_flow_refl [simp]: "same_flow w w"
  by (simp add: same_flow_def)

lemma same_flow_trans: "same_flow w w' \<Longrightarrow> same_flow w' w'' \<Longrightarrow> same_flow w w''"
  by (simp add: same_flow_def)

subsection \<open>Builder and buffer\<close>

text \<open>An update that touches neither the builder nor the buffer.\<close>

lemma quiet:
  assumes "w_out w' = w_out w" and "ti_sb (w_ti w') = ti_sb (w_ti w)" and "ti_sbInit (w_ti w') = ti_sbInit (w_ti w)"
  shows "shown_text w' = shown_text w" and "held_text w' = held_text w" and "builder_ok w' \<longleftrightarrow> builder_ok w"
  using assms by (simp_all add: shown_text_def held_text_def builder_ok_def)

lemma add_text_SomeD:
  assumes "add_text s w = Some w'" and "builder_ok w" and "ti_sbInit (w_ti w)"
  shows "shown_text w' = shown_text w @ text_bytes s" and "builder_ok w'" and "same_flow w w'" and
    "\<exists>sb. w' = upd_ti (\<lambda>ti. ti\<lparr>ti_sb := sb\<rparr>) w"
proof -
  from assms(2,3) have "sb_wf (ti_sb (w_ti w))" by (simp add: builder_ok_def)
  with appendStringN_ok [of "ti_sb (w_ti w)" s] obtain sb where
    sb: "appendStringN (ti_sb (w_ti w)) s = Some sb" "sb_wf sb" "sb_text sb = sb_text (ti_sb (w_ti w)) @ s" by blast
  then have w': "w' = upd_ti (\<lambda>ti. ti\<lparr>ti_sb := sb\<rparr>) w" using assms(1) by (simp add: add_text_def)
  then show "shown_text w' = shown_text w @ text_bytes s" "builder_ok w'" "same_flow w w'"
    "\<exists>sb. w' = upd_ti (\<lambda>ti. ti\<lparr>ti_sb := sb\<rparr>) w"
    using sb assms(3) by (auto simp: shown_text_def builder_ok_def upd_ti_def same_flow_def)
qed

lemma write_builder_text:
  "shown_text (write_builder w) = shown_text w" "held_text (write_builder w) = []"
  "builder_ok w \<Longrightarrow> builder_ok (write_builder w)" "same_flow w (write_builder w)"
  by (auto simp: write_builder_def writeToFile_def put_op_def upd_ti_def shown_text_def held_text_def builder_ok_def
      resetStringBuilder_def same_flow_def sb_wf_def text_bytes_def)

lemma writeToFile_text:
  assumes "held_text w = []"
  shows "shown_text (writeToFile s w) = shown_text w @ text_bytes s" and "held_text (writeToFile s w) = []"
    and "builder_ok (writeToFile s w) \<longleftrightarrow> builder_ok w" and "w_ti (writeToFile s w) = w_ti w"
    and "w_dc (writeToFile s w) = w_dc w"
  using assms by (auto simp: writeToFile_def put_op_def shown_text_def held_text_def builder_ok_def)

lemma write_active_text:
  assumes "held_text w = []"
  shows "\<exists>t. shown_text (write_active ls w) = shown_text w @ t" and "held_text (write_active ls w) = []"
    and "builder_ok (write_active ls w) \<longleftrightarrow> builder_ok w" and "w_ti (write_active ls w) = w_ti w"
    and "w_dc (write_active ls w) = w_dc w"
proof -
  have "(\<exists>t. shown_text (fold writeToFile ls w) = shown_text w @ t) \<and> held_text (fold writeToFile ls w) = [] \<and>
      (builder_ok (fold writeToFile ls w) \<longleftrightarrow> builder_ok w) \<and> w_ti (fold writeToFile ls w) = w_ti w \<and>
      w_dc (fold writeToFile ls w) = w_dc w" if "held_text w = []" for w
    using that
  proof (induction ls arbitrary: w)
    case (Cons s ls)
    note one = writeToFile_text [OF Cons.prems]
    from Cons.IH [OF one(2), of s] one show ?case by auto
  qed auto
  from this [OF assms] assms
  show "\<exists>t. shown_text (write_active ls w) = shown_text w @ t" "held_text (write_active ls w) = []"
    "builder_ok (write_active ls w) \<longleftrightarrow> builder_ok w" "w_ti (write_active ls w) = w_ti w"
    "w_dc (write_active ls w) = w_dc w"
    by (auto simp: write_active_def)
qed

subsection \<open>The steps of a line\<close>

text \<open>A step on an initialised builder that adds text at the end and keeps the flow.\<close>

definition line_step :: "trace_world \<Rightarrow> trace_world \<Rightarrow> bool" where
  "line_step w w' \<longleftrightarrow> grows w w' \<and> same_flow w w'"

lemma line_step_trans: "line_step w w' \<Longrightarrow> line_step w' w'' \<Longrightarrow> line_step w w''"
  by (auto simp: line_step_def intro: grows_trans same_flow_trans)

lemma line_step_ok: "line_step w w' \<Longrightarrow> builder_ok w' \<and> (ti_sbInit (w_ti w) \<longrightarrow> ti_sbInit (w_ti w'))"
  by (simp add: line_step_def grows_def same_flow_def)

lemma line_step_quiet:
  assumes "builder_ok w" and "w_out w' = w_out w" and "ti_sb (w_ti w') = ti_sb (w_ti w)" and "same_flow w w'"
  shows "line_step w w'"
  using assms quiet [of w' w] by (simp add: line_step_def grows_def same_flow_def)

lemma line_step_upd:
  assumes "builder_ok w" and "ti_sb (f (w_ti w)) = ti_sb (w_ti w)" and "ti_sbInit (f (w_ti w)) = ti_sbInit (w_ti w)"
    and "ti_so (f (w_ti w)) = ti_so (w_ti w)" and "ti_skip (f (w_ti w)) = ti_skip (w_ti w)"
    and "ti_cleanCounter (f (w_ti w)) = ti_cleanCounter (w_ti w)"
  shows "line_step w (upd_ti f w)"
  by (rule line_step_quiet) (use assms in \<open>auto simp: upd_ti_def same_flow_def\<close>)

lemma line_step_add:
  assumes "builder_ok w" and "ti_sbInit (w_ti w)" and "add_text s w = Some w'"
  shows "line_step w w'"
  using add_text_SomeD [OF assms(3,1,2)] by (simp add: line_step_def grows_def)

lemma line_step_write: "builder_ok w \<Longrightarrow> line_step w (write_builder w)"
  by (simp add: line_step_def grows_def write_builder_text)

lemma line_step_put: "builder_ok w \<Longrightarrow> op_bytes x = [] \<Longrightarrow> line_step w (put_op x w)"
  by (simp add: line_step_def grows_def put_op_def shown_text_def builder_ok_def held_text_def same_flow_def split: if_splits)

lemma visitLast_step:
  assumes "builder_ok w" and "ti_sbInit (w_ti w)" and "visitLast e w = Some w'"
  shows "line_step w w'"
proof (cases "ti_hasLast (w_ti w)")
  case True
  obtain t p where r: "regAccessPrinterImpl (ev_uc e) (ev_names e) (ev_addr e) ((ti_last (w_ti w))\<lparr>rp_cached := Some (ti_x (w_ti w))\<rparr>) = (t, p)"
    by (cases "regAccessPrinterImpl (ev_uc e) (ev_names e) (ev_addr e) ((ti_last (w_ti w))\<lparr>rp_cached := Some (ti_x (w_ti w))\<rparr>)")
  let ?w1 = "upd_ti (\<lambda>ti. ti\<lparr>ti_last := p, ti_hasLast := False\<rparr>) w"
  have one: "line_step w ?w1" by (rule line_step_upd) (simp_all add: assms(1))
  have "add_text t ?w1 = Some w'" using assms(3) True r by (simp add: visitLast_def Let_def)
  with line_step_ok [OF one] assms(2) have "line_step ?w1 w'" by (intro line_step_add) auto
  with one show ?thesis by (rule line_step_trans)
qed (use assms in \<open>simp add: visitLast_def Let_def line_step_def grows_refl\<close>)

lemma visit_step:
  assumes "builder_ok w" and "ti_sbInit (w_ti w)" and "visit e i w = Some w'"
  shows "line_step w w'"
proof -
  obtain rd wr c where r: "accessed_regs e i (w_dc w) = ((rd, wr), c)" by (cases "accessed_regs e i (w_dc w)") auto
  let ?w0 = "w\<lparr>w_dc := c\<rparr>"
  have zero: "line_step w ?w0" by (rule line_step_quiet) (simp_all add: assms(1) same_flow_def)
  note ok0 = line_step_ok [OF zero]
  obtain w1 where w1: "line_step ?w0 w1" "w' = w1 \<or> (\<exists>p. w' = upd_ti (\<lambda>ti. ti\<lparr>ti_last := p, ti_hasLast := True\<rparr>) w1)"
  proof (cases "rd = []")
    case True
    then show ?thesis using that [of ?w0] assms(3) ok0 r
      by (auto simp: visit_def line_step_def grows_refl split: if_splits)
  next
    case False
    then obtain t w1 where "add_text t ?w0 = Some w1" "w' = w1 \<or> (\<exists>p. w' = upd_ti (\<lambda>ti. ti\<lparr>ti_last := p, ti_hasLast := True\<rparr>) w1)"
      using assms(3) r by (auto simp: visit_def bind_eq_Some_conv split: if_splits)
    with line_step_add [of ?w0 t w1] ok0 assms(2) show ?thesis by (intro that) auto
  qed
  have "line_step w1 w'" using w1(2)
  proof (elim disjE exE)
    assume "w' = w1" then show ?thesis using line_step_ok [OF w1(1)] by (simp add: line_step_def grows_refl)
  next
    fix p assume w': "w' = upd_ti (\<lambda>ti. ti\<lparr>ti_last := p, ti_hasLast := True\<rparr>) w1"
    show ?thesis unfolding w' by (rule line_step_upd) (simp_all add: line_step_ok [OF w1(1)])
  qed
  with zero w1(1) show ?thesis by (blast intro: line_step_trans)
qed

lemma print_access_step:
  assumes "builder_ok w" and "ti_sbInit (w_ti w)" and "print_access e w = Some w'"
  shows "line_step w w'"
proof -
  obtain t th g w1 where n: "access_note e w = Some (t, th, g)" "(if t = [] then Some w else add_text t w) = Some w1"
    "w' = upd_ti (\<lambda>ti. ti\<lparr>ti_hasPending := False\<rparr>) (w1\<lparr>w_tls := th, w_call := (w_call w1)\<lparr>cs_regions := g\<rparr>\<rparr>)"
    using assms(3) by (auto simp: print_access_def bind_eq_Some_conv)
  have one: "line_step w w1"
    using n(2) assms line_step_add [OF assms(1,2), of t w1] by (auto simp: line_step_def grows_refl split: if_splits)
  have "line_step w1 w'" unfolding n(3)
    by (rule line_step_quiet) (simp_all add: line_step_ok [OF one] upd_ti_def same_flow_def)
  with one show ?thesis by (rule line_step_trans)
qed

lemma print_svc_step:
  assumes "builder_ok w" and "ti_sbInit (w_ti w)" and "print_svc e i w = Some w'"
  shows "line_step w w'"
proof -
  have add: "line_step w0 w2" if "builder_ok w0" "ti_sbInit (w_ti w0)"
    "add_text t (upd_ti (\<lambda>ti. ti\<lparr>ti_fds := fds, ti_svc := p\<rparr>) w0) = Some w2" for w0 w2 t fds p
  proof -
    have one: "line_step w0 (upd_ti (\<lambda>ti. ti\<lparr>ti_fds := fds, ti_svc := p\<rparr>) w0)" by (rule line_step_upd) (simp_all add: that(1))
    moreover have "line_step (upd_ti (\<lambda>ti. ti\<lparr>ti_fds := fds, ti_svc := p\<rparr>) w0) w2"
      using line_step_ok [OF one] that(2,3) by (intro line_step_add) auto
    ultimately show ?thesis by (rule line_step_trans)
  qed
  obtain w1 where w1: "w1 = w \<or> (\<exists>t fds p. add_text t (upd_ti (\<lambda>ti. ti\<lparr>ti_fds := fds, ti_svc := p\<rparr>) w) = Some w1)"
    "w' = w1 \<or> (\<exists>t fds p. add_text t (upd_ti (\<lambda>ti. ti\<lparr>ti_fds := fds, ti_svc := p\<rparr>) w1) = Some w')"
    using assms(3) unfolding print_svc_def Let_def bind_eq_Some_conv by (auto split: if_splits)
  from w1(1) have one: "line_step w w1"
    using assms add [OF assms(1,2)] by (auto simp: line_step_def grows_refl)
  from w1(2) have "line_step w1 w'"
    using line_step_ok [OF one] assms(2) add [of w1] by (auto simp: line_step_def grows_refl)
  with one show ?thesis by (rule line_step_trans)
qed

lemma print_ret_step:
  assumes "builder_ok w" and "ti_sbInit (w_ti w)" and "print_ret e i w = Some w'"
  shows "line_step w w'"
proof (cases "in_id (ev_insn e i) = INS_RET")
  case True
  then obtain t w1 where w1: "add_text t w = Some w1" and
    w': "w' = (let w2 = upd_ti (\<lambda>ti. ti\<lparr>ti_hasLast := False\<rparr>) (write_builder w1) in
              if ti_entryLrSet (w_ti w2) \<and> ti_x (w_ti w2) ! 30 = ti_entryLr (w_ti w2) then put_op DFlush w2 else w2)"
    using assms(3) by (auto simp: print_ret_def)
  have one: "line_step w w1" using line_step_add [OF assms(1,2) w1] .
  let ?w2 = "upd_ti (\<lambda>ti. ti\<lparr>ti_hasLast := False\<rparr>) (write_builder w1)"
  have two: "line_step w1 (write_builder w1)" by (rule line_step_write) (simp add: line_step_ok [OF one])
  have three: "line_step (write_builder w1) ?w2" by (rule line_step_upd) (simp_all add: line_step_ok [OF two])
  have "line_step ?w2 (put_op DFlush ?w2)" "line_step ?w2 ?w2"
    using line_step_ok [OF three] line_step_put [of ?w2 DFlush] by (simp_all add: line_step_def grows_refl)
  then have "line_step ?w2 w'" unfolding w' Let_def by simp
  with one two three show ?thesis by (blast intro: line_step_trans)
qed (use assms in \<open>simp add: print_ret_def line_step_def grows_refl\<close>)

text \<open>The whole line: the head is in the text exactly where the line begins.\<close>

lemma print_begin_step:
  assumes "builder_ok w"
  shows "grows w (print_begin w)" and "ti_sbInit (w_ti (print_begin w))" and "w_dc (print_begin w) = w_dc w"
    and "ti_so (w_ti (print_begin w)) = ti_so (w_ti w)" and "ti_skip (w_ti (print_begin w)) = ti_skip (w_ti w)"
    and "ti_cleanCounter (w_ti (print_begin w)) = ti_cleanCounter (w_ti w)"
proof -
  define w0 where "w0 = (if ti_sbInit (w_ti w) then w else upd_ti (\<lambda>ti. ti\<lparr>ti_sb := initStringBuilder, ti_sbInit := True\<rparr>) w)"
  have w0: "builder_ok w0 \<and> shown_text w0 = shown_text w \<and> ti_sbInit (w_ti w0) \<and> w_dc w0 = w_dc w \<and>
      ti_so (w_ti w0) = ti_so (w_ti w) \<and> ti_skip (w_ti w0) = ti_skip (w_ti w) \<and>
      ti_cleanCounter (w_ti w0) = ti_cleanCounter (w_ti w)"
    using assms by (auto simp: w0_def builder_ok_def shown_text_def held_text_def upd_ti_def initStringBuilder_def
        sb_wf_def INITIAL_CAPACITY_def)
  have "print_begin w = w0 \<or> print_begin w = write_builder w0"
    by (simp add: print_begin_def w0_def [symmetric] Let_def)
  moreover have "w_dc (write_builder w0) = w_dc w0"
    by (simp add: write_builder_def upd_ti_def writeToFile_def put_op_def)
  ultimately have "line_step w0 (print_begin w)" "w_dc (print_begin w) = w_dc w0"
    using w0 line_step_write [of w0] by (auto simp: line_step_def grows_refl)
  then show "grows w (print_begin w)" "ti_sbInit (w_ti (print_begin w))" "w_dc (print_begin w) = w_dc w"
    "ti_so (w_ti (print_begin w)) = ti_so (w_ti w)" "ti_skip (w_ti (print_begin w)) = ti_skip (w_ti w)"
    "ti_cleanCounter (w_ti (print_begin w)) = ti_cleanCounter (w_ti w)"
    using w0 by (auto simp: line_step_def grows_def same_flow_def)
qed

lemma add_text_dc: "add_text t w = Some w' \<Longrightarrow> w_dc w' = w_dc w"
  by (auto simp: add_text_def upd_ti_def)

lemma write_builder_dc [simp]: "w_dc (write_builder w) = w_dc w"
  by (simp add: write_builder_def upd_ti_def writeToFile_def put_op_def)

lemma visitLast_dc: "visitLast e w = Some w' \<Longrightarrow> w_dc w' = w_dc w"
  by (auto simp: visitLast_def Let_def upd_ti_def dest!: add_text_dc split: if_splits prod.splits)

lemma print_access_dc: "print_access e w = Some w' \<Longrightarrow> w_dc w' = w_dc w"
  by (auto simp: print_access_def upd_ti_def bind_eq_Some_conv dest!: add_text_dc split: if_splits)

lemma printAssemble2_step:
  assumes "builder_ok w" and "printAssemble2 e w = Some w'"
  shows "grows w w'" and "ti_sbInit (w_ti w')" and "ti_so (w_ti w') = ti_so (w_ti w)" and "ti_skip (w_ti w') = ti_skip (w_ti w)"
    and "ti_cleanCounter (w_ti w') = ti_cleanCounter (w_ti w)"
    and "fst (fetch_insn e (w_dc w)) \<noteq> 0 \<Longrightarrow> \<exists>s t. shown_text w' =
      shown_text w @ s @ text_bytes (line_head e (fst (fetch_insn e (w_dc w))) (ti_so (w_ti w)) (snd (fetch_insn e (w_dc w)))) @ t"
proof -
  note pb = print_begin_step [OF assms(1)]
  let ?r = "fetch_insn e (w_dc w)"
  let ?w1 = "(print_begin w)\<lparr>w_dc := snd ?r\<rparr>"
  let ?head = "text_bytes (line_head e (fst ?r) (ti_so (w_ti w)) (snd ?r))"
  have one: "grows w ?w1" "builder_ok ?w1" "ti_sbInit (w_ti ?w1)" "ti_so (w_ti ?w1) = ti_so (w_ti w)"
    "ti_skip (w_ti ?w1) = ti_skip (w_ti w)" "ti_cleanCounter (w_ti ?w1) = ti_cleanCounter (w_ti w)"
    using pb quiet [of ?w1 "print_begin w"] by (simp_all add: grows_def)
  have all: "grows w w' \<and> ti_sbInit (w_ti w') \<and> ti_so (w_ti w') = ti_so (w_ti w) \<and> ti_skip (w_ti w') = ti_skip (w_ti w) \<and>
    ti_cleanCounter (w_ti w') = ti_cleanCounter (w_ti w) \<and> (fst ?r \<noteq> 0 \<longrightarrow> (\<exists>s t. shown_text w' = shown_text w @ s @ ?head @ t))"
  proof (cases "fst ?r = 0")
    case True
    then show ?thesis using assms(2) one pb(3) by (simp add: printAssemble2_def Let_def)
  next
    case False
    then obtain w2 w3 w4 w5 w6 where
      a: "(if ti_hasLast (w_ti ?w1) then map_option write_builder (visitLast e ?w1) else Some ?w1) = Some w2"
      and b: "print_access e w2 = Some w3"
      and c: "add_text (line_head e (fst ?r) (ti_so (w_ti w3)) (w_dc w3))
          (upd_ti (\<lambda>ti. ti\<lparr>ti_insnCounter := ti_insnCounter ti + 1\<rparr>) w3) = Some w4"
      and d: "visit e (fst ?r) w4 = Some w5" and f: "print_svc e (fst ?r) (note_access e (fst ?r) w5) = Some w6"
      and g: "print_ret e (fst ?r) w6 = Some w'"
      using assms(2) unfolding printAssemble2_def Let_def pb(3) by (simp only: if_False bind_eq_Some_conv) blast
    have two: "line_step ?w1 w2"
    proof (cases "ti_hasLast (w_ti ?w1)")
      case True
      then obtain v where v: "visitLast e ?w1 = Some v" "w2 = write_builder v" using a by auto
      have "line_step ?w1 v" using visitLast_step [OF one(2,3) v(1)] .
      moreover have "line_step v w2" unfolding v(2) by (rule line_step_write) (use calculation line_step_ok in blast)
      ultimately show ?thesis by (rule line_step_trans)
    qed (use a one in \<open>simp add: line_step_def grows_refl\<close>)
    note ok2 = line_step_ok [OF two]
    have dc2: "w_dc w2 = snd ?r" using a by (auto split: if_splits dest!: visitLast_dc)
    have three: "line_step w2 w3" using print_access_step [OF _ _ b] ok2 one(3) by simp
    note ok3 = line_step_ok [OF three]
    let ?v3 = "upd_ti (\<lambda>ti. ti\<lparr>ti_insnCounter := ti_insnCounter ti + 1\<rparr>) w3"
    have v3: "line_step w3 ?v3" by (rule line_step_upd) (simp_all add: ok3)
    note okv = line_step_ok [OF v3]
    have init: "ti_sbInit (w_ti ?v3)" using okv ok3 ok2 one(3) by simp
    note four = add_text_SomeD [OF c _ init]
    have so3: "ti_so (w_ti w3) = ti_so (w_ti w)" "ti_skip (w_ti w3) = ti_skip (w_ti w)"
      "ti_cleanCounter (w_ti w3) = ti_cleanCounter (w_ti w)"
      using two three one by (simp_all add: line_step_def same_flow_def)
    have init4: "ti_sbInit (w_ti w4)" using four(3) okv init by (simp add: same_flow_def)
    have five: "line_step w4 w5" using visit_step [OF four(2) init4 d] okv by blast
    note ok5 = line_step_ok [OF five]
    have n5: "line_step w5 (note_access e (fst ?r) w5)" unfolding note_access_def
      by (rule line_step_upd) (simp_all add: ok5)
    note okn = line_step_ok [OF n5]
    have six: "line_step (note_access e (fst ?r) w5) w6" using print_svc_step [OF _ _ f] okn ok5 init4 by simp
    note ok6 = line_step_ok [OF six]
    have seven: "line_step w6 w'" using print_ret_step [OF _ _ g] ok6 okn ok5 init4 by simp
    have before: "line_step ?w1 ?v3" using two three v3 by (blast intro: line_step_trans)
    have after: "line_step w4 w'" using five n5 six seven by (blast intro: line_step_trans)
    obtain s0 where s0: "shown_text ?w1 = shown_text w @ s0" using one(1) by (auto simp: grows_def)
    obtain s1 where s1: "shown_text ?v3 = shown_text ?w1 @ s1" using before by (auto simp: line_step_def grows_def)
    obtain t where t: "shown_text w' = shown_text w4 @ t" using after by (auto simp: line_step_def grows_def)
    have h: "shown_text w4 = shown_text ?v3 @ ?head"
      using four(1) okv so3 dc2 print_access_dc [OF b] by simp
    have eq: "shown_text w' = shown_text w @ (s0 @ s1) @ ?head @ t" using s0 s1 t h by simp
    then have "\<exists>s t. shown_text w' = shown_text w @ s @ ?head @ t" by blast
    moreover have "\<exists>t. shown_text w' = shown_text w @ t" using eq by blast
    moreover have "builder_ok w'" using line_step_ok [OF after] by simp
    moreover have "same_flow w3 w'" using v3 four(3) after okv by (simp add: line_step_def same_flow_def)
    ultimately show ?thesis using so3 line_step_ok [OF after] init4 by (simp add: grows_def same_flow_def)
  qed
  then show "grows w w'" "ti_sbInit (w_ti w')" "ti_so (w_ti w') = ti_so (w_ti w)" "ti_skip (w_ti w') = ti_skip (w_ti w)"
    "ti_cleanCounter (w_ti w') = ti_cleanCounter (w_ti w)"
    "fst ?r \<noteq> 0 \<Longrightarrow> \<exists>s t. shown_text w' = shown_text w @ s @ ?head @ t"
    by blast+
qed

subsection \<open>The steps of the hook\<close>

lemma settle_line_text:
  assumes "builder_ok w"
  shows "line_step w (settle_line w)" and "held_text (settle_line w) = []" and "w_dc (settle_line w) = w_dc w"
proof -
  let ?f = "\<lambda>ti. ti\<lparr>ti_hasLast := False, ti_hasPending := False\<rparr>"
  have one: "line_step w (write_builder w)" using line_step_write [OF assms] .
  have "line_step (write_builder w) (settle_line w)" unfolding settle_line_def
    by (rule line_step_upd) (simp_all add: line_step_ok [OF one])
  with one show "line_step w (settle_line w)" by (rule line_step_trans)
  have "held_text (settle_line w) = held_text (write_builder w)" "w_dc (settle_line w) = w_dc (write_builder w)"
    by (simp_all only: settle_line_def held_text_def upd_ti_def) simp_all
  then show "held_text (settle_line w) = []" "w_dc (settle_line w) = w_dc w"
    by (simp_all only: write_builder_text(2) write_builder_dc)
qed

lemma write_active_step:
  assumes "builder_ok w" and "held_text w = []" and "w_out w' = w_out w" and "w_ti w' = w_ti w"
  shows "line_step w (write_active ls w')" and "held_text (write_active ls w') = []" and "w_ti (write_active ls w') = w_ti w"
proof -
  have h: "held_text w' = []" "builder_ok w'" "shown_text w' = shown_text w"
    using assms quiet [of w' w] by simp_all
  from write_active_text [OF h(1), of ls] h assms(4)
  show "line_step w (write_active ls w')" "held_text (write_active ls w') = []" "w_ti (write_active ls w') = w_ti w"
    by (auto simp: line_step_def grows_def same_flow_def)
qed

lemma writeToFile_step:
  assumes "builder_ok w" and "held_text w = []"
  shows "line_step w (writeToFile s w)" and "held_text (writeToFile s w) = []"
  using writeToFile_text [OF assms(2), of s] assms(1) by (simp_all add: line_step_def grows_def same_flow_def)

lemma jni_returned_text:
  assumes "builder_ok w" and "jni_returned e w = Some w'"
  shows "line_step w w'" and "held_text w = [] \<Longrightarrow> held_text w' = []" and "ti_callRet (w_ti w') = ti_callRet (w_ti w)"
proof -
  let ?w0 = "if ti_sbInit (w_ti w) then write_builder w else w"
  let ?w1 = "upd_ti (\<lambda>ti. ti\<lparr>ti_hasLast := False, ti_hasPending := False\<rparr>) ?w0"
  have a: "line_step w ?w0" using line_step_write [OF assms(1)] assms by (simp add: line_step_def grows_refl)
  have b: "line_step ?w0 ?w1" by (rule line_step_upd) (simp_all add: line_step_ok [OF a])
  have h: "held_text ?w1 = []"
    using assms write_builder_text(2) [of w] by (auto simp: held_text_def upd_ti_def builder_ok_def)
  have c: "ti_callRet (w_ti ?w1) = ti_callRet (w_ti w)"
    by (simp add: upd_ti_def write_builder_def writeToFile_def put_op_def)
  have w1: "builder_ok ?w1" using line_step_ok [OF b] by simp
  consider "w' = w" | ls j where "w' = write_active ls (?w1\<lparr>w_jni := j\<rparr>)"
    using assms(2) by (auto simp: jni_returned_def Let_def split: if_splits)
  then have "line_step w w' \<and> (held_text w = [] \<longrightarrow> held_text w' = []) \<and> ti_callRet (w_ti w') = ti_callRet (w_ti w)"
  proof cases
    case 2
    have t: "line_step ?w1 w'" "held_text w' = []" "w_ti w' = w_ti ?w1"
      unfolding 2 by (rule write_active_step [OF w1 h]; simp)+
    have "line_step w w'" using a b t(1) by (blast intro: line_step_trans)
    then show ?thesis using t(2) c unfolding t(3) by blast
  qed (use assms in \<open>simp add: line_step_def grows_refl\<close>)
  then show "line_step w w'" "held_text w = [] \<Longrightarrow> held_text w' = []" "ti_callRet (w_ti w') = ti_callRet (w_ti w)" by blast+
qed

lemma call_jni_text:
  assumes "builder_ok w" and "held_text w = []" and "call_jni e target ret w = Some w'"
  shows "line_step w w'" and "held_text w' = []"
proof -
  obtain ls j where w': "w' = write_active ls (w\<lparr>w_jni := j\<rparr>)" using assms(3) by (auto simp: call_jni_def)
  show "line_step w w'" "held_text w' = []"
    unfolding w' by (rule write_active_step [OF assms(1,2)]; simp)+
qed

lemma wrapper_insn_text:
  assumes "builder_ok w" and "held_text w = []" and "wrapper_insn e w = Some w'"
  shows "line_step w w'" and "held_text w' = []"
  using assms call_jni_text [OF assms(1,2), of e]
  by (auto simp: wrapper_insn_def line_step_def grows_refl bind_eq_Some_conv split: if_splits)

lemma emit_event_text:
  assumes "builder_ok w" and "held_text w = []" and "emit_event e ev w = Some w'"
  shows "line_step w w'" and "held_text w' = []"
proof -
  obtain s c where "w' = write_active [s] (w\<lparr>w_call := c\<rparr>)" using assms(3) by (auto simp: emit_event_def)
  then show "line_step w w'" "held_text w' = []"
    using write_active_step [OF assms(1,2), of "w\<lparr>w_call := c\<rparr>" "[s]"] by simp_all
qed

lemma start_skip_text:
  assumes "builder_ok w"
  shows "grows w (start_skip ret w)" and "held_text (start_skip ret w) = held_text w"
    and "ti_sbInit (w_ti (start_skip ret w)) = ti_sbInit (w_ti w)" and "ti_so (w_ti (start_skip ret w)) = ti_so (w_ti w)"
  using assms quiet [of "start_skip ret w" w] by (simp_all add: start_skip_def upd_ti_def grows_def)

lemma show_call_text:
  assumes "builder_ok w" and "held_text w = []" and "show_call e target w = Some w'"
  shows "grows w w'" and "held_text w' = []" and "ti_sbInit (w_ti w') = ti_sbInit (w_ti w)" and "ti_so (w_ti w') = ti_so (w_ti w)"
proof -
  let ?goal = "\<lambda>w'. grows w w' \<and> held_text w' = [] \<and> ti_sbInit (w_ti w') = ti_sbInit (w_ti w) \<and> ti_so (w_ti w') = ti_so (w_ti w)"
  have look: "line_step w w1 \<and> held_text w1 = []" if l: "look_symbol e target w = Some (s, w1)" for s w1
  proof -
    have "w_out w1 = w_out w" "w_ti w1 = w_ti w" using l by (auto simp: look_symbol_def)
    then show ?thesis using assms(1,2) quiet [of w1 w] by (simp add: line_step_def same_flow_def grows_def)
  qed
  have skip: "?goal (start_skip r w2)" if "line_step w w2" "held_text w2 = []" for r w2
    using that start_skip_text [of w2 r] line_step_ok [OF that(1)]
    by (auto simp: line_step_def same_flow_def intro: grows_trans)
  have flow: "?goal w2" if "line_step w w2" "held_text w2 = []" for w2
    using that by (simp add: line_step_def same_flow_def)
  have "?goal w'"
  proof -
    consider
      (inner) s w1 where "look_symbol e target w = Some (s, w1)" "w' = show_symbol e s w1"
    | (jni) w1 where "call_jni e target (ev_addr e + 4) w = Some w1" "w' = start_skip (ev_addr e + 4) w1"
    | (outer) s w1 w2 x where "look_symbol e target w = Some (s, w1)" "emit_event e (CallEv target s x) w1 = Some w2"
        "w' = upd_ti (\<lambda>ti. ti\<lparr>ti_callRet := ev_addr e + 4\<rparr>) w2"
      using assms(3) unfolding show_call_def Let_def
      by (auto simp: bind_eq_Some_conv split: if_splits)
    then show ?thesis
    proof cases
      case inner
      note l = look [OF inner(1)]
      have put: "line_step w (writeToFile p (writeToFile q w1)) \<and> held_text (writeToFile p (writeToFile q w1)) = []" for p q
      proof -
        note one = writeToFile_step [of w1 q]
        have "line_step w1 (writeToFile q w1)" "held_text (writeToFile q w1) = []"
          using one l line_step_ok [of w w1] by blast+
        then have "line_step w1 (writeToFile p (writeToFile q w1)) \<and> held_text (writeToFile p (writeToFile q w1)) = []"
          using writeToFile_step [of "writeToFile q w1" p] line_step_ok line_step_trans by blast
        then show ?thesis using l by (blast intro: line_step_trans)
      qed
      have "w' = w1 \<or> (\<exists>p q r. w' = writeToFile p (writeToFile q w1) \<or> w' = start_skip r (writeToFile p (writeToFile q w1)))"
        by (cases s) (auto simp: inner(2) show_symbol_def Let_def)
      then show ?thesis
      proof (elim disjE exE)
        assume "w' = w1" then show ?thesis using flow [of w1] l by blast
      next
        fix p q r assume "w' = writeToFile p (writeToFile q w1)" then show ?thesis using flow put by blast
      next
        fix p q r assume "w' = start_skip r (writeToFile p (writeToFile q w1))" then show ?thesis using skip put by blast
      qed
    next
      case jni
      then show ?thesis using call_jni_text [OF assms(1,2) jni(1)] skip by simp
    next
      case outer
      note l = look [OF outer(1)]
      then have two: "line_step w w2" "held_text w2 = []"
        using emit_event_text [OF _ _ outer(2)] line_step_ok [of w w1] by (auto intro: line_step_trans)
      have "line_step w2 w'" unfolding outer(3) by (rule line_step_upd) (use line_step_ok [OF two(1)] in simp_all)
      moreover have "held_text w' = []" using two(2) by (simp add: outer(3) held_text_def upd_ti_def)
      ultimately show ?thesis using flow two(1) by (blast intro: line_step_trans)
    qed
  qed
  then show "grows w w'" "held_text w' = []" "ti_sbInit (w_ti w') = ti_sbInit (w_ti w)" "ti_so (w_ti w') = ti_so (w_ti w)" by blast+
qed

text \<open>A step after the line: it may start to skip, and then no line is held.\<close>

definition call_step :: "trace_world \<Rightarrow> trace_world \<Rightarrow> bool" where
  "call_step w w' \<longleftrightarrow> grows w w' \<and> ti_so (w_ti w') = ti_so (w_ti w) \<and> (ti_skip (w_ti w') \<longrightarrow> held_text w' = [])"

lemma call_step_line:
  "line_step w w' \<Longrightarrow> \<not> ti_skip (w_ti w) \<or> held_text w' = [] \<Longrightarrow> call_step w w'"
  by (auto simp: line_step_def call_step_def same_flow_def)

lemma plt_call_step:
  assumes "builder_ok w" and "\<not> ti_skip (w_ti w)" and "plt_call e w = Some w'"
  shows "call_step w w'"
proof -
  have same: "call_step w w" using assms(1,2) by (simp add: call_step_def grows_refl)
  show ?thesis
  proof (cases "w' = w")
    case False
    then obtain w1 s t where
      r: "w1 = settle_line w \<or> (\<exists>r. show_call e r (settle_line w) = Some w1)" and
      w': "w' = upd_ti (\<lambda>ti. ti\<lparr>ti_pltStart := s, ti_pltEnd := t\<rparr>) w1"
      using assms(3) unfolding plt_call_def Let_def by (auto simp: bind_eq_Some_conv split: if_splits)
    note set = settle_line_text [OF assms(1)]
    have "builder_ok (settle_line w)" using line_step_ok [OF set(1)] by blast
    note sc = show_call_text [OF this set(2), of e _ w1]
    from r have "grows w w1 \<and> held_text w1 = [] \<and> ti_so (w_ti w1) = ti_so (w_ti w)"
    proof (elim disjE exE)
      fix r assume "show_call e r (settle_line w) = Some w1"
      from sc [OF this] show ?thesis using set(1) grows_trans by (simp add: line_step_def same_flow_def) blast
    qed (use set in \<open>simp add: line_step_def same_flow_def\<close>)
    then show ?thesis using quiet [of w' w1] by (simp add: call_step_def grows_def w' upd_ti_def)
  qed (use same in simp)
qed

lemma far_branch_step:
  assumes "builder_ok w" and "ti_skip (w_ti w) \<longrightarrow> held_text w = []" and "far_branch e w = Some w'"
  shows "call_step w w'"
proof -
  have "w' = w \<or> w' = settle_line w" using assms(3) by (auto simp: far_branch_def Let_def split: if_splits)
  then show ?thesis using assms(1,2) settle_line_text [OF assms(1)]
    by (auto simp: call_step_def line_step_def same_flow_def grows_refl)
qed

lemma update_module_text:
  assumes "builder_ok w" and "update_module e w = Some w'"
  shows "grows w w' \<and> held_text w' = held_text w \<and> ti_skip (w_ti w') = ti_skip (w_ti w) \<and>
    ti_sbInit (w_ti w') = ti_sbInit (w_ti w) \<and> w_dc w' = w_dc w \<and> ti_callRet (w_ti w') = ti_callRet (w_ti w) \<and>
    ti_cleanCounter (w_ti w') = ti_cleanCounter (w_ti w)"
proof -
  have "w_out w' = w_out w \<and> ti_sb (w_ti w') = ti_sb (w_ti w) \<and> ti_sbInit (w_ti w') = ti_sbInit (w_ti w) \<and>
      ti_skip (w_ti w') = ti_skip (w_ti w) \<and> w_dc w' = w_dc w \<and> ti_callRet (w_ti w') = ti_callRet (w_ti w) \<and>
      ti_cleanCounter (w_ti w') = ti_cleanCounter (w_ti w)"
    using assms(2) by (auto simp: update_module_def upd_ti_def bind_eq_Some_conv split: if_splits)
  then show ?thesis using assms(1) quiet [of w' w] by (simp add: grows_def)
qed

lemma read_registers_text:
  assumes "builder_ok w"
  shows "line_step w (read_registers e w)" and "held_text (read_registers e w) = held_text w"
    and "w_dc (read_registers e w) = w_dc w" and "ti_callRet (w_ti (read_registers e w)) = ti_callRet (w_ti w)"
proof -
  show "line_step w (read_registers e w)"
    unfolding read_registers_def by (rule line_step_upd) (simp_all add: assms)
qed (simp_all add: read_registers_def held_text_def upd_ti_def)

lemma emit_event_keeps:
  assumes "emit_event e ev w = Some w'"
  shows "w_ti w' = w_ti w" and "w_dc w' = w_dc w"
  using assms by (auto simp: emit_event_def write_active_def writeToFile_def put_op_def)

lemma call_returned_step:
  assumes "builder_ok w" and "ti_callRet (w_ti w) = 0 \<or> ev_addr e \<noteq> ti_callRet (w_ti w) \<or> held_text w = []"
    and "call_returned e w = Some w'"
  shows "line_step w w'" and "w_dc w' = w_dc w"
proof -
  have "line_step w w' \<and> w_dc w' = w_dc w"
  proof (cases "ti_callRet (w_ti w) \<noteq> 0 \<and> ev_addr e = ti_callRet (w_ti w)")
    case True
    then obtain ev w1 where w1: "emit_event e ev w = Some w1" and w': "w' = upd_ti (\<lambda>ti. ti\<lparr>ti_callRet := 0\<rparr>) w1"
      using assms(3) by (auto simp: call_returned_def)
    have h: "held_text w = []" using True assms(2) by auto
    have one: "line_step w w1" using emit_event_text [OF assms(1) h w1] by simp
    have "line_step w1 w'" unfolding w' by (rule line_step_upd) (use line_step_ok [OF one] in simp_all)
    moreover have "w_dc w' = w_dc w"
      using emit_event_keeps [OF w1] by (simp_all add: w' upd_ti_def)
    ultimately show ?thesis using one by (blast intro: line_step_trans)
  qed (use assms in \<open>auto simp: call_returned_def line_step_def grows_refl\<close>)
  then show "line_step w w'" "w_dc w' = w_dc w" by blast+
qed

lemma periodic_flush_step:
  assumes "builder_ok w"
  shows "line_step w (periodic_flush w)" and "w_dc (periodic_flush w) = w_dc w"
proof -
  have one: "line_step w (upd_ti (\<lambda>ti. ti\<lparr>ti_flushCounter := n\<rparr>) w)" for n
    by (rule line_step_upd) (simp_all add: assms)
  then have "line_step w (put_op DFlush (upd_ti (\<lambda>ti. ti\<lparr>ti_flushCounter := n\<rparr>) w))" for n
    using line_step_put line_step_ok line_step_trans by (metis op_bytes.simps(2))
  with one show "line_step w (periodic_flush w)" by (simp add: periodic_flush_def Let_def)
  show "w_dc (periodic_flush w) = w_dc w" by (simp add: periodic_flush_def Let_def put_op_def upd_ti_def)
qed

text \<open>Without a cleanup the periodic work writes nothing.\<close>

lemma no_cleanup_text:
  assumes "builder_ok w" and "ti_cleanCounter (w_ti w) + 1 < MEM_CLEANUP_INTERVAL"
  shows "grows w (periodic_cleanup w)" and "held_text (periodic_cleanup w) = held_text w"
    and "ti_so (w_ti (periodic_cleanup w)) = ti_so (w_ti w)" and "ti_skip (w_ti (periodic_cleanup w)) = ti_skip (w_ti w)"
proof -
  have "periodic_cleanup w = upd_ti (\<lambda>ti. ti\<lparr>ti_cleanCounter := ti_cleanCounter (w_ti w) + 1\<rparr>) w"
    using assms(2) by (simp add: periodic_cleanup_def Let_def)
  then show "grows w (periodic_cleanup w)" "held_text (periodic_cleanup w) = held_text w"
    "ti_so (w_ti (periodic_cleanup w)) = ti_so (w_ti w)" "ti_skip (w_ti (periodic_cleanup w)) = ti_skip (w_ti w)"
    using assms(1) quiet [of "periodic_cleanup w" w] by (simp_all add: grows_def upd_ti_def)
qed

lemma shown_insn_text:
  assumes "builder_ok w" and "\<not> ti_skip (w_ti w)" and "ti_cleanCounter (w_ti w) + 1 < MEM_CLEANUP_INTERVAL"
    and "ti_callRet (w_ti w) = 0 \<or> ev_addr e \<noteq> ti_callRet (w_ti w) \<or> held_text w = []"
    and "shown_insn e w = Some w'" and "i = fst (fetch_insn e (w_dc w))"
  shows "grows w w' \<and> (ti_skip (w_ti w') \<longrightarrow> held_text w' = []) \<and>
    (i \<noteq> 0 \<longrightarrow> (\<exists>s t. shown_text w' = shown_text w @ s @
       text_bytes (line_head e i (ti_so (w_ti w')) (snd (fetch_insn e (w_dc w)))) @ t))"
proof -
  obtain w1 w2 w3 w4 where 1: "update_module e w = Some w1" and 2: "call_returned e (read_registers e w1) = Some w2"
    and 3: "printAssemble2 e (upd_ti (\<lambda>ti. ti\<lparr>ti_written := True\<rparr>) w2) = Some w3"
    and 4: "plt_call e (periodic_cleanup (periodic_flush w3)) = Some w4" and 5: "far_branch e w4 = Some w'"
    using assms(5) by (auto simp: shown_insn_def bind_eq_Some_conv)
  note m = update_module_text [OF assms(1) 1]
  then have ok1: "builder_ok w1" by (simp add: grows_def)
  note rr = read_registers_text [OF ok1, of e]
  note okr = line_step_ok [OF rr(1)]
  have "ti_callRet (w_ti (read_registers e w1)) = 0 \<or> ev_addr e \<noteq> ti_callRet (w_ti (read_registers e w1)) \<or>
      held_text (read_registers e w1) = []"
    using assms(4) m rr(2,4) by simp
  with okr have cr: "line_step (read_registers e w1) w2" "w_dc w2 = w_dc (read_registers e w1)"
    using call_returned_step [OF _ _ 2] by blast+
  let ?v2 = "upd_ti (\<lambda>ti. ti\<lparr>ti_written := True\<rparr>) w2"
  have v2: "line_step w2 ?v2" by (rule line_step_upd) (use line_step_ok [OF cr(1)] in simp_all)
  have pre: "line_step w1 ?v2" using rr(1) cr(1) v2 by (blast intro: line_step_trans)
  have dc: "w_dc ?v2 = w_dc w" using cr(2) rr(3) m by (simp add: upd_ti_def)
  have okv: "builder_ok ?v2" using line_step_ok [OF pre] by blast
  note pa = printAssemble2_step [OF okv 3]
  then have ok3: "builder_ok w3" by (simp add: grows_def)
  have fl: "line_step w3 (periodic_flush w3)" using periodic_flush_step [OF ok3] by blast
  have keep: "ti_skip (w_ti (periodic_flush w3)) = ti_skip (w_ti w)"
    "ti_cleanCounter (w_ti (periodic_flush w3)) = ti_cleanCounter (w_ti w)" "ti_so (w_ti (periodic_flush w3)) = ti_so (w_ti ?v2)"
    using fl pa(3-5) pre m by (simp_all add: line_step_def same_flow_def)
  have okf: "builder_ok (periodic_flush w3)" using line_step_ok [OF fl] by blast
  have "ti_cleanCounter (w_ti (periodic_flush w3)) + 1 < MEM_CLEANUP_INTERVAL" using keep(2) assms(3) by simp
  note cl = no_cleanup_text [OF okf this]
  let ?w5 = "periodic_cleanup (periodic_flush w3)"
  have p: "call_step ?w5 w4" using plt_call_step [OF _ _ 4] cl keep assms(2) by (simp add: grows_def)
  have f: "call_step w4 w'" using far_branch_step [OF _ _ 5] p by (simp add: call_step_def grows_def)
  have so: "ti_so (w_ti w') = ti_so (w_ti ?v2)" using p f cl(3) keep(3) by (simp add: call_step_def)
  have before: "grows w ?v2" using m pre by (auto simp: line_step_def intro: grows_trans)
  have after: "grows w3 w'"
    using fl cl(1) p f by (auto simp: line_step_def call_step_def intro: grows_trans)
  have "grows w w'" using before pa(1) after by (blast intro: grows_trans)
  moreover have "ti_skip (w_ti w') \<longrightarrow> held_text w' = []" using f by (simp add: call_step_def)
  moreover have "\<exists>s t. shown_text w' = shown_text w @ s @
      text_bytes (line_head e i (ti_so (w_ti w')) (snd (fetch_insn e (w_dc w)))) @ t" if "i \<noteq> 0"
  proof -
    let ?h = "text_bytes (line_head e i (ti_so (w_ti w')) (snd (fetch_insn e (w_dc w))))"
    note nz = that
    obtain s t where st: "shown_text w3 = shown_text ?v2 @ s @ ?h @ t"
      using pa(6) nz unfolding assms(6) dc so by blast
    obtain s0 t0 where "shown_text ?v2 = shown_text w @ s0" "shown_text w' = shown_text w3 @ t0"
      using before after by (auto simp: grows_def)
    then have "shown_text w' = shown_text w @ (s0 @ s) @ ?h @ (t @ t0)" using st by simp
    then show ?thesis by blast
  qed
  ultimately show ?thesis by blast
qed

text \<open>Is the instruction of a hook shown, or skipped as part of a stub or a wrapper?\<close>

definition is_shown :: "trace_ev \<Rightarrow> trace_info \<Rightarrow> bool" where
  "is_shown e ti \<longleftrightarrow> \<not> in_plt_skip e ti \<and> (ti_skip ti \<longrightarrow> ev_addr e = ti_skip_ret ti)"

text \<open>A result that is due arrives when no line is held back.\<close>

definition result_in_order :: "trace_ev \<Rightarrow> trace_world \<Rightarrow> bool" where
  "result_in_order e w \<longleftrightarrow> ti_callRet (w_ti w) = 0 \<or> ev_addr e \<noteq> ti_callRet (w_ti w) \<or> held_text w = []"

lemma jni_returned_ti:
  assumes "jni_returned e w = Some w'"
  shows "ti_skip (w_ti w') = ti_skip (w_ti w)" "ti_skip_ret (w_ti w') = ti_skip_ret (w_ti w)"
  "ti_pltStart (w_ti w') = ti_pltStart (w_ti w)" "ti_pltEnd (w_ti w') = ti_pltEnd (w_ti w)"
  "w_dc w' = w_dc w"
proof -
  have "w_ti (fold writeToFile ls v) = w_ti v \<and> w_dc (fold writeToFile ls v) = w_dc v" for ls v
    by (induction ls arbitrary: v) (auto simp: writeToFile_def put_op_def)
  then have a: "w_ti (write_active ls v) = w_ti v" "w_dc (write_active ls v) = w_dc v" for ls v
    by (simp_all add: write_active_def)
  have b: "ti_skip (w_ti (write_builder v)) = ti_skip (w_ti v)" "ti_skip_ret (w_ti (write_builder v)) = ti_skip_ret (w_ti v)"
    "ti_pltStart (w_ti (write_builder v)) = ti_pltStart (w_ti v)" "ti_pltEnd (w_ti (write_builder v)) = ti_pltEnd (w_ti v)" for v
    by (simp_all add: write_builder_def upd_ti_def writeToFile_def put_op_def)
  show "ti_skip (w_ti w') = ti_skip (w_ti w)" "ti_skip_ret (w_ti w') = ti_skip_ret (w_ti w)"
    "ti_pltStart (w_ti w') = ti_pltStart (w_ti w)" "ti_pltEnd (w_ti w') = ti_pltEnd (w_ti w)"
    "w_dc w' = w_dc w"
    using assms by (auto simp: jni_returned_def Let_def a upd_ti_def b split: if_splits)
qed

lemma trace_code_text:
  assumes "text_ok w" and "ti_cleanCounter (w_ti w) + 1 < MEM_CLEANUP_INTERVAL" and "result_in_order e w"
    and "trace_code e w = Some w'" and "i = fst (fetch_insn e (w_dc w))"
  shows "text_ok w' \<and> (\<exists>t. shown_text w' = shown_text w @ t) \<and>
    (is_shown e (w_ti w) \<and> i \<noteq> 0 \<longrightarrow> (\<exists>s t. shown_text w' = shown_text w @ s @
       text_bytes (line_head e i (ti_so (w_ti w')) (snd (fetch_insn e (w_dc w)))) @ t))"
proof -
  obtain w1 where w1: "jni_returned e w = Some w1" using assms(4) by (auto simp: trace_code_def bind_eq_Some_conv)
  let ?w2 = "if ti_pltEnd (w_ti w1) \<noteq> 0 then upd_ti (\<lambda>ti. ti\<lparr>ti_pltEnd := 0, ti_pltStart := 0\<rparr>) w1 else w1"
  let ?w3 = "if ti_skip (w_ti ?w2) then upd_ti (\<lambda>ti. ti\<lparr>ti_skip := False, ti_skip_ret := 0\<rparr>) ?w2 else ?w2"
  have ok: "builder_ok w" "ti_skip (w_ti w) \<longrightarrow> held_text w = []" using assms(1) by (simp_all add: text_ok_def)
  note j = jni_returned_text [OF ok(1) w1] note t1 = jni_returned_ti [OF w1]
  have ok1: "builder_ok w1" using line_step_ok [OF j(1)] by blast
  have "line_step w1 (upd_ti (\<lambda>ti. ti\<lparr>ti_pltEnd := 0, ti_pltStart := 0\<rparr>) w1)" "line_step w1 w1"
    by (rule line_step_upd) (simp_all add: ok1 line_step_def grows_refl)
  then have two: "line_step w1 ?w2" by simp
  have h2: "held_text ?w2 = held_text w1" "w_dc ?w2 = w_dc w" "ti_skip (w_ti ?w2) = ti_skip (w_ti w)"
    "ti_skip_ret (w_ti ?w2) = ti_skip_ret (w_ti w)" "ti_callRet (w_ti ?w2) = ti_callRet (w_ti w)"
    using t1 j(3) by (simp_all add: held_text_def upd_ti_def)
  have ok2: "builder_ok ?w2" using line_step_ok [OF two] by blast
  have g2: "grows w ?w2" using j(1) two by (auto simp: line_step_def intro: grows_trans)
  consider (plt) "in_plt_skip e (w_ti w1)" | (wrap) "\<not> in_plt_skip e (w_ti w1)" "ti_skip (w_ti w)" "ev_addr e \<noteq> ti_skip_ret (w_ti w)"
    | (shown) "\<not> in_plt_skip e (w_ti w1)" "ti_skip (w_ti w) \<longrightarrow> ev_addr e = ti_skip_ret (w_ti w)" by blast
  then show ?thesis
  proof cases
    case plt
    then have "w' = w1" using assms(4) by (simp add: trace_code_def w1 Let_def)
    moreover have "\<not> is_shown e (w_ti w)" using plt t1 by (simp add: is_shown_def in_plt_skip_def)
    ultimately show ?thesis using j ok t1(1) by (auto simp: text_ok_def line_step_def grows_def)
  next
    case wrap
    then have w': "wrapper_insn e ?w2 = Some w'" using assms(4) h2 by (simp add: trace_code_def w1 Let_def)
    have "held_text ?w2 = []" using h2 j(2) ok(2) wrap(2) by simp
    note wi = wrapper_insn_text [OF ok2 this w']
    have "grows w w'" using g2 wi(1) by (auto simp: line_step_def intro: grows_trans)
    moreover have "\<not> is_shown e (w_ti w)" using wrap by (simp add: is_shown_def)
    ultimately show ?thesis using wi(2) by (auto simp: text_ok_def grows_def)
  next
    case shown
    then have w': "shown_insn e ?w3 = Some w'" using assms(4) h2 by (simp add: trace_code_def w1 Let_def split: if_splits)
    have q: "shown_text ?w3 = shown_text ?w2" "held_text ?w3 = held_text ?w2" "builder_ok ?w3"
      using quiet [of ?w3 ?w2] ok2 by (simp_all add: upd_ti_def)
    have r: "\<not> ti_skip (w_ti ?w3)" "w_dc ?w3 = w_dc w" "ti_callRet (w_ti ?w3) = ti_callRet (w_ti w)"
      "ti_cleanCounter (w_ti ?w3) = ti_cleanCounter (w_ti ?w2)"
      using h2 by (simp_all add: upd_ti_def)
    have c: "ti_cleanCounter (w_ti ?w2) = ti_cleanCounter (w_ti w)" using j(1) two by (simp add: line_step_def same_flow_def)
    have "ti_callRet (w_ti ?w3) = 0 \<or> ev_addr e \<noteq> ti_callRet (w_ti ?w3) \<or> held_text ?w3 = []"
      using assms(3) r q h2 j(2) by (auto simp: result_in_order_def)
    note s = shown_insn_text [OF q(3) r(1) _ this w' refl]
    let ?h = "text_bytes (line_head e i (ti_so (w_ti w')) (snd (fetch_insn e (w_dc w))))"
    have all: "grows ?w3 w'" "ti_skip (w_ti w') \<longrightarrow> held_text w' = []"
      "i \<noteq> 0 \<longrightarrow> (\<exists>s t. shown_text w' = shown_text ?w3 @ s @ ?h @ t)"
      using s assms(2) r(2,4) c unfolding assms(5) by simp_all
    obtain u where u: "shown_text ?w3 = shown_text w @ u" using g2 q(1) by (auto simp: grows_def)
    have "\<exists>s t. shown_text w' = shown_text w @ s @ ?h @ t" if nz: "i \<noteq> 0"
    proof -
      obtain s t where "shown_text w' = shown_text ?w3 @ s @ ?h @ t" using all(3) nz by blast
      then have "shown_text w' = shown_text w @ (u @ s) @ ?h @ t" unfolding u by simp
      then show ?thesis by blast
    qed
    moreover have "\<exists>t. shown_text w' = shown_text w @ t" "builder_ok w'"
      using all(1) u by (auto simp: grows_def simp del: append_assoc) (metis append_assoc)
    ultimately show ?thesis using all(2) by (simp add: text_ok_def)
  qed
qed

subsection \<open>A run\<close>

fun in_order :: "trace_ev list \<Rightarrow> trace_world \<Rightarrow> bool" where
  "in_order [] w = True"
| "in_order (e # es) w =
     (result_in_order e w \<and> ti_cleanCounter (w_ti w) + 1 < MEM_CLEANUP_INTERVAL \<and>
      (case trace_code e w of None \<Rightarrow> True | Some w' \<Rightarrow> in_order es w'))"

lemma trace_run_text:
  "text_ok w \<Longrightarrow> in_order es w \<Longrightarrow> trace_run es w = Some w' \<Longrightarrow> text_ok w' \<and> (\<exists>t. shown_text w' = shown_text w @ t)"
proof (induction es arbitrary: w)
  case (Cons e es)
  from Cons.prems(3) obtain w1 where w1: "trace_code e w = Some w1" "trace_run es w1 = Some w'"
    by (auto simp: bind_eq_Some_conv)
  with Cons.prems have c: "text_ok w1" "\<exists>t. shown_text w1 = shown_text w @ t" "in_order es w1"
    using trace_code_text [OF Cons.prems(1) _ _ w1(1) refl] by auto
  with Cons.IH [OF c(1,3) w1(2)] show ?case by auto
qed simp

subsection \<open>A thread and an instruction\<close>

text \<open>A thread in the module at 0x70000 to 0x80000, and the load of \<open>Mem_Printer\<close> as its next instruction.\<close>

definition demo_ti :: trace_info where
  "demo_ti = \<lparr>ti_skip = False, ti_skip_ret = 0, ti_entryLr = 0, ti_entryLrSet = False,
     ti_last = \<lparr>rp_address = 0, rp_regs = [], rp_forWriteRegs = False, rp_cached = None\<rparr>, ti_hasLast = False,
     ti_sb = initStringBuilder, ti_sbInit = True, ti_pending = \<lparr>pa_is_load = False, pa_size = 0, pa_last = 0\<rparr>, ti_pinsn = 0,
     ti_hasPending = False, ti_insnCounter = 0, ti_flushCounter = 0, ti_cleanCounter = 0, ti_x = [], ti_direct = False,
     ti_callRet = 0, ti_fds = Map.empty, ti_svc = \<lparr>sp_type = SVC_PEND_NONE, sp_buf_addr = 0, sp_path = []\<rparr>,
     ti_pltStart = 0, ti_pltEnd = 0,
     ti_so = \<lparr>cm_name = ''a'', cm_path = ''/a'', cm_base = 0x70000, cm_end = 0x80000, cm_bias = 0x70000, cm_plt_start = 0, cm_plt_end = 0\<rparr>,
     ti_written = False\<rparr>"

definition demo_world :: trace_world where
  "demo_world = \<lparr>w_ti = demo_ti, w_out = [], w_dc = dc_new, w_tls = fst region_start,
     w_call = addFuncCallTrace Map.empty False (snd region_start),
     w_jni = \<lparr>js_table = Map.empty, js_pending_ret = 0, js_handler = None, js_addr = 0, js_env = 0, js_lr = 0,
       js_vars = \<lparr>jn_oss = [], jn_methods = Map.empty, jn_fields = Map.empty, jn_bridge = (\<lambda>f. ([], [], []))\<rparr>\<rparr>,
     w_libs = [], w_active = True\<rparr>"

definition demo_ev :: "insn \<Rightarrow> trace_ev" where
  "demo_ev i = \<lparr>ce_mem = ce_mem demo_call_env, ce_page = 4096, ce_os = demo_os, ce_maps = demo_maps, ce_gen = 1, ce_libs = [],
     ce_demangle = (\<lambda>n. None), ce_module = (\<lambda>a. ([], 0)), ev_addr = 0x70000, ev_tid = 1, ev_new = 2, ev_insn = (\<lambda>k. i),
     ev_access = (\<lambda>k. ([], [])), ev_names = (\<lambda>r. None), ev_NR = (\<lambda>n. 0),
     ev_uc = \<lparr>read_x = (\<lambda>r. 0), read_q = (\<lambda>r. [])\<rparr>, ev_x = take 32 demo_regs, ev_nzcv = 0, ev_jvm = demo_jvm\<rparr>"

lemma fetch_new:
  assumes "ev_new e \<noteq> 0"
  shows "fetch_insn e dc_new = (ev_new e, dc_put (insn_texts e) (ev_addr e) (ev_new e) dc_new)"
proof -
  have "find_way a (replicate n empty_entry) = None" for a n by (induction n) (simp_all add: empty_entry_def)
  then have "dc_get (ev_addr e) dc_new = (0, dc_new)" by (simp add: dc_get_def dc_new_def Let_def)
  then show ?thesis using assms by (simp add: fetch_insn_def)
qed

lemma add_text_total: "sb_wf (ti_sb (w_ti w)) \<Longrightarrow> add_text t w \<noteq> None"
  using appendStringN_ok [of "ti_sb (w_ti w)" t] by (auto simp: add_text_def)

lemma append_total: "\<exists>sb. appendStringN initStringBuilder t = Some sb"
  using appendStringN_ok [OF sb_wf_init, of t] by blast

lemma demo_ev_simps [simp]:
  "ev_addr (demo_ev i) = 0x70000" "ev_new (demo_ev i) = 2" "ev_insn (demo_ev i) = (\<lambda>k. i)"
  "ev_access (demo_ev i) = (\<lambda>k. ([], []))"
  by (simp_all add: demo_ev_def)

lemma demo_world_simps [simp]: "w_ti demo_world = demo_ti" "w_dc demo_world = dc_new" "js_pending_ret (w_jni demo_world) = 0"
  by (simp_all add: demo_world_def)

lemma demo_trace:
  "\<exists>w'. trace_code (demo_ev (demo_load 0 16 0)) demo_world = Some w' \<and> ti_hasPending (w_ti w')"
proof -
  define e where "e = demo_ev (demo_load 0 16 0)"
  have e [simp]: "ev_addr e = 0x70000" "ev_new e = 2" "ev_insn e k = demo_load 0 16 0" "ev_access e k = ([], [])" for k
    by (simp_all add: e_def)
  have t: "sb_text initStringBuilder = []" by (simp add: initStringBuilder_def)
  have id: "in_id (demo_load 0 16 0) = OtherInsn 0" by (simp add: demo_load_def)
  have ra: "\<not> e_ra_cached (dc_sets dc_new s ! 0)" for s by (simp add: dc_new_def empty_entry_def WAYS_def)
  define c where "c = dc_put (insn_texts e) (ev_addr e) (ev_new e) dc_new"
  have f: "fetch_insn e dc_new = (2, c)" using fetch_new [of e] by (simp add: c_def)
  have acc: "fst (accessed_regs e 2 c) = ([], [])" by (simp add: accessed_regs_def c_def dc_getRegAccess_def dc_put_def Let_def)
  obtain c2 where c2: "accessed_regs e 2 c = (([], []), c2)" using acc by (cases "accessed_regs e 2 c") auto
  obtain sb where sb: "appendStringN initStringBuilder (line_head e 2 (ti_so demo_ti) c) = Some sb" using append_total by blast
  have i: "\<not> FLUSH_INTERVAL \<le> 1" "\<not> MEM_CLEANUP_INTERVAL \<le> 1"
    by (simp_all add: FLUSH_INTERVAL_def MEM_CLEANUP_INTERVAL_def word_le_nat_alt)
  have j: "jni_returned e demo_world = Some demo_world" by (simp add: jni_returned_def)
  have run: "trace_code e demo_world = shown_insn e demo_world"
    by (simp add: trace_code_def j in_plt_skip_def) (simp add: demo_ti_def)
  have m: "update_module e demo_world = Some demo_world" by (simp add: update_module_def outside_module_def) (simp add: demo_ti_def)
  define w1 where "w1 = upd_ti (\<lambda>ti. ti\<lparr>ti_written := True\<rparr>) (read_registers e demo_world)"
  have w1: "ti_sb (w_ti w1) = initStringBuilder" "ti_sbInit (w_ti w1)" "\<not> ti_hasLast (w_ti w1)" "\<not> ti_hasPending (w_ti w1)"
    "ti_so (w_ti w1) = ti_so demo_ti" "sp_type (ti_svc (w_ti w1)) = SVC_PEND_NONE" "w_dc w1 = dc_new"
    "ti_flushCounter (w_ti w1) = 0" "ti_cleanCounter (w_ti w1) = 0"
    by (simp_all add: w1_def read_registers_def upd_ti_def demo_ti_def)
  have r: "call_returned e (read_registers e demo_world) = Some (read_registers e demo_world)"
    by (simp add: call_returned_def read_registers_def upd_ti_def demo_ti_def)
  have b: "print_begin w1 = w1" using w1 by (simp add: print_begin_def t)
  have "\<exists>w'. printAssemble2 e w1 = Some w' \<and> ti_hasPending (w_ti w') \<and> ti_flushCounter (w_ti w') = 0 \<and> ti_cleanCounter (w_ti w') = 0"
    by (simp add: printAssemble2_def Let_def b f w1 print_access_def access_note_def add_text_def upd_ti_def sb
      visit_def c2 print_svc_def note_access_def print_ret_def id)
  then obtain w2 where w2: "printAssemble2 e w1 = Some w2" "ti_hasPending (w_ti w2)" "ti_flushCounter (w_ti w2) = 0" "ti_cleanCounter (w_ti w2) = 0"
    by blast
  let ?w3 = "periodic_cleanup (periodic_flush w2)"
  have w3: "ti_hasPending (w_ti ?w3)" using w2
    by (simp add: periodic_flush_def periodic_cleanup_def i Let_def upd_ti_def)
  have "pending_id e ?w3 \<noteq> Some x" if "x \<noteq> OtherInsn 0" for x using that by (simp add: pending_id_def id)
  then have "plt_call e ?w3 = Some ?w3" "far_branch e ?w3 = Some ?w3" by (simp_all add: plt_call_def far_branch_def)
  then have "shown_insn e demo_world = Some ?w3" using m r w2(1) by (simp add: shown_insn_def w1_def)
  then show ?thesis using run w3 by (simp add: e_def)
qed

subsection \<open>Properties\<close>

text \<open>C6 (every instruction has its line, in order): what a thread has shown, in its file and in the line
  held back, only grows at the end. When the instruction of a hook is not inside a skipped stub or wrapper
  and can be decoded, the text added contains its line, with the name and base of the module that the
  thread is in; and a well-formed state stays one. Conditions: no cleanup falls on this hook, and the result
  of a library call, if one is due here, does not find a line held back.\<close>

theorem trace_line_appended:
  assumes "text_ok w" and "ti_cleanCounter (w_ti w) + 1 < MEM_CLEANUP_INTERVAL" and "result_in_order e w"
    and "trace_code e w = Some w'"
  shows "text_ok w' \<and> (\<exists>t. shown_text w' = shown_text w @ t) \<and>
    (is_shown e (w_ti w) \<and> fst (fetch_insn e (w_dc w)) \<noteq> 0 \<longrightarrow>
      (\<exists>s t. shown_text w' = shown_text w @ s @
        text_bytes (line_head e (fst (fetch_insn e (w_dc w))) (ti_so (w_ti w')) (snd (fetch_insn e (w_dc w)))) @ t))"
  using trace_code_text [OF assms refl] .

lemma demo_text_ok: "text_ok demo_world" "result_in_order e demo_world"
    "ti_cleanCounter (w_ti demo_world) + 1 < MEM_CLEANUP_INTERVAL"
  by (simp_all add: text_ok_def builder_ok_def result_in_order_def demo_ti_def MEM_CLEANUP_INTERVAL_def word_less_nat_alt)

lemma trace_line_appended_witness:
  "\<exists>w' s t. trace_code (demo_ev (demo_load 0 16 0)) demo_world = Some w' \<and>
    shown_text w' = s @ text_bytes (line_head (demo_ev (demo_load 0 16 0)) 2 (ti_so (w_ti w'))
      (snd (fetch_insn (demo_ev (demo_load 0 16 0)) dc_new))) @ t"
proof -
  let ?e = "demo_ev (demo_load 0 16 0)"
  obtain w' where w': "trace_code ?e demo_world = Some w'" using demo_trace by blast
  have "is_shown ?e (w_ti demo_world)" by (simp add: is_shown_def in_plt_skip_def demo_ti_def)
  moreover have "fst (fetch_insn ?e (w_dc demo_world)) = 2" by (simp add: fetch_new)
  ultimately show ?thesis
    using trace_line_appended [OF demo_text_ok(1,3,2) w'] w' by auto (metis append.assoc)
qed

text \<open>The cleanup drops a line: the periodic cleanup frees the builder and makes a new one. The line of the
  instruction just traced is still in it, so when the builder has grown past 8192 bytes the line is gone: the
  text shown before the cleanup is the text shown after it followed by the lost line.\<close>

lemma cleanup_drops_line:
  assumes "ti_sbInit (w_ti w)" and "8192 < sb_capacity (ti_sb (w_ti w))"
    and "ti_cleanCounter (w_ti w) + 1 = MEM_CLEANUP_INTERVAL"
  shows "shown_text w = shown_text (periodic_cleanup w) @ text_bytes (held_text w) \<and> held_text (periodic_cleanup w) = []"
  using assms
  by (simp add: periodic_cleanup_def Let_def upd_ti_def shrink_builder_def shown_text_def held_text_def initStringBuilder_def)

lemma cleanup_drops_line_witness:
  "text_bytes ''line'' = shown_text (periodic_cleanup (demo_world\<lparr>w_ti := demo_ti\<lparr>ti_sb := \<lparr>sb_text = ''line'', sb_capacity = 16384\<rparr>,
      ti_cleanCounter := 2999999\<rparr>\<rparr>)) @ text_bytes ''line'' \<and>
   shown_text (periodic_cleanup (demo_world\<lparr>w_ti := demo_ti\<lparr>ti_sb := \<lparr>sb_text = ''line'', sb_capacity = 16384\<rparr>,
      ti_cleanCounter := 2999999\<rparr>\<rparr>)) = []"
proof -
  let ?w = "demo_world\<lparr>w_ti := demo_ti\<lparr>ti_sb := \<lparr>sb_text = ''line'', sb_capacity = 16384\<rparr>, ti_cleanCounter := 2999999\<rparr>\<rparr>"
  have "shown_text ?w = shown_text (periodic_cleanup ?w) @ text_bytes (held_text ?w) \<and> held_text (periodic_cleanup ?w) = []"
    by (rule cleanup_drops_line) (simp_all add: demo_ti_def MEM_CLEANUP_INTERVAL_def)
  moreover have "shown_text ?w = text_bytes ''line''" "held_text ?w = ''line''"
    by (simp_all add: shown_text_def held_text_def demo_world_def)
  ultimately show ?thesis by simp
qed

text \<open>A result that finds a line held back is written before it: the JNI path writes the line first, this one
  does not.\<close>

lemma late_result_before_line:
  assumes "ti_callRet (w_ti w) \<noteq> 0" and "ev_addr e = ti_callRet (w_ti w)" and "w_active w"
    and "funcCallTraceEmit (call_env.truncate e) (ev_tid e) True (ReturnEv (x_of e 0) (ti_x (w_ti w) ! 0)) (w_call w) = Some (s, c)"
    and "s \<noteq> []"
  shows "\<exists>w'. call_returned e w = Some w' \<and> w_out w' = w_out w @ [DWrite (text_bytes s)] \<and> held_text w' = held_text w"
  using assms by (simp add: call_returned_def emit_event_def write_active_def writeToFile_def put_op_def upd_ti_def held_text_def)

end
