(* ===== verification/Trace_Objects.thy ===== *)
theory Trace_Objects
  imports Trace_Text
begin

text \<open>
  The instruction object of the line before. \<open>pendingAccess.insn\<close> points into the disassembly cache, which frees
  what it evicts; the operands are read one instruction later, after the next fetch. On one thread the object
  is then still in the cache; with other threads on the same cache it may be freed.
\<close>

subsection \<open>The cache around the newest entry\<close>

text \<open>The newest entry of some set.\<close>

definition newest :: "disasm_cache \<Rightarrow> nat \<Rightarrow> bool" where
  "newest c p \<longleftrightarrow> p \<noteq> 0 \<and> (\<exists>s<NUM_SETS. e_insn (dc_sets c s ! 0) = p)"

lemma in_held: "s < NUM_SETS \<Longrightarrow> p \<in> set (insns (dc_sets c s)) \<Longrightarrow> p \<in># held c"
  by (simp add: held_def sum.remove [of "{..<NUM_SETS}" s])

lemma set_length: "dc_ok c \<Longrightarrow> length (dc_sets c s) = 4"
  by (simp add: dc_ok_def set_ok_def WAYS_def)

lemma first_insn: "p \<noteq> 0 \<Longrightarrow> e_insn (es ! 0) = p \<Longrightarrow> 0 < length es \<Longrightarrow> 0 < k \<Longrightarrow> p \<in> set (insns (take k es))"
  by (cases es; cases k) auto

lemma newest_held:
  assumes "dc_ok c" and "newest c p"
  shows "p \<in># held c"
proof -
  from assms(2) obtain s where s: "s < NUM_SETS" "e_insn (dc_sets c s ! 0) = p" "p \<noteq> 0" by (auto simp: newest_def)
  then show ?thesis using in_held [OF s(1), of p c] first_insn [OF s(3,2), of 4] set_length [OF assms(1), of s] by simp
qed

lemma fetch_insn_facts:
  fixes e :: trace_ev
  assumes "dc_ok c"
  defines "r \<equiv> fetch_insn e c"
  shows "dc_ok (snd r)" and "newest c p \<Longrightarrow> p \<in># held (snd r)" and "fst r = 0 \<Longrightarrow> snd r = c"
    and "fst r \<noteq> 0 \<Longrightarrow> e_insn (dc_sets (snd r) (hashAddr (ev_addr e)) ! 0) = fst r"
    and "fst r \<noteq> 0 \<Longrightarrow> e_addr (dc_sets (snd r) (hashAddr (ev_addr e)) ! 0) = ev_addr e"
proof -
  let ?a = "ev_addr e" let ?s = "hashAddr ?a" let ?g = "dc_get ?a c"
  note get = dc_get_abs [OF assms(1), of ?a]
  have hit: "fst ?g \<noteq> 0 \<Longrightarrow> e_insn (dc_sets (snd ?g) ?s ! 0) = fst ?g \<and> e_addr (dc_sets (snd ?g) ?s ! 0) = ?a"
    using find_way_Some [of ?a "dc_sets c ?s"]
    by (auto simp: dc_get_def Let_def promote_def split: option.splits)
  have miss: "fst ?g = 0 \<Longrightarrow> snd ?g = c \<and> lru_find ?a (abs_set (dc_sets c ?s)) = None"
  proof -
    assume "fst ?g = 0"
    then have fw: "find_way ?a (dc_sets c ?s) = None"
      using find_way_Some [of ?a "dc_sets c ?s"]
      by (cases "find_way ?a (dc_sets c ?s)") (auto simp: dc_get_def Let_def live_def)
    then show "snd ?g = c \<and> lru_find ?a (abs_set (dc_sets c ?s)) = None"
      using find_way_None [THEN iffD1, OF fw] by (simp add: dc_get_def Let_def lru_find_def)
  qed
  consider (hit) "fst ?g \<noteq> 0" "r = ?g" | (none) "fst ?g = 0" "ev_new e = 0" "r = (0, c)"
    | (new) "fst ?g = 0" "ev_new e \<noteq> 0" "r = (ev_new e, dc_put (insn_texts e) ?a (ev_new e) c)"
    using miss by (auto simp: r_def fetch_insn_def Let_def)
  then have "dc_ok (snd r) \<and> (newest c p \<longrightarrow> p \<in># held (snd r)) \<and> (fst r = 0 \<longrightarrow> snd r = c) \<and>
    (fst r \<noteq> 0 \<longrightarrow> e_insn (dc_sets (snd r) ?s ! 0) = fst r \<and> e_addr (dc_sets (snd r) ?s ! 0) = ?a)"
  proof cases
    case hit
    then show ?thesis using get(2) dc_get_held [OF assms(1), of ?a] newest_held [OF assms(1)] \<open>fst ?g \<noteq> 0 \<Longrightarrow> _\<close> by simp
  next
    case none
    then show ?thesis using assms(1) newest_held by simp
  next
    case new
    let ?c = "dc_put (insn_texts e) ?a (ev_new e) c"
    have ok: "dc_ok ?c" using dc_put_abs(1) [OF assms(1) new(2)] miss new(1) by blast
    have "p \<in># held ?c" if "newest c p"
    proof -
      from that obtain s where s: "s < NUM_SETS" "e_insn (dc_sets c s ! 0) = p" "p \<noteq> 0" by (auto simp: newest_def)
      have "p \<in> set (insns (dc_sets ?c s))"
        using first_insn [OF s(3,2), of 3] first_insn [OF s(3,2), of 4] set_length [OF assms(1), of s]
        by (auto simp: dc_put_def Let_def WAYS_def)
      then show ?thesis by (rule in_held [OF s(1)])
    qed
    then show ?thesis using ok new by (simp add: dc_put_def Let_def)
  qed
  then show "dc_ok (snd r)" "newest c p \<Longrightarrow> p \<in># held (snd r)" "fst r = 0 \<Longrightarrow> snd r = c"
    "fst r \<noteq> 0 \<Longrightarrow> e_insn (dc_sets (snd r) ?s ! 0) = fst r"
    "fst r \<noteq> 0 \<Longrightarrow> e_addr (dc_sets (snd r) ?s ! 0) = ?a" by blast+
qed

lemma accessed_regs_facts:
  assumes "dc_ok c" and "e_insn (dc_sets c (hashAddr (ev_addr e)) ! 0) = i" and "i \<noteq> 0"
  defines "c' \<equiv> snd (accessed_regs e i c)"
  shows "dc_ok c'" and "newest c' i"
proof -
  let ?s = "hashAddr (ev_addr e)"
  have l: "live (dc_sets c ?s ! 0)" using assms(2,3) by (simp add: live_def)
  have "length (dc_sets c ?s) = 4" using set_length [OF assms(1)] .
  then have put: "e_insn (dc_sets (dc_putRegAccess (ev_addr e) rd wr c) ?s ! 0) = i" for rd wr
    using assms(2) by (simp add: dc_putRegAccess_def Let_def)
  show "dc_ok c'" using assms(1) dc_putRegAccess_abs(1) [OF assms(1)] l
    by (auto simp: c'_def accessed_regs_def split: option.splits)
  have "e_insn (dc_sets c' ?s ! 0) = i" using assms(2) put by (auto simp: c'_def accessed_regs_def split: option.splits)
  then show "newest c' i" using assms(3) hashAddr_less [of "ev_addr e"] by (auto simp: newest_def)
qed

lemma newest_trim: "dc_ok c \<Longrightarrow> newest c p \<Longrightarrow> newest (dc_trimCold c) p"
proof -
  assume ok: "dc_ok c" and "newest c p"
  then obtain s where s: "s < NUM_SETS" "e_insn (dc_sets c s ! 0) = p" "p \<noteq> 0" by (auto simp: newest_def)
  obtain x xs where "dc_sets c s = x # xs" using set_length [OF ok, of s] by (cases "dc_sets c s") simp_all
  then have "trim_set (dc_sets c s) ! 0 = dc_sets c s ! 0" by (simp add: trim_set_def)
  moreover have "dc_sets (dc_trimCold c) s = trim_set (dc_sets c s)" using s(1) by (simp add: dc_trimCold_def)
  ultimately have "e_insn (dc_sets (dc_trimCold c) s ! 0) = p" using s(2) by (simp only:)
  then show ?thesis unfolding newest_def using s(1,3) by blast
qed

subsection \<open>Steps that leave the cache and the object alone\<close>

definition keeps :: "trace_world \<Rightarrow> trace_world \<Rightarrow> bool" where
  "keeps w w' \<longleftrightarrow> w_dc w' = w_dc w \<and>
     (ti_hasPending (w_ti w') \<longrightarrow> ti_hasPending (w_ti w) \<and> ti_pinsn (w_ti w') = ti_pinsn (w_ti w))"

lemma keeps_refl [simp]: "keeps w w"
  by (simp add: keeps_def)

lemma keeps_trans [trans]: "keeps w w' \<Longrightarrow> keeps w' w'' \<Longrightarrow> keeps w w''"
  by (auto simp: keeps_def)

lemma keeps_add: "add_text t w = Some w' \<Longrightarrow> keeps w w'"
  by (auto simp: add_text_def upd_ti_def keeps_def)

lemma keeps_file: "keeps w (writeToFile s w)"
  by (simp add: writeToFile_def put_op_def keeps_def)

lemma keeps_active: "keeps w (write_active ls w)"
proof -
  have "keeps w (fold writeToFile ls w)" for w
  proof (induction ls arbitrary: w)
    case (Cons s ls)
    show ?case using keeps_trans [OF keeps_file Cons.IH] by simp
  qed simp
  then show ?thesis by (simp add: write_active_def)
qed

lemma keeps_builder: "keeps w (write_builder w)"
  by (simp add: write_builder_def writeToFile_def put_op_def upd_ti_def keeps_def)

lemma keeps_settle: "keeps w (settle_line w)"
  by (simp add: settle_line_def write_builder_def writeToFile_def put_op_def upd_ti_def keeps_def)

lemma keeps_begin: "keeps w (print_begin w)"
  by (simp add: print_begin_def Let_def write_builder_def writeToFile_def put_op_def upd_ti_def keeps_def)

lemma keeps_visitLast: "visitLast e w = Some w' \<Longrightarrow> keeps w w'"
  by (auto simp: visitLast_def Let_def add_text_def upd_ti_def keeps_def split: if_splits prod.splits)

lemma keeps_access: "print_access e w = Some w' \<Longrightarrow> keeps w w'"
  by (auto simp: print_access_def add_text_def upd_ti_def keeps_def bind_eq_Some_conv split: if_splits)

lemma keeps_svc_text:
  "add_text t (upd_ti (\<lambda>ti. ti\<lparr>ti_fds := fds, ti_svc := p\<rparr>) w) = Some w' \<Longrightarrow> keeps w w'"
  by (auto simp: add_text_def upd_ti_def keeps_def)

lemma keeps_svc:
  assumes "print_svc e i w = Some w'"
  shows "keeps w w'"
proof -
  obtain w1 where "w1 = w \<or> (\<exists>t fds p. add_text t (upd_ti (\<lambda>ti. ti\<lparr>ti_fds := fds, ti_svc := p\<rparr>) w) = Some w1)"
    "w' = w1 \<or> (\<exists>t fds p. add_text t (upd_ti (\<lambda>ti. ti\<lparr>ti_fds := fds, ti_svc := p\<rparr>) w1) = Some w')"
    using assms unfolding print_svc_def Let_def bind_eq_Some_conv by (auto split: if_splits)
  then have "keeps w w1" "keeps w1 w'" using keeps_svc_text by auto
  then show ?thesis by (rule keeps_trans)
qed

lemma keeps_ret:
  assumes "print_ret e i w = Some w'"
  shows "keeps w w'"
proof (cases "in_id (ev_insn e i) = INS_RET")
  case True
  then obtain t w1 where "add_text t w = Some w1" "w' = upd_ti (\<lambda>ti. ti\<lparr>ti_hasLast := False\<rparr>) (write_builder w1) \<or>
      w' = put_op DFlush (upd_ti (\<lambda>ti. ti\<lparr>ti_hasLast := False\<rparr>) (write_builder w1))"
    using assms by (auto simp: print_ret_def Let_def split: if_splits)
  then have "keeps w w1" "keeps (write_builder w1) w'" using keeps_add by (auto simp: keeps_def upd_ti_def put_op_def)
  then show ?thesis using keeps_builder [of w1] by (blast intro: keeps_trans)
qed (use assms in \<open>simp add: print_ret_def\<close>)

lemma keeps_jni:
  assumes "jni_returned e w = Some w'"
  shows "keeps w w'"
proof -
  let ?w1 = "upd_ti (\<lambda>ti. ti\<lparr>ti_hasLast := False, ti_hasPending := False\<rparr>) (if ti_sbInit (w_ti w) then write_builder w else w)"
  have "keeps w (write_active ls (?w1\<lparr>w_jni := j\<rparr>))" for ls j
  proof -
    have "keeps w (?w1\<lparr>w_jni := j\<rparr>)" by (simp add: keeps_def upd_ti_def write_builder_def writeToFile_def put_op_def)
    then show ?thesis using keeps_active by (rule keeps_trans)
  qed
  moreover have "w' = w \<or> (\<exists>ls j. w' = write_active ls (?w1\<lparr>w_jni := j\<rparr>))"
    using assms by (auto simp: jni_returned_def Let_def split: if_splits)
  moreover have "keeps w w" by (simp add: keeps_def)
  ultimately show ?thesis by blast
qed

lemma keeps_call_jni:
  assumes "call_jni e target ret w = Some w'"
  shows "keeps w w'"
proof -
  obtain ls j where w': "w' = write_active ls (w\<lparr>w_jni := j\<rparr>)" using assms by (auto simp: call_jni_def)
  have "keeps w (w\<lparr>w_jni := j\<rparr>)" by (simp add: keeps_def)
  then show ?thesis unfolding w' using keeps_active by (rule keeps_trans)
qed

lemma keeps_wrapper: "wrapper_insn e w = Some w' \<Longrightarrow> keeps w w'"
  by (auto simp: wrapper_insn_def bind_eq_Some_conv keeps_call_jni split: if_splits)

lemma keeps_module: "update_module e w = Some w' \<Longrightarrow> keeps w w'"
  by (auto simp: update_module_def upd_ti_def keeps_def bind_eq_Some_conv split: if_splits)

lemma keeps_registers: "keeps w (read_registers e w)"
  by (simp add: read_registers_def upd_ti_def keeps_def)

lemma keeps_emit: "emit_event e ev w = Some w' \<Longrightarrow> keeps w w'"
proof -
  assume "emit_event e ev w = Some w'"
  then obtain s c where w': "w' = write_active [s] (w\<lparr>w_call := c\<rparr>)" by (auto simp: emit_event_def)
  have "keeps w (w\<lparr>w_call := c\<rparr>)" by (simp add: keeps_def)
  then show ?thesis unfolding w' using keeps_active by (rule keeps_trans)
qed

lemma keeps_returned: "call_returned e w = Some w' \<Longrightarrow> keeps w w'"
  by (auto simp: call_returned_def upd_ti_def keeps_def dest!: keeps_emit split: if_splits)

lemma keeps_flush: "keeps w (periodic_flush w)"
  by (simp add: periodic_flush_def Let_def upd_ti_def put_op_def keeps_def)

lemma keeps_show: 
  assumes "show_call e target w = Some w'"
  shows "keeps w w'"
proof -
  have look: "look_symbol e target w = Some (s, w1) \<Longrightarrow> keeps w w1" for s w1 by (auto simp: look_symbol_def keeps_def)
  have skip: "keeps w1 (start_skip r w1)" for r w1 by (simp add: start_skip_def upd_ti_def keeps_def)
  have put: "keeps w1 (writeToFile p (writeToFile q w1))" for p q w1 using keeps_file keeps_trans by blast
  have sym: "keeps w1 (show_symbol e s w1)" for s w1
    using put keeps_trans [OF put skip] by (cases s) (simp_all add: show_symbol_def Let_def)
  consider s w1 where "look_symbol e target w = Some (s, w1)" "w' = show_symbol e s w1"
    | w1 where "call_jni e target (ev_addr e + 4) w = Some w1" "w' = start_skip (ev_addr e + 4) w1"
    | s w1 ev w2 where "look_symbol e target w = Some (s, w1)" "emit_event e ev w1 = Some w2"
        "w' = upd_ti (\<lambda>ti. ti\<lparr>ti_callRet := ev_addr e + 4\<rparr>) w2"
    using assms unfolding show_call_def Let_def by (auto simp: bind_eq_Some_conv split: if_splits)
  then show ?thesis
  proof cases
    case 1
    then show ?thesis using look sym keeps_trans by blast
  next
    case 2
    then show ?thesis using keeps_call_jni skip keeps_trans by blast
  next
    case 3
    have "keeps w2 w'" by (simp add: 3(3) upd_ti_def keeps_def)
    then show ?thesis using look [OF 3(1)] keeps_emit [OF 3(2)] keeps_trans by blast
  qed
qed

lemma keeps_plt:
  assumes "plt_call e w = Some w'"
  shows "keeps w w'"
proof (cases "w' = w")
  case False
  then obtain w1 s t where r: "w1 = settle_line w \<or> (\<exists>r. show_call e r (settle_line w) = Some w1)" and
    w': "w' = upd_ti (\<lambda>ti. ti\<lparr>ti_pltStart := s, ti_pltEnd := t\<rparr>) w1"
    using assms unfolding plt_call_def Let_def by (auto simp: bind_eq_Some_conv split: if_splits)
  have "keeps w w1" using r keeps_settle keeps_show keeps_trans by blast
  moreover have "keeps w1 w'" by (simp add: w' upd_ti_def keeps_def)
  ultimately show ?thesis by (rule keeps_trans)
qed simp

lemma keeps_far: "far_branch e w = Some w' \<Longrightarrow> keeps w w'"
  by (auto simp: far_branch_def Let_def keeps_settle split: if_splits)

subsection \<open>The object of the line before\<close>

definition pending_kept :: "trace_world \<Rightarrow> bool" where
  "pending_kept w \<longleftrightarrow> dc_ok (w_dc w) \<and> (ti_hasPending (w_ti w) \<longrightarrow> newest (w_dc w) (ti_pinsn (w_ti w)))"

lemma keeps_pending: "keeps w w' \<Longrightarrow> pending_kept w \<Longrightarrow> pending_kept w'"
  by (auto simp: keeps_def pending_kept_def)

lemma line_pending:
  assumes "pending_kept w" and "printAssemble2 e w = Some w'"
  shows "pending_kept w'"
proof -
  let ?r = "fetch_insn e (w_dc w)" let ?i = "fst ?r"
  have ok: "dc_ok (w_dc w)" using assms(1) by (simp add: pending_kept_def)
  note f = fetch_insn_facts [OF ok, where e = e]
  have b: "keeps w (print_begin w)" by (rule keeps_begin)
  then have dcb: "w_dc (print_begin w) = w_dc w" by (simp add: keeps_def)
  show ?thesis
  proof (cases "?i = 0")
    case True
    then have "w' = (print_begin w)\<lparr>w_dc := w_dc w\<rparr>" using assms(2) f(3) dcb by (simp add: printAssemble2_def Let_def)
    then show ?thesis using keeps_pending [OF b assms(1)] dcb by (simp add: pending_kept_def)
  next
    case False
    let ?w1 = "(print_begin w)\<lparr>w_dc := snd ?r\<rparr>"
    obtain w2 w3 w4 w5 w6 where
      a: "(if ti_hasLast (w_ti ?w1) then map_option write_builder (visitLast e ?w1) else Some ?w1) = Some w2"
      and p: "print_access e w2 = Some w3"
      and c: "add_text (line_head e ?i (ti_so (w_ti w3)) (w_dc w3))
          (upd_ti (\<lambda>ti. ti\<lparr>ti_insnCounter := ti_insnCounter ti + 1\<rparr>) w3) = Some w4"
      and d: "visit e ?i w4 = Some w5" and g: "print_svc e ?i (note_access e ?i w5) = Some w6"
      and h: "print_ret e ?i w6 = Some w'"
      using assms(2) False unfolding printAssemble2_def Let_def dcb by (simp only: if_False bind_eq_Some_conv) blast
    have "keeps ?w1 w2"
    proof (cases "ti_hasLast (w_ti ?w1)")
      case True
      then obtain v where v: "visitLast e ?w1 = Some v" "w2 = write_builder v" using a by auto
      show ?thesis unfolding v(2) using keeps_visitLast [OF v(1)] keeps_builder by (rule keeps_trans)
    qed (use a in simp)
    moreover have "keeps w2 w3" using keeps_access [OF p] .
    moreover have "keeps w3 w4" using keeps_add [OF c] by (simp add: keeps_def upd_ti_def)
    ultimately have dc4: "w_dc w4 = snd ?r" by (simp add: keeps_def)
    have "w_dc w5 = snd (accessed_regs e ?i (w_dc w4))"
      using d by (auto simp: visit_def bind_eq_Some_conv upd_ti_def dest!: add_text_dc split: prod.splits if_splits)
    then have five: "dc_ok (w_dc w5)" "newest (w_dc w5) ?i"
      using accessed_regs_facts [OF f(1) f(4) [OF False] False] dc4 by simp_all
    have "pending_kept (note_access e ?i w5)" using five by (simp add: pending_kept_def note_access_def upd_ti_def)
    then show ?thesis using keeps_svc [OF g] keeps_ret [OF h] keeps_pending by blast
  qed
qed

lemma cleanup_pending: "pending_kept w \<Longrightarrow> pending_kept (periodic_cleanup w)"
  using dc_trimCold_abs(1) [of "w_dc w"] newest_trim [of "w_dc w"]
  by (auto simp: pending_kept_def periodic_cleanup_def Let_def upd_ti_def shrink_builder_def)

lemma trace_code_pending:
  assumes "pending_kept w" and "trace_code e w = Some w'"
  shows "pending_kept w'"
proof -
  obtain w1 where w1: "jni_returned e w = Some w1" using assms(2) by (auto simp: trace_code_def bind_eq_Some_conv)
  let ?w2 = "if ti_pltEnd (w_ti w1) \<noteq> 0 then upd_ti (\<lambda>ti. ti\<lparr>ti_pltEnd := 0, ti_pltStart := 0\<rparr>) w1 else w1"
  let ?w3 = "if ti_skip (w_ti ?w2) then upd_ti (\<lambda>ti. ti\<lparr>ti_skip := False, ti_skip_ret := 0\<rparr>) ?w2 else ?w2"
  have one: "pending_kept w1" using keeps_pending [OF keeps_jni [OF w1] assms(1)] .
  have "keeps w1 ?w2" "keeps ?w2 ?w3" by (simp_all add: upd_ti_def keeps_def)
  then have two: "pending_kept ?w2" and three: "pending_kept ?w3" using keeps_pending one by blast+
  let ?wrap = "ti_skip (w_ti ?w2) \<and> ev_addr e \<noteq> ti_skip_ret (w_ti ?w2)"
  have run: "trace_code e w = (if in_plt_skip e (w_ti w1) then Some w1 else if ?wrap then wrapper_insn e ?w2 else shown_insn e ?w3)"
    by (simp only: trace_code_def w1 Let_def Option.bind.bind_lunit)
  consider "w' = w1" | "wrapper_insn e ?w2 = Some w'" | "shown_insn e ?w3 = Some w'"
  proof (cases "in_plt_skip e (w_ti w1)")
    case True
    then show ?thesis using that(1) assms(2) unfolding run by (simp only: if_True option.inject)
  next
    case False
    then show ?thesis using that(2,3) assms(2) unfolding run by (cases ?wrap) (simp_all only: if_False if_True simp_thms)
  qed
  then show ?thesis
  proof cases
    case 1 then show ?thesis using one by simp
  next
    case 2 then show ?thesis using two keeps_wrapper keeps_pending by blast
  next
    case 3
    then obtain v1 v2 v3 v4 where v: "update_module e ?w3 = Some v1" "call_returned e (read_registers e v1) = Some v2"
      "printAssemble2 e (upd_ti (\<lambda>ti. ti\<lparr>ti_written := True\<rparr>) v2) = Some v3"
      "plt_call e (periodic_cleanup (periodic_flush v3)) = Some v4" "far_branch e v4 = Some w'"
      unfolding shown_insn_def by (simp only: bind_eq_Some_conv) blast
    let ?v2 = "upd_ti (\<lambda>ti. ti\<lparr>ti_written := True\<rparr>) v2"
    have "keeps v2 ?v2" by (simp add: upd_ti_def keeps_def)
    then have "keeps ?w3 ?v2"
      using keeps_trans [OF keeps_trans [OF keeps_module [OF v(1)] keeps_registers] keeps_returned [OF v(2)]] by (rule keeps_trans [rotated])
    then have "pending_kept ?v2" using three by (rule keeps_pending)
    then have "pending_kept v3" using v(3) by (rule line_pending)
    then have "pending_kept (periodic_flush v3)" by (rule keeps_pending [OF keeps_flush])
    then have "pending_kept (periodic_cleanup (periodic_flush v3))" by (rule cleanup_pending)
    then have "pending_kept v4" by (rule keeps_pending [OF keeps_plt [OF v(4)]])
    then show ?thesis by (rule keeps_pending [OF keeps_far [OF v(5)]])
  qed
qed

lemma trace_run_pending: "pending_kept w \<Longrightarrow> trace_run es w = Some w' \<Longrightarrow> pending_kept w'"
proof (induction es arbitrary: w)
  case (Cons e es)
  then obtain w1 where "trace_code e w = Some w1" "trace_run es w1 = Some w'" by (auto simp: bind_eq_Some_conv)
  then show ?case using Cons.IH trace_code_pending [OF Cons.prems(1)] by blast
qed simp

subsection \<open>Properties\<close>

text \<open>C7 (no read of a freed instruction, on one thread): take any run of the hooks of one thread, with no other thread using the
  disassembly cache meanwhile. When the access of the line before is printed, which is after the next instruction has been
  fetched and the cache may have freed an object for it, the pending object is still owned by the cache. The program shares one
  cache among all threads that trace, without a lock; a lemma after this property shows that then the object can be freed.\<close>

theorem pending_object_alive:
  assumes "dc_ok (w_dc w)" and "\<not> ti_hasPending (w_ti w)" and "trace_run es w = Some w'" and "ti_hasPending (w_ti w')"
  shows "ti_pinsn (w_ti w') \<in># held (snd (fetch_insn e (w_dc w'))) \<and> ti_pinsn (w_ti w') \<noteq> 0"
proof -
  have "pending_kept w'" using trace_run_pending [OF _ assms(3)] assms(1,2) by (simp add: pending_kept_def)
  then have "dc_ok (w_dc w')" "newest (w_dc w') (ti_pinsn (w_ti w'))" using assms(4) by (simp_all add: pending_kept_def)
  then show ?thesis using fetch_insn_facts(2) by (auto simp: newest_def)
qed

text \<open>Four instructions that another thread puts into the same set between two hooks free the pending object.\<close>

lemma other_thread_frees_pending:
  assumes "dc_ok c" and "e_insn (dc_sets c s ! 0) = p" and "p \<noteq> 0"
    and "hashAddr a1 = s" "hashAddr a2 = s" "hashAddr a3 = s" "hashAddr a4 = s"
  shows "p \<in> set (dc_freed (dc_put t a4 n4 (dc_put t a3 n3 (dc_put t a2 n2 (dc_put t a1 n1 c)))))"
proof -
  obtain x xs where "dc_sets c s = x # xs" "length xs = 3"
    using set_length [OF assms(1), of s] by (cases "dc_sets c s") simp_all
  moreover obtain y z w where "xs = [y, z, w]" using \<open>length xs = 3\<close> by (auto simp: numeral_3_eq_3 length_Suc_conv)
  ultimately show ?thesis using assms by (simp add: dc_put_def Let_def WAYS_def)
qed

lemma pending_object_alive_witness:
  "\<exists>w'. trace_run [demo_ev (demo_load 0 16 0)] demo_world = Some w' \<and>
    ti_pinsn (w_ti w') \<in># held (snd (fetch_insn (demo_ev (demo_load 237 0 3)) (w_dc w')))"
proof -
  obtain w' where w': "trace_code (demo_ev (demo_load 0 16 0)) demo_world = Some w'" "ti_hasPending (w_ti w')"
    using demo_trace by blast
  then have run: "trace_run [demo_ev (demo_load 0 16 0)] demo_world = Some w'" by simp
  have "dc_ok (w_dc demo_world)" "\<not> ti_hasPending (w_ti demo_world)" by (simp_all add: dc_ok_new demo_ti_def)
  from pending_object_alive [OF this run w'(2)] run show ?thesis by blast
qed

end
