(* ===== verification/Session_Files.thy ===== *)
theory Session_Files
  imports Trace_Text
begin

text \<open>
  The files of a trace (\<open>trace/src/EastTrace.cpp\<close>): the directory computed from the log path, the path of a
  thread's file, the search for the first free index, and what the calls of a thread's \<open>DirectWriteBuf\<close> leave
  in its file. Which paths exist is an argument.
\<close>

subsection \<open>Paths\<close>

text \<open>\<open>std::string::rfind\<close> and \<open>strstr\<close>.\<close>

definition rfind_char :: "char \<Rightarrow> string \<Rightarrow> nat option" where
  "rfind_char c s = find (\<lambda>k. s ! k = c) (rev [0..<length s])"

definition strstr_at :: "string \<Rightarrow> string \<Rightarrow> nat option" where
  "strstr_at s t = find (\<lambda>k. take (length t) (drop k s) = t) [0..<length s + 1]"

definition computeLogDir :: "string \<Rightarrow> string" where
  "computeLogDir p =
     (let q = (case rfind_char CHR ''.'' p of
                 None \<Rightarrow> p
               | Some d \<Rightarrow> (case rfind_char CHR ''/'' p of
                   None \<Rightarrow> take d p
                 | Some s \<Rightarrow> if s < d then take d p else p))
      in if q \<noteq> [] \<and> last q \<noteq> CHR ''/'' then q @ ''/'' else q)"

text \<open>\<open>%d\<close> of the C library, and \<open>snprintf\<close> into an array of \<open>n\<close> bytes.\<close>

fun dec_digits :: "nat \<Rightarrow> string" where
  "dec_digits n = (if n < 10 then [hd_digit n] else dec_digits (n div 10) @ [hd_digit (n mod 10)])"

declare dec_digits.simps [simp del]

definition printf_d :: "int \<Rightarrow> string" where
  "printf_d i = (if i < 0 then ''-'' @ dec_digits (nat (- i)) else dec_digits (nat i))"

definition snprintf_cut :: "nat \<Rightarrow> string \<Rightarrow> string" where
  "snprintf_cut n s = take (n - 1) s"

definition full_path :: "string \<Rightarrow> string \<Rightarrow> u32 \<Rightarrow> nat \<Rightarrow> string" where
  "full_path dir prefix tid idx =
     dir @ prefix @ ''_tid'' @ printf_d (sint tid) @ ''_'' @ printf_d (int idx) @ ''.lz4''"

definition trace_path :: "string \<Rightarrow> string \<Rightarrow> u32 \<Rightarrow> nat \<Rightarrow> string" where
  "trace_path dir prefix tid idx = snprintf_cut 512 (full_path dir prefix tid idx)"

subsection \<open>The next index\<close>

text \<open>The index is an \<open>int\<close>; past its last value the behaviour is undefined: \<open>None\<close>.\<close>

function index_loop :: "(string \<Rightarrow> bool) \<Rightarrow> (nat \<Rightarrow> string) \<Rightarrow> nat \<Rightarrow> nat option" where
  "index_loop ex path idx =
     (if 2 ^ 31 \<le> idx then None else if ex (path idx) then index_loop ex path (idx + 1) else Some idx)"
  by pat_completeness auto
termination
  by (relation "measure (\<lambda>(ex, path, idx). 2 ^ 31 - idx)") auto

declare index_loop.simps [simp del]

definition findNextFileIndex :: "(string \<Rightarrow> bool) \<Rightarrow> string \<Rightarrow> string \<Rightarrow> u32 \<Rightarrow> nat option" where
  "findNextFileIndex ex dir prefix tid = index_loop ex (trace_path dir prefix tid) 0"

subsection \<open>The calls of a buffer\<close>

text \<open>How a thread's buffer was set up, and the calls it can receive after that.\<close>

datatype buf_open = OpenFile int u32 | OpenTcp int u32

datatype buf_call = BufOp dw_op | SignalClose | Destroy

definition call_bytes :: "buf_call list \<Rightarrow> byte list" where
  "call_bytes cs = concat (map (\<lambda>c. case c of BufOp x \<Rightarrow> op_bytes x | _ \<Rightarrow> []) cs)"

text \<open>What they do to a buffer that writes to a file; in TCP mode they are the steps of \<open>Direct_Write_Bg\<close>.\<close>

fun file_step :: "nat \<Rightarrow> buf_call \<Rightarrow> dwbuf \<times> dw_env \<Rightarrow> (dwbuf \<times> dw_env) option" where
  "file_step cap (BufOp x) s = dw_step cap x s"
| "file_step cap SignalClose (d, e) = Some (closeFromSignal d e)"
| "file_step cap Destroy (d, e) = dw_destroy d e"

fun file_run :: "nat \<Rightarrow> buf_call list \<Rightarrow> dwbuf \<times> dw_env \<Rightarrow> (dwbuf \<times> dw_env) option" where
  "file_run cap [] s = Some s"
| "file_run cap (c # cs) s = Option.bind (file_step cap c s) (file_run cap cs)"

definition open_file :: "nat \<Rightarrow> int \<Rightarrow> u32 \<Rightarrow> int list \<Rightarrow> htab \<Rightarrow> dwbuf \<times> dw_env" where
  "open_file cap fd tid script ht = (init_lz4 cap fd tid dw_initial, dw_env_fresh script ht)"

subsection \<open>Lemmas\<close>

lemma hd_digit_ne: "n < 10 \<Longrightarrow> CHR ''_'' \<noteq> hd_digit n \<and> CHR ''-'' \<noteq> hd_digit n"
  by (auto simp: hd_digit_def numeral_eq_Suc less_Suc_eq)

lemma dec_digits_short: "n < 10 \<Longrightarrow> dec_digits n = [hd_digit n]"
  by (subst dec_digits.simps) simp

lemma dec_digits_long: "\<not> n < 10 \<Longrightarrow> dec_digits n = dec_digits (n div 10) @ [hd_digit (n mod 10)]"
  by (subst dec_digits.simps) simp

lemma dec_digits_value: "num_val 10 (dec_digits n) = n"
proof (induction n rule: less_induct)
  case (less n)
  then show ?case by (cases "n < 10") (simp_all add: dec_digits_short dec_digits_long num_val_def)
qed

lemma dec_digits_chars: "CHR ''_'' \<notin> set (dec_digits n) \<and> CHR ''-'' \<notin> set (dec_digits n)"
proof (induction n rule: less_induct)
  case (less n)
  show ?case
  proof (cases "n < 10")
    case True
    then show ?thesis using hd_digit_ne [OF True] by (simp add: dec_digits_short)
  next
    case False
    then show ?thesis using less [of "n div 10"] hd_digit_ne [of "n mod 10"] by (simp add: dec_digits_long)
  qed
qed

lemma printf_d_chars: "CHR ''_'' \<notin> set (printf_d i)"
  using dec_digits_chars by (auto simp: printf_d_def)

lemma dec_digits_inj: "dec_digits n = dec_digits m \<Longrightarrow> n = m"
  by (metis dec_digits_value)

lemma dec_digits_no_minus: "dec_digits n \<noteq> CHR ''-'' # t"
  using dec_digits_chars [of n] by auto

lemma printf_d_inj:
  assumes eq: "printf_d i = printf_d j"
  shows "i = j"
proof -
  have "(i < 0) = (j < 0)"
    using eq dec_digits_no_minus [of "nat i"] dec_digits_no_minus [of "nat j"] unfolding printf_d_def
    by (cases "i < 0"; cases "j < 0") (simp_all, metis)
  moreover have "nat \<bar>i\<bar> = nat \<bar>j\<bar>"
    using eq calculation unfolding printf_d_def by (cases "i < 0") (auto dest!: dec_digits_inj)
  ultimately show ?thesis by linarith
qed

lemma full_path_inj:
  assumes "full_path dir prefix t i = full_path dir prefix t' i'"
  shows "t = t' \<and> i = i'"
proof -
  have eq: "printf_d (sint t) @ CHR ''_'' # printf_d (int i) @ ''.lz4'' = printf_d (sint t') @ CHR ''_'' # printf_d (int i') @ ''.lz4''"
    using assms by (simp add: full_path_def)
  have tw: "takeWhile (\<lambda>c. c \<noteq> CHR ''_'') (printf_d a @ CHR ''_'' # s) = printf_d a" for a s
    using printf_d_chars [of a] by (subst takeWhile_append2) auto
  have "printf_d (sint t) = printf_d (sint t')"
    using arg_cong [OF eq, of "takeWhile (\<lambda>c. c \<noteq> CHR ''_'')"] by (simp only: tw)
  with eq have "int i = int i'" and st: "sint t = sint t'" by (auto dest: printf_d_inj)
  moreover have "t = t'" using st by (rule signed_word_eqI)
  ultimately show ?thesis by simp
qed

lemma index_loop_step: "idx < 2 ^ 31 \<Longrightarrow> ex (path idx) \<Longrightarrow> index_loop ex path idx = index_loop ex path (Suc idx)"
  by (subst index_loop.simps) simp

lemma index_loop_None: "index_loop ex path idx = None \<Longrightarrow> idx \<le> k \<Longrightarrow> k < 2 ^ 31 \<Longrightarrow> ex (path k)"
proof (induction ex path idx rule: index_loop.induct)
  case (1 ex path idx)
  have lt: "\<not> 2 ^ 31 \<le> idx" using 1(3,4) by linarith
  have here: "ex (path idx)" using 1(2) lt by (subst (asm) index_loop.simps) (simp split: if_splits)
  have "index_loop ex path (idx + 1) = None"
    using 1(2) index_loop_step [of idx ex path] lt here by simp
  from 1(1) [OF lt here this _ 1(4)] here show ?case using 1(3) by (cases "k = idx") auto
qed

lemma index_loop_Some:
  "index_loop ex path idx = Some n \<Longrightarrow> idx \<le> n \<and> n < 2 ^ 31 \<and> \<not> ex (path n) \<and> (\<forall>k. idx \<le> k \<and> k < n \<longrightarrow> ex (path k))"
proof (induction ex path idx rule: index_loop.induct)
  case (1 ex path idx)
  have lt: "\<not> 2 ^ 31 \<le> idx" using 1(2) by (subst (asm) index_loop.simps) (simp split: if_splits)
  show ?case
  proof (cases "ex (path idx)")
    case True
    then have "index_loop ex path (idx + 1) = Some n" using 1(2) index_loop_step [of idx ex path] lt by simp
    from 1(1) [OF lt True this] True show ?thesis by (metis Suc_eq_plus1 Suc_leD not_less_eq_eq le_antisym)
  next
    case False
    then have "n = idx" using 1(2) lt by (subst (asm) index_loop.simps) (simp split: if_splits)
    with False lt show ?thesis by auto
  qed
qed

lemma file_run_append: "file_run cap (cs @ ds) s = Option.bind (file_run cap cs s) (file_run cap ds)"
  by (induction cs arbitrary: s) (auto split: Option.bind_split)

lemma file_run_ops: "file_run cap (map BufOp ops) s = dw_run cap ops s"
proof (induction ops arbitrary: s)
  case (Cons x ops)
  have n: "fold (\<lambda>x r. Option.bind r (dw_step cap x)) xs None = None" for xs by (induction xs) simp_all
  from Cons show ?case by (cases "dw_step cap x s") (simp_all add: dw_run_def n)
qed (simp add: dw_run_def)

lemma call_bytes_simps [simp]:
  "call_bytes [] = []" "call_bytes (BufOp x # cs) = op_bytes x @ call_bytes cs" "call_bytes (SignalClose # cs) = call_bytes cs"
  "call_bytes (Destroy # cs) = call_bytes cs" "call_bytes (cs @ ds) = call_bytes cs @ call_bytes ds"
  "call_bytes (map BufOp ops) = concat (map op_bytes ops)"
  by (simp_all add: call_bytes_def comp_def)

lemma call_bytes_op: "c = BufOp x \<Longrightarrow> call_bytes (c # cs) = op_bytes x @ call_bytes cs" by simp

text \<open>A file buffer that is destroyed, or closed from the signal handler, after any operations.\<close>

lemma file_ops_ok:
  assumes "dw_ok cap d e"
  shows "\<exists>d' e'. file_run cap (map BufOp ops) (d, e) = Some (d', e') \<and> dw_ok cap d' e' \<and> dw_tid d' = dw_tid d \<and>
    dw_stream d' e' = dw_stream d e @ call_bytes (map BufOp ops)"
  using dw_run_ok [OF assms, of ops] by (auto simp: file_run_ops)

lemma open_file_ok:
  assumes "0 < cap" and "lz4_compress_bound cap < 2 ^ 32" and "0 \<le> fd" and "\<forall>r\<in>set script. 0 < r"
  shows "\<exists>d e. open_file cap fd tid script ht = (d, e) \<and> dw_ok cap d e \<and> dw_tid d = tid \<and> dw_stream d e = []"
  using init_lz4_ok [OF assms] by (auto simp: open_file_def init_lz4_def)

lemma destroyed_file:
  assumes "0 < cap" and "lz4_compress_bound cap < 2 ^ 32" and "0 \<le> fd" and "\<forall>r\<in>set script. 0 < r"
  shows "\<exists>d e. file_run cap (map BufOp ops @ [Destroy]) (open_file cap fd tid script ht) = Some (d, e) \<and>
    written e = concat (map op_bytes ops) \<and> file_ok tid e \<and> dw_buf0 d = None"
proof -
  obtain d0 e0 where o: "open_file cap fd tid script ht = (d0, e0)" "dw_ok cap d0 e0" "dw_tid d0 = tid" "dw_stream d0 e0 = []"
    using open_file_ok [OF assms] by blast
  obtain d1 e1 where r: "file_run cap (map BufOp ops) (d0, e0) = Some (d1, e1)" "dw_ok cap d1 e1" "dw_tid d1 = tid"
    "dw_stream d1 e1 = concat (map op_bytes ops)"
    using file_ops_ok [OF o(2), of ops] o by auto
  with destroy_ok [OF r(2)] o show ?thesis by (fastforce simp: file_run_append)
qed

subsection \<open>Properties\<close>

text \<open>C15 (the search for a free file ends): when the directory holds fewer than 2 to the 31 files and the paths fit
  the array, the search for a thread's next file ends within one more step than there are files; the path it
  gives is free and every smaller index is taken, so no trace is overwritten.\<close>

theorem next_index_found:
  assumes "finite F" and "card F < 2 ^ 31" and "\<And>k. k \<le> card F \<Longrightarrow> length (full_path dir prefix tid k) < 512"
  shows "\<exists>n. n \<le> card F \<and> findNextFileIndex (\<lambda>p. p \<in> F) dir prefix tid = Some n \<and> trace_path dir prefix tid n \<notin> F \<and>
    (\<forall>k < n. trace_path dir prefix tid k \<in> F)"
proof -
  let ?p = "trace_path dir prefix tid"
  have whole: "?p k = full_path dir prefix tid k" if "k \<le> card F" for k
    using assms(3) [OF that] by (simp add: trace_path_def snprintf_cut_def)
  then have inj: "inj_on ?p {..card F}"
    by (auto intro!: inj_onI dest: full_path_inj)
  have "\<not> ?p ` {..card F} \<subseteq> F"
    using card_mono [OF assms(1), of "?p ` {..card F}"] card_image [OF inj] by auto
  then obtain k where k: "k \<le> card F" "?p k \<notin> F" by auto
  then obtain n where n: "index_loop (\<lambda>p. p \<in> F) ?p 0 = Some n"
    using index_loop_None [of "\<lambda>p. p \<in> F" ?p 0 k] assms(2) by fastforce
  from index_loop_Some [OF n] k have "n \<le> card F" by (meson leI le0 le_trans not_le)
  with index_loop_Some [OF n] n show ?thesis by (auto simp: findNextFileIndex_def)
qed

lemma next_index_found_witness:
  "\<exists>n. n \<le> 1 \<and> findNextFileIndex (\<lambda>p. p \<in> {''/d/a_tid7_0.lz4''}) ''/d/'' ''a'' 7 = Some n \<and>
     trace_path ''/d/'' ''a'' 7 n \<noteq> ''/d/a_tid7_0.lz4''"
proof -
  have "length (full_path ''/d/'' ''a'' 7 k) < 512" if "k \<le> card {''/d/a_tid7_0.lz4''}" for k
  proof -
    from that have "k = 0 \<or> k = 1" by auto
    then show ?thesis by (auto simp: full_path_def printf_d_def dec_digits_short dec_digits_long)
  qed
  from next_index_found [of "{''/d/a_tid7_0.lz4''}", OF _ _ this] show ?thesis by auto
qed

text \<open>A path that is cut before the index is the same for every index: when it exists there is no free one, and
  the loop runs through all indices.\<close>

lemma cut_path_never_free:
  assumes "511 \<le> length (dir @ prefix)" and "ex (take 511 (dir @ prefix))"
  shows "findNextFileIndex ex dir prefix tid = None"
proof -
  have p: "trace_path dir prefix tid k = take 511 (dir @ prefix)" for k
    using assms(1) by (simp add: trace_path_def snprintf_cut_def full_path_def)
  show ?thesis
  proof (rule ccontr)
    assume "findNextFileIndex ex dir prefix tid \<noteq> None"
    then obtain n where "index_loop ex (trace_path dir prefix tid) 0 = Some n" by (auto simp: findNextFileIndex_def)
    from index_loop_Some [OF this] assms(2) show False by (simp add: p)
  qed
qed

end
