(* ===== verification/Trace_Session.thy ===== *)
theory Trace_Session
  imports Session_Files
begin

text \<open>
  Trace sessions (\<open>trace/src/EastTrace.cpp\<close>): the objects (\<open>TraceInfo\<close>) of the traced functions and of their
  threads, their creation, change of file and release, the shared TCP connection, the wrapping of thread start
  routines and the salvage of the crash handler. An object is reached through its address, so a use after
  \<open>delete\<close> is a fault (\<open>None\<close>). The order of effects on the outside is a log.
\<close>

subsection \<open>State\<close>

record session_obj =
  to_ti :: trace_info
  to_template :: bool
  to_master :: u64
  to_ctx :: u64
  to_logDir :: string
  to_origLogPath :: string
  to_prefix :: string
  to_target :: u64
  to_auto :: bool
  to_hooked :: bool
  to_fd :: int
  to_tcp :: int
  to_owner :: int
  to_open :: "buf_open option"
  to_calls :: "buf_call list"
  to_call :: "call_state option"

text \<open>\<open>new TraceInfo()\<close>.\<close>

definition new_module :: current_module where
  "new_module = \<lparr>cm_name = [], cm_path = [], cm_base = 0, cm_end = 0, cm_bias = 0, cm_plt_start = 0, cm_plt_end = 0\<rparr>"

definition new_ti :: trace_info where
  "new_ti = \<lparr>ti_skip = False, ti_skip_ret = 0, ti_entryLr = 0, ti_entryLrSet = False,
     ti_last = \<lparr>rp_address = 0, rp_regs = [], rp_forWriteRegs = False, rp_cached = None\<rparr>, ti_hasLast = False,
     ti_sb = \<lparr>sb_text = [], sb_capacity = 0\<rparr>, ti_sbInit = False,
     ti_pending = \<lparr>pa_is_load = False, pa_size = 0, pa_last = 0\<rparr>, ti_pinsn = 0, ti_hasPending = False,
     ti_insnCounter = 0, ti_flushCounter = 0, ti_cleanCounter = 0, ti_x = replicate 33 0, ti_direct = False,
     ti_callRet = 0, ti_fds = Map.empty, ti_svc = \<lparr>sp_type = SVC_PEND_NONE, sp_buf_addr = 0, sp_path = []\<rparr>,
     ti_pltStart = 0, ti_pltEnd = 0, ti_so = new_module, ti_written = False\<rparr>"

definition new_obj :: session_obj where
  "new_obj = \<lparr>to_ti = new_ti, to_template = False, to_master = 0, to_ctx = 0, to_logDir = [], to_origLogPath = [],
     to_prefix = [], to_target = 0, to_auto = False, to_hooked = False, to_fd = -1, to_tcp = -1, to_owner = 0,
     to_open = None, to_calls = [], to_call = None\<rparr>"

text \<open>What leaves the program, in order: a destroyed buffer with the calls it received, a closed descriptor, ...\<close>

datatype sys =
    SysBuffer buf_open "buf_call list" | SysClose int | SysConnect int | SysEndFrame int | SysMkdir string
  | SysFreeVm u64 | SysHook u64 u64 | SysThreadHook u64 u64 u64 | SysJniTable

text \<open>
  \<open>traceContextMap\<close> in the order of its iteration, the live objects, \<open>g_trace_all_clones\<close>, per thread
  \<open>tls_trace_clones\<close>, the object whose buffer is active (0: none) and the request to check the process; the
  connection with its reference count, \<open>g_thread_wrappers\<close> and the other caches.
\<close>

record session_state =
  ss_map :: "(u64 \<times> u64) list"
  ss_heap :: "u64 \<rightharpoonup> session_obj"
  ss_all :: "u64 list"
  ss_clones :: "thread \<Rightarrow> u64 \<rightharpoonup> u64"
  ss_active :: "thread \<Rightarrow> u64"
  ss_recheck :: "thread \<Rightarrow> bool"
  ss_tcp_fd :: int
  ss_tcp_count :: int
  ss_wrappers :: "u64 \<rightharpoonup> u64"
  ss_pthread :: u64
  ss_javavm :: bool
  ss_dc :: disasm_cache
  ss_regions :: region_state
  ss_libs :: "library_info list"
  ss_log :: "sys list"

text \<open>
  A call with what the outside answers: thread and process ids, existing paths and the result of \<open>open\<close>, the address
  of a new object, the handle and context of \<open>vc_make_handle\<close>, the loaded objects, whether there is a Java VM,
  and the descriptor of the connection.
\<close>

record session_env = call_env +
  se_tid :: u32
  se_thread :: thread
  se_pid :: int
  se_exists :: "string \<Rightarrow> bool"
  se_open :: "string \<Rightarrow> int"
  se_new :: u64
  se_handle :: u64
  se_ctx :: u64
  se_objs :: "(string option \<times> u64) list"
  se_vms :: bool
  se_server :: "string \<Rightarrow> int"

definition log_sys :: "sys list \<Rightarrow> session_state \<Rightarrow> session_state" where
  "log_sys l s = s\<lparr>ss_log := ss_log s @ l\<rparr>"

definition put_obj :: "u64 \<Rightarrow> session_obj \<Rightarrow> session_state \<Rightarrow> session_state" where
  "put_obj p o1 s = s\<lparr>ss_heap := (ss_heap s)(p \<mapsto> o1)\<rparr>"

definition del_obj :: "u64 \<Rightarrow> session_state \<Rightarrow> session_state" where
  "del_obj p s = s\<lparr>ss_heap := (ss_heap s)(p := None)\<rparr>"

definition map_ti :: "(trace_info \<Rightarrow> trace_info) \<Rightarrow> session_obj \<Rightarrow> session_obj" where
  "map_ti f o1 = o1\<lparr>to_ti := f (to_ti o1)\<rparr>"

definition set_clone :: "thread \<Rightarrow> u64 \<Rightarrow> u64 option \<Rightarrow> session_state \<Rightarrow> session_state" where
  "set_clone th m p s = s\<lparr>ss_clones := (ss_clones s)(th := (ss_clones s th)(m := p))\<rparr>"

definition set_active :: "thread \<Rightarrow> u64 \<Rightarrow> session_state \<Rightarrow> session_state" where
  "set_active th p s = s\<lparr>ss_active := (ss_active s)(th := p)\<rparr>"

subsection \<open>The file of a thread\<close>

definition end_buffer :: "buf_call list \<Rightarrow> session_obj \<Rightarrow> session_obj \<times> sys list" where
  "end_buffer cs o1 =
     (case to_open o1 of
        None \<Rightarrow> (o1, [])
      | Some k \<Rightarrow> (o1\<lparr>to_open := None, to_calls := []\<rparr>, [SysBuffer k (to_calls o1 @ cs)]))"

definition close_owned :: "session_obj \<Rightarrow> session_obj \<times> sys list" where
  "close_owned o1 = (if 0 \<le> to_fd o1 then (o1\<lparr>to_fd := -1\<rparr>, [SysClose (to_fd o1)]) else (o1, []))"

definition close_file :: "buf_call list \<Rightarrow> session_obj \<Rightarrow> session_obj \<times> sys list" where
  "close_file cs o1 =
     (case end_buffer cs o1 of (o2, l) \<Rightarrow> (case close_owned o2 of (o3, l') \<Rightarrow> (o3, l @ l')))"

definition cleanupPerThreadTrace :: "session_obj \<Rightarrow> session_obj \<times> sys list" where
  "cleanupPerThreadTrace o1 =
     (case close_file [Destroy] o1 of (o2, l) \<Rightarrow>
       (if ti_sbInit (to_ti o2)
        then map_ti (\<lambda>ti. ti\<lparr>ti_sb := freeStringBuilder (ti_sb ti), ti_sbInit := False\<rparr>) o2 else o2, l))"

text \<open>Whether it succeeded, the object and the log; \<open>None\<close>: no index is free.\<close>

definition openNextTraceFile ::
  "session_env \<Rightarrow> session_obj \<Rightarrow> session_obj \<Rightarrow> (bool \<times> session_obj \<times> sys list) option" where
  "openNextTraceFile e m o1 =
     (case close_file [BufOp DFlush, Destroy] o1 of (o2, l) \<Rightarrow>
       if 0 \<le> to_tcp m
       then Some (True, map_ti (\<lambda>ti. ti\<lparr>ti_written := False\<rparr>)
              (o2\<lparr>to_tcp := to_tcp m, to_open := Some (OpenTcp (to_tcp m) (se_tid e)), to_calls := []\<rparr>), l)
       else do {
         idx \<leftarrow> findNextFileIndex (se_exists e) (to_logDir m) (to_prefix m) (se_tid e);
         (let fd = se_open e (trace_path (to_logDir m) (to_prefix m) (se_tid e) idx) in
          Some (if fd < 0 then (False, o2, l)
                else (True, map_ti (\<lambda>ti. ti\<lparr>ti_written := False,
                               ti_sb := (if ti_sbInit ti then resetStringBuilder (ti_sb ti) else ti_sb ti)\<rparr>)
                        (o2\<lparr>to_fd := fd, to_open := Some (OpenFile fd (se_tid e)), to_calls := []\<rparr>), l)))
       })"

subsection \<open>The object of a thread\<close>

definition newPerThreadTrace :: "session_env \<Rightarrow> u64 \<Rightarrow> session_state \<Rightarrow> (u64 \<times> session_state) option" where
  "newPerThreadTrace e mp s =
     do {
       m \<leftarrow> ss_heap s mp;
       (ok, o1, l) \<leftarrow> openNextTraceFile e m
          (map_ti (\<lambda>ti. ti\<lparr>ti_so := ti_so (to_ti m)\<rparr>) (new_obj\<lparr>to_ctx := to_ctx m, to_master := mp\<rparr>));
       (let s1 = log_sys (SysMkdir (to_logDir m) # l) s; p = se_new e; th = se_thread e in
        Some (if \<not> ok then (mp, s1)
              else (p, set_active th p (set_clone th mp (Some p)
                     ((put_obj p (o1\<lparr>to_owner := se_pid e\<rparr>) s1)\<lparr>ss_all := ss_all s1 @ [p]\<rparr>)))))
     }"

text \<open>In a forked child the copy of the parent's object is flushed, closed and deleted.\<close>

definition drop_stale :: "thread \<Rightarrow> u64 \<Rightarrow> u64 \<Rightarrow> session_obj \<Rightarrow> session_state \<Rightarrow> session_state" where
  "drop_stale th mp p o1 s =
     (case close_file [BufOp DFlush, Destroy] o1 of (o2, l) \<Rightarrow> set_clone th mp None (del_obj p (log_sys l s)))"

definition getOrCreatePerThreadTrace :: "session_env \<Rightarrow> u64 \<Rightarrow> u64 \<Rightarrow> session_state \<Rightarrow> (u64 \<times> session_state) option" where
  "getOrCreatePerThreadTrace e mp address s =
     (let th = se_thread e in
      case ss_clones s th mp of
        None \<Rightarrow> newPerThreadTrace e mp s
      | Some p \<Rightarrow> do {
          o1 \<leftarrow> ss_heap s p;
          m \<leftarrow> ss_heap s mp;
          (let stale = ss_recheck s th \<and> to_owner o1 \<noteq> 0 \<and> to_owner o1 \<noteq> se_pid e;
               s0 = s\<lparr>ss_recheck := (ss_recheck s)(th := False)\<rparr> in
           if stale then newPerThreadTrace e mp (drop_stale th mp p o1 s0)
           else if ti_written (to_ti o1) \<and> to_target m \<noteq> 0 \<and> address = to_target m
           then do {
             (ok, o2, l) \<leftarrow> openNextTraceFile e m o1;
             (let s1 = put_obj p o2 (log_sys l s0) in
              Some (if ok then (p, set_active th p s1) else (mp, set_active th 0 s1)))
           }
           else Some (p, set_active th (if to_open o1 = None then 0 else p) s0))
        })"

subsection \<open>Release\<close>

text \<open>The line that is held back goes into the buffer.\<close>

definition write_held :: "session_obj \<Rightarrow> session_obj" where
  "write_held c =
     (if ti_sbInit (to_ti c) \<and> sb_text (ti_sb (to_ti c)) \<noteq> [] \<and> to_open c \<noteq> None
      then c\<lparr>to_calls := to_calls c @ [BufOp (DWrite (text_bytes (sb_text (ti_sb (to_ti c)))))]\<rparr> else c)"

text \<open>
  The clones of one master: with \<open>wr\<close> their held text is written first. The result is what stays in the list.
\<close>

fun free_clones :: "bool \<Rightarrow> u64 \<Rightarrow> u64 list \<Rightarrow> session_state \<Rightarrow> (u64 list \<times> session_state) option" where
  "free_clones wr mp [] s = Some ([], s)"
| "free_clones wr mp (p # ps) s =
     do {
       c \<leftarrow> ss_heap s p;
       (if to_master c = mp
        then free_clones wr mp ps (del_obj p (log_sys (snd (cleanupPerThreadTrace (if wr then write_held c else c))) s))
        else map_option (\<lambda>(qs, s'). (p # qs, s')) (free_clones wr mp ps s))
     }"

definition release_tcp :: "int \<Rightarrow> session_state \<Rightarrow> session_state" where
  "release_tcp fd s =
     (if fd = ss_tcp_fd s
      then (if ss_tcp_count s - 1 \<le> 0
            then log_sys [SysEndFrame fd, SysClose fd] (s\<lparr>ss_tcp_fd := -1, ss_tcp_count := 0\<rparr>)
            else s\<lparr>ss_tcp_count := ss_tcp_count s - 1\<rparr>)
      else log_sys [SysEndFrame fd, SysClose fd] s)"

text \<open>The master itself, after its clones: the caches, the connection, the VM.\<close>

definition free_master :: "u64 \<Rightarrow> u64 \<Rightarrow> u64 list \<Rightarrow> session_obj \<Rightarrow> session_state \<Rightarrow> session_state" where
  "free_master wrapper mp qs m s =
     (let s3 = s\<lparr>ss_all := qs, ss_dc := dc_clear (ss_dc s), ss_regions := region_clear_symbols (ss_regions s)\<rparr>;
          s4 = (if 0 \<le> to_tcp m then release_tcp (to_tcp m) s3 else s3);
          s5 = (if to_ctx m \<noteq> 0 then log_sys [SysFreeVm (to_ctx m)] s4 else s4) in
      (del_obj mp s5)\<lparr>ss_map := filter (\<lambda>k. fst k \<noteq> wrapper) (ss_map s5)\<rparr>)"

definition freeTrace :: "thread \<Rightarrow> u64 \<Rightarrow> session_state \<Rightarrow> session_state option" where
  "freeTrace th wrapper s =
     (case map_of (ss_map s) wrapper of
        None \<Rightarrow> Some s
      | Some mp \<Rightarrow> do {
          (qs, s2) \<leftarrow> free_clones True mp (ss_all s) (set_active th 0 (set_clone th mp None s));
          m \<leftarrow> ss_heap s2 mp;
          Some (free_master wrapper mp qs m s2)
        })"

text \<open>The session of the same target, the first in the order of the map.\<close>

fun session_of :: "(u64 \<rightharpoonup> session_obj) \<Rightarrow> u64 \<Rightarrow> (u64 \<times> u64) list \<Rightarrow> u64 option" where
  "session_of h f [] = Some 0"
| "session_of h f ((w, mp) # r) =
     (if mp = 0 then session_of h f r
      else do { m \<leftarrow> h mp; if to_target m = f then Some w else session_of h f r })"

definition destroyPreviousTraceSession :: "thread \<Rightarrow> u64 \<Rightarrow> session_state \<Rightarrow> session_state option" where
  "destroyPreviousTraceSession th f s =
     (if f = 0 then Some s
      else do {
        w \<leftarrow> session_of (ss_heap s) f (ss_map s);
        if w \<noteq> 0 then freeTrace th w s else Some s
      })"

subsection \<open>Start\<close>

definition module_at :: "session_env \<Rightarrow> u64 \<Rightarrow> library_info list \<Rightarrow> (library_info \<times> library_info list) option" where
  "module_at e a libs = findModuleByAddressExact (ce_mem e) (ce_os e) (ce_maps e (ce_gen e)) a libs"

definition resetTraceInfoRuntimeState ::
  "session_env \<Rightarrow> u64 \<Rightarrow> u64 \<Rightarrow> session_obj \<Rightarrow> library_info list \<Rightarrow> (session_obj \<times> library_info list) option" where
  "resetTraceInfoRuntimeState e ctx f o1 libs =
     (if ctx = 0 \<or> f = 0 then Some (o1, libs)
      else do {
        (l, libs') \<leftarrow> module_at e f libs;
        so \<leftarrow> module_of e l;
        Some (map_ti (\<lambda>ti. ti\<lparr>ti_hasLast := False,
                ti_sb := (if ti_sbInit ti then resetStringBuilder (ti_sb ti) else ti_sb ti),
                ti_hasPending := False, ti_pltStart := 0, ti_pltEnd := 0, ti_so := so\<rparr>) (o1\<lparr>to_ctx := ctx\<rparr>), libs')
      })"

text \<open>The mark that the thread hook puts into the path: the real path, and the prefix of the parent.\<close>

definition split_sub :: "string \<Rightarrow> string \<times> string option" where
  "split_sub p = (case strstr_at p ''|sub|'' of None \<Rightarrow> (p, None) | Some k \<Rightarrow> (take k p, Some (drop (k + 5) p)))"

definition is_tcp_path :: "string \<Rightarrow> bool" where
  "is_tcp_path p = (take 4 p = ''tcp:'')"

definition session_prefix :: "string option \<Rightarrow> string \<Rightarrow> u64 \<Rightarrow> string" where
  "session_prefix parent soName off =
     snprintf_cut 384 ((case parent of None \<Rightarrow> [] | Some q \<Rightarrow> q @ ''__sub__'') @ soName @ ''+0x'' @ uint64ToHex off)"

definition find_java_vm :: "session_env \<Rightarrow> session_state \<Rightarrow> session_state option" where
  "find_java_vm e s =
     (if ss_javavm s then Some (log_sys [SysJniTable] s)
      else do {
        (a, c) \<leftarrow> resolveSymbolInSo (ce_os e) (se_objs e) ''/libart.so'' (text_bytes ''JNI_GetCreatedJavaVMs'')
                   (rg_syms (ss_regions s));
        (let s1 = s\<lparr>ss_regions := (ss_regions s)\<lparr>rg_syms := c\<rparr>\<rparr> in
         Some (if a = 0 \<or> \<not> se_vms e then s1 else log_sys [SysJniTable] (s1\<lparr>ss_javavm := True\<rparr>)))
      })"

definition connect_tcp :: "session_env \<Rightarrow> string \<Rightarrow> session_state \<Rightarrow> int \<times> session_state" where
  "connect_tcp e path s =
     (if \<not> is_tcp_path path then (-1, s)
      else (let s1 = (if ss_tcp_fd s < 0
                      then (let fd = se_server e (drop 4 path) in
                            log_sys (if 0 \<le> fd then [SysConnect fd] else []) (s\<lparr>ss_tcp_fd := fd\<rparr>))
                      else s) in
            (ss_tcp_fd s1, if 0 \<le> ss_tcp_fd s1 then s1\<lparr>ss_tcp_count := ss_tcp_count s1 + 1\<rparr> else s1)))"

text \<open>The settings that \<open>trace\<close> gives to a new or a reused object.\<close>

definition set_session :: "string \<Rightarrow> string \<Rightarrow> u64 \<Rightarrow> int \<Rightarrow> session_obj \<Rightarrow> session_obj" where
  "set_session path prefix f fd o1 =
     o1\<lparr>to_logDir := (if is_tcp_path path then [] else computeLogDir path), to_origLogPath := path, to_prefix := prefix,
        to_target := f, to_tcp := fd\<rparr>"

definition new_session ::
  "session_env \<Rightarrow> string \<Rightarrow> string \<Rightarrow> u64 \<Rightarrow> int \<Rightarrow> library_info \<Rightarrow> session_state \<Rightarrow> session_state option" where
  "new_session e path prefix f fd lib s =
     do {
       (o1, libs) \<leftarrow> resetTraceInfoRuntimeState e (se_ctx e) f (set_session path prefix f fd (new_obj\<lparr>to_template := True\<rparr>))
                      (ss_libs s);
       so \<leftarrow> module_of e lib;
       (let o2 = map_ti (\<lambda>ti. ti\<lparr>ti_so := so, ti_hasLast := False\<rparr>)
                  (o1\<lparr>to_ctx := se_ctx e, to_call := Some (addFuncCallTrace (ti_fds (to_ti o1)) False (ss_regions s))\<rparr>) in
        Some (log_sys [SysHook (se_ctx e) (se_new e)]
               ((put_obj (se_new e) o2 s)\<lparr>ss_map := ss_map s @ [(se_handle e, se_new e)], ss_libs := libs\<rparr>)))
     }"

text \<open>A handle that already has a session: its clones are released without writing their held text.\<close>

definition reuse_session ::
  "session_env \<Rightarrow> string \<Rightarrow> string \<Rightarrow> u64 \<Rightarrow> int \<Rightarrow> u64 \<Rightarrow> session_state \<Rightarrow> session_state option" where
  "reuse_session e path prefix f fd mp s =
     do {
       (qs, s1) \<leftarrow> free_clones False mp (ss_all s) (set_clone (se_thread e) mp None s);
       m \<leftarrow> ss_heap s1 mp;
       (m1, libs) \<leftarrow> resetTraceInfoRuntimeState e (se_ctx e) f (set_session path prefix f fd m) (ss_libs s1);
       Some ((put_obj mp m1 s1)\<lparr>ss_all := qs, ss_libs := libs\<rparr>)
     }"

datatype trace_result = Exited | Returned u64

text \<open>\<open>trace(funcAddr, logPath, &ctx)\<close>; \<open>strstr\<close> on a null path is a fault.\<close>

definition trace_start :: "session_env \<Rightarrow> u64 \<Rightarrow> string option \<Rightarrow> session_state \<Rightarrow> (trace_result \<times> session_state) option" where
  "trace_start e f logPath s =
     do {
       p \<leftarrow> logPath;
       (let path = fst (split_sub p); parent = snd (split_sub p);
            s1 = (if parent = None then s\<lparr>ss_wrappers := Map.empty\<rparr> else s) in
        do {
          s2 \<leftarrow> destroyPreviousTraceSession (se_thread e) f s1;
          (if se_handle e = 0 then Some (Exited, s2)
           else if path = [] then Some (Returned 0, s2)
           else do {
             s3 \<leftarrow> find_java_vm e s2;
             (case connect_tcp e path s3 of (fd, s4) \<Rightarrow>
               if is_tcp_path path \<and> fd < 0 then Some (Returned (se_handle e), s4)
               else do {
                 (lib, libs) \<leftarrow> module_at e f (ss_libs s4);
                 (let prefix = session_prefix parent (getPathFileName (Some (li_name lib))) (f - li_base_address lib);
                      s5 = s4\<lparr>ss_libs := libs\<rparr> in
                  map_option (Pair (Returned (se_handle e)))
                    (case map_of (ss_map s5) (se_handle e) of
                       None \<Rightarrow> new_session e path prefix f fd lib s5
                     | Some mp \<Rightarrow> reuse_session e path prefix f fd mp s5))
               })
           })
        })
     }"

subsection \<open>Threads of the traced function\<close>

text \<open>The hook on \<open>pthread_create\<close>: the new value of X2.\<close>

definition thread_create_wrap_hook :: "session_env \<Rightarrow> u64 \<Rightarrow> u64 \<Rightarrow> session_state \<Rightarrow> (trace_result \<times> session_state) option" where
  "thread_create_wrap_hook e mp x2 s =
     (if mp = 0 then Some (Returned x2, s)
      else do {
        m \<leftarrow> ss_heap s mp;
        (let so = ti_so (to_ti m) in
         if \<not> to_auto m \<or> x2 = 0 \<or> cm_base so = 0 \<or> x2 < cm_base so \<or> cm_end so \<le> x2 \<or> to_origLogPath m = []
         then Some (Returned x2, s)
         else (case ss_wrappers s x2 of
                 Some w \<Rightarrow> Some (Returned (if w \<noteq> 0 then w else x2), s)
               | None \<Rightarrow> do {
                   (r, s1) \<leftarrow> trace_start e x2 (Some (to_origLogPath m @ ''|sub|'' @ to_prefix m)) s;
                   Some (case r of
                           Exited \<Rightarrow> (Exited, s1)
                         | Returned w \<Rightarrow> (Returned (if w \<noteq> 0 then w else x2), s1\<lparr>ss_wrappers := (ss_wrappers s1)(x2 \<mapsto> w)\<rparr>))
                 }))
      })"

text \<open>The first session of the context, in the order of the map.\<close>

fun object_of_ctx :: "(u64 \<rightharpoonup> session_obj) \<Rightarrow> u64 \<Rightarrow> (u64 \<times> u64) list \<Rightarrow> u64 option" where
  "object_of_ctx h ctx [] = Some 0"
| "object_of_ctx h ctx ((w, mp) # r) =
     (if mp = 0 then object_of_ctx h ctx r
      else do { m \<leftarrow> h mp; if to_ctx m = ctx then Some mp else object_of_ctx h ctx r })"

definition resolve_pthread :: "session_env \<Rightarrow> session_state \<Rightarrow> session_state option" where
  "resolve_pthread e s =
     (if ss_pthread s \<noteq> 0 then Some s
      else map_option (\<lambda>(a, c). s\<lparr>ss_pthread := a, ss_regions := (ss_regions s)\<lparr>rg_syms := c\<rparr>\<rparr>)
        (resolveSymbolInSo (ce_os e) (se_objs e) ''/libc.so'' (text_bytes ''pthread_create'') (rg_syms (ss_regions s))))"

definition vc_set_auto_trace_threads :: "session_env \<Rightarrow> u64 \<Rightarrow> bool \<Rightarrow> session_state \<Rightarrow> session_state option" where
  "vc_set_auto_trace_threads e ctx enable s =
     (if ctx = 0 then Some s
      else do {
        mp \<leftarrow> object_of_ctx (ss_heap s) ctx (ss_map s);
        (if mp = 0 then Some s
         else do {
           m \<leftarrow> ss_heap s mp;
           (let m1 = m\<lparr>to_auto := enable\<rparr> in
            if enable \<and> \<not> to_hooked m
            then map_option (\<lambda>s1.
                   if ss_pthread s1 \<noteq> 0
                   then log_sys [SysThreadHook ctx mp (ss_pthread s1)] (put_obj mp (m1\<lparr>to_hooked := True\<rparr>) s1)
                   else put_obj mp m1 s1)
                 (resolve_pthread e s)
            else Some (put_obj mp m1 s))
         })
      })"

subsection \<open>The crash handler\<close>

text \<open>One object: its held text, then what is in its buffer, then the descriptor. There is no test for TCP.\<close>

definition salvage_obj :: "session_obj \<Rightarrow> session_obj" where
  "salvage_obj c =
     (if to_open c = None then c
      else (let c1 = write_held c in
            map_ti (\<lambda>ti. if ti_sbInit ti then ti\<lparr>ti_sb := (ti_sb ti)\<lparr>sb_text := []\<rparr>\<rparr> else ti)
              (c1\<lparr>to_calls := to_calls c1 @ [BufOp DSignalFlush, SignalClose]\<rparr>)))"

fun trace_salvage :: "u64 list \<Rightarrow> session_state \<Rightarrow> session_state option" where
  "trace_salvage [] s = Some s"
| "trace_salvage (p # ps) s =
     (if p = 0 then trace_salvage ps s
      else do { c \<leftarrow> ss_heap s p; trace_salvage ps (put_obj p (salvage_obj c) s) })"

text \<open>The handler before ours: with \<open>SA_SIGINFO\<close> or without; 0 is \<open>SIG_DFL\<close>, 1 is \<open>SIG_IGN\<close>.\<close>

datatype chained = CallSigaction u64 | CallHandler u64 | DefaultAndRaise

definition chain_old :: "bool \<Rightarrow> u64 \<Rightarrow> chained" where
  "chain_old siginfo h =
     (if siginfo \<and> h \<noteq> 0 then CallSigaction h
      else if h \<noteq> 0 \<and> h \<noteq> 1 then CallHandler h
      else DefaultAndRaise)"

definition trace_crash_handler :: "(int \<Rightarrow> bool \<times> u64) \<Rightarrow> int \<Rightarrow> session_state \<Rightarrow> (chained \<times> session_state) option" where
  "trace_crash_handler old sig s =
     map_option (Pair (chain_old (fst (old sig)) (snd (old sig)))) (trace_salvage (ss_all s) s)"

text \<open>The signals that get the handler, and whether it is armed then.\<close>

definition vc_set_trace_crash_flush :: "bool \<Rightarrow> bool \<Rightarrow> string list \<times> bool" where
  "vc_set_trace_crash_flush enable armed =
     (if \<not> enable \<or> armed then ([], armed)
      else ([''SIGSEGV'', ''SIGABRT'', ''SIGBUS'', ''SIGILL'', ''SIGFPE'', ''SIGTERM'', ''SIGINT''], True))"

end
