(* ===== verification/Session_Tcp.thy ===== *)
theory Session_Tcp
  imports Trace_Session
begin

text \<open>
  The shared connection over any sequence of session operations: an invariant of the sessions, the objects of the
  threads and the log. The log is read by a small monitor, which accepts a connection only when none is open, an end
  frame only for the open one, and the last data of a thread's buffer only while its connection is open.
\<close>

subsection \<open>The monitor\<close>

fun conn_step :: "sys \<Rightarrow> int option \<Rightarrow> int option option" where
  "conn_step (SysConnect fd) c = (if c = None then Some (Some fd) else None)"
| "conn_step (SysEndFrame fd) c = (if c = Some fd then Some None else None)"
| "conn_step (SysBuffer (OpenTcp fd tid) cs) c = (if c = Some fd then Some c else None)"
| "conn_step _ c = Some c"

fun conn_run :: "sys list \<Rightarrow> int option \<Rightarrow> int option option" where
  "conn_run [] c = Some c"
| "conn_run (x # xs) c = Option.bind (conn_step x c) (conn_run xs)"

lemma conn_run_append: "conn_run (xs @ ys) c = Option.bind (conn_run xs c) (conn_run ys)"
  by (induction xs arbitrary: c) (auto split: Option.bind_split)

subsection \<open>Sequences of operations\<close>

datatype session_op =
    Start session_env u64 "string option" | Free thread u64 | Thread session_env u64 u64 | Hook session_env u64 u64
  | Auto session_env u64 bool | Salvage

fun session_step :: "session_op \<Rightarrow> session_state \<Rightarrow> session_state option" where
  "session_step (Start e f p) s = map_option snd (trace_start e f p s)"
| "session_step (Free th w) s = freeTrace th w s"
| "session_step (Thread e mp x2) s = map_option snd (thread_create_wrap_hook e mp x2 s)"
| "session_step (Hook e mp a) s = map_option snd (getOrCreatePerThreadTrace e mp a s)"
| "session_step (Auto e ctx b) s = vc_set_auto_trace_threads e ctx b s"
| "session_step Salvage s = trace_salvage (ss_all s) s"

text \<open>
  What is assumed of the outside: a new object has an address that is neither live nor left in a thread's table, a
  handle has no session, except that of the same function, which is freed first; and the instruction hook belongs to
  a session.
\<close>

definition new_address :: "session_env \<Rightarrow> session_state \<Rightarrow> bool" where
  "new_address e s \<longleftrightarrow> se_new e \<noteq> 0 \<and> ss_heap s (se_new e) = None \<and>
     (\<forall>th mp. ss_clones s th mp \<noteq> Some (se_new e))"

definition new_handle :: "session_env \<Rightarrow> u64 \<Rightarrow> session_state \<Rightarrow> bool" where
  "new_handle e f s \<longleftrightarrow>
     (\<forall>p. map_of (ss_map s) (se_handle e) = Some p \<longrightarrow>
        f \<noteq> 0 \<and> se_handle e \<noteq> 0 \<and> session_of (ss_heap s) f (ss_map s) = Some (se_handle e))"

fun op_ok :: "session_op \<Rightarrow> session_state \<Rightarrow> bool" where
  "op_ok (Start e f p) s = (new_address e s \<and> new_handle e f s)"
| "op_ok (Thread e mp x2) s = (new_address e s \<and> new_handle e x2 s)"
| "op_ok (Hook e mp a) s = (new_address e s \<and> mp \<in> snd ` set (ss_map s))"
| "op_ok _ s = True"

fun session_run :: "session_op list \<Rightarrow> session_state \<Rightarrow> session_state option" where
  "session_run [] s = Some s"
| "session_run (x # xs) s = Option.bind (session_step x s) (session_run xs)"

fun ops_ok :: "session_op list \<Rightarrow> session_state \<Rightarrow> bool" where
  "ops_ok [] s = True"
| "ops_ok (x # xs) s = (op_ok x s \<and> (case session_step x s of None \<Rightarrow> True | Some s' \<Rightarrow> ops_ok xs s'))"

definition session_initial :: session_state where
  "session_initial = \<lparr>ss_map = [], ss_heap = Map.empty, ss_all = [], ss_clones = (\<lambda>th. Map.empty), ss_active = (\<lambda>th. 0),
     ss_recheck = (\<lambda>th. False), ss_tcp_fd = -1, ss_tcp_count = 0, ss_wrappers = Map.empty, ss_pthread = 0,
     ss_javavm = False, ss_dc = dc_new, ss_regions = snd region_start, ss_libs = [], ss_log = []\<rparr>"

subsection \<open>The invariant\<close>

text \<open>What the invariant reads of an object.\<close>

type_synonym obj_view = "bool \<times> u64 \<times> int \<times> buf_open option"

definition view :: "session_state \<Rightarrow> u64 \<Rightarrow> obj_view option" where
  "view s p = map_option (\<lambda>c. (to_template c, to_master c, to_tcp c, to_open c)) (ss_heap s p)"

definition masters :: "session_state \<Rightarrow> u64 list" where
  "masters s = map snd (ss_map s)"

definition tcp_master :: "session_state \<Rightarrow> u64 \<Rightarrow> bool" where
  "tcp_master s mp = (case view s mp of None \<Rightarrow> False | Some (b, mm, fd, k) \<Rightarrow> 0 \<le> fd)"

definition open_conn :: "session_state \<Rightarrow> int option" where
  "open_conn s = (if 0 \<le> ss_tcp_fd s then Some (ss_tcp_fd s) else None)"

definition masters_ok :: "session_state \<Rightarrow> bool" where
  "masters_ok s \<longleftrightarrow> distinct (map fst (ss_map s)) \<and> distinct (masters s) \<and>
     (\<forall>mp\<in>set (masters s). \<exists>mm fd. view s mp = Some (True, mm, fd, None) \<and> (0 \<le> fd \<longrightarrow> fd = ss_tcp_fd s))"

text \<open>A thread's buffer on a connection uses the connection of its session.\<close>

definition clone_ok :: "session_state \<Rightarrow> u64 \<Rightarrow> bool" where
  "clone_ok s p \<longleftrightarrow> (\<exists>mp fd k. view s p = Some (False, mp, fd, k) \<and> mp \<in> set (masters s) \<and>
     (\<forall>fd' tid. k = Some (OpenTcp fd' tid) \<longrightarrow> 0 \<le> fd' \<and> (\<exists>mm. view s mp = Some (True, mm, fd', None))))"

definition clones_ok :: "session_state \<Rightarrow> bool" where
  "clones_ok s \<longleftrightarrow> distinct (ss_all s) \<and> (\<forall>p\<in>set (ss_all s). clone_ok s p) \<and>
     (\<forall>th mp p. ss_clones s th mp = Some p \<longrightarrow> view s p \<noteq> None \<longrightarrow>
        p \<in> set (ss_all s) \<and> (\<exists>fd k. view s p = Some (False, mp, fd, k)))"

definition tcp_ok :: "session_state \<Rightarrow> bool" where
  "tcp_ok s \<longleftrightarrow> ss_tcp_count s = int (length (filter (tcp_master s) (masters s))) \<and>
     (0 \<le> ss_tcp_fd s \<longleftrightarrow> 0 < ss_tcp_count s) \<and> conn_run (ss_log s) None = Some (open_conn s)"

definition session_ok :: "session_state \<Rightarrow> bool" where
  "session_ok s \<longleftrightarrow> (\<forall>th. \<not> ss_recheck s th) \<and> masters_ok s \<and> clones_ok s \<and> tcp_ok s"

subsection \<open>Closing and freeing\<close>

definition sends_on :: "buf_open option \<Rightarrow> int option \<Rightarrow> bool" where
  "sends_on k c \<longleftrightarrow> (\<forall>fd tid. k = Some (OpenTcp fd tid) \<longrightarrow> c = Some fd)"

lemma conn_run_close: "sends_on (to_open o1) c \<Longrightarrow> conn_run (snd (close_file cs o1)) c = Some c"
  by (auto simp: sends_on_def close_file_def end_buffer_def close_owned_def split: option.splits buf_open.splits)
    (case_tac x2; auto)+

lemma close_file_view:
  "to_template (fst (close_file cs o1)) = to_template o1" "to_master (fst (close_file cs o1)) = to_master o1"
  "to_tcp (fst (close_file cs o1)) = to_tcp o1" "to_open (fst (close_file cs o1)) = None"
  by (auto simp: close_file_def end_buffer_def close_owned_def split: option.splits)

lemma cleanup_log: "snd (cleanupPerThreadTrace o1) = snd (close_file [Destroy] o1)"
  by (simp add: cleanupPerThreadTrace_def split: prod.splits)

definition owner :: "session_state \<Rightarrow> u64 \<Rightarrow> u64" where
  "owner s p = (case ss_heap s p of None \<Rightarrow> 0 | Some c \<Rightarrow> to_master c)"

text \<open>What freeing the clones of a master changes: they are gone, and the log grows by their last data.\<close>

definition freed_from :: "u64 \<Rightarrow> u64 list \<Rightarrow> session_state \<Rightarrow> session_state \<Rightarrow> bool" where
  "freed_from mp ps s s' \<longleftrightarrow>
     ss_heap s' = (\<lambda>p. if p \<in> set ps \<and> owner s p = mp then None else ss_heap s p) \<and>
     (\<exists>l. s' = s\<lparr>ss_heap := ss_heap s', ss_log := ss_log s @ l\<rparr> \<and>
       (\<forall>c. (\<forall>p\<in>set ps. \<forall>o1. ss_heap s p = Some o1 \<longrightarrow> to_master o1 = mp \<longrightarrow> sends_on (to_open o1) c) \<longrightarrow> conn_run l c = Some c))"

lemma freed_from_Nil: "freed_from mp [] s s"
  unfolding freed_from_def by (intro conjI exI [of _ "[]"]) (cases s, simp_all)

lemma freed_from_skip:
  assumes "freed_from mp ps s s'" and "ss_heap s p = Some c" and "to_master c \<noteq> mp"
  shows "freed_from mp (p # ps) s s'"
proof -
  have "owner s p \<noteq> mp" using assms(2,3) by (simp add: owner_def)
  then have same: "(q \<in> set (p # ps) \<and> owner s q = mp) = (q \<in> set ps \<and> owner s q = mp)" for q by auto
  from assms(1) obtain l where h: "ss_heap s' = (\<lambda>q. if q \<in> set ps \<and> owner s q = mp then None else ss_heap s q)"
    and l: "s' = s\<lparr>ss_heap := ss_heap s', ss_log := ss_log s @ l\<rparr>"
    and m: "\<And>d. \<forall>q\<in>set ps. \<forall>o1. ss_heap s q = Some o1 \<longrightarrow> to_master o1 = mp \<longrightarrow> sends_on (to_open o1) d \<Longrightarrow> conn_run l d = Some d"
    unfolding freed_from_def by blast
  have "conn_run l d = Some d"
    if "\<forall>q\<in>set (p # ps). \<forall>o1. ss_heap s q = Some o1 \<longrightarrow> to_master o1 = mp \<longrightarrow> sends_on (to_open o1) d" for d
    by (rule m) (use that in simp)
  with h l show ?thesis unfolding freed_from_def same by blast
qed

lemma free_clones_spec:
  "free_clones wr mp ps s = Some (qs, s') \<Longrightarrow> distinct ps \<Longrightarrow>
   qs = filter (\<lambda>p. owner s p \<noteq> mp) ps \<and> freed_from mp ps s s'"
proof (induction ps arbitrary: s qs)
  case Nil
  then show ?case using freed_from_Nil by simp
next
  case (Cons p ps)
  obtain c where c: "ss_heap s p = Some c" using Cons.prems(1) by (auto simp: bind_eq_Some_conv)
  show ?case
  proof (cases "to_master c = mp")
    case False
    then obtain qs' where r: "free_clones wr mp ps s = Some (qs', s')" and qs: "qs = p # qs'"
      using Cons.prems(1) c by auto
    have own: "owner s p \<noteq> mp" using c False by (simp add: owner_def)
    from Cons.IH [OF r] Cons.prems(2) have f: "freed_from mp ps s s'" and "qs' = filter (\<lambda>q. owner s q \<noteq> mp) ps" by auto
    moreover have "freed_from mp (p # ps) s s'" by (rule freed_from_skip [OF f c False])
    ultimately show ?thesis using own qs by simp
  next
    case True
    define c1 where "c1 = (if wr then write_held c else c)"
    define s1 where "s1 = del_obj p (log_sys (snd (cleanupPerThreadTrace c1)) s)"
    have c1: "to_open c1 = to_open c" by (simp add: c1_def write_held_def)
    have r: "free_clones wr mp ps s1 = Some (qs, s')"
      using Cons.prems(1) c True by (simp add: s1_def c1_def)
    have h1: "ss_heap s1 = (ss_heap s)(p := None)" and l1: "ss_log s1 = ss_log s @ snd (cleanupPerThreadTrace c1)"
      by (simp_all add: s1_def del_obj_def log_sys_def)
    have ow: "owner s1 q = owner s q" if "q \<noteq> p" for q using that by (simp add: owner_def h1)
    from Cons.IH [OF r] Cons.prems(2) have qs: "qs = filter (\<lambda>q. owner s1 q \<noteq> mp) ps" and f: "freed_from mp ps s1 s'" by auto
    from f obtain l where h: "ss_heap s' = (\<lambda>q. if q \<in> set ps \<and> owner s1 q = mp then None else ss_heap s1 q)"
      and l: "s' = s1\<lparr>ss_heap := ss_heap s', ss_log := ss_log s1 @ l\<rparr>"
      and m: "\<And>d. (\<forall>q\<in>set ps. \<forall>o1. ss_heap s1 q = Some o1 \<longrightarrow> to_master o1 = mp \<longrightarrow> sends_on (to_open o1) d) \<Longrightarrow> conn_run l d = Some d"
      unfolding freed_from_def by blast
    have own: "owner s p = mp" using c True by (simp add: owner_def)
    have "filter (\<lambda>q. owner s1 q \<noteq> mp) ps = filter (\<lambda>q. owner s q \<noteq> mp) ps"
      by (rule filter_cong [OF refl]) (metis Cons.prems(2) distinct.simps(2) ow)
    then have "qs = filter (\<lambda>q. owner s q \<noteq> mp) (p # ps)" using qs own by simp
    moreover have "ss_heap s' = (\<lambda>q. if q \<in> set (p # ps) \<and> owner s q = mp then None else ss_heap s q)"
    proof
      fix q
      show "ss_heap s' q = (if q \<in> set (p # ps) \<and> owner s q = mp then None else ss_heap s q)"
        using own Cons.prems(2) ow [of q] unfolding h by (cases "q = p") (simp_all add: h1)
    qed
    moreover have "s' = s\<lparr>ss_heap := ss_heap s', ss_log := ss_log s @ snd (cleanupPerThreadTrace c1) @ l\<rparr>"
      by (subst l) (simp add: s1_def del_obj_def log_sys_def)
    moreover have "conn_run (snd (cleanupPerThreadTrace c1) @ l) d = Some d"
      if d: "\<forall>q\<in>set (p # ps). \<forall>o1. ss_heap s q = Some o1 \<longrightarrow> to_master o1 = mp \<longrightarrow> sends_on (to_open o1) d" for d
    proof -
      have "conn_run (snd (cleanupPerThreadTrace c1)) d = Some d"
        using d c True c1 by (simp add: cleanup_log conn_run_close)
      moreover have "conn_run l d = Some d" using d by (intro m) (auto simp: h1)
      ultimately show ?thesis by (simp add: conn_run_append)
    qed
    ultimately show ?thesis unfolding freed_from_def by blast
  qed
qed

subsection \<open>What keeps the invariant\<close>

lemma tcp_master_view: "view s' mp = view s mp \<Longrightarrow> tcp_master s' mp = tcp_master s mp"
  by (simp add: tcp_master_def)

lemma session_ok_cong:
  assumes "session_ok s" and "view s' = view s" and "ss_map s' = ss_map s" and "ss_all s' = ss_all s"
    and "ss_clones s' = ss_clones s" and "ss_recheck s' = ss_recheck s" and "ss_tcp_fd s' = ss_tcp_fd s"
    and "ss_tcp_count s' = ss_tcp_count s" and "ss_log s' = ss_log s @ l" and "conn_run l (open_conn s) = Some (open_conn s)"
  shows "session_ok s'"
proof -
  have m: "masters s' = masters s" and o: "open_conn s' = open_conn s" using assms by (simp_all add: masters_def open_conn_def)
  have t: "tcp_master s' = tcp_master s" by (simp add: fun_eq_iff tcp_master_def assms(2))
  have "conn_run (ss_log s') None = Some (open_conn s')"
    using assms(1,9,10) by (simp add: session_ok_def tcp_ok_def conn_run_append o)
  with assms show ?thesis
    by (simp add: session_ok_def masters_ok_def clones_ok_def clone_ok_def tcp_ok_def m t o)
qed

lemma view_put: "view (put_obj p c s) = (view s)(p \<mapsto> (to_template c, to_master c, to_tcp c, to_open c))"
  by (simp add: fun_eq_iff view_def put_obj_def)

lemma view_del: "view (del_obj p s) = (view s)(p := None)"
  by (simp add: fun_eq_iff view_def del_obj_def)

lemma view_Some: "view s p = Some (b, mm, fd, k) \<longleftrightarrow>
    (\<exists>c. ss_heap s p = Some c \<and> to_template c = b \<and> to_master c = mm \<and> to_tcp c = fd \<and> to_open c = k)"
  by (auto simp: view_def)

text \<open>The buffer of a thread can only be sent on the open connection.\<close>

lemma clone_sends:
  assumes "session_ok s" and "p \<in> set (ss_all s)" and "ss_heap s p = Some c"
  shows "sends_on (to_open c) (open_conn s)"
proof -
  obtain mp fd k where v: "view s p = Some (False, mp, fd, k)" "mp \<in> set (masters s)"
    and k: "\<forall>fd' tid. k = Some (OpenTcp fd' tid) \<longrightarrow> 0 \<le> fd' \<and> (\<exists>mm. view s mp = Some (True, mm, fd', None))"
    using assms(1,2) unfolding session_ok_def clones_ok_def clone_ok_def by blast
  have kc: "to_open c = k" using v(1) assms(3) by (simp add: view_def)
  show ?thesis
    unfolding sends_on_def
  proof (intro allI impI)
    fix fd' tid
    assume "to_open c = Some (OpenTcp fd' tid)"
    with kc k obtain mm where "0 \<le> fd'" "view s mp = Some (True, mm, fd', None)" by auto
    with assms(1) v(2) have "fd' = ss_tcp_fd s" unfolding session_ok_def masters_ok_def by auto
    with \<open>0 \<le> fd'\<close> show "open_conn s = Some fd'" by (simp add: open_conn_def)
  qed
qed

lemma clone_not_master: "session_ok s \<Longrightarrow> p \<in> set (ss_all s) \<Longrightarrow> p \<notin> set (masters s)"
  unfolding session_ok_def clones_ok_def clone_ok_def masters_ok_def by fastforce

lemma map_snd_remove:
  "distinct (map fst xs) \<Longrightarrow> distinct (map snd xs) \<Longrightarrow> (w, x) \<in> set xs \<Longrightarrow>
   map snd (filter (\<lambda>k. fst k \<noteq> w) xs) = filter (\<lambda>y. y \<noteq> x) (map snd xs)"
proof (induction xs)
  case (Cons k xs)
  show ?case
  proof (cases "k = (w, x)")
    case True
    have "filter (\<lambda>k. fst k \<noteq> w) xs = xs" using Cons.prems(1) True by (auto simp: filter_id_conv)
    moreover have "filter (\<lambda>y. y \<noteq> x) (map snd xs) = map snd xs" using Cons.prems(2) True by (auto simp: filter_id_conv)
    ultimately show ?thesis using True by simp
  next
    case False
    with Cons.prems have "(w, x) \<in> set xs" by simp
    then have "w \<in> fst ` set xs" "x \<in> snd ` set xs" by force+
    then have "fst k \<noteq> w" "snd k \<noteq> x" using Cons.prems(1,2) by auto
    with Cons False show ?thesis by simp
  qed
qed simp

lemma length_filter_remove:
  "distinct xs \<Longrightarrow> x \<in> set xs \<Longrightarrow>
   length (filter P (filter (\<lambda>y. y \<noteq> x) xs)) + (if P x then 1 else 0) = length (filter P xs)"
proof (induction xs)
  case (Cons y xs)
  show ?case
  proof (cases "y = x")
    case True
    then have "filter (\<lambda>y. y \<noteq> x) xs = xs" using Cons.prems(1) by (auto simp: filter_id_conv)
    with True show ?thesis by simp
  next
    case False
    with Cons show ?thesis by auto
  qed
qed simp

subsection \<open>Freeing a session\<close>

lemma tcp_ok_fd: "tcp_ok s \<Longrightarrow> mp \<in> set (masters s) \<Longrightarrow> tcp_master s mp \<Longrightarrow> 0 \<le> ss_tcp_fd s"
proof -
  assume t: "tcp_ok s" and "mp \<in> set (masters s)" "tcp_master s mp"
  then have "filter (tcp_master s) (masters s) \<noteq> []" by (auto simp: filter_empty_conv)
  with t show ?thesis by (simp add: tcp_ok_def)
qed

text \<open>The effect of \<open>freeTrace\<close> on what the invariant reads.\<close>

definition gone :: "u64 \<Rightarrow> session_state \<Rightarrow> u64 \<Rightarrow> bool" where
  "gone mp s p \<longleftrightarrow> p = mp \<or> (p \<in> set (ss_all s) \<and> owner s p = mp)"

definition session_freed :: "u64 \<Rightarrow> u64 \<Rightarrow> session_state \<Rightarrow> session_state \<Rightarrow> bool" where
  "session_freed w mp s s' \<longleftrightarrow>
     view s' = (\<lambda>p. if gone mp s p then None else view s p) \<and>
     ss_map s' = filter (\<lambda>k. fst k \<noteq> w) (ss_map s) \<and> ss_all s' = filter (\<lambda>p. owner s p \<noteq> mp) (ss_all s) \<and>
     ss_recheck s' = ss_recheck s \<and>
     (\<forall>th x p. ss_clones s' th x = Some p \<longrightarrow> ss_clones s th x = Some p) \<and>
     (\<exists>l. conn_run l (open_conn s) = Some (open_conn s) \<and>
       (if tcp_master s mp
        then (if ss_tcp_count s \<le> 1
              then ss_tcp_fd s' = -1 \<and> ss_tcp_count s' = 0 \<and>
                   conn_run (ss_log s') None = conn_run (ss_log s @ l @ [SysEndFrame (ss_tcp_fd s)]) None
              else ss_tcp_fd s' = ss_tcp_fd s \<and> ss_tcp_count s' = ss_tcp_count s - 1 \<and>
                   conn_run (ss_log s') None = conn_run (ss_log s @ l) None)
        else ss_tcp_fd s' = ss_tcp_fd s \<and> ss_tcp_count s' = ss_tcp_count s \<and>
             conn_run (ss_log s') None = conn_run (ss_log s @ l) None))"

lemma conn_run_other: "conn_run (xs @ [SysClose fd]) c = conn_run xs c" "conn_run (xs @ [SysFreeVm u]) c = conn_run xs c"
  by (simp_all add: conn_run_append split: Option.bind_split)

lemma release_tcp_simps:
  "ss_heap (release_tcp fd s) = ss_heap s" "ss_map (release_tcp fd s) = ss_map s" "ss_all (release_tcp fd s) = ss_all s"
  "ss_clones (release_tcp fd s) = ss_clones s" "ss_recheck (release_tcp fd s) = ss_recheck s"
  by (simp_all add: release_tcp_def log_sys_def)

lemma release_tcp_shared:
  assumes "fd = ss_tcp_fd s"
  shows "if ss_tcp_count s \<le> 1
    then ss_tcp_fd (release_tcp fd s) = -1 \<and> ss_tcp_count (release_tcp fd s) = 0 \<and>
         ss_log (release_tcp fd s) = ss_log s @ [SysEndFrame fd, SysClose fd]
    else ss_tcp_fd (release_tcp fd s) = fd \<and> ss_tcp_count (release_tcp fd s) = ss_tcp_count s - 1 \<and>
         ss_log (release_tcp fd s) = ss_log s"
  using assms by (simp add: release_tcp_def log_sys_def)

lemma freeTrace_freed:
  assumes ok: "session_ok s" and w: "map_of (ss_map s) w = Some mp" and f: "freeTrace th w s = Some s'"
  shows "session_freed w mp s s'"
proof -
  define s0 where "s0 = set_active th 0 (set_clone th mp None s)"
  have s0: "ss_heap s0 = ss_heap s" "ss_map s0 = ss_map s" "ss_all s0 = ss_all s" "ss_recheck s0 = ss_recheck s"
    "ss_tcp_fd s0 = ss_tcp_fd s" "ss_tcp_count s0 = ss_tcp_count s" "ss_log s0 = ss_log s"
    and c0: "ss_clones s0 th' x = Some p \<Longrightarrow> ss_clones s th' x = Some p" for th' x p
    by (auto simp: s0_def set_active_def set_clone_def split: if_splits)
  have own: "owner s0 = owner s" by (simp add: fun_eq_iff owner_def s0)
  obtain qs s2 m where fr: "free_clones True mp (ss_all s) s0 = Some (qs, s2)" and m: "ss_heap s2 mp = Some m"
    and s': "s' = free_master w mp qs m s2"
    using f w unfolding freeTrace_def s0_def by (auto simp: bind_eq_Some_conv)
  have "distinct (ss_all s)" using ok by (simp add: session_ok_def clones_ok_def)
  from free_clones_spec [OF fr this] have qs: "qs = filter (\<lambda>p. owner s p \<noteq> mp) (ss_all s)"
    and ff: "freed_from mp (ss_all s) s0 s2" by (simp_all add: own)
  from ff obtain l where h2: "ss_heap s2 = (\<lambda>p. if p \<in> set (ss_all s) \<and> owner s p = mp then None else ss_heap s p)"
    and l2: "s2 = s0\<lparr>ss_heap := ss_heap s2, ss_log := ss_log s @ l\<rparr>"
    and ml: "\<And>d. \<forall>p\<in>set (ss_all s). \<forall>o1. ss_heap s p = Some o1 \<longrightarrow> to_master o1 = mp \<longrightarrow> sends_on (to_open o1) d \<Longrightarrow> conn_run l d = Some d"
    unfolding freed_from_def own s0 by blast
  have l: "conn_run l (open_conn s) = Some (open_conn s)" using clone_sends [OF ok] by (intro ml) blast
  have f2: "ss_map s2 = ss_map s" "ss_recheck s2 = ss_recheck s" "ss_clones s2 = ss_clones s0"
    "ss_tcp_fd s2 = ss_tcp_fd s" "ss_tcp_count s2 = ss_tcp_count s" "ss_log s2 = ss_log s @ l"
    by (subst l2, simp add: s0)+
  define s3 where "s3 = s2\<lparr>ss_all := qs, ss_dc := dc_clear (ss_dc s2), ss_regions := region_clear_symbols (ss_regions s2)\<rparr>"
  define s4 where "s4 = (if 0 \<le> to_tcp m then release_tcp (to_tcp m) s3 else s3)"
  have f3: "ss_heap s3 = ss_heap s2" "ss_map s3 = ss_map s" "ss_all s3 = qs" "ss_clones s3 = ss_clones s0" "ss_recheck s3 = ss_recheck s"
    "ss_tcp_fd s3 = ss_tcp_fd s" "ss_tcp_count s3 = ss_tcp_count s" "ss_log s3 = ss_log s @ l"
    by (simp_all add: s3_def f2)
  have f4: "ss_heap s4 = ss_heap s2" "ss_map s4 = ss_map s" "ss_all s4 = qs" "ss_clones s4 = ss_clones s0" "ss_recheck s4 = ss_recheck s"
    by (simp_all add: s4_def release_tcp_simps f3)
  have fs: "ss_map s' = filter (\<lambda>k. fst k \<noteq> w) (ss_map s)" "ss_all s' = qs" "ss_clones s' = ss_clones s0" "ss_recheck s' = ss_recheck s"
    "ss_tcp_fd s' = ss_tcp_fd s4" "ss_tcp_count s' = ss_tcp_count s4" "ss_heap s' = (ss_heap s2)(mp := None)"
    "conn_run (ss_log s') None = conn_run (ss_log s4) None"
    using f4 conn_run_other unfolding s' free_master_def Let_def s3_def [symmetric] s4_def [symmetric]
    by (simp_all add: del_obj_def log_sys_def)
  have view': "view s' = (\<lambda>p. if gone mp s p then None else view s p)"
    by (auto simp: fun_eq_iff view_def fs(7) h2 gone_def)
  have in_m: "mp \<in> set (masters s)" using map_of_SomeD [OF w] by (force simp: masters_def)
  then obtain mm fd where vm: "view s mp = Some (True, mm, fd, None)" and fd: "0 \<le> fd \<longrightarrow> fd = ss_tcp_fd s"
    using ok unfolding session_ok_def masters_ok_def by blast
  have "ss_heap s mp = Some m" using m unfolding h2 by (simp split: if_splits)
  then have tm: "to_tcp m = fd" and t: "tcp_master s mp \<longleftrightarrow> 0 \<le> fd" using vm by (auto simp: view_def tcp_master_def)
  have "if tcp_master s mp
        then (if ss_tcp_count s \<le> 1
              then ss_tcp_fd s' = -1 \<and> ss_tcp_count s' = 0 \<and>
                   conn_run (ss_log s') None = conn_run (ss_log s @ l @ [SysEndFrame (ss_tcp_fd s)]) None
              else ss_tcp_fd s' = ss_tcp_fd s \<and> ss_tcp_count s' = ss_tcp_count s - 1 \<and>
                   conn_run (ss_log s') None = conn_run (ss_log s @ l) None)
        else ss_tcp_fd s' = ss_tcp_fd s \<and> ss_tcp_count s' = ss_tcp_count s \<and>
             conn_run (ss_log s') None = conn_run (ss_log s @ l) None"
  proof (cases "0 \<le> fd")
    case True
    then have e: "fd = ss_tcp_fd s3" using fd f3 by simp
    have "conn_run (ss_log s @ l @ [SysEndFrame fd, SysClose fd]) None = conn_run (ss_log s @ l @ [SysEndFrame fd]) None"
      using conn_run_other(1) [of "ss_log s @ l @ [SysEndFrame fd]" fd None] by simp
    with release_tcp_shared [OF e] True t show ?thesis using f3 fs(5,6,8) e by (simp add: s4_def tm split: if_splits)
  next
    case False
    with t show ?thesis using f3 fs(5,6,8) by (simp add: s4_def tm)
  qed
  with l view' fs qs c0 show ?thesis unfolding session_freed_def by auto
qed

text \<open>From the effect to the invariant.\<close>

lemma session_freed_ok:
  assumes ok: "session_ok s" and w: "map_of (ss_map s) w = Some mp" and f: "session_freed w mp s s'"
  shows "session_ok s'"
proof -
  have okm: "masters_ok s" and okc: "clones_ok s" and okt: "tcp_ok s" using ok by (simp_all add: session_ok_def)
  have d: "distinct (map fst (ss_map s))" "distinct (map snd (ss_map s))" "(w, mp) \<in> set (ss_map s)"
    using okm map_of_SomeD [OF w] by (simp_all add: masters_ok_def masters_def)
  have in_m: "mp \<in> set (masters s)" using d(3) by (force simp: masters_def)
  have view: "view s' = (\<lambda>p. if gone mp s p then None else view s p)"
    and map': "ss_map s' = filter (\<lambda>k. fst k \<noteq> w) (ss_map s)" and all': "ss_all s' = filter (\<lambda>p. owner s p \<noteq> mp) (ss_all s)"
    and rec: "ss_recheck s' = ss_recheck s" and cl: "\<And>th x p. ss_clones s' th x = Some p \<Longrightarrow> ss_clones s th x = Some p"
    using f by (auto simp: session_freed_def)
  have ms: "masters s' = filter (\<lambda>y. y \<noteq> mp) (masters s)"
    using map_snd_remove [OF d] by (simp add: masters_def map')
  have vm: "view s' x = view s x" if "x \<in> set (masters s')" for x
    using that clone_not_master [OF ok, of x] by (auto simp: view gone_def ms)
  have rem: "length (filter (tcp_master s) (masters s')) + (if tcp_master s mp then 1 else 0) = length (filter (tcp_master s) (masters s))"
    using length_filter_remove [of "masters s" mp "tcp_master s"] in_m okm by (simp add: ms masters_ok_def)
  have live: "ss_tcp_fd s' = ss_tcp_fd s" if x: "x \<in> set (masters s')" "tcp_master s x" for x
  proof -
    have "filter (tcp_master s) (masters s') \<noteq> []" using x by (auto simp: filter_empty_conv)
    then have "0 < length (filter (tcp_master s) (masters s'))" by simp
    moreover have "ss_tcp_count s = int (length (filter (tcp_master s) (masters s)))" using okt by (simp add: tcp_ok_def)
    ultimately have "\<not> ss_tcp_count s \<le> 1" if "tcp_master s mp"
      using rem that by (simp only: if_True)
    with f show ?thesis unfolding session_freed_def by (auto split: if_splits)
  qed
  have m': "masters_ok s'"
    unfolding masters_ok_def
  proof (intro conjI ballI)
    show "distinct (map fst (ss_map s'))" using d(1) by (simp add: map' distinct_map_filter)
    show "distinct (masters s')" using okm by (simp add: ms masters_ok_def)
    fix x assume x: "x \<in> set (masters s')"
    then obtain mm fd where v: "view s x = Some (True, mm, fd, None)" and fd: "0 \<le> fd \<longrightarrow> fd = ss_tcp_fd s"
      using okm by (auto simp: masters_ok_def ms)
    have "0 \<le> fd \<longrightarrow> fd = ss_tcp_fd s'" using fd live [OF x] v by (auto simp: tcp_master_def)
    with v vm [OF x] show "\<exists>mm fd. view s' x = Some (True, mm, fd, None) \<and> (0 \<le> fd \<longrightarrow> fd = ss_tcp_fd s')" by auto
  qed
  have c': "clone_ok s' p" if p: "p \<in> set (ss_all s')" for p
  proof -
    have p2: "p \<in> set (ss_all s)" "owner s p \<noteq> mp" using p by (auto simp: all')
    with okc obtain x fd k where v: "view s p = Some (False, x, fd, k)" "x \<in> set (masters s)"
      and k: "\<forall>fd' tid. k = Some (OpenTcp fd' tid) \<longrightarrow> 0 \<le> fd' \<and> (\<exists>mm. view s x = Some (True, mm, fd', None))"
      unfolding clones_ok_def clone_ok_def by blast
    have "owner s p = x" using v(1) by (auto simp: owner_def view_Some)
    then have x: "x \<in> set (masters s')" using p2 v(2) by (simp add: ms)
    have "view s' p = view s p" using p2 in_m clone_not_master [OF ok p2(1)] by (auto simp: view gone_def)
    with v k vm [OF x] x show ?thesis unfolding clone_ok_def by auto
  qed
  have "clones_ok s'"
    unfolding clones_ok_def
  proof (intro conjI ballI allI impI c')
    show "distinct (ss_all s')" using okc by (simp add: clones_ok_def all')
  next
    fix th x p assume a: "ss_clones s' th x = Some p" "view s' p \<noteq> None"
    then have ng: "\<not> gone mp s p" and v: "view s' p = view s p" by (auto simp: view split: if_splits)
    with a cl [OF a(1)] okc show "p \<in> set (ss_all s')" and "\<exists>fd k. view s' p = Some (False, x, fd, k)"
      by (auto simp: clones_ok_def all' gone_def)
  qed
  moreover have "tcp_ok s'"
  proof -
    have cnt: "length (filter (tcp_master s') (masters s')) = length (filter (tcp_master s) (masters s'))"
      by (rule arg_cong [where f = length], rule filter_cong [OF refl]) (rule tcp_master_view [OF vm])
    obtain l where l: "conn_run l (open_conn s) = Some (open_conn s)" and
      cases': "if tcp_master s mp
        then (if ss_tcp_count s \<le> 1
              then ss_tcp_fd s' = -1 \<and> ss_tcp_count s' = 0 \<and>
                   conn_run (ss_log s') None = conn_run (ss_log s @ l @ [SysEndFrame (ss_tcp_fd s)]) None
              else ss_tcp_fd s' = ss_tcp_fd s \<and> ss_tcp_count s' = ss_tcp_count s - 1 \<and>
                   conn_run (ss_log s') None = conn_run (ss_log s @ l) None)
        else ss_tcp_fd s' = ss_tcp_fd s \<and> ss_tcp_count s' = ss_tcp_count s \<and>
             conn_run (ss_log s') None = conn_run (ss_log s @ l) None"
      using f unfolding session_freed_def by blast
    have run: "conn_run (ss_log s @ l) None = Some (open_conn s)"
      using okt l by (simp add: tcp_ok_def conn_run_append)
    have runx: "conn_run (ss_log s @ l @ [SysEndFrame (ss_tcp_fd s)]) None = Some None" if "0 \<le> ss_tcp_fd s"
      using okt l that by (simp add: tcp_ok_def conn_run_append open_conn_def)
    define n where "n = length (filter (tcp_master s') (masters s'))"
    have c: "ss_tcp_count s = int n + (if tcp_master s mp then 1 else 0)"
      using rem okt unfolding tcp_ok_def n_def cnt by (simp split: if_splits)
    have okt': "0 \<le> ss_tcp_fd s \<longleftrightarrow> 0 < ss_tcp_count s" using okt by (simp add: tcp_ok_def)
    show ?thesis
      unfolding tcp_ok_def n_def [symmetric]
    proof (cases "tcp_master s mp")
      case True
      then have "0 \<le> ss_tcp_fd s" by (rule tcp_ok_fd [OF okt in_m])
      with True cases' c run runx show "ss_tcp_count s' = int n \<and> (0 \<le> ss_tcp_fd s') = (0 < ss_tcp_count s') \<and>
          conn_run (ss_log s') None = Some (open_conn s')"
        by (cases "ss_tcp_count s \<le> 1") (auto simp: open_conn_def)
    next
      case False
      with cases' c run okt' show "ss_tcp_count s' = int n \<and> (0 \<le> ss_tcp_fd s') = (0 < ss_tcp_count s') \<and>
          conn_run (ss_log s') None = Some (open_conn s')"
        by (auto simp: open_conn_def)
    qed
  qed
  ultimately show ?thesis using m' ok by (simp add: session_ok_def rec)
qed

lemma freeTrace_ok: "session_ok s \<Longrightarrow> freeTrace th w s = Some s' \<Longrightarrow> session_ok s'"
  using session_freed_ok freeTrace_freed by (cases "map_of (ss_map s) w") (auto simp: freeTrace_def)

subsection \<open>Objects that are added\<close>

definition tcp_due :: "session_state \<Rightarrow> bool" where
  "tcp_due s \<longleftrightarrow> ss_tcp_count s = int (length (filter (tcp_master s) (masters s))) + 1 \<and> 0 \<le> ss_tcp_fd s \<and>
     conn_run (ss_log s) None = Some (open_conn s)"

lemma no_conn:
  assumes "session_ok s" and "ss_tcp_fd s < 0"
  shows "ss_tcp_count s = 0" and "filter (tcp_master s) (masters s) = []"
  using assms by (auto simp: session_ok_def tcp_ok_def)

lemma masters_ok_fd:
  assumes "masters_ok s" and "filter (tcp_master s) (masters s) = []" and "view s' = view s" and "ss_map s' = ss_map s"
  shows "masters_ok s'"
proof -
  have "\<not> 0 \<le> fd" if "x \<in> set (masters s)" "view s x = Some (b, mm, fd, k)" for x b mm fd k
    using assms(2) that by (auto simp: filter_empty_conv tcp_master_def)
  with assms show ?thesis unfolding masters_ok_def masters_def by fastforce
qed

lemma clones_ok_cong:
  "clones_ok s \<Longrightarrow> view s' = view s \<Longrightarrow> ss_map s' = ss_map s \<Longrightarrow> ss_all s' = ss_all s \<Longrightarrow> ss_clones s' = ss_clones s \<Longrightarrow> clones_ok s'"
  by (simp add: clones_ok_def clone_ok_def masters_def)

lemma add_master:
  assumes m: "masters_ok s" and c: "clones_ok s" and r: "\<forall>th. \<not> ss_recheck s th"
    and t: "if 0 \<le> fd then tcp_due s \<and> fd = ss_tcp_fd s else tcp_ok s"
    and p: "view s p = None" "\<And>th x. ss_clones s th x \<noteq> Some p" and h: "map_of (ss_map s) h = None"
    and v: "view s' = (view s)(p \<mapsto> (True, mm, fd, None))" and map': "ss_map s' = ss_map s @ [(h, p)]"
    and rest: "ss_all s' = ss_all s" "ss_clones s' = ss_clones s" "ss_recheck s' = ss_recheck s"
      "ss_tcp_fd s' = ss_tcp_fd s" "ss_tcp_count s' = ss_tcp_count s" "conn_run (ss_log s') None = conn_run (ss_log s) None"
  shows "session_ok s'"
proof -
  have ms: "masters s' = masters s @ [p]" by (simp add: masters_def map')
  have new: "p \<notin> set (masters s)" using m p(1) by (fastforce simp: masters_ok_def)
  have same: "view s' x = view s x" if "x \<noteq> p" for x using that v by simp
  have m': "masters_ok s'"
    using m new h v same rest(4) t unfolding masters_ok_def ms
    by (auto simp: map' map_of_eq_None_iff split: if_splits)
  have cl: "clone_ok s' q" if "clone_ok s q" for q
  proof -
    have "q \<noteq> p" using that p(1) by (auto simp: clone_ok_def)
    with that same new show ?thesis unfolding clone_ok_def ms by (auto simp: v)
  qed
  have "clones_ok s'"
    unfolding clones_ok_def rest
  proof (intro conjI ballI allI impI)
    fix th x q assume "ss_clones s th x = Some q" "view s' q \<noteq> None"
    moreover from this have "q \<noteq> p" using p(2) by auto
    ultimately show "q \<in> set (ss_all s)" and "\<exists>fd k. view s' q = Some (False, x, fd, k)"
      using c same by (auto simp: clones_ok_def)
  qed (use c cl in \<open>auto simp: clones_ok_def\<close>)
  moreover have "tcp_ok s'"
  proof -
    have f: "filter (tcp_master s') (masters s) = filter (tcp_master s) (masters s)"
      using new by (intro filter_cong refl tcp_master_view same) auto
    have "tcp_master s' p = (0 \<le> fd)" by (simp add: tcp_master_def v)
    then have "length (filter (tcp_master s') (masters s')) = length (filter (tcp_master s) (masters s)) + (if 0 \<le> fd then 1 else 0)"
      by (simp add: ms f)
    with t rest show ?thesis by (auto simp: tcp_ok_def tcp_due_def open_conn_def split: if_splits)
  qed
  ultimately show ?thesis using m' r rest(3) by (simp add: session_ok_def)
qed

text \<open>A thread's object, new or changed.\<close>

lemma put_clone:
  assumes ok: "session_ok s" and mp: "mp \<in> set (masters s)" "view s mp = Some (True, mm, fdm, None)"
    and k: "\<And>fd' tid. k = Some (OpenTcp fd' tid) \<Longrightarrow> fd' = fdm \<and> 0 \<le> fd'"
    and p: "(p \<in> set (ss_all s) \<and> owner s p = mp \<and> ss_all s' = ss_all s) \<or>
            (view s p = None \<and> (\<forall>th x. ss_clones s th x \<noteq> Some p) \<and> ss_all s' = ss_all s @ [p])"
    and v: "view s' = (view s)(p \<mapsto> (False, mp, fd, k))"
    and cl: "\<And>th x q. ss_clones s' th x = Some q \<Longrightarrow> ss_clones s th x = Some q \<or> (x = mp \<and> q = p)"
    and rest: "ss_map s' = ss_map s" "ss_recheck s' = ss_recheck s" "ss_tcp_fd s' = ss_tcp_fd s" "ss_tcp_count s' = ss_tcp_count s"
      "conn_run (ss_log s') None = conn_run (ss_log s) None"
  shows "session_ok s'"
proof -
  have okm: "masters_ok s" and okc: "clones_ok s" and okt: "tcp_ok s" using ok by (simp_all add: session_ok_def)
  have ms: "masters s' = masters s" by (simp add: masters_def rest)
  have new: "p \<notin> set (masters s)"
    using p clone_not_master [OF ok] okm by (fastforce simp: masters_ok_def)
  have same: "view s' x = view s x" if "x \<noteq> p" for x using that v by simp
  have vm: "view s' x = view s x" if "x \<in> set (masters s)" for x by (rule same) (use that new in auto)
  have in_all: "p \<in> set (ss_all s')" using p by auto
  have m': "masters_ok s'" using okm vm unfolding masters_ok_def ms rest by simp
  have cp: "clone_ok s' p" using mp k vm [OF mp(1)] by (auto simp: clone_ok_def v ms)
  have co: "clone_ok s' q" if q: "q \<noteq> p" "clone_ok s q" for q
  proof -
    obtain x fd k' where "view s q = Some (False, x, fd, k')" "x \<in> set (masters s)"
      "\<forall>fd' tid. k' = Some (OpenTcp fd' tid) \<longrightarrow> 0 \<le> fd' \<and> (\<exists>mm. view s x = Some (True, mm, fd', None))"
      using q(2) unfolding clone_ok_def by blast
    with vm [of x] same [OF q(1)] show ?thesis unfolding clone_ok_def ms by auto
  qed
  have "clones_ok s'"
    unfolding clones_ok_def
  proof (intro conjI ballI allI impI)
    have "view s p = None \<Longrightarrow> p \<notin> set (ss_all s)" using okc by (auto simp: clones_ok_def clone_ok_def)
    then show "distinct (ss_all s')" using p okc by (auto simp: clones_ok_def)
  next
    fix q assume "q \<in> set (ss_all s')"
    then have "q = p \<or> q \<in> set (ss_all s)" using p by auto
    then show "clone_ok s' q" using cp co okc by (cases "q = p") (auto simp: clones_ok_def)
  next
    fix th x q assume a: "ss_clones s' th x = Some q" "view s' q \<noteq> None"
    have "q \<in> set (ss_all s') \<and> (\<exists>fd k. view s' q = Some (False, x, fd, k))"
    proof (cases "q = p")
      case True
      have "x = mp"
      proof (rule ccontr)
        assume "x \<noteq> mp"
        with cl [OF a(1)] have old: "ss_clones s th x = Some p" using True by auto
        with p have "p \<in> set (ss_all s)" "owner s p = mp" by auto
        moreover from this old okc obtain fd k where "view s p = Some (False, x, fd, k)"
          unfolding clones_ok_def clone_ok_def by (metis option.distinct(1))
        ultimately show False using \<open>x \<noteq> mp\<close> by (auto simp: owner_def view_Some)
      qed
      with True in_all show ?thesis by (simp add: v)
    next
      case False
      with cl [OF a(1)] have "ss_clones s th x = Some q" by auto
      moreover have "view s q \<noteq> None" using a(2) same [OF False] by simp
      ultimately have "q \<in> set (ss_all s)" "\<exists>fd k. view s q = Some (False, x, fd, k)" using okc by (auto simp: clones_ok_def)
      with p same [OF False] show ?thesis by auto
    qed
    then show "q \<in> set (ss_all s')" "\<exists>fd k. view s' q = Some (False, x, fd, k)" by auto
  qed
  moreover have "tcp_ok s'"
  proof -
    have "filter (tcp_master s') (masters s) = filter (tcp_master s) (masters s)"
      using vm by (intro filter_cong refl tcp_master_view) auto
    with okt rest show ?thesis by (simp add: tcp_ok_def ms open_conn_def)
  qed
  ultimately show ?thesis using m' ok rest(2) by (simp add: session_ok_def)
qed

subsection \<open>The operations keep the invariant\<close>

lemma freeTrace_shrinks:
  assumes ok: "session_ok s" and f: "freeTrace th w s = Some s'"
  shows "new_address e s \<Longrightarrow> new_address e s'" and "map_of (ss_map s') h = (if h = w then None else map_of (ss_map s) h)"
proof -
  have "(new_address e s \<longrightarrow> new_address e s') \<and> map_of (ss_map s') h = (if h = w then None else map_of (ss_map s) h)"
  proof (cases "map_of (ss_map s) w")
    case None
    with f show ?thesis by (auto simp: freeTrace_def)
  next
    case (Some mp)
    from freeTrace_freed [OF ok Some f] have v: "view s' = (\<lambda>p. if gone mp s p then None else view s p)"
      and m: "ss_map s' = filter (\<lambda>k. fst k \<noteq> w) (ss_map s)"
      and c: "\<And>th x p. ss_clones s' th x = Some p \<Longrightarrow> ss_clones s th x = Some p" unfolding session_freed_def by blast+
    have "view s p = None \<Longrightarrow> view s' p = None" for p by (simp add: v)
    then have "ss_heap s p = None \<Longrightarrow> ss_heap s' p = None" for p by (simp add: view_def)
    then have "new_address e s \<longrightarrow> new_address e s'" by (auto simp: new_address_def dest: c)
    moreover have "map_of (filter (\<lambda>k. fst k \<noteq> w) xs) h = (if h = w then None else map_of xs h)" for xs :: "(u64 \<times> u64) list"
      by (induction xs) auto
    ultimately show ?thesis by (simp add: m)
  qed
  then show "new_address e s \<Longrightarrow> new_address e s'" and "map_of (ss_map s') h = (if h = w then None else map_of (ss_map s) h)"
    by auto
qed

lemma destroyPrevious_ok:
  assumes ok: "session_ok s" and d: "destroyPreviousTraceSession th f s = Some s'" and "new_address e s" and "new_handle e f s"
  shows "session_ok s' \<and> new_address e s' \<and> map_of (ss_map s') (se_handle e) = None"
proof (cases "f = 0 \<or> session_of (ss_heap s) f (ss_map s) = Some 0")
  case True
  with d have "s' = s" by (auto simp: destroyPreviousTraceSession_def split: if_splits)
  with True assms show ?thesis by (auto simp: new_handle_def)
next
  case False
  with d obtain w where w: "session_of (ss_heap s) f (ss_map s) = Some w" and fr: "freeTrace th w s = Some s'"
    by (auto simp: destroyPreviousTraceSession_def bind_eq_Some_conv split: if_splits)
  with assms freeTrace_ok [OF ok fr] freeTrace_shrinks [OF ok fr] show ?thesis
    by (cases "map_of (ss_map s) (se_handle e)") (auto simp: new_handle_def)
qed

lemma find_java_vm_ok:
  assumes ok: "session_ok s" and f: "find_java_vm e s = Some s'"
  shows "session_ok s' \<and> (new_address e s \<longrightarrow> new_address e s') \<and> ss_map s' = ss_map s"
proof -
  obtain l where l: "ss_log s' = ss_log s @ l" "l = [] \<or> l = [SysJniTable]"
    and rest: "ss_heap s' = ss_heap s" "ss_map s' = ss_map s" "ss_all s' = ss_all s" "ss_clones s' = ss_clones s"
    "ss_recheck s' = ss_recheck s" "ss_tcp_fd s' = ss_tcp_fd s" "ss_tcp_count s' = ss_tcp_count s"
    using f by (auto simp: find_java_vm_def log_sys_def Let_def bind_eq_Some_conv split: if_splits)
  have "session_ok s'"
    by (rule session_ok_cong [OF ok, of s' l]) (use l rest in \<open>auto simp: view_def fun_eq_iff\<close>)
  with rest show ?thesis by (simp add: new_address_def)
qed

text \<open>After \<open>connect_tcp\<close> the count is one ahead of the sessions.\<close>

lemma connect_tcp_ok:
  assumes ok: "session_ok s" and c: "connect_tcp e path s = (fd, s')"
  shows "masters_ok s' \<and> clones_ok s' \<and> (\<forall>th. \<not> ss_recheck s' th) \<and>
    (if 0 \<le> fd then tcp_due s' \<and> fd = ss_tcp_fd s' else tcp_ok s') \<and>
    (new_address e s \<longrightarrow> new_address e s') \<and> ss_map s' = ss_map s"
proof -
  have okm: "masters_ok s" and okc: "clones_ok s" and okt: "tcp_ok s" and r: "\<forall>th. \<not> ss_recheck s th"
    using ok by (simp_all add: session_ok_def)
  have rest: "ss_heap s' = ss_heap s" "ss_map s' = ss_map s" "ss_all s' = ss_all s" "ss_clones s' = ss_clones s"
    "ss_recheck s' = ss_recheck s"
    using c by (auto simp: connect_tcp_def log_sys_def Let_def split: if_splits)
  then have v: "view s' = view s" by (simp add: fun_eq_iff view_def)
  have t: "tcp_master s' = tcp_master s" and ms: "masters s' = masters s"
    using rest by (simp_all add: fun_eq_iff tcp_master_def v masters_def)
  have "masters_ok s' \<and> (if 0 \<le> fd then tcp_due s' \<and> fd = ss_tcp_fd s' else tcp_ok s')"
  proof (cases "is_tcp_path path \<and> ss_tcp_fd s < 0")
    case True
    then have lt: "ss_tcp_fd s < 0" ..
    have fd: "ss_tcp_fd s' = fd" "ss_tcp_count s' = (if 0 \<le> fd then 1 else 0)" "ss_log s' = ss_log s @ (if 0 \<le> fd then [SysConnect fd] else [])"
      using c True no_conn(1) [OF ok lt] by (auto simp: connect_tcp_def log_sys_def Let_def)
    have "conn_run (ss_log s) None = Some None" using okt lt by (simp add: tcp_ok_def open_conn_def)
    then have "conn_run (ss_log s') None = Some (open_conn s')" by (simp add: fd conn_run_append open_conn_def)
    then show ?thesis
      using masters_ok_fd [OF okm no_conn(2) [OF ok lt] v rest(2)] no_conn(2) [OF ok lt] fd
      by (cases "0 \<le> fd") (simp_all add: tcp_due_def tcp_ok_def t ms)
  next
    case False
    have same: "ss_tcp_fd s' = ss_tcp_fd s" "ss_log s' = ss_log s" using c False by (auto simp: connect_tcp_def Let_def split: if_splits)
    have "masters_ok s'" using okm by (simp add: masters_ok_def ms v rest same)
    moreover have "if 0 \<le> fd then fd = ss_tcp_fd s \<and> ss_tcp_count s' = ss_tcp_count s + 1 else ss_tcp_count s' = ss_tcp_count s"
      using c False by (auto simp: connect_tcp_def Let_def split: if_splits)
    ultimately show ?thesis using okt same by (auto simp: tcp_due_def tcp_ok_def t ms open_conn_def split: if_splits)
  qed
  with clones_ok_cong [OF okc v rest(2,3,4)] r rest show ?thesis by (simp add: new_address_def)
qed

lemma reset_view:
  "resetTraceInfoRuntimeState e ctx f o1 libs = Some (o2, libs') \<Longrightarrow>
   to_template o2 = to_template o1 \<and> to_master o2 = to_master o1 \<and> to_tcp o2 = to_tcp o1 \<and> to_open o2 = to_open o1"
  by (auto simp: resetTraceInfoRuntimeState_def bind_eq_Some_conv map_ti_def split: if_splits)

lemma new_session_effect:
  assumes "new_session e path prefix f fd lib s = Some s'"
  shows "view s' = (view s)(se_new e \<mapsto> (True, 0, fd, None)) \<and> ss_map s' = ss_map s @ [(se_handle e, se_new e)] \<and>
    ss_all s' = ss_all s \<and> ss_clones s' = ss_clones s \<and> ss_recheck s' = ss_recheck s \<and> ss_tcp_fd s' = ss_tcp_fd s \<and>
    ss_tcp_count s' = ss_tcp_count s \<and> ss_log s' = ss_log s @ [SysHook (se_ctx e) (se_new e)]"
proof -
  let ?o = "set_session path prefix f fd (new_obj\<lparr>to_template := True\<rparr>)"
  obtain o1 libs so where o1: "resetTraceInfoRuntimeState e (se_ctx e) f ?o (ss_libs s) = Some (o1, libs)"
    and s': "s' = log_sys [SysHook (se_ctx e) (se_new e)]
       ((put_obj (se_new e) (map_ti (\<lambda>ti. ti\<lparr>ti_so := so, ti_hasLast := False\<rparr>)
          (o1\<lparr>to_ctx := se_ctx e, to_call := Some (addFuncCallTrace (ti_fds (to_ti o1)) False (ss_regions s))\<rparr>)) s)
        \<lparr>ss_map := ss_map s @ [(se_handle e, se_new e)], ss_libs := libs\<rparr>)"
    using assms by (auto simp: new_session_def bind_eq_Some_conv Let_def)
  have "to_template o1 \<and> to_master o1 = 0 \<and> to_tcp o1 = fd \<and> to_open o1 = None"
    using reset_view [OF o1] by (simp add: set_session_def new_obj_def)
  then show ?thesis
    by (simp add: s' log_sys_def put_obj_def map_ti_def view_def fun_eq_iff)
qed

lemma trace_start_ok:
  assumes ok: "session_ok s" and t: "trace_start e f p s = Some (r, s')" and a: "new_address e s" and h: "new_handle e f s"
  shows "session_ok s'"
proof -
  obtain q where p: "p = Some q" using t by (auto simp: trace_start_def bind_eq_Some_conv)
  define path where "path = fst (split_sub q)"
  define s1 where "s1 = (if snd (split_sub q) = None then s\<lparr>ss_wrappers := Map.empty\<rparr> else s)"
  have same: "ss_heap s1 = ss_heap s" "ss_map s1 = ss_map s" "ss_clones s1 = ss_clones s" by (simp_all add: s1_def)
  have ok1: "session_ok s1"
    by (rule session_ok_cong [OF ok, of s1 "[]"]) (simp_all add: s1_def view_def fun_eq_iff)
  have ah1: "new_address e s1" "new_handle e f s1" using a h by (simp_all add: new_address_def new_handle_def same)
  note t' = t [unfolded p trace_start_def Option.bind.bind_lunit Let_def, folded s1_def path_def]
  obtain s2 where d: "destroyPreviousTraceSession (se_thread e) f s1 = Some s2" using t' by (auto simp: bind_eq_Some_conv)
  have ok2: "session_ok s2" "new_address e s2" "map_of (ss_map s2) (se_handle e) = None"
    using destroyPrevious_ok [OF ok1 d ah1] by auto
  show ?thesis
  proof (cases "se_handle e = 0 \<or> path = []")
    case True
    with t' d ok2 show ?thesis by (auto split: if_splits)
  next
    case False
    with t' d obtain s3 where j: "find_java_vm e s2 = Some s3" by (auto simp: bind_eq_Some_conv)
    have ok3: "session_ok s3" "new_address e s3" "ss_map s3 = ss_map s2" using find_java_vm_ok [OF ok2(1) j] ok2(2) by auto
    obtain fd s4 where c: "connect_tcp e path s3 = (fd, s4)" by (cases "connect_tcp e path s3")
    note ct = connect_tcp_ok [OF ok3(1) c]
    show ?thesis
    proof (cases "is_tcp_path path \<and> fd < 0")
      case True
      with t' d j c False have "s' = s4" by auto
      with ct True show ?thesis by (simp add: session_ok_def)
    next
      case b: False
      have m4: "map_of (ss_map s4) (se_handle e) = None" using ct ok2(3) ok3(3) by simp
      with t' d j c False b obtain lib libs prefix where
        n: "new_session e path prefix f fd lib (s4\<lparr>ss_libs := libs\<rparr>) = Some s'"
        by (auto simp: bind_eq_Some_conv)
      note ne = new_session_effect [OF n]
      have v4: "view (s4\<lparr>ss_libs := libs\<rparr>) = view s4" by (simp add: view_def fun_eq_iff)
      show ?thesis
      proof (rule add_master)
        show "masters_ok s4" "clones_ok s4" "\<forall>th. \<not> ss_recheck s4 th" "map_of (ss_map s4) (se_handle e) = None"
          "if 0 \<le> fd then tcp_due s4 \<and> fd = ss_tcp_fd s4 else tcp_ok s4" using ct m4 by auto
        show "view s4 (se_new e) = None" "\<And>th x. ss_clones s4 th x \<noteq> Some (se_new e)"
          using ct ok3(2) by (auto simp: new_address_def view_def)
        show "view s' = (view s4)(se_new e \<mapsto> (True, 0, fd, None))" "ss_map s' = ss_map s4 @ [(se_handle e, se_new e)]"
          "ss_all s' = ss_all s4" "ss_clones s' = ss_clones s4" "ss_recheck s' = ss_recheck s4" "ss_tcp_fd s' = ss_tcp_fd s4"
          "ss_tcp_count s' = ss_tcp_count s4"
          using ne v4 by simp_all
        have "conn_run (xs @ [SysHook u v]) None = conn_run xs None" for xs u v
          by (simp add: conn_run_append split: Option.bind_split)
        then show "conn_run (ss_log s') None = conn_run (ss_log s4) None" using ne by simp
      qed
    qed
  qed
qed

lemma openNext_view:
  assumes "openNextTraceFile e m o1 = Some (ok, o2, l)"
  shows "to_template o2 = to_template o1 \<and> to_master o2 = to_master o1 \<and> l = snd (close_file [BufOp DFlush, Destroy] o1) \<and>
    (\<forall>fd tid. to_open o2 = Some (OpenTcp fd tid) \<longrightarrow> fd = to_tcp m \<and> 0 \<le> fd)"
proof -
  obtain o3 l' where c: "close_file [BufOp DFlush, Destroy] o1 = (o3, l')" by (cases "close_file [BufOp DFlush, Destroy] o1")
  have "to_template o3 = to_template o1" "to_master o3 = to_master o1" "to_open o3 = None"
    using close_file_view [of "[BufOp DFlush, Destroy]" o1] by (simp_all add: c)
  with assms c show ?thesis
    by (auto simp: openNextTraceFile_def bind_eq_Some_conv Let_def map_ti_def split: if_splits)
qed

lemma master_view:
  assumes "session_ok s" and "mp \<in> set (masters s)"
  obtains m where "ss_heap s mp = Some m" and "view s mp = Some (True, to_master m, to_tcp m, None)"
  using assms by (fastforce simp: session_ok_def masters_ok_def view_Some)

lemma conn_log:
  assumes ok: "session_ok s" and "conn_run l (open_conn s) = Some (open_conn s)"
  shows "conn_run (ss_log s @ l) None = conn_run (ss_log s) None"
  using assms by (simp add: session_ok_def tcp_ok_def conn_run_append)

lemma newPerThread_ok:
  assumes ok: "session_ok s" and n: "newPerThreadTrace e mp s = Some (p, s')" and mp: "mp \<in> set (masters s)"
    and a: "new_address e s"
  shows "session_ok s'"
proof -
  obtain m where m: "ss_heap s mp = Some m" and vm: "view s mp = Some (True, to_master m, to_tcp m, None)"
    using master_view [OF ok mp] .
  let ?o = "map_ti (\<lambda>ti. ti\<lparr>ti_so := ti_so (to_ti m)\<rparr>) (new_obj\<lparr>to_ctx := to_ctx m, to_master := mp\<rparr>)"
  obtain b o1 l where o1: "openNextTraceFile e m ?o = Some (b, o1, l)"
    and s': "s' = (if \<not> b then log_sys (SysMkdir (to_logDir m) # l) s
              else set_active (se_thread e) (se_new e) (set_clone (se_thread e) mp (Some (se_new e))
                     ((put_obj (se_new e) (o1\<lparr>to_owner := se_pid e\<rparr>) (log_sys (SysMkdir (to_logDir m) # l) s))
                      \<lparr>ss_all := ss_all s @ [se_new e]\<rparr>)))"
    using n m by (auto simp: newPerThreadTrace_def bind_eq_Some_conv Let_def log_sys_def split: if_splits)
  have no: "to_open ?o = None" "to_template ?o = False" "to_master ?o = mp" by (simp_all add: map_ti_def new_obj_def)
  note ov = openNext_view [OF o1]
  have l: "conn_run (SysMkdir (to_logDir m) # l) (open_conn s) = Some (open_conn s)"
    using ov conn_run_close [of ?o] no(1) by (simp add: sends_on_def)
  show ?thesis
  proof (cases b)
    case False
    show ?thesis
      by (rule session_ok_cong [OF ok, of s' "SysMkdir (to_logDir m) # l"])
        (use False l in \<open>simp_all add: s' log_sys_def view_def fun_eq_iff\<close>)
  next
    case True
    then have s1: "s' = set_active (se_thread e) (se_new e) (set_clone (se_thread e) mp (Some (se_new e))
                     ((put_obj (se_new e) (o1\<lparr>to_owner := se_pid e\<rparr>) (log_sys (SysMkdir (to_logDir m) # l) s))
                      \<lparr>ss_all := ss_all s @ [se_new e]\<rparr>))" by (simp add: s')
    show ?thesis
    proof (rule put_clone [OF ok mp vm, of "to_open o1" "se_new e" _ "to_tcp o1"])
      show "fd' = to_tcp m \<and> 0 \<le> fd'" if "to_open o1 = Some (OpenTcp fd' tid)" for fd' tid using ov that by auto
      have "view s (se_new e) = None" using a by (simp add: new_address_def view_def)
      with a s1 show "se_new e \<in> set (ss_all s) \<and> owner s (se_new e) = mp \<and> ss_all s' = ss_all s \<or>
         view s (se_new e) = None \<and> (\<forall>th x. ss_clones s th x \<noteq> Some (se_new e)) \<and> ss_all s' = ss_all s @ [se_new e]"
        by (auto simp: new_address_def set_active_def set_clone_def put_obj_def)
      show "view s' = (view s)(se_new e \<mapsto> (False, mp, to_tcp o1, to_open o1))"
        using ov no by (auto simp: s1 view_def fun_eq_iff set_active_def set_clone_def put_obj_def log_sys_def)
      show "ss_clones s th x = Some q \<or> x = mp \<and> q = se_new e" if "ss_clones s' th x = Some q" for th x q
        using that by (auto simp: s1 set_active_def set_clone_def put_obj_def log_sys_def split: if_splits)
      show "conn_run (ss_log s') None = conn_run (ss_log s) None"
        using conn_log [OF ok l] by (simp add: s1 set_active_def set_clone_def put_obj_def log_sys_def)
    qed (simp_all add: s1 set_active_def set_clone_def put_obj_def log_sys_def)
  qed
qed

lemma getOrCreate_ok:
  assumes ok: "session_ok s" and g: "getOrCreatePerThreadTrace e mp a s = Some (q, s')" and mp: "mp \<in> set (masters s)"
    and na: "new_address e s"
  shows "session_ok s'"
proof (cases "ss_clones s (se_thread e) mp")
  case None
  with g newPerThread_ok [OF ok _ mp na] show ?thesis by (simp add: getOrCreatePerThreadTrace_def)
next
  case (Some p)
  have rec: "ss_recheck s (se_thread e) = False" using ok by (simp add: session_ok_def)
  define s0 where "s0 = s\<lparr>ss_recheck := (ss_recheck s)(se_thread e := False)\<rparr>"
  have s0: "ss_heap s0 = ss_heap s" "ss_map s0 = ss_map s" "ss_all s0 = ss_all s" "ss_clones s0 = ss_clones s"
    "ss_tcp_fd s0 = ss_tcp_fd s" "ss_tcp_count s0 = ss_tcp_count s" "ss_log s0 = ss_log s" "ss_recheck s0 = ss_recheck s"
    using rec by (auto simp: s0_def fun_eq_iff)
  obtain o1 m where o1: "ss_heap s p = Some o1" and m: "ss_heap s mp = Some m"
    using g Some by (cases "ss_heap s p"; cases "ss_heap s mp") (simp_all add: getOrCreatePerThreadTrace_def Let_def)
  have vm: "view s mp = Some (True, to_master m, to_tcp m, None)" using master_view [OF ok mp] m by auto
  obtain fd k where pa: "p \<in> set (ss_all s)" and vp: "view s p = Some (False, mp, fd, k)"
    using ok Some o1 unfolding session_ok_def clones_ok_def by (fastforce simp: view_def)
  have kind: "to_template o1 = False" "to_master o1 = mp" using vp o1 by (auto simp: view_def)
  show ?thesis
  proof (cases "ti_written (to_ti o1) \<and> to_target m \<noteq> 0 \<and> a = to_target m")
    case False
    with g Some o1 m rec have "s' = set_active (se_thread e) (if to_open o1 = None then 0 else p) s0"
      by (auto simp: getOrCreatePerThreadTrace_def Let_def s0_def)
    then show ?thesis
      by (intro session_ok_cong [OF ok, of s' "[]"]) (simp_all add: set_active_def view_def fun_eq_iff s0)
  next
    case True
    then obtain b o2 l where o2: "openNextTraceFile e m o1 = Some (b, o2, l)"
      and s': "s' = set_active (se_thread e) (if b then p else 0) (put_obj p o2 (log_sys l s0))"
      using g Some o1 m rec by (auto simp: getOrCreatePerThreadTrace_def Let_def s0_def bind_eq_Some_conv split: if_splits)
    note ov = openNext_view [OF o2]
    have l: "conn_run l (open_conn s) = Some (open_conn s)"
      using ov conn_run_close clone_sends [OF ok pa o1] by simp
    show ?thesis
    proof (rule put_clone [OF ok mp vm, of "to_open o2" p _ "to_tcp o2"])
      show "fd' = to_tcp m \<and> 0 \<le> fd'" if "to_open o2 = Some (OpenTcp fd' tid)" for fd' tid using ov that by auto
      have "owner s p = mp" using o1 kind by (simp add: owner_def)
      with pa show "p \<in> set (ss_all s) \<and> owner s p = mp \<and> ss_all s' = ss_all s \<or>
         view s p = None \<and> (\<forall>th x. ss_clones s th x \<noteq> Some p) \<and> ss_all s' = ss_all s @ [p]"
        by (simp add: s' set_active_def put_obj_def log_sys_def s0)
      show "view s' = (view s)(p \<mapsto> (False, mp, to_tcp o2, to_open o2))"
        using ov kind by (auto simp: s' view_def fun_eq_iff set_active_def put_obj_def log_sys_def s0)
      show "ss_clones s th x = Some q \<or> x = mp \<and> q = p" if "ss_clones s' th x = Some q" for th x q
        using that by (simp add: s' set_active_def put_obj_def log_sys_def s0)
      show "conn_run (ss_log s') None = conn_run (ss_log s) None"
        using conn_log [OF ok l] by (simp add: s' set_active_def put_obj_def log_sys_def s0)
    qed (simp_all add: s' set_active_def put_obj_def log_sys_def s0)
  qed
qed

lemma thread_hook_ok:
  assumes ok: "session_ok s" and t: "thread_create_wrap_hook e mp x2 s = Some (r, s')" and "new_address e s" and "new_handle e x2 s"
  shows "session_ok s'"
proof -
  have "s' = s \<or> (\<exists>q r1 s1 w. trace_start e x2 (Some q) s = Some (r1, s1) \<and> (s' = s1 \<or> s' = s1\<lparr>ss_wrappers := w\<rparr>))"
  proof (rule ccontr)
    assume n: "\<not> (s' = s \<or> (\<exists>q r1 s1 w. trace_start e x2 (Some q) s = Some (r1, s1) \<and> (s' = s1 \<or> s' = s1\<lparr>ss_wrappers := w\<rparr>)))"
    obtain m where m: "ss_heap s mp = Some m" and go: "\<not> (\<not> to_auto m \<or> x2 = 0 \<or> cm_base (ti_so (to_ti m)) = 0 \<or>
        x2 < cm_base (ti_so (to_ti m)) \<or> cm_end (ti_so (to_ti m)) \<le> x2 \<or> to_origLogPath m = [])" and w: "ss_wrappers s x2 = None"
      using t n by (auto simp: thread_create_wrap_hook_def bind_eq_Some_conv Let_def split: if_splits option.splits)
    have "mp \<noteq> 0" using t n by (auto simp: thread_create_wrap_hook_def)
    then obtain r1 s1 where ts: "trace_start e x2 (Some (to_origLogPath m @ ''|sub|'' @ to_prefix m)) s = Some (r1, s1)"
      and "(case r1 of Exited \<Rightarrow> (Exited, s1)
            | Returned w \<Rightarrow> (Returned (if w \<noteq> 0 then w else x2), s1\<lparr>ss_wrappers := (ss_wrappers s1)(x2 \<mapsto> w)\<rparr>)) = (r, s')"
      using t m go w by (simp add: thread_create_wrap_hook_def bind_eq_Some_conv Let_def split: prod.splits) blast
    then have "s' = s1 \<or> (\<exists>w. s' = s1\<lparr>ss_wrappers := w\<rparr>)" by (cases r1) auto
    with ts n show False by blast
  qed
  then consider "s' = s" | s1 q r1 w where "trace_start e x2 (Some q) s = Some (r1, s1)" "s' = s1 \<or> s' = s1\<lparr>ss_wrappers := w\<rparr>"
    by blast
  then show ?thesis
  proof cases
    case 2
    have ok1: "session_ok s1" by (rule trace_start_ok [OF ok 2(1) assms(3,4)])
    from 2(2) show ?thesis
    proof
      assume "s' = s1\<lparr>ss_wrappers := w\<rparr>"
      then show ?thesis by (intro session_ok_cong [OF ok1, of s' "[]"]) (simp_all add: view_def fun_eq_iff)
    qed (use ok1 in simp)
  qed (use ok in simp)
qed

lemma same_kind_ok:
  assumes ok: "session_ok s" and c: "ss_heap s p = Some c"
    and "to_template c' = to_template c" "to_master c' = to_master c" "to_tcp c' = to_tcp c" "to_open c' = to_open c"
  shows "session_ok (put_obj p c' s)"
  by (rule session_ok_cong [OF ok, of _ "[]"]) (use assms in \<open>simp_all add: put_obj_def view_def fun_eq_iff\<close>)

lemma write_held_kind [simp]:
  "to_template (write_held c) = to_template c" "to_master (write_held c) = to_master c" "to_tcp (write_held c) = to_tcp c"
  "to_open (write_held c) = to_open c" "to_ti (write_held c) = to_ti c" "to_fd (write_held c) = to_fd c"
  by (simp_all add: write_held_def)

lemma salvage_ok: "session_ok s \<Longrightarrow> trace_salvage ps s = Some s' \<Longrightarrow> session_ok s'"
proof (induction ps arbitrary: s)
  case (Cons p ps)
  show ?case
  proof (cases "p = 0")
    case False
    with Cons.prems(2) obtain c where c: "ss_heap s p = Some c" and r: "trace_salvage ps (put_obj p (salvage_obj c) s) = Some s'"
      by (auto simp: bind_eq_Some_conv)
    have "session_ok (put_obj p (salvage_obj c) s)"
      by (rule same_kind_ok [OF Cons.prems(1) c]) (simp_all add: salvage_obj_def map_ti_def Let_def)
    from Cons.IH [OF this r] show ?thesis .
  qed (use Cons in simp)
qed simp

lemma auto_threads_ok:
  assumes ok: "session_ok s" and v: "vc_set_auto_trace_threads e ctx b s = Some s'"
  shows "session_ok s'"
proof -
  have rp: "session_ok s1 \<and> ss_heap s1 = ss_heap s" if "resolve_pthread e s = Some s1" for s1
  proof -
    have f: "ss_heap s1 = ss_heap s" "ss_map s1 = ss_map s" "ss_all s1 = ss_all s" "ss_clones s1 = ss_clones s"
      "ss_recheck s1 = ss_recheck s" "ss_tcp_fd s1 = ss_tcp_fd s" "ss_tcp_count s1 = ss_tcp_count s" "ss_log s1 = ss_log s"
      using that by (auto simp: resolve_pthread_def split: if_splits)
    show ?thesis using session_ok_cong [OF ok, of s1 "[]"] f by (simp add: view_def fun_eq_iff)
  qed
  have put: "session_ok (put_obj mp (m\<lparr>to_auto := b, to_hooked := h\<rparr>) s1)"
    if "session_ok s1" "ss_heap s1 mp = Some m" for s1 mp m h
    by (rule same_kind_ok [OF that]) simp_all
  have put1: "session_ok (put_obj mp (m\<lparr>to_auto := b\<rparr>) s1)" if "session_ok s1" "ss_heap s1 mp = Some m" for s1 mp m
    by (rule same_kind_ok [OF that]) simp_all
  have log: "session_ok (log_sys [SysThreadHook x y z] s1)" if "session_ok s1" for s1 x y z
    by (rule session_ok_cong [OF that, of _ "[SysThreadHook x y z]"]) (simp_all add: log_sys_def view_def fun_eq_iff)
  show ?thesis
  proof (cases "s' = s")
    case False
    then obtain mp m where m: "ss_heap s mp = Some m"
      and r: "if b \<and> \<not> to_hooked m
        then map_option (\<lambda>s1. if ss_pthread s1 \<noteq> 0
                then log_sys [SysThreadHook ctx mp (ss_pthread s1)] (put_obj mp (m\<lparr>to_auto := b, to_hooked := True\<rparr>) s1)
                else put_obj mp (m\<lparr>to_auto := b\<rparr>) s1) (resolve_pthread e s) = Some s'
        else put_obj mp (m\<lparr>to_auto := b\<rparr>) s = s'"
      using v by (auto simp: vc_set_auto_trace_threads_def bind_eq_Some_conv Let_def split: if_splits)
    show ?thesis
    proof (cases "b \<and> \<not> to_hooked m")
      case True
      with r obtain s1 where "resolve_pthread e s = Some s1" and s': "s' = (if ss_pthread s1 \<noteq> 0
                then log_sys [SysThreadHook ctx mp (ss_pthread s1)] (put_obj mp (m\<lparr>to_auto := b, to_hooked := True\<rparr>) s1)
                else put_obj mp (m\<lparr>to_auto := b\<rparr>) s1)" by auto
      with rp m have "session_ok s1" "ss_heap s1 mp = Some m" by auto
      then show ?thesis unfolding s' using put put1 log by simp
    next
      case F: False
      with r have "s' = put_obj mp (m\<lparr>to_auto := b\<rparr>) s" by simp
      then show ?thesis using put1 [OF ok m] by simp
    qed
  qed (use ok in simp)
qed

lemma session_step_ok:
  assumes ok: "session_ok s" and x: "op_ok x s" and r: "session_step x s = Some s'"
  shows "session_ok s'"
proof (cases x)
  case (Hook e mp a)
  then have "mp \<in> set (masters s)" using x by (auto simp: masters_def)
  with Hook x r show ?thesis by (auto intro: getOrCreate_ok [OF ok])
qed (use assms in \<open>auto intro: trace_start_ok freeTrace_ok thread_hook_ok auto_threads_ok salvage_ok\<close>)

lemma session_run_ok: "session_ok s \<Longrightarrow> ops_ok ops s \<Longrightarrow> session_run ops s = Some s' \<Longrightarrow> session_ok s'"
proof (induction ops arbitrary: s)
  case (Cons x xs)
  from Cons.prems(3) obtain s1 where s1: "session_step x s = Some s1" "session_run xs s1 = Some s'"
    by (auto simp: bind_eq_Some_conv)
  with Cons.prems have "session_ok s1" "ops_ok xs s1" using session_step_ok [of s x s1] by auto
  from Cons.IH [OF this s1(2)] show ?case .
qed simp

lemma session_initial_ok: "session_ok session_initial"
  by (simp add: session_ok_def session_initial_def masters_ok_def clones_ok_def tcp_ok_def masters_def open_conn_def)

subsection \<open>Two sessions on one connection\<close>

definition tcp_env :: "u64 \<Rightarrow> u64 \<Rightarrow> session_env" where
  "tcp_env h p = \<lparr>ce_mem = ce_mem demo_call_env, ce_page = 4096, ce_os = demo_os\<lparr>os_dladdr := \<lambda>a. None, os_open := \<lambda>n. None\<rparr>, ce_maps = (\<lambda>g. None), ce_gen = 1, ce_libs = [],
     ce_demangle = (\<lambda>n. None), ce_module = (\<lambda>a. ([], 0)), se_tid = 7, se_thread = 1, se_pid = 5, se_exists = (\<lambda>q. False),
     se_open = (\<lambda>q. 3), se_new = p, se_handle = h, se_ctx = 9, se_objs = [], se_vms = False, se_server = (\<lambda>q. 4)\<rparr>"

text \<open>Two functions are traced to the same port, a thread of the first runs, and both sessions are freed.\<close>

definition tcp_ops :: "session_op list" where
  "tcp_ops = [Start (tcp_env 0x100 0x1000) 0x10 (Some ''tcp:1''), Start (tcp_env 0x200 0x2000) 0x20 (Some ''tcp:1''),
     Hook (tcp_env 0 0x3000) 0x1000 0x10, Free 1 0x100, Free 1 0x200]"

lemma demo_lib: "module_at (tcp_env h p) a [] = Some (no_library, [])"
  by (simp add: module_at_def tcp_env_def findModuleByAddressExact_def findModuleByAddress_def refreshLibraryCache_def
      getLoadedLibraries_def no_library_def)

lemma demo_mod: "module_of (tcp_env h p) no_library = Some new_module"
  by (simp add: module_of_def tcp_env_def findPltSection_def getPathFileName_def no_library_def new_module_def after_slash_def)

lemma demo_lib_simps: "getPathFileName (Some (li_name no_library)) = []" "li_base_address no_library = 0"
  by (simp_all add: getPathFileName_def no_library_def after_slash_def)

lemma tcp_path: "split_sub ''tcp:1'' = (''tcp:1'', None)" "is_tcp_path ''tcp:1''"
  by code_simp+

lemma demo_vm: "ss_javavm s = False \<Longrightarrow> find_java_vm (tcp_env h p) s = Some s"
  by (simp add: find_java_vm_def tcp_env_def resolveSymbolInSo_def so_base_of_def)

lemma tcp_env_simps [simp]:
  "se_thread (tcp_env h p) = 1" "se_handle (tcp_env h p) = h" "se_new (tcp_env h p) = p" "se_ctx (tcp_env h p) = 9"
  "se_server (tcp_env h p) q = 4" "se_tid (tcp_env h p) = 7" "se_pid (tcp_env h p) = 5"
  by (simp_all add: tcp_env_def)

definition demo_master :: "u64 \<Rightarrow> region_state \<Rightarrow> session_obj" where
  "demo_master f g = (set_session ''tcp:1'' (session_prefix None [] f) f 4 (new_obj\<lparr>to_template := True\<rparr>))
    \<lparr>to_ctx := 9, to_ti := new_ti, to_call := Some (addFuncCallTrace Map.empty False g)\<rparr>"

lemma demo_master_simps [simp]: "to_target (demo_master f g) = f" "to_tcp (demo_master f g) = 4" "to_ctx (demo_master f g) = 9"
  "to_ti (demo_master f g) = new_ti" "to_logDir (demo_master f g) = []"
  using tcp_path(2) by (simp_all add: demo_master_def set_session_def)

lemma demo_start:
  assumes "f \<noteq> 0" and "session_of (ss_heap s) f (ss_map s) = Some 0" and "h \<noteq> 0" and "map_of (ss_map s) h = None"
    and "\<not> ss_javavm s" and "ss_libs s = []" and "ss_tcp_fd s = -1 \<or> ss_tcp_fd s = 4"
  shows "trace_start (tcp_env h p) f (Some ''tcp:1'') s = Some (Returned h,
     s\<lparr>ss_libs := [], ss_wrappers := Map.empty, ss_map := ss_map s @ [(h, p)], ss_tcp_fd := 4, ss_tcp_count := ss_tcp_count s + 1,
       ss_heap := (ss_heap s)(p \<mapsto> demo_master f (ss_regions s)),
       ss_log := ss_log s @ (if ss_tcp_fd s = 4 then [] else [SysConnect 4]) @ [SysHook 9 p]\<rparr>)"
  using assms
  by (cases s) (auto simp: trace_start_def Let_def tcp_path destroyPreviousTraceSession_def demo_vm connect_tcp_def demo_lib
     new_session_def resetTraceInfoRuntimeState_def demo_mod log_sys_def put_obj_def demo_master_def set_session_def
     map_ti_def new_obj_def new_ti_def demo_lib_simps)

definition tcp_demo2 :: session_state where
  "tcp_demo2 = session_initial\<lparr>ss_map := [(0x100, 0x1000), (0x200, 0x2000)], ss_tcp_fd := 4, ss_tcp_count := 2,
     ss_heap := [0x1000 \<mapsto> demo_master 0x10 (snd region_start), 0x2000 \<mapsto> demo_master 0x20 (snd region_start)],
     ss_log := [SysConnect 4, SysHook 9 0x1000, SysHook 9 0x2000]\<rparr>"

lemma tcp_demo_starts: "session_run (take 2 tcp_ops) session_initial = Some tcp_demo2 \<and> ops_ok (take 2 tcp_ops) session_initial"
proof -
  let ?s = "session_initial\<lparr>ss_map := [(0x100, 0x1000)], ss_tcp_fd := 4, ss_tcp_count := 1,
     ss_heap := [0x1000 \<mapsto> demo_master 0x10 (snd region_start)], ss_log := [SysConnect 4, SysHook 9 0x1000]\<rparr>"
  have 1: "session_step (Start (tcp_env 0x100 0x1000) 0x10 (Some ''tcp:1'')) session_initial = Some ?s"
    by (simp add: demo_start session_initial_def)
  have 2: "session_step (Start (tcp_env 0x200 0x2000) 0x20 (Some ''tcp:1'')) ?s = Some tcp_demo2"
    by (simp add: demo_start session_initial_def tcp_demo2_def)
  have o1: "op_ok (Start (tcp_env 0x100 0x1000) 0x10 (Some ''tcp:1'')) session_initial"
    by (simp add: new_address_def new_handle_def session_initial_def)
  have o2: "op_ok (Start (tcp_env 0x200 0x2000) 0x20 (Some ''tcp:1'')) ?s"
    by (simp add: new_address_def new_handle_def session_initial_def)
  show ?thesis
    using 1 2 o1 o2 by (simp add: tcp_ops_def numeral_2_eq_2 del: session_step.simps op_ok.simps)
qed

definition demo_clone :: session_obj where
  "demo_clone = new_obj\<lparr>to_ctx := 9, to_master := 0x1000, to_tcp := 4, to_open := Some (OpenTcp 4 7), to_owner := 5\<rparr>"

definition tcp_demo3 :: session_state where
  "tcp_demo3 = tcp_demo2\<lparr>ss_heap := (ss_heap tcp_demo2)(0x3000 \<mapsto> demo_clone), ss_all := [0x3000],
     ss_clones := (\<lambda>th. Map.empty)(1 := [0x1000 \<mapsto> 0x3000]), ss_active := (\<lambda>th. 0)(1 := 0x3000),
     ss_log := [SysConnect 4, SysHook 9 0x1000, SysHook 9 0x2000, SysMkdir []]\<rparr>"

lemma tcp_demo_hook: "session_step (Hook (tcp_env 0 0x3000) 0x1000 0x10) tcp_demo2 = Some tcp_demo3"
  by (simp add: getOrCreatePerThreadTrace_def newPerThreadTrace_def openNextTraceFile_def close_file_def end_buffer_def close_owned_def
      tcp_demo3_def tcp_demo2_def session_initial_def demo_clone_def log_sys_def put_obj_def set_active_def set_clone_def map_ti_def
      new_obj_def new_ti_def Let_def numeral_eq_Suc)

lemma tcp_demo_frees:
  "\<exists>s. Option.bind (freeTrace 1 0x100 tcp_demo3) (freeTrace 1 0x200) = Some s \<and> ss_tcp_fd s = -1 \<and> ss_tcp_count s = 0 \<and>
     ss_map s = [] \<and> ss_log s = [SysConnect 4, SysHook 9 0x1000, SysHook 9 0x2000, SysMkdir [], SysBuffer (OpenTcp 4 7) [Destroy],
       SysFreeVm 9, SysEndFrame 4, SysClose 4, SysFreeVm 9]"
  by (simp add: freeTrace_def free_master_def tcp_demo3_def tcp_demo2_def session_initial_def demo_clone_def write_held_def
      cleanupPerThreadTrace_def close_file_def end_buffer_def close_owned_def del_obj_def log_sys_def set_active_def set_clone_def
      release_tcp_def new_obj_def new_ti_def Let_def)

lemma tcp_demo_run:
  "ops_ok tcp_ops session_initial"
  "\<exists>s. session_run tcp_ops session_initial = Some s \<and> ss_tcp_fd s = -1 \<and> ss_map s = []"
proof -
  obtain s where s: "Option.bind (freeTrace 1 0x100 tcp_demo3) (freeTrace 1 0x200) = Some s" "ss_tcp_fd s = -1" "ss_map s = []"
    using tcp_demo_frees by blast
  have ops: "tcp_ops = take 2 tcp_ops @ [Hook (tcp_env 0 0x3000) 0x1000 0x10, Free 1 0x100, Free 1 0x200]" by (simp add: tcp_ops_def)
  have run: "session_run (xs @ ys) t = Option.bind (session_run xs t) (session_run ys)" for xs ys t
    by (induction xs arbitrary: t) (auto split: Option.bind_split)
  have ok: "ops_ok (xs @ ys) t = (ops_ok xs t \<and> (case session_run xs t of None \<Rightarrow> True | Some u \<Rightarrow> ops_ok ys u))" for xs ys t
    by (induction xs arbitrary: t) (auto split: Option.bind_split option.splits)
  have new: "op_ok (Hook (tcp_env 0 0x3000) 0x1000 0x10) tcp_demo2"
    by (simp add: new_address_def tcp_demo2_def session_initial_def)
  have rest: "ops_ok [Hook (tcp_env 0 0x3000) 0x1000 0x10, Free 1 0x100, Free 1 0x200] tcp_demo2"
    using new by (simp add: tcp_demo_hook del: op_ok.simps(3) session_step.simps(4) split: option.splits)
  show "ops_ok tcp_ops session_initial"
    using tcp_demo_starts rest by (subst ops) (simp add: ok)
  have "session_run tcp_ops session_initial = Some s"
    using tcp_demo_starts s(1)
    by (subst ops) (auto simp: run tcp_demo_hook bind_eq_Some_conv simp del: session_step.simps(4))
  with s show "\<exists>s. session_run tcp_ops session_initial = Some s \<and> ss_tcp_fd s = -1 \<and> ss_map s = []" by blast
qed

subsection \<open>Properties\<close>

text \<open>C13 (one connection for all sessions): after any sequence of starting and freeing sessions, of hooks in any
  threads, of threads being wrapped and of crash salvages, the reference count is the number of live sessions on
  the connection, the connection is open exactly while there is one, and the log is what a receiver needs: a connection
  is made only when none is open, it gets one end frame when its last session is freed, and no thread's buffer
  sends its last data on a connection that has ended. Conditions: new objects and handles are fresh.\<close>

theorem tcp_connection_shared:
  assumes "session_run ops session_initial = Some s" and "ops_ok ops session_initial"
  shows "ss_tcp_count s = int (length (filter (tcp_master s) (masters s))) \<and> (0 \<le> ss_tcp_fd s \<longleftrightarrow> 0 < ss_tcp_count s) \<and>
    conn_run (ss_log s) None = Some (if 0 \<le> ss_tcp_fd s then Some (ss_tcp_fd s) else None)"
  using session_run_ok [OF session_initial_ok assms(2,1)] by (simp add: session_ok_def tcp_ok_def open_conn_def)

lemma tcp_connection_shared_witness:
  "\<exists>s. session_run tcp_ops session_initial = Some s \<and> ss_tcp_count s = 0 \<and> conn_run (ss_log s) None = Some None"
proof -
  obtain s where s: "session_run tcp_ops session_initial = Some s" "ss_tcp_fd s = -1" "ss_map s = []"
    using tcp_demo_run(2) by blast
  from tcp_connection_shared [OF s(1) tcp_demo_run(1)] s(2,3) have "ss_tcp_count s = 0 \<and> conn_run (ss_log s) None = Some None"
    by (simp add: masters_def)
  with s(1) show ?thesis by blast
qed

end
