(* ===== verification/Session_Text.thy ===== *)
theory Session_Text
  imports Session_Tcp
begin

text \<open>
  What a session leaves behind: the text of a thread's hooks is what its file decodes to when the session is
  freed or the crash handler runs, and where it is not: a line is lost when the traced function is entered
  again. Then the uses after \<open>delete\<close> that the tables of other threads allow.
\<close>

subsection \<open>The buffers of the clones\<close>

lemma free_clones_log: "free_clones wr mp ps s = Some (qs, s') \<Longrightarrow> distinct ps \<Longrightarrow> set (ss_log s) \<subseteq> set (ss_log s')"
proof -
  assume "free_clones wr mp ps s = Some (qs, s')" "distinct ps"
  from free_clones_spec [OF this] obtain l where "s' = s\<lparr>ss_heap := ss_heap s', ss_log := ss_log s @ l\<rparr>"
    unfolding freed_from_def by blast
  then have "ss_log s' = ss_log s @ l" by (metis session_state.select_convs(15) session_state.surjective session_state.update_convs(15))
  then show ?thesis by auto
qed

lemma cleanup_buffer: "to_open c = Some k \<Longrightarrow> SysBuffer k (to_calls c @ [Destroy]) \<in> set (snd (cleanupPerThreadTrace c))"
  by (auto simp: cleanup_log close_file_def end_buffer_def split: prod.splits)

lemma free_clones_buffers:
  "free_clones True mp ps s = Some (qs, s') \<Longrightarrow> distinct ps \<Longrightarrow> p \<in> set ps \<Longrightarrow> ss_heap s p = Some c \<Longrightarrow>
   to_master c = mp \<Longrightarrow> to_open c = Some k \<Longrightarrow> SysBuffer k (to_calls (write_held c) @ [Destroy]) \<in> set (ss_log s')"
proof (induction ps arbitrary: s qs)
  case (Cons q ps)
  obtain d where d: "ss_heap s q = Some d" using Cons.prems(1) by (auto simp: bind_eq_Some_conv)
  define s1 where "s1 = (if to_master d = mp then del_obj q (log_sys (snd (cleanupPerThreadTrace (write_held d))) s) else s)"
  obtain qs' where r: "free_clones True mp ps s1 = Some (qs', s')"
    using Cons.prems(1) d by (auto simp: s1_def split: if_splits)
  show ?case
  proof (cases "q = p")
    case True
    then have "SysBuffer k (to_calls (write_held c) @ [Destroy]) \<in> set (ss_log s1)"
      using d Cons.prems(4,5,6) cleanup_buffer [of "write_held c" k] by (simp add: s1_def del_obj_def log_sys_def)
    with free_clones_log [OF r] Cons.prems(2) show ?thesis by auto
  next
    case False
    have "ss_heap s1 p = Some c" using False Cons.prems(4) by (simp add: s1_def del_obj_def log_sys_def)
    from Cons.IH [OF r _ _ this] Cons.prems False show ?thesis by simp
  qed
qed simp

lemma freeTrace_log:
  assumes "freeTrace th h s = Some s'" and "map_of (ss_map s) h = Some mp" and "distinct (ss_all s)"
    and "p \<in> set (ss_all s)" and "ss_heap s p = Some c" and "to_master c = mp" and "to_open c = Some k"
  shows "SysBuffer k (to_calls (write_held c) @ [Destroy]) \<in> set (ss_log s')"
proof -
  obtain qs s2 m where f: "free_clones True mp (ss_all s) (set_active th 0 (set_clone th mp None s)) = Some (qs, s2)"
    and s': "s' = free_master h mp qs m s2"
    using assms(1,2) by (auto simp: freeTrace_def bind_eq_Some_conv)
  have "SysBuffer k (to_calls (write_held c) @ [Destroy]) \<in> set (ss_log s2)"
    by (rule free_clones_buffers [OF f assms(3,4) _ assms(6,7)]) (simp add: set_active_def set_clone_def assms(5))
  moreover have "set (ss_log s2) \<subseteq> set (ss_log s')"
    by (auto simp: s' free_master_def Let_def del_obj_def log_sys_def release_tcp_def)
  ultimately show ?thesis by blast
qed

subsection \<open>Text and calls\<close>

text \<open>The object holds what the hooks of the thread have built.\<close>

definition holds_world :: "session_obj \<Rightarrow> trace_world \<Rightarrow> bool" where
  "holds_world c w \<longleftrightarrow> to_ti c = w_ti w \<and> to_calls c = map BufOp (w_out w)"

text \<open>The operations with which the held text reaches the buffer.\<close>

definition all_ops :: "trace_world \<Rightarrow> dw_op list" where
  "all_ops w = w_out w @ (if ti_sbInit (w_ti w) \<and> held_text w \<noteq> [] then [DWrite (text_bytes (held_text w))] else [])"

lemma write_held_ops: "holds_world c w \<Longrightarrow> to_open c \<noteq> None \<Longrightarrow> to_calls (write_held c) = map BufOp (all_ops w)"
  by (auto simp: holds_world_def write_held_def all_ops_def held_text_def)

lemma all_ops_text: "builder_ok w \<Longrightarrow> concat (map op_bytes (all_ops w)) = shown_text w"
  by (auto simp: all_ops_def shown_text_def held_text_def builder_ok_def split: if_splits)

text \<open>A file whose buffer received the operations and was then destroyed, or salvaged by the crash handler.\<close>

lemma file_of_ops:
  assumes "0 \<le> fd" and "\<forall>r\<in>set script. 0 < r"
  shows "\<exists>d e. file_run (DW_BUF_SIZE b) (map BufOp ops @ [Destroy]) (open_file (DW_BUF_SIZE b) fd tid script ht) = Some (d, e) \<and>
    concat (map snd (decode_frames lz4_decompress_block_py (env_out e))) = concat (map op_bytes ops) \<and>
    (\<forall>p\<in>set (decode_frames lz4_decompress_block_py (env_out e)). fst p = tid)"
proof -
  have cap: "0 < DW_BUF_SIZE b" "lz4_compress_bound (DW_BUF_SIZE b) < 2 ^ 32" using DW_BUF_SIZE_ok by auto
  from destroyed_file [OF cap assms, of ops tid ht] show ?thesis using file_ok_tids by (fastforce simp: written_def)
qed

lemma salvaged_file:
  assumes "0 \<le> fd" and "\<forall>r\<in>set script. 0 < r" and c: "holds_world c w" "to_open c \<noteq> None" and w: "builder_ok w"
  shows "\<exists>d e. file_run (DW_BUF_SIZE b) (to_calls (salvage_obj c)) (open_file (DW_BUF_SIZE b) fd tid script ht) = Some (d, e) \<and>
    concat (map snd (decode_frames lz4_decompress_block_py (env_out e))) = shown_text w \<and> dw_fd d = -1"
proof -
  let ?cap = "DW_BUF_SIZE b"
  have cap: "0 < ?cap" "lz4_compress_bound ?cap < 2 ^ 32" using DW_BUF_SIZE_ok by auto
  have calls: "to_calls (salvage_obj c) = map BufOp (all_ops w @ [DSignalFlush]) @ [SignalClose]"
    using c write_held_ops [OF c] by (auto simp: salvage_obj_def map_ti_def Let_def)
  obtain d0 e0 where o: "open_file ?cap fd tid script ht = (d0, e0)" "dw_ok ?cap d0 e0" "dw_stream d0 e0 = []"
    using open_file_ok [OF cap assms(1,2)] by blast
  obtain d1 e1 where r: "file_run ?cap (map BufOp (all_ops w)) (d0, e0) = Some (d1, e1)" "dw_ok ?cap d1 e1"
    "dw_stream d1 e1 = shown_text w"
    using file_ops_ok [OF o(2), of "all_ops w"] o(3) all_ops_text [OF w] by auto
  obtain e2 where f: "flushFromSignal d1 e1 = Some (d1\<lparr>dw_pos := 0\<rparr>, e2)" "dw_ok ?cap (d1\<lparr>dw_pos := 0\<rparr>) e2"
    "written e2 = shown_text w"
    using flush_ok [OF r(2)] flushFromSignal_eq_flush [OF r(2)] r(3) by auto
  have run: "file_run ?cap (map BufOp (all_ops w @ [DSignalFlush]) @ [SignalClose]) (d0, e0) =
      Some (closeFromSignal (d1\<lparr>dw_pos := 0\<rparr>) e2)"
    using r(1) f(1) by (simp add: file_run_append)
  have "\<not> dw_bg_running d1 \<and> 0 \<le> dw_fd d1" using r(2) by (simp add: dw_ok_def)
  then have "closeFromSignal (d1\<lparr>dw_pos := 0\<rparr>) e2 = (d1\<lparr>dw_pos := 0, dw_fd := -1\<rparr>, e2\<lparr>env_closed := env_closed e2 @ [dw_fd d1]\<rparr>)"
    by (simp add: closeFromSignal_def)
  with run f(3) show ?thesis by (simp add: calls o(1) written_def)
qed

subsection \<open>Properties\<close>

text \<open>C10 (the file of a thread is its trace): a thread runs any instruction hooks in a session that traces to files,
  and the session is freed, with any sessions and threads beside it. Then its buffer was destroyed after calls from
  which the receiver decodes the whole text its hooks have shown, the line held back at the end included, every
  frame under the thread's id. Conditions: the hooks start in a well-formed state and no cleanup or late result
  falls on a line that is held back.\<close>

theorem session_file_complete:
  assumes "trace_run es w0 = Some w" and "text_ok w0" and "in_order es w0"
    and "freeTrace th h s = Some s'" and "map_of (ss_map s) h = Some (to_master c)" and "distinct (ss_all s)"
    and "p \<in> set (ss_all s)" and "ss_heap s p = Some c" and "holds_world c w" and "to_open c = Some (OpenFile fd tid)"
    and "0 \<le> fd" and "\<forall>r\<in>set script. 0 < r"
  shows "\<exists>calls d e. SysBuffer (OpenFile fd tid) calls \<in> set (ss_log s') \<and>
    file_run (DW_BUF_SIZE b) calls (open_file (DW_BUF_SIZE b) fd tid script ht) = Some (d, e) \<and>
    concat (map snd (decode_frames lz4_decompress_block_py (env_out e))) = shown_text w \<and>
    (\<exists>t. shown_text w = shown_text w0 @ t) \<and>
    (\<forall>q\<in>set (decode_frames lz4_decompress_block_py (env_out e)). fst q = tid)"
proof -
  have t: "text_ok w \<and> (\<exists>t. shown_text w = shown_text w0 @ t)" by (rule trace_run_text [OF assms(2,3,1)])
  have "SysBuffer (OpenFile fd tid) (to_calls (write_held c) @ [Destroy]) \<in> set (ss_log s')"
    by (rule freeTrace_log [OF assms(4-8) refl assms(10)])
  moreover have "to_calls (write_held c) = map BufOp (all_ops w)" by (rule write_held_ops [OF assms(9)]) (simp add: assms(10))
  moreover have "concat (map op_bytes (all_ops w)) = shown_text w" using t by (intro all_ops_text) (simp add: text_ok_def)
  ultimately show ?thesis using file_of_ops [OF assms(11,12), of b "all_ops w" tid ht] t by auto
qed

definition file_clone :: "trace_world \<Rightarrow> session_obj" where
  "file_clone w = new_obj\<lparr>to_ti := w_ti w, to_master := 0x1000, to_fd := 3, to_open := Some (OpenFile 3 7), to_calls := map BufOp (w_out w)\<rparr>"

definition file_session :: "trace_world \<Rightarrow> session_state" where
  "file_session w = session_initial\<lparr>ss_map := [(0x100, 0x1000)], ss_all := [0x3000],
     ss_heap := [0x1000 \<mapsto> new_obj\<lparr>to_template := True, to_target := 0x10\<rparr>, 0x3000 \<mapsto> file_clone w]\<rparr>"

lemma file_session_freed: "\<exists>s'. freeTrace 1 0x100 (file_session w) = Some s'"
  by (simp add: freeTrace_def file_session_def file_clone_def session_initial_def set_active_def set_clone_def del_obj_def
      log_sys_def new_obj_def)

lemma session_file_complete_witness:
  "\<exists>w s' calls d e. trace_run [demo_ev (demo_load 0 16 0)] demo_world = Some w \<and> freeTrace 1 0x100 (file_session w) = Some s' \<and>
     SysBuffer (OpenFile 3 7) calls \<in> set (ss_log s') \<and>
     file_run (DW_BUF_SIZE TRACE_NO_CACHE) calls (open_file (DW_BUF_SIZE TRACE_NO_CACHE) 3 7 [5] (\<lambda>h. 0)) = Some (d, e) \<and>
     concat (map snd (decode_frames lz4_decompress_block_py (env_out e))) = shown_text w"
proof -
  obtain w where "trace_code (demo_ev (demo_load 0 16 0)) demo_world = Some w" using demo_trace by blast
  then have w: "trace_run [demo_ev (demo_load 0 16 0)] demo_world = Some w"
    and i: "in_order [demo_ev (demo_load 0 16 0)] demo_world"
    using demo_text_ok(2,3) by simp_all
  obtain s' where s': "freeTrace 1 0x100 (file_session w) = Some s'" using file_session_freed by blast
  have m: "map_of (ss_map (file_session w)) 0x100 = Some (to_master (file_clone w))"
    "distinct (ss_all (file_session w))" "0x3000 \<in> set (ss_all (file_session w))"
    "ss_heap (file_session w) 0x3000 = Some (file_clone w)" "holds_world (file_clone w) w"
    "to_open (file_clone w) = Some (OpenFile 3 7)"
    by (simp_all add: file_session_def file_clone_def holds_world_def new_obj_def)
  from session_file_complete [OF w demo_text_ok(1) i s' m, of "[5]" TRACE_NO_CACHE "\<lambda>h. 0"] w s' show ?thesis by auto
qed

text \<open>C40 (entering the traced function again loses a line): at the second arrival of a thread at the first
  instruction of the traced function, by a new call or by recursion, its file is closed and the next one opened; the line
  held back, which is the call in a recursion, is dropped with the builder's content: it is neither in the
  file that ends nor in the one that begins.\<close>

theorem reentry_drops_line:
  assumes "ss_clones s (se_thread e) mp = Some p" and "ss_heap s p = Some c" and "ss_heap s mp = Some m"
    and "\<not> ss_recheck s (se_thread e)" and "to_tcp m < 0" and "to_target m \<noteq> 0"
    and "holds_world c w" and "ti_written (w_ti w)" and "ti_sbInit (w_ti w)"
    and "to_open c = Some (OpenFile fd tid)" and "to_fd c = fd" and "0 \<le> fd"
    and "getOrCreatePerThreadTrace e mp (to_target m) s = Some (p, s')" and "p \<noteq> mp"
  shows "\<exists>c' calls. ss_log s' = ss_log s @ [SysBuffer (OpenFile fd tid) calls, SysClose fd] \<and>
    shown_text w = call_bytes calls @ text_bytes (held_text w) \<and>
    ss_heap s' p = Some c' \<and> to_calls c' = [] \<and> sb_text (ti_sb (to_ti c')) = []"
proof -
  have op: "ti_written (to_ti c) \<and> to_target m \<noteq> 0 \<and> to_target m = to_target m" using assms(6-8) by (simp add: holds_world_def)
  obtain b o2 l where o2: "openNextTraceFile e m c = Some (b, o2, l)"
    and r: "(if b then p else mp) = p"
    and s': "ss_log s' = ss_log s @ l" "ss_heap s' p = Some o2"
    using assms(1-4,13) op
    by (auto simp: getOrCreatePerThreadTrace_def bind_eq_Some_conv Let_def set_active_def put_obj_def log_sys_def split: if_splits)
  have b using r assms(14) by (auto split: if_splits)
  with o2 assms(5,9-12) assms(7) have "l = [SysBuffer (OpenFile fd tid) (to_calls c @ [BufOp DFlush, Destroy]), SysClose fd]"
    and "to_calls o2 = []" and "sb_text (ti_sb (to_ti o2)) = []"
    by (auto simp: openNextTraceFile_def close_file_def end_buffer_def close_owned_def bind_eq_Some_conv map_ti_def Let_def
        holds_world_def resetStringBuilder_def split: if_splits)
  moreover have "shown_text w = call_bytes (to_calls c @ [BufOp DFlush, Destroy]) @ text_bytes (held_text w)"
    using assms(7) by (simp add: holds_world_def shown_text_def held_text_def)
  ultimately show ?thesis using s' by auto
qed

definition held_world :: trace_world where
  "held_world = demo_world\<lparr>w_ti := demo_ti\<lparr>ti_sb := \<lparr>sb_text = ''bl'', sb_capacity = 512\<rparr>, ti_written := True\<rparr>\<rparr>"

definition reentry_session :: session_state where
  "reentry_session = (file_session held_world)\<lparr>ss_clones := (\<lambda>th. Map.empty)(1 := [0x1000 \<mapsto> 0x3000])\<rparr>"

lemma reentry_runs: "\<exists>s'. getOrCreatePerThreadTrace (tcp_env 0 0) 0x1000 0x10 reentry_session = Some (0x3000, s')"
proof -
  have "findNextFileIndex (\<lambda>q. False) [] [] 7 = Some 0" by (simp add: findNextFileIndex_def index_loop.simps)
  then show ?thesis
    by (simp add: getOrCreatePerThreadTrace_def reentry_session_def file_session_def file_clone_def session_initial_def held_world_def
        openNextTraceFile_def close_file_def end_buffer_def close_owned_def new_obj_def demo_ti_def map_ti_def Let_def)
      (simp add: tcp_env_def)
qed

lemma reentry_drops_line_witness:
  "\<exists>s' calls. getOrCreatePerThreadTrace (tcp_env 0 0) 0x1000 0x10 reentry_session = Some (0x3000, s') \<and>
     ss_log s' = [SysBuffer (OpenFile 3 7) calls, SysClose 3] \<and> text_bytes ''bl'' = call_bytes calls @ text_bytes ''bl''"
proof -
  let ?m = "new_obj\<lparr>to_template := True, to_target := 0x10\<rparr>"
  obtain s' where s': "getOrCreatePerThreadTrace (tcp_env 0 0) 0x1000 (to_target ?m) reentry_session = Some (0x3000, s')"
    using reentry_runs by auto
  have st: "ss_clones reentry_session (se_thread (tcp_env 0 0)) 0x1000 = Some 0x3000"
    "ss_heap reentry_session 0x3000 = Some (file_clone held_world)" "ss_heap reentry_session 0x1000 = Some ?m"
    "\<not> ss_recheck reentry_session (se_thread (tcp_env 0 0))" "to_tcp ?m < 0" "to_target ?m \<noteq> 0"
    "holds_world (file_clone held_world) held_world" "ti_written (w_ti held_world)" "ti_sbInit (w_ti held_world)"
    "to_open (file_clone held_world) = Some (OpenFile 3 7)" "to_fd (file_clone held_world) = 3" "(0::int) \<le> 3"
    by (simp_all add: reentry_session_def file_session_def session_initial_def file_clone_def held_world_def demo_ti_def holds_world_def
        new_obj_def)
  have "held_text held_world = ''bl''" "shown_text held_world = text_bytes ''bl''" "ss_log reentry_session = []"
    by (simp_all add: held_world_def held_text_def shown_text_def demo_world_def reentry_session_def file_session_def session_initial_def)
  with reentry_drops_line [OF st s'] s' show ?thesis by fastforce
qed

subsection \<open>Uses after delete\<close>

text \<open>
  \<open>freeTrace\<close> clears the table of the calling thread only. When a new session gets the address of the old one,
  the next hook of another thread reaches the deleted object of that thread.
\<close>

lemma stale_clone_fault:
  assumes "ss_clones s (se_thread e) mp = Some p" and "ss_heap s p = None"
  shows "getOrCreatePerThreadTrace e mp a s = None"
  using assms by (simp add: getOrCreatePerThreadTrace_def)

text \<open>A forked child that drops its copy leaves it in the list of all objects; freeing any session then reads it.\<close>

lemma free_clones_fault: "p \<in> set ps \<Longrightarrow> ss_heap s p = None \<Longrightarrow> free_clones wr mp ps s = None"
proof (induction ps arbitrary: s)
  case (Cons q ps)
  show ?case
  proof (cases "p = q")
    case False
    with Cons.prems have p: "p \<in> set ps" by simp
    have "ss_heap (del_obj q (log_sys l s)) p = None" for l using Cons.prems(2) by (simp add: del_obj_def log_sys_def)
    then have "free_clones wr mp ps (del_obj q (log_sys l s)) = None" for l using Cons.IH [OF p] by blast
    with Cons.IH [OF p Cons.prems(2)] show ?thesis by (cases "ss_heap s q") simp_all
  qed (use Cons in simp)
qed simp

lemma stale_drop_then_free_faults:
  assumes "p \<in> set (ss_all s)" and "map_of (ss_map s) h = Some mp'"
  shows "freeTrace th' h (drop_stale th mp p c s) = None"
proof -
  have "ss_heap (set_active th' 0 (set_clone th' mp' None (drop_stale th mp p c s))) p = None"
    and "ss_all (drop_stale th mp p c s) = ss_all s" and "ss_map (drop_stale th mp p c s) = ss_map s"
    by (simp_all add: drop_stale_def set_active_def set_clone_def del_obj_def log_sys_def split: prod.splits)
  with assms free_clones_fault show ?thesis by (simp add: freeTrace_def)
qed

text \<open>When the thread's file cannot be opened the hook goes on with the master, whose buffer was never set up.\<close>

lemma unopened_buffer_faults: "x \<noteq> [] \<Longrightarrow> dw_write cap x dw_initial e = None"
  by (simp add: dw_write_def dw_initial_def dw_copy_def dw_flush_def dw_write_chunks.simps)

end
