(* ===== verification/Jni_Args.thy ===== *)
theory Jni_Args
  imports Jni_Flight
begin

text \<open>
  The vocabulary of the handlers of \<open>trace/src/JniTrace.cpp\<close>: how values are shown, the arguments of a \<open>va_list\<close>
  under a method descriptor (\<open>print_va_args_from_sig\<close>), and the frame that all handlers share: in the first half the
  line buffer is set anew, in the second the result and the caller are appended and the line is logged.
\<close>

subsection \<open>Values\<close>

definition sdec8 :: "u64 \<Rightarrow> string" where
  "sdec8 v = appendSignedDecVal (scast (ucast v :: 8 word))"

definition sdec16 :: "u64 \<Rightarrow> string" where
  "sdec16 v = appendSignedDecVal (scast (ucast v :: 16 word))"

definition sdec32 :: "u64 \<Rightarrow> string" where
  "sdec32 v = appendSignedDecVal (scast (ucast v :: 32 word))"

text \<open>A Java char is printed by its low byte.\<close>

definition char_text :: "u64 \<Rightarrow> string" where
  "char_text v = [CHR 0x27, char_of (unat (ucast v :: 8 word)), CHR 0x27]"

definition bool_text :: "bool \<Rightarrow> string" where
  "bool_text b = (if b then ''true'' else ''false'')"

type_synonym value_fmt = "jvm \<Rightarrow> u64 \<Rightarrow> jhist \<Rightarrow> (string \<times> jhist) option"

definition fmt_object :: value_fmt where
  "fmt_object J v h = (if v \<noteq> 0 then print_jobject_or_string J v h else Some (''null'', h))"

definition fmt_bool :: value_fmt where
  "fmt_bool J v h = Some (bool_text (v AND 1 \<noteq> 0), h)"

definition fmt_byte :: value_fmt where
  "fmt_byte J v h = Some (''0x'' @ hex64 (v AND 0xFF), h)"

definition fmt_char :: value_fmt where
  "fmt_char J v h = Some (char_text v, h)"

definition fmt_short :: value_fmt where
  "fmt_short J v h = Some (sdec16 v, h)"

definition fmt_int :: value_fmt where
  "fmt_int J v h = Some (''0x'' @ hex32 v, h)"

definition fmt_long :: value_fmt where
  "fmt_long J v h = Some (''0x'' @ hex64 v, h)"

definition fmt_float :: value_fmt where
  "fmt_float J v h = Some (jv_float J (ucast v), h)"

definition fmt_double :: value_fmt where
  "fmt_double J v h = Some (jv_double J v, h)"

subsection \<open>Arguments of a \<open>va_list\<close>\<close>

text \<open>
  AArch64's \<open>va_list\<close>: the stack at offset 0, the top of the saved general registers at 8, the offset of the next one
  at 24, negative while there are any. \<open>next_gp_arg\<close> takes from the registers, then from the stack.
\<close>

record va_state =
  va_offs :: int
  va_top :: u64
  va_stack :: u64

definition va_start :: "mem \<Rightarrow> u64 \<Rightarrow> va_state option" where
  "va_start m va =
     do { offs \<leftarrow> load32 m (va + 24);
          gtop \<leftarrow> load64 m (va + 8);
          stack \<leftarrow> load64 m va;
          Some \<lparr>va_offs = sint offs, va_top = gtop, va_stack = stack\<rparr> }"

definition next_gp_arg :: "mem \<Rightarrow> va_state \<Rightarrow> (u64 \<times> va_state) option" where
  "next_gp_arg m st =
     (if va_offs st < 0
      then map_option (\<lambda>v. (v, st\<lparr>va_offs := va_offs st + 8\<rparr>)) (load64 m (va_top st + word_of_int (va_offs st)))
      else map_option (\<lambda>v. (v, st\<lparr>va_stack := va_stack st + 8\<rparr>)) (load64 m (va_stack st)))"

definition skip_class :: "string \<Rightarrow> string" where
  "skip_class p = drop 1 (dropWhile (\<lambda>c. c \<noteq> CHR '';'') p)"

text \<open>One descriptor: what is left of the text behind it.\<close>

definition skip_descriptor :: "string \<Rightarrow> string" where
  "skip_descriptor p =
     (if p \<noteq> [] \<and> hd p = CHR ''L'' then skip_class p
      else if p \<noteq> [] \<and> hd p = CHR ''[''
      then (let q = dropWhile (\<lambda>c. c = CHR ''['') p in
            if q \<noteq> [] \<and> hd q = CHR ''L'' then skip_class q else drop 1 q)
      else drop 1 p)"

text \<open>The text of one argument.\<close>

definition va_arg_text :: "jvm \<Rightarrow> char \<Rightarrow> u64 \<Rightarrow> jhist \<Rightarrow> (string \<times> jhist) option" where
  "va_arg_text J c v h =
     (if c = CHR ''Z'' then Some (bool_text ((ucast v :: u32) \<noteq> 0), h)
      else if c = CHR ''B'' then Some (sdec8 v, h)
      else if c = CHR ''C'' then Some (char_text v, h)
      else if c = CHR ''S'' then Some (sdec16 v, h)
      else if c = CHR ''I'' then Some (sdec32 v, h)
      else if c = CHR ''J'' then Some (appendSignedDecVal v, h)
      else if c = CHR ''F'' then Some (''float'', h)
      else if c = CHR ''D'' then Some (''double'', h)
      else if c = CHR ''L''
      then (if v \<noteq> 0
            then do { (isStr, h) \<leftarrow> is_jstring J v h; if isStr then print_jstring J v h else print_jobject_safe J v h }
            else Some (''null'', h))
      else if c = CHR ''[''
      then (if v \<noteq> 0 then print_jobject_safe J v h else Some (''null'', h))
      else Some (''?'', h))"

lemma skip_descriptor_shorter:
  assumes "p \<noteq> []"
  shows "length (skip_descriptor p) < length p"
proof -
  have le: "length (dropWhile P q) \<le> length q" for P and q :: string by (rule length_dropWhile_le)
  have "\<exists>r. skip_descriptor p = drop 1 r \<and> length r \<le> length p"
    unfolding skip_descriptor_def skip_class_def Let_def using le le_trans [OF le le] by auto
  then obtain r where "skip_descriptor p = drop 1 r" "length r \<le> length p" by blast
  moreover have "0 < length p" using assms by simp
  moreover have "length (drop 1 r) = length r - 1" by simp
  ultimately show ?thesis by (simp only:)
qed

text \<open>The loop over the descriptors, up to the closing parenthesis.\<close>

function va_loop :: "jvm \<Rightarrow> string \<Rightarrow> bool \<Rightarrow> va_state \<Rightarrow> jhist \<Rightarrow> (string \<times> jhist) option" where
  "va_loop J p first st h =
     (if p = [] \<or> hd p = CHR '')'' then Some ([], h)
      else do { (v, st) \<leftarrow> next_gp_arg (jv_mem J h) st;
                (s, h) \<leftarrow> va_arg_text J (hd p) v h;
                (rest, h) \<leftarrow> va_loop J (skip_descriptor p) False st h;
                Some ((if first then [] else '', '') @ s @ rest, h) })"
  by pat_completeness auto
termination
  by (relation "measure (\<lambda>(J, p, first, st, h). length p)") (auto simp: skip_descriptor_shorter)

declare va_loop.simps [simp del]

definition print_va_args_from_sig :: "jvm \<Rightarrow> string \<Rightarrow> u64 \<Rightarrow> jhist \<Rightarrow> (string \<times> jhist) option" where
  "print_va_args_from_sig J sig va_ptr h0 =
     (if sig = [] \<or> va_ptr = 0 then Some ([], h0)
      else with_guard J (\<lambda>h.
        case str_find CHR ''('' sig of
          None \<Rightarrow> Some ([], h)
        | Some paren \<Rightarrow>
            do { st \<leftarrow> va_start (jv_mem J h) va_ptr;
                 va_loop J (c_str (drop (paren + 1) sig)) True st h }) h0)"

subsection \<open>The frame of a handler\<close>

type_synonym jni_entry = "jvm \<Rightarrow> (int \<Rightarrow> u64) \<Rightarrow> jni_vars \<Rightarrow> jhist \<Rightarrow> ((string \<times> jni_vars) \<times> jhist) option"
type_synonym jni_result = "jvm \<Rightarrow> u64 \<Rightarrow> jni_vars \<Rightarrow> jhist \<Rightarrow> ((string \<times> jni_vars) \<times> jhist) option"

definition two_halves :: "jni_entry \<Rightarrow> jni_result \<Rightarrow> jni_fn" where
  "two_halves entry result J at_return env addr lr x v h =
     (if \<not> at_return
      then do { ((s, v), h) \<leftarrow> entry J x v h; Some ((v\<lparr>jn_oss := s\<rparr>, []), h) }
      else do { ((s, v), h) \<leftarrow> result J (x 0) v h;
                (let line = jn_oss v @ s @ format_lr J lr in Some ((v\<lparr>jn_oss := line\<rparr>, [line]), h)) })"

text \<open>Entries: a text that needs no VM; one that prints an object, a string or a class first.\<close>

definition plain_entry :: "((int \<Rightarrow> u64) \<Rightarrow> string) \<Rightarrow> jni_entry" where
  "plain_entry t J x v h = Some ((t x, v), h)"

definition printed_entry :: "value_fmt \<Rightarrow> (string \<Rightarrow> jvm \<Rightarrow> (int \<Rightarrow> u64) \<Rightarrow> string) \<Rightarrow> jni_entry" where
  "printed_entry fmt t J x v h = do { (s, h) \<leftarrow> fmt J (x 1) h; Some ((t s J x, v), h) }"

definition class_text :: value_fmt where
  "class_text J c h = map_option (\<lambda>(s, h). (dotToSlash s, h)) (getJClassName J c h)"

text \<open>Results.\<close>

definition no_result :: jni_result where
  "no_result J ret v h = Some (([], v), h)"

definition plain_result :: "(u64 \<Rightarrow> string) \<Rightarrow> jni_result" where
  "plain_result t J ret v h = Some (('' => '' @ t ret, v), h)"

definition printed_result :: "value_fmt \<Rightarrow> string \<Rightarrow> jni_result" where
  "printed_result fmt close J ret v h = do { (s, h) \<leftarrow> fmt J ret h; Some (('' => '' @ s @ close, v), h) }"

definition hex_result :: jni_result where
  "hex_result = plain_result (\<lambda>r. ''0x'' @ hex64 r)"

definition int_result :: jni_result where
  "int_result = plain_result sdec32"

definition bool_result :: jni_result where
  "bool_result = plain_result (\<lambda>r. bool_text (r \<noteq> 0))"

definition object_result :: jni_result where
  "object_result = printed_result (\<lambda>J v h. if v \<noteq> 0 then print_jobject_safe J v h else Some (''null'', h)) []"

end
