(* ===== verification/Jni_Handlers.thy ===== *)
theory Jni_Handlers
  imports Jni_Args
begin

text \<open>
  The handlers of \<open>trace/src/JniTrace.cpp\<close>, one for each JNI function of the table. The families that the source makes
  with macros are functions of the name (and of how a value is shown) with the list of their instances.
\<close>

subsection \<open>Entries of common shape\<close>

definition jni_call :: "string \<Rightarrow> string \<Rightarrow> string" where
  "jni_call name args = ''JNIEnv->'' @ name @ ''('' @ args @ '')''"

definition object_call :: "string \<Rightarrow> jni_entry" where
  "object_call name = printed_entry print_jobject_safe (\<lambda>s J x. jni_call name s)"

definition string_call :: "string \<Rightarrow> jni_entry" where
  "string_call name = printed_entry print_jstring (\<lambda>s J x. jni_call name s)"

definition class_call :: "string \<Rightarrow> jni_entry" where
  "class_call name = printed_entry class_text (\<lambda>s J x. jni_call name s)"

definition two_printed :: "value_fmt \<Rightarrow> value_fmt \<Rightarrow> string \<Rightarrow> jni_entry" where
  "two_printed f g name J x v h =
     do { (s, h) \<leftarrow> f J (x 1) h; (t, h) \<leftarrow> g J (x 2) h; Some ((jni_call name (s @ '', '' @ t), v), h) }"

definition method_of :: "jvm \<Rightarrow> u64 \<Rightarrow> u64 \<Rightarrow> bool \<Rightarrow> jni_vars \<Rightarrow> jhist \<Rightarrow> ((method_info \<times> jni_vars) \<times> jhist) option" where
  "method_of J ob mid st v h =
     map_option (\<lambda>((mi, t), h). ((mi, v\<lparr>jn_methods := t\<rparr>), h)) (getMethodInfoResolved J ob mid st (jn_methods v) h)"

definition field_of :: "jvm \<Rightarrow> u64 \<Rightarrow> u64 \<Rightarrow> bool \<Rightarrow> jni_vars \<Rightarrow> jhist \<Rightarrow> ((field_info \<times> jni_vars) \<times> jhist) option" where
  "field_of J ob fid st v h =
     map_option (\<lambda>((fi, t), h). ((fi, v\<lparr>jn_fields := t\<rparr>), h)) (getFieldInfoResolved J ob fid st (jn_fields v) h)"

subsection \<open>Classes, objects, references\<close>

definition Trace_FindClass :: jni_fn where
  "Trace_FindClass = two_halves
     (\<lambda>J x v h. do { name \<leftarrow> read_cstr J h (x 1); Some ((jni_call ''FindClass'' (dq @ name @ dq), v), h) }) hex_result"

definition Trace_GetSuperclass :: jni_fn where
  "Trace_GetSuperclass = two_halves (class_call ''GetSuperclass'') (printed_result class_text [])"

definition Trace_GetObjectClass :: jni_fn where
  "Trace_GetObjectClass = two_halves (object_call ''GetObjectClass'') (printed_result class_text [])"

definition Trace_IsAssignableFrom :: jni_fn where
  "Trace_IsAssignableFrom = two_halves (two_printed class_text class_text ''IsAssignableFrom'') bool_result"

definition Trace_IsInstanceOf :: jni_fn where
  "Trace_IsInstanceOf = two_halves (two_printed print_jobject_safe class_text ''IsInstanceOf'') bool_result"

definition Trace_IsSameObject :: jni_fn where
  "Trace_IsSameObject = two_halves (two_printed print_jobject_safe print_jobject_safe ''IsSameObject'') bool_result"

definition Trace_NewGlobalRef :: jni_fn where
  "Trace_NewGlobalRef = two_halves (object_call ''NewGlobalRef'') no_result"

definition Trace_DeleteGlobalRef :: jni_fn where
  "Trace_DeleteGlobalRef = two_halves (object_call ''DeleteGlobalRef'') no_result"

definition Trace_NewLocalRef :: jni_fn where
  "Trace_NewLocalRef = two_halves (object_call ''NewLocalRef'') no_result"

definition Trace_DeleteLocalRef :: jni_fn where
  "Trace_DeleteLocalRef = two_halves (object_call ''DeleteLocalRef'') no_result"

definition Trace_NewWeakGlobalRef :: jni_fn where
  "Trace_NewWeakGlobalRef = two_halves (object_call ''NewWeakGlobalRef'') no_result"

definition Trace_DeleteWeakGlobalRef :: jni_fn where
  "Trace_DeleteWeakGlobalRef = two_halves (object_call ''DeleteWeakGlobalRef'') no_result"

subsection \<open>Method and field ids\<close>

text \<open>The first half keeps class, name and descriptor for the second, which caches them under the id.\<close>

definition id_entry :: "string \<Rightarrow> string \<Rightarrow> jni_entry" where
  "id_entry f sep J x v h =
     do { (cls, h) \<leftarrow> class_text J (x 1) h;
          name \<leftarrow> read_cstr J h (x 2);
          sig \<leftarrow> read_cstr J h (x 3);
          Some ((jni_call f (cls @ ''.'' @ name @ sep @ sig), v\<lparr>jn_bridge := (jn_bridge v)(f := (cls, name, sig))\<rparr>), h) }"

definition method_id_result :: "string \<Rightarrow> jni_result" where
  "method_id_result f J ret v h =
     (let v' = (if ret \<noteq> 0
                then v\<lparr>jn_methods := (case jn_bridge v f of (cls, name, sig) \<Rightarrow> cacheMethod ret cls name sig (jn_methods v))\<rparr>
                else v) in
      Some (('' => 0x'' @ hex64 ret, v'), h))"

definition field_id_result :: "string \<Rightarrow> jni_result" where
  "field_id_result f J ret v h =
     (let v' = (if ret \<noteq> 0
                then v\<lparr>jn_fields := (case jn_bridge v f of (cls, name, sig) \<Rightarrow> cacheField ret cls name sig (jn_fields v))\<rparr>
                else v) in
      Some (('' => 0x'' @ hex64 ret, v'), h))"

definition Trace_GetMethodID :: jni_fn where
  "Trace_GetMethodID = two_halves (id_entry ''GetMethodID'' []) (method_id_result ''GetMethodID'')"

definition Trace_GetStaticMethodID :: jni_fn where
  "Trace_GetStaticMethodID = two_halves (id_entry ''GetStaticMethodID'' []) (method_id_result ''GetStaticMethodID'')"

definition Trace_GetFieldID :: jni_fn where
  "Trace_GetFieldID = two_halves (id_entry ''GetFieldID'' '' '') (field_id_result ''GetFieldID'')"

definition Trace_GetStaticFieldID :: jni_fn where
  "Trace_GetStaticFieldID = two_halves (id_entry ''GetStaticFieldID'' '' '') (field_id_result ''GetStaticFieldID'')"

subsection \<open>Registration of native methods\<close>

text \<open>One line for each of the methods in the array; all of it in the first half.\<close>

fun native_lines :: "jvm \<Rightarrow> mem \<Rightarrow> jhist \<Rightarrow> string \<Rightarrow> u64 \<Rightarrow> nat \<Rightarrow> string list option" where
  "native_lines J m h cls a 0 = Some []"
| "native_lines J m h cls a (Suc n) =
     do { np \<leftarrow> load64 m a; name \<leftarrow> read_cstr J h np;
          sp \<leftarrow> load64 m (a + 8); sig \<leftarrow> read_cstr J h sp;
          fn \<leftarrow> load64 m (a + 16);
          rest \<leftarrow> native_lines J m h cls (a + 24) n;
          Some ((''  RegisterNative('' @ cls @ '', '' @ name @ sig @ '', RX@'' @ format_addr J fn @ '')'') # rest) }"

definition Trace_RegisterNatives :: jni_fn where
  "Trace_RegisterNatives J at_return env addr lr x v h =
     (if at_return then Some ((v, []), h)
      else do { (cls, h) \<leftarrow> class_text J (x 1) h;
                rest \<leftarrow> native_lines J (jv_mem J h) h cls (x 2) (nat (int32 (x 3)));
                Some ((v, (jni_call ''RegisterNatives'' (cls @ '', '' @ format_addr J (x 2) @ '', '' @ sdec32 (x 3)) @ format_lr J lr)
                          # rest), h) })"

text \<open>\<open>PrettyMethod\<close> is called here without a \<open>try\<close>.\<close>

definition Trace_Art_RegisterNative :: jni_fn where
  "Trace_Art_RegisterNative = two_halves
     (\<lambda>J x v h.
        do { names \<leftarrow> (case jv_art_method J of
               None \<Rightarrow> Some (''?'', ''?'', [])
             | Some f \<Rightarrow>
                 if x 0 = 0 then Some (''?'', ''?'', [])
                 else map_option (\<lambda>pretty. (let mi = parsePrettyMethod pretty in
                        if mi_class mi \<noteq> [] then (mi_class mi, mi_name mi, mi_sig mi) else (''?'', ''?'', []))) (f (x 0)));
             Some ((case names of (cls, name, sig) \<Rightarrow>
                 ''RegisterNative('' @ cls @ '', '' @ name @ sig @ '', RX@'' @ format_addr J (x 1) @ '') [via art::ArtMethod]'', v), h) })
     no_result"

subsection \<open>Strings\<close>

definition Trace_NewStringUTF :: jni_fn where
  "Trace_NewStringUTF = two_halves
     (\<lambda>J x v h. do { s \<leftarrow> read_cstr J h (x 1); Some ((jni_call ''NewStringUTF'' (dq @ s @ dq), v), h) }) no_result"

definition Trace_GetStringUTFChars :: jni_fn where
  "Trace_GetStringUTFChars = two_halves (string_call ''GetStringUTFChars'') no_result"

definition Trace_ReleaseStringUTFChars :: jni_fn where
  "Trace_ReleaseStringUTFChars = two_halves (string_call ''ReleaseStringUTFChars'') no_result"

definition Trace_GetStringLength :: jni_fn where
  "Trace_GetStringLength = two_halves (string_call ''GetStringLength'') int_result"

definition Trace_GetStringUTFLength :: jni_fn where
  "Trace_GetStringUTFLength = two_halves (string_call ''GetStringUTFLength'') int_result"

definition Trace_NewString :: jni_fn where
  "Trace_NewString = two_halves
     (plain_entry (\<lambda>x. jni_call ''NewString'' (''unichar_ptr, '' @ sdec32 (x 2)))) (printed_result print_jstring [])"

definition Trace_GetStringChars :: jni_fn where
  "Trace_GetStringChars = two_halves (string_call ''GetStringChars'') hex_result"

definition Trace_ReleaseStringChars :: jni_fn where
  "Trace_ReleaseStringChars = two_halves (string_call ''ReleaseStringChars'') no_result"

definition Trace_GetStringCritical :: jni_fn where
  "Trace_GetStringCritical = two_halves (string_call ''GetStringCritical'') hex_result"

definition Trace_ReleaseStringCritical :: jni_fn where
  "Trace_ReleaseStringCritical = two_halves (string_call ''ReleaseStringCritical'') no_result"

definition region_call :: "string \<Rightarrow> jni_entry" where
  "region_call name = printed_entry print_jstring
     (\<lambda>s J x. jni_call name (s @ '', start='' @ sdec32 (x 2) @ '', len='' @ sdec32 (x 3)))"

definition Trace_GetStringRegion :: jni_fn where
  "Trace_GetStringRegion = two_halves (region_call ''GetStringRegion'') no_result"

definition Trace_GetStringUTFRegion :: jni_fn where
  "Trace_GetStringUTFRegion = two_halves (region_call ''GetStringUTFRegion'') no_result"

subsection \<open>Objects and method calls\<close>

definition Trace_NewObjectV :: jni_fn where
  "Trace_NewObjectV = two_halves
     (\<lambda>J x v h. do { (cls, h) \<leftarrow> class_text J (x 1) h;
                     ((mi, v), h) \<leftarrow> method_of J (x 1) (x 2) False v h;
                     Some ((jni_call ''NewObjectV'' (''class '' @ cls @ '', '' @ mi_name mi @ mi_sig mi), v), h) })
     (printed_result fmt_object [])"

definition Trace_AllocObject :: jni_fn where
  "Trace_AllocObject = two_halves (class_call ''AllocObject'') object_result"

text \<open>
  The arguments are printed when the descriptor is known and the \<open>va_list\<close> is not NULL; the printer tests the
  same. The call's closing parenthesis is written behind the result.
\<close>

definition instance_args :: "string \<Rightarrow> string \<Rightarrow> jni_entry" where
  "instance_args name close J x v h =
     do { ((mi, v), h) \<leftarrow> method_of J (x 1) (x 2) False v h;
          (ob, h) \<leftarrow> print_jobject_safe J (x 1) h;
          (args, h) \<leftarrow> print_va_args_from_sig J (mi_sig mi) (x 3) h;
          Some ((''JNIEnv->'' @ name @ ''('' @ ob @ '', '' @ mi_name mi @ ''('' @ args @ close, v), h) }"

definition call_method_v :: "string \<Rightarrow> value_fmt \<Rightarrow> jni_fn" where
  "call_method_v name fmt = two_halves (instance_args name '')'') (printed_result fmt '')'')"

definition call_methods :: "(string \<times> jni_fn) list" where
  "call_methods =
     [(''CallObjectMethodV'', call_method_v ''CallObjectMethodV'' fmt_object),
      (''CallBooleanMethodV'', call_method_v ''CallBooleanMethodV'' fmt_bool),
      (''CallByteMethodV'', call_method_v ''CallByteMethodV'' fmt_byte),
      (''CallCharMethodV'', call_method_v ''CallCharMethodV'' fmt_char),
      (''CallShortMethodV'', call_method_v ''CallShortMethodV'' fmt_short),
      (''CallIntMethodV'', call_method_v ''CallIntMethodV'' fmt_int),
      (''CallLongMethodV'', call_method_v ''CallLongMethodV'' fmt_long),
      (''CallFloatMethodV'', call_method_v ''CallFloatMethodV'' fmt_float),
      (''CallDoubleMethodV'', call_method_v ''CallDoubleMethodV'' fmt_double)]"

definition Trace_CallVoidMethodV :: jni_fn where
  "Trace_CallVoidMethodV = two_halves (instance_args ''CallVoidMethodV'' ''))'') no_result"

definition static_args :: "string \<Rightarrow> string \<Rightarrow> jni_entry" where
  "static_args name close J x v h =
     do { (cls, h) \<leftarrow> class_text J (x 1) h;
          ((mi, v), h) \<leftarrow> method_of J (x 1) (x 2) True v h;
          (args, h) \<leftarrow> print_va_args_from_sig J (mi_sig mi) (x 3) h;
          Some ((''JNIEnv->'' @ name @ ''(class '' @ cls @ '', '' @ mi_name mi @ ''('' @ args @ close, v), h) }"

definition call_static_method_v :: "string \<Rightarrow> value_fmt \<Rightarrow> jni_fn" where
  "call_static_method_v name fmt = two_halves (static_args name '')'') (printed_result fmt '')'')"

definition call_static_methods :: "(string \<times> jni_fn) list" where
  "call_static_methods =
     [(''CallStaticObjectMethodV'', call_static_method_v ''CallStaticObjectMethodV'' fmt_object),
      (''CallStaticBooleanMethodV'', call_static_method_v ''CallStaticBooleanMethodV'' fmt_bool),
      (''CallStaticByteMethodV'', call_static_method_v ''CallStaticByteMethodV'' fmt_byte),
      (''CallStaticCharMethodV'', call_static_method_v ''CallStaticCharMethodV'' fmt_char),
      (''CallStaticShortMethodV'', call_static_method_v ''CallStaticShortMethodV'' fmt_short),
      (''CallStaticIntMethodV'', call_static_method_v ''CallStaticIntMethodV'' fmt_int),
      (''CallStaticLongMethodV'', call_static_method_v ''CallStaticLongMethodV'' fmt_long),
      (''CallStaticFloatMethodV'', call_static_method_v ''CallStaticFloatMethodV'' fmt_float),
      (''CallStaticDoubleMethodV'', call_static_method_v ''CallStaticDoubleMethodV'' fmt_double)]"

definition Trace_CallStaticVoidMethodV :: jni_fn where
  "Trace_CallStaticVoidMethodV = two_halves (static_args ''CallStaticVoidMethodV'' ''))'') no_result"

definition nonvirtual_args :: "string \<Rightarrow> string \<Rightarrow> jni_entry" where
  "nonvirtual_args name close J x v h =
     do { (cls, h) \<leftarrow> class_text J (x 2) h;
          ((mi, v), h) \<leftarrow> method_of J (x 1) (x 3) False v h;
          (ob, h) \<leftarrow> print_jobject_safe J (x 1) h;
          (args, h) \<leftarrow> print_va_args_from_sig J (mi_sig mi) (x 4) h;
          Some ((''JNIEnv->'' @ name @ ''('' @ ob @ '', '' @ cls @ '', '' @ mi_name mi @ ''('' @ args @ close, v), h) }"

definition call_nonvirtual_method_v :: "string \<Rightarrow> value_fmt \<Rightarrow> jni_fn" where
  "call_nonvirtual_method_v name fmt = two_halves (nonvirtual_args name '')'') (printed_result fmt '')'')"

text \<open>Here a boolean is true for any bit, not for the lowest one.\<close>

definition fmt_nonzero :: value_fmt where
  "fmt_nonzero J v h = Some (bool_text (v \<noteq> 0), h)"

definition call_nonvirtual_methods :: "(string \<times> jni_fn) list" where
  "call_nonvirtual_methods =
     [(''CallNonvirtualObjectMethodV'', call_nonvirtual_method_v ''CallNonvirtualObjectMethodV'' fmt_object),
      (''CallNonvirtualBooleanMethodV'', call_nonvirtual_method_v ''CallNonvirtualBooleanMethodV'' fmt_nonzero),
      (''CallNonvirtualByteMethodV'', call_nonvirtual_method_v ''CallNonvirtualByteMethodV'' fmt_byte),
      (''CallNonvirtualCharMethodV'', call_nonvirtual_method_v ''CallNonvirtualCharMethodV'' fmt_char),
      (''CallNonvirtualShortMethodV'', call_nonvirtual_method_v ''CallNonvirtualShortMethodV'' fmt_short),
      (''CallNonvirtualIntMethodV'', call_nonvirtual_method_v ''CallNonvirtualIntMethodV'' fmt_int),
      (''CallNonvirtualLongMethodV'', call_nonvirtual_method_v ''CallNonvirtualLongMethodV'' fmt_long),
      (''CallNonvirtualFloatMethodV'', call_nonvirtual_method_v ''CallNonvirtualFloatMethodV'' fmt_float),
      (''CallNonvirtualDoubleMethodV'', call_nonvirtual_method_v ''CallNonvirtualDoubleMethodV'' fmt_double)]"

definition Trace_CallNonvirtualVoidMethodV :: jni_fn where
  "Trace_CallNonvirtualVoidMethodV = two_halves (nonvirtual_args ''CallNonvirtualVoidMethodV'' ''))'') no_result"

subsection \<open>Fields\<close>

definition instance_field :: "string \<Rightarrow> bool \<Rightarrow> value_fmt \<Rightarrow> jni_entry" where
  "instance_field name wr fmt J x v h =
     do { ((fi, v), h) \<leftarrow> field_of J (x 1) (x 2) False v h;
          (ob, h) \<leftarrow> print_jobject_safe J (x 1) h;
          (val, h) \<leftarrow> (if wr then map_option (\<lambda>(s, h). ('', '' @ s @ '')'', h)) (fmt J (x 3) h) else Some ([], h));
          Some ((''JNIEnv->'' @ name @ ''('' @ ob @ '', '' @ fi_name fi @ '' '' @ fi_type fi @ val, v), h) }"

definition static_field :: "string \<Rightarrow> bool \<Rightarrow> value_fmt \<Rightarrow> jni_entry" where
  "static_field name wr fmt J x v h =
     do { (cls, h) \<leftarrow> class_text J (x 1) h;
          ((fi, v), h) \<leftarrow> field_of J (x 1) (x 2) True v h;
          (val, h) \<leftarrow> (if wr then map_option (\<lambda>(s, h). ('', '' @ s @ '')'', h)) (fmt J (x 3) h) else Some ([], h));
          Some ((''JNIEnv->'' @ name @ ''(class '' @ cls @ '', '' @ fi_name fi @ '' '' @ fi_type fi @ val, v), h) }"

definition get_field :: "string \<Rightarrow> value_fmt \<Rightarrow> jni_fn" where
  "get_field name fmt = two_halves (instance_field name False fmt) (printed_result fmt '')'')"

definition get_fields :: "(string \<times> jni_fn) list" where
  "get_fields =
     [(''GetObjectField'', get_field ''GetObjectField'' fmt_object),
      (''GetBooleanField'', get_field ''GetBooleanField'' fmt_bool),
      (''GetByteField'', get_field ''GetByteField'' fmt_byte),
      (''GetCharField'', get_field ''GetCharField'' fmt_char),
      (''GetShortField'', get_field ''GetShortField'' fmt_short),
      (''GetIntField'', get_field ''GetIntField'' fmt_int),
      (''GetLongField'', get_field ''GetLongField'' fmt_long),
      (''GetFloatField'', get_field ''GetFloatField'' fmt_float),
      (''GetDoubleField'', get_field ''GetDoubleField'' fmt_double)]"

definition set_field :: "string \<Rightarrow> value_fmt \<Rightarrow> jni_fn" where
  "set_field name fmt = two_halves (instance_field name True fmt) no_result"

definition set_fields :: "(string \<times> jni_fn) list" where
  "set_fields =
     [(''SetObjectField'', set_field ''SetObjectField'' fmt_object),
      (''SetBooleanField'', set_field ''SetBooleanField'' fmt_bool),
      (''SetByteField'', set_field ''SetByteField'' fmt_byte),
      (''SetCharField'', set_field ''SetCharField'' fmt_char),
      (''SetShortField'', set_field ''SetShortField'' fmt_short),
      (''SetIntField'', set_field ''SetIntField'' fmt_int),
      (''SetLongField'', set_field ''SetLongField'' fmt_long),
      (''SetFloatField'', set_field ''SetFloatField'' fmt_float),
      (''SetDoubleField'', set_field ''SetDoubleField'' fmt_double)]"

definition get_static_field :: "string \<Rightarrow> value_fmt \<Rightarrow> jni_fn" where
  "get_static_field name fmt = two_halves (static_field name False fmt) (printed_result fmt '')'')"

definition get_static_fields :: "(string \<times> jni_fn) list" where
  "get_static_fields =
     [(''GetStaticObjectField'', get_static_field ''GetStaticObjectField'' fmt_object),
      (''GetStaticBooleanField'', get_static_field ''GetStaticBooleanField'' fmt_bool),
      (''GetStaticByteField'', get_static_field ''GetStaticByteField'' fmt_byte),
      (''GetStaticCharField'', get_static_field ''GetStaticCharField'' fmt_char),
      (''GetStaticShortField'', get_static_field ''GetStaticShortField'' fmt_short),
      (''GetStaticIntField'', get_static_field ''GetStaticIntField'' fmt_int),
      (''GetStaticLongField'', get_static_field ''GetStaticLongField'' fmt_long),
      (''GetStaticFloatField'', get_static_field ''GetStaticFloatField'' fmt_float),
      (''GetStaticDoubleField'', get_static_field ''GetStaticDoubleField'' fmt_double)]"

definition set_static_field :: "string \<Rightarrow> value_fmt \<Rightarrow> jni_fn" where
  "set_static_field name fmt = two_halves (static_field name True fmt) no_result"

definition set_static_fields :: "(string \<times> jni_fn) list" where
  "set_static_fields =
     [(''SetStaticObjectField'', set_static_field ''SetStaticObjectField'' fmt_object),
      (''SetStaticBooleanField'', set_static_field ''SetStaticBooleanField'' fmt_bool),
      (''SetStaticByteField'', set_static_field ''SetStaticByteField'' fmt_byte),
      (''SetStaticCharField'', set_static_field ''SetStaticCharField'' fmt_char),
      (''SetStaticShortField'', set_static_field ''SetStaticShortField'' fmt_short),
      (''SetStaticIntField'', set_static_field ''SetStaticIntField'' fmt_int),
      (''SetStaticLongField'', set_static_field ''SetStaticLongField'' fmt_long),
      (''SetStaticFloatField'', set_static_field ''SetStaticFloatField'' fmt_float),
      (''SetStaticDoubleField'', set_static_field ''SetStaticDoubleField'' fmt_double)]"

subsection \<open>Arrays\<close>

definition Trace_GetArrayLength :: jni_fn where
  "Trace_GetArrayLength = two_halves (printed_entry print_jobject_safe (\<lambda>s J x. ''JNIEnv->GetArrayLength('' @ s))
     (plain_result (\<lambda>r. sdec32 r @ '')''))"

definition Trace_NewObjectArray :: jni_fn where
  "Trace_NewObjectArray = two_halves
     (\<lambda>J x v h. do { (cls, h) \<leftarrow> class_text J (x 2) h; (ob, h) \<leftarrow> fmt_object J (x 3) h;
                     Some ((jni_call ''NewObjectArray'' (sdec32 (x 1) @ '', '' @ cls @ '', '' @ ob), v), h) }) object_result"

definition Trace_GetObjectArrayElement :: jni_fn where
  "Trace_GetObjectArrayElement = two_halves
     (printed_entry print_jobject_safe (\<lambda>s J x. jni_call ''GetObjectArrayElement'' (s @ '', '' @ sdec32 (x 2))))
     (printed_result fmt_object [])"

definition Trace_SetObjectArrayElement :: jni_fn where
  "Trace_SetObjectArrayElement = two_halves
     (\<lambda>J x v h. do { (ob, h) \<leftarrow> print_jobject_safe J (x 1) h; (val, h) \<leftarrow> fmt_object J (x 3) h;
                     Some ((jni_call ''SetObjectArrayElement'' (ob @ '', '' @ sdec32 (x 2) @ '', '' @ val), v), h) }) no_result"

definition array_types :: "string list" where
  "array_types = [''Boolean'', ''Byte'', ''Char'', ''Short'', ''Int'', ''Long'', ''Float'', ''Double'']"

definition new_array :: "string \<Rightarrow> jni_fn" where
  "new_array name = two_halves (plain_entry (\<lambda>x. jni_call name (sdec32 (x 1)))) hex_result"

definition array_region :: "string \<Rightarrow> jni_fn" where
  "array_region name = two_halves
     (printed_entry print_jobject_safe
        (\<lambda>s J x. jni_call name (s @ '', '' @ sdec32 (x 2) @ '', '' @ sdec32 (x 3) @ '', '' @ format_addr J (x 4)))) no_result"

definition get_array_elements :: "string \<Rightarrow> jni_fn" where
  "get_array_elements name = two_halves (object_call name) hex_result"

definition release_mode :: "u64 \<Rightarrow> string" where
  "release_mode m = (if m = 0 then ''0'' else if m = 1 then ''JNI_COMMIT'' else ''JNI_ABORT'')"

definition release_call :: "string \<Rightarrow> jni_entry" where
  "release_call name = printed_entry print_jobject_safe
     (\<lambda>s J x. jni_call name (s @ '', 0x'' @ hex64 (x 2) @ '', '' @ release_mode (x 3)))"

definition release_array_elements :: "string \<Rightarrow> jni_fn" where
  "release_array_elements name = two_halves (release_call name) no_result"

definition array_family :: "string \<Rightarrow> string \<Rightarrow> (string \<Rightarrow> jni_fn) \<Rightarrow> (string \<times> jni_fn) list" where
  "array_family pre post f = map (\<lambda>t. (pre @ t @ post, f (pre @ t @ post))) array_types"

definition new_arrays :: "(string \<times> jni_fn) list" where
  "new_arrays = array_family ''New'' ''Array'' new_array"

definition get_array_regions :: "(string \<times> jni_fn) list" where
  "get_array_regions = array_family ''Get'' ''ArrayRegion'' array_region"

definition set_array_regions :: "(string \<times> jni_fn) list" where
  "set_array_regions = array_family ''Set'' ''ArrayRegion'' array_region"

definition array_elements :: "(string \<times> jni_fn) list" where
  "array_elements = array_family ''Get'' ''ArrayElements'' get_array_elements"

definition release_elements :: "(string \<times> jni_fn) list" where
  "release_elements = array_family ''Release'' ''ArrayElements'' release_array_elements"

definition Trace_GetPrimitiveArrayCritical :: jni_fn where
  "Trace_GetPrimitiveArrayCritical = two_halves (object_call ''GetPrimitiveArrayCritical'') hex_result"

definition Trace_ReleasePrimitiveArrayCritical :: jni_fn where
  "Trace_ReleasePrimitiveArrayCritical = two_halves (release_call ''ReleasePrimitiveArrayCritical'') no_result"

subsection \<open>Exceptions\<close>

definition no_args :: "string \<Rightarrow> jni_entry" where
  "no_args name = plain_entry (\<lambda>x. jni_call name [])"

definition Trace_ExceptionCheck :: jni_fn where
  "Trace_ExceptionCheck = two_halves (no_args ''ExceptionCheck'') bool_result"

definition Trace_ExceptionClear :: jni_fn where
  "Trace_ExceptionClear = two_halves (no_args ''ExceptionClear'') no_result"

definition Trace_ExceptionOccurred :: jni_fn where
  "Trace_ExceptionOccurred = two_halves (no_args ''ExceptionOccurred'') object_result"

definition Trace_ExceptionDescribe :: jni_fn where
  "Trace_ExceptionDescribe = two_halves (no_args ''ExceptionDescribe'') no_result"

definition Trace_Throw :: jni_fn where
  "Trace_Throw = two_halves (object_call ''Throw'') int_result"

definition Trace_ThrowNew :: jni_fn where
  "Trace_ThrowNew = two_halves
     (\<lambda>J x v h. do { (cls, h) \<leftarrow> class_text J (x 1) h; msg \<leftarrow> read_cstr J h (x 2);
                     Some ((jni_call ''ThrowNew'' (cls @ '', '' @ dq @ msg @ dq), v), h) }) no_result"

text \<open>The process ends in \<open>FatalError\<close>, so the line is logged in the first half.\<close>

definition Trace_FatalError :: jni_fn where
  "Trace_FatalError J at_return env addr lr x v h =
     (if at_return then Some ((v, []), h)
      else do { msg \<leftarrow> read_cstr J h (x 1);
                (let line = jni_call ''FatalError'' (dq @ msg @ dq) @ format_lr J lr in
                 Some ((v\<lparr>jn_oss := line\<rparr>, [line]), h)) })"

subsection \<open>Reflection\<close>

definition Trace_ToReflectedMethod :: jni_fn where
  "Trace_ToReflectedMethod = two_halves
     (\<lambda>J x v h. do { (cls, h) \<leftarrow> class_text J (x 1) h; ((mi, v), h) \<leftarrow> method_of J (x 1) (x 2) (x 3 \<noteq> 0) v h;
                     Some ((jni_call ''ToReflectedMethod'' (cls @ '', '' @ mi_name mi @ mi_sig mi @ '', '' @ bool_text (x 3 \<noteq> 0)), v), h) })
     hex_result"

definition Trace_ToReflectedField :: jni_fn where
  "Trace_ToReflectedField = two_halves
     (\<lambda>J x v h. do { (cls, h) \<leftarrow> class_text J (x 1) h; ((fi, v), h) \<leftarrow> field_of J (x 1) (x 2) (x 3 \<noteq> 0) v h;
                     Some ((jni_call ''ToReflectedField''
                        (cls @ '', '' @ fi_name fi @ '' '' @ fi_type fi @ '', '' @ bool_text (x 3 \<noteq> 0)), v), h) })
     hex_result"

definition Trace_FromReflectedMethod :: jni_fn where
  "Trace_FromReflectedMethod = two_halves (object_call ''FromReflectedMethod'')
     (\<lambda>J ret v h.
        if ret = 0 then Some (('' => null'', v), h)
        else (let (mi, t) = resolveMethodByArt J ret (jn_methods v) in
              Some (('' => '' @ (if mi_name mi \<noteq> [] then mi_class mi @ ''.'' @ mi_name mi @ mi_sig mi
                                 else ''jmethodID@0x'' @ hex64 ret), v\<lparr>jn_methods := t\<rparr>), h)))"

definition Trace_FromReflectedField :: jni_fn where
  "Trace_FromReflectedField = two_halves (object_call ''FromReflectedField'')
     (\<lambda>J ret v h.
        if ret = 0 then Some (('' => null'', v), h)
        else (let (fi, t) = resolveFieldByArt J ret (jn_fields v) in
              Some (('' => '' @ (if fi_name fi \<noteq> ''?'' then fi_class fi @ ''.'' @ fi_name fi @ '' '' @ fi_type fi
                                 else ''jfieldID@0x'' @ hex64 ret), v\<lparr>jn_fields := t\<rparr>), h)))"

subsection \<open>The rest\<close>

definition Trace_MonitorEnter :: jni_fn where
  "Trace_MonitorEnter = two_halves (object_call ''MonitorEnter'') no_result"

definition Trace_MonitorExit :: jni_fn where
  "Trace_MonitorExit = two_halves (object_call ''MonitorExit'') no_result"

definition Trace_GetJavaVM :: jni_fn where
  "Trace_GetJavaVM = two_halves (no_args ''GetJavaVM'') int_result"

definition Trace_GetVersion :: jni_fn where
  "Trace_GetVersion = two_halves (no_args ''GetVersion'') hex_result"

definition Trace_DefineClass :: jni_fn where
  "Trace_DefineClass = two_halves
     (\<lambda>J x v h. do { name \<leftarrow> read_cstr J h (x 1); Some ((jni_call ''DefineClass'' name, v), h) }) no_result"

definition Trace_EnsureLocalCapacity :: jni_fn where
  "Trace_EnsureLocalCapacity = two_halves (plain_entry (\<lambda>x. jni_call ''EnsureLocalCapacity'' (sdec32 (x 1)))) int_result"

definition Trace_PushLocalFrame :: jni_fn where
  "Trace_PushLocalFrame = two_halves (plain_entry (\<lambda>x. jni_call ''PushLocalFrame'' (sdec32 (x 1)))) int_result"

definition Trace_PopLocalFrame :: jni_fn where
  "Trace_PopLocalFrame = two_halves (printed_entry fmt_object (\<lambda>s J x. jni_call ''PopLocalFrame'' s)) (printed_result fmt_object [])"

definition Trace_NewDirectByteBuffer :: jni_fn where
  "Trace_NewDirectByteBuffer = two_halves
     (plain_entry (\<lambda>x. jni_call ''NewDirectByteBuffer'' (''addr=0x'' @ hex64 (x 1) @ '', capacity='' @ appendSignedDecVal (x 2))))
     object_result"

definition Trace_GetDirectBufferAddress :: jni_fn where
  "Trace_GetDirectBufferAddress = two_halves (object_call ''GetDirectBufferAddress'') hex_result"

definition Trace_GetDirectBufferCapacity :: jni_fn where
  "Trace_GetDirectBufferCapacity = two_halves (object_call ''GetDirectBufferCapacity'') (plain_result appendSignedDecVal)"

definition ref_type :: "u64 \<Rightarrow> string" where
  "ref_type r = (if r < 4 then [''Invalid'', ''Local'', ''Global'', ''WeakGlobal''] ! unat r else ''?'')"

definition Trace_GetObjectRefType :: jni_fn where
  "Trace_GetObjectRefType = two_halves (object_call ''GetObjectRefType'') (plain_result ref_type)"

definition Trace_UnregisterNatives :: jni_fn where
  "Trace_UnregisterNatives = two_halves (class_call ''UnregisterNatives'') int_result"

text \<open>Defined in the source, but in no entry of the table.\<close>

definition Trace_GenericFallback :: jni_fn where
  "Trace_GenericFallback J at_return env addr =
     two_halves (plain_entry (\<lambda>x. jni_call ''Unknown'' (''addr=0x'' @ hex64 addr))) no_result J at_return env addr"

end
