(* ===== verification/Jni_Table.thy ===== *)
theory Jni_Table
  imports Jni_Handlers
begin

text \<open>
  The table of handlers (\<open>tableInit\<close>, \<open>jni_ensure_table\<close> of \<open>trace/src/JniTrace.cpp\<close>) and what holds of every handler in it:
  neither half of a traced JNI call changes the pending exception or the local references of the traced program. Then
  what the lines say: arguments from a \<open>va_list\<close>, names learnt from the id functions, and where they are wrong.
\<close>

subsection \<open>Routines that are not seen\<close>

definition unseen :: "jvm \<Rightarrow> jhist \<Rightarrow> ('a \<times> jhist) option \<Rightarrow> bool" where
  "unseen J h m \<longleftrightarrow> par (\<lambda>(a, h'). neutral J h h') m"

definition leakless :: "jvm \<Rightarrow> jhist \<Rightarrow> ('a \<times> jhist) option \<Rightarrow> bool" where
  "leakless J h m \<longleftrightarrow> par (\<lambda>(a, h'). grown J h {#} h') m"

lemma unseen_Some [simp]: "unseen J h (Some (a, h))"
  by (simp add: unseen_def par_def)

lemma unseen_None [simp]: "unseen J h None"
  by (simp add: unseen_def par_def)

lemma unseen_bind:
  assumes "unseen J h m" and "\<And>a h'. unseen J h' (k (a, h'))"
  shows "unseen J h (m \<bind> k)"
proof (cases m)
  case (Some p)
  have "neutral J h (snd p)" using assms(1) Some by (auto simp: unseen_def par_def)
  moreover have "unseen J (snd p) (k p)" using assms(2) [of "snd p" "fst p"] by simp
  ultimately show ?thesis using Some by (auto simp: unseen_def par_def intro: neutral_trans)
qed simp

lemma unseen_pure: "(\<And>a. unseen J h (k a)) \<Longrightarrow> unseen J h (m \<bind> k)"
  by (cases m) auto

lemma unseen_map: "unseen J h m \<Longrightarrow> (\<And>a h'. snd (f (a, h')) = h') \<Longrightarrow> unseen J h (map_option f m)"
  by (cases m) (auto simp: unseen_def par_def split_beta)

lemma tot_unseen: "tot (\<lambda>(s, h'). neutral J h h') m \<Longrightarrow> unseen J h m"
  by (auto simp: tot_def unseen_def par_def)

lemma invisible_unseen: "invisible J h m \<Longrightarrow> unseen J h m"
  by (cases m) (auto simp: invisible_def unseen_def par_def)

lemma unseen_printers:
  assumes "jvm_ok J"
  shows "unseen J h (getJClassName J v h)" "unseen J h (print_jstring J v h)" "unseen J h (print_jobject_safe J v h)"
    "unseen J h (print_jobject_or_string J v h)"
  by (rule tot_unseen, rule getJClassName_runs print_jstring_runs print_jobject_safe_runs print_jobject_or_string_runs, rule assms)+

lemma unseen_formats:
  assumes "jvm_ok J"
  shows "unseen J h (fmt_object J v h)" "unseen J h (fmt_bool J v h)" "unseen J h (fmt_byte J v h)" "unseen J h (fmt_char J v h)"
    "unseen J h (fmt_short J v h)" "unseen J h (fmt_int J v h)" "unseen J h (fmt_long J v h)" "unseen J h (fmt_float J v h)"
    "unseen J h (fmt_double J v h)" "unseen J h (fmt_nonzero J v h)" "unseen J h (class_text J v h)"
  using unseen_printers [OF assms]
  by (auto simp: fmt_object_def fmt_bool_def fmt_byte_def fmt_char_def fmt_short_def fmt_int_def fmt_long_def fmt_float_def
      fmt_double_def fmt_nonzero_def class_text_def intro!: unseen_map)

lemma unseen_method_of: "jvm_ok J \<Longrightarrow> unseen J h (method_of J ob mid st v h)"
  unfolding method_of_def by (rule unseen_map [OF invisible_unseen [OF getMethodInfoResolved_invisible]]) auto

lemma unseen_field_of: "jvm_ok J \<Longrightarrow> unseen J h (field_of J ob fid st v h)"
  unfolding field_of_def by (rule unseen_map [OF invisible_unseen [OF getFieldInfoResolved_invisible]]) auto

subsection \<open>Arguments of a call\<close>

lemma leakless_Some [simp]: "leakless J h (Some (a, h))"
  by (simp add: leakless_def par_def)

lemma leakless_bind:
  assumes "leakless J h m" and "\<And>a h'. leakless J h' (k (a, h'))"
  shows "leakless J h (m \<bind> k)"
proof (cases m)
  case (Some p)
  have "grown J h {#} (snd p)" using assms(1) Some by (auto simp: leakless_def par_def)
  moreover have "leakless J (snd p) (k p)" using assms(2) [of "snd p" "fst p"] by simp
  ultimately show ?thesis using Some grown_trans [of J h "{#}" "snd p" "{#}"] by (auto simp: leakless_def par_def)
qed (simp add: leakless_def par_def)

lemma leakless_pure: "(\<And>a. leakless J h (k a)) \<Longrightarrow> leakless J h (m \<bind> k)"
  by (cases m) (auto simp: leakless_def par_def)

lemma unseen_leakless: "unseen J h m \<Longrightarrow> leakless J h m"
  by (auto simp: unseen_def leakless_def par_def neutral_grown)

lemma leakless_is_jstring:
  assumes "jvm_ok J"
  shows "leakless J h (is_jstring J ob h)"
proof (cases "jv_exc J h = None")
  case True
  from is_jstring_runs [OF assms this, of ob] show ?thesis by (auto simp: tot_def leakless_def par_def)
qed (auto simp: is_jstring_def proxy_Jni_def leakless_def par_def)

lemma leakless_va_arg:
  assumes J: "jvm_ok J"
  shows "leakless J h (va_arg_text J c v h)"
proof -
  note p = unseen_leakless [OF unseen_printers(2) [OF J]] unseen_leakless [OF unseen_printers(3) [OF J]]
  have "leakless J h (do { (isStr, h) \<leftarrow> is_jstring J v h; if isStr then print_jstring J v h else print_jobject_safe J v h })"
    by (rule leakless_bind [OF leakless_is_jstring [OF J]]) (simp add: p)
  then show ?thesis by (simp add: va_arg_text_def p)
qed

lemma leakless_va_loop:
  assumes J: "jvm_ok J"
  shows "leakless J h (va_loop J p first st h)"
proof (induction p arbitrary: first st h rule: length_induct)
  case (1 p)
  show ?case
  proof (cases "p = [] \<or> hd p = CHR '')''")
    case True
    then show ?thesis by (subst va_loop.simps) simp
  next
    case False
    then have IH: "leakless J h (va_loop J (skip_descriptor p) False st h)" for st h
      using 1 skip_descriptor_shorter by blast
    have step: "leakless J h1 (do { (s, h2) \<leftarrow> va_arg_text J (hd p) v h1;
        (rest, h3) \<leftarrow> va_loop J (skip_descriptor p) False st' h2; Some ((if first then [] else '', '') @ s @ rest, h3) })" for v st' h1
      by (rule leakless_bind [OF leakless_va_arg [OF J]], simp only: prod.case, rule leakless_bind [OF IH], simp)
    have loop: "va_loop J p first st h = Option.bind (next_gp_arg (jv_mem J h) st) (\<lambda>(v, st').
        do { (s, h2) \<leftarrow> va_arg_text J (hd p) v h;
             (rest, h3) \<leftarrow> va_loop J (skip_descriptor p) False st' h2; Some ((if first then [] else '', '') @ s @ rest, h3) })"
      using False by (subst va_loop.simps) (simp only: if_False)
    show ?thesis unfolding loop by (rule leakless_pure) (simp only: split_beta step)
  qed
qed

lemma unseen_va_args:
  assumes "jvm_ok J"
  shows "unseen J h (print_va_args_from_sig J sig va h)"
proof (cases "sig = [] \<or> va = 0")
  case False
  have "leakless J h (case str_find CHR ''('' sig of None \<Rightarrow> Some ([], h)
        | Some paren \<Rightarrow> do { st \<leftarrow> va_start (jv_mem J h) va; va_loop J (c_str (drop (paren + 1) sig)) True st h })" for h
    by (auto split: option.splits intro!: leakless_pure leakless_va_loop assms)
  then show ?thesis
    unfolding print_va_args_from_sig_def if_not_P [OF False] unseen_def
    by (intro guard_neutral [OF assms]) (simp add: leakless_def)
qed (simp add: print_va_args_from_sig_def)

subsection \<open>The table\<close>

text \<open>The handlers by the name of the field of the function table they are registered for, in the order of the source.\<close>

definition jni_handlers :: "(string \<times> jni_fn) list" where
  "jni_handlers =
     [(''GetVersion'', Trace_GetVersion), (''DefineClass'', Trace_DefineClass), (''FindClass'', Trace_FindClass),
       (''GetSuperclass'', Trace_GetSuperclass), (''IsAssignableFrom'', Trace_IsAssignableFrom), (''GetObjectClass'',
       Trace_GetObjectClass), (''IsInstanceOf'', Trace_IsInstanceOf), (''IsSameObject'', Trace_IsSameObject),
       (''Throw'', Trace_Throw), (''ThrowNew'', Trace_ThrowNew), (''ExceptionOccurred'', Trace_ExceptionOccurred),
       (''ExceptionDescribe'', Trace_ExceptionDescribe), (''ExceptionClear'', Trace_ExceptionClear),
       (''ExceptionCheck'', Trace_ExceptionCheck), (''NewGlobalRef'', Trace_NewGlobalRef), (''DeleteGlobalRef'',
       Trace_DeleteGlobalRef), (''NewLocalRef'', Trace_NewLocalRef), (''DeleteLocalRef'', Trace_DeleteLocalRef),
       (''NewWeakGlobalRef'', Trace_NewWeakGlobalRef), (''DeleteWeakGlobalRef'', Trace_DeleteWeakGlobalRef),
       (''EnsureLocalCapacity'', Trace_EnsureLocalCapacity), (''PushLocalFrame'', Trace_PushLocalFrame),
       (''PopLocalFrame'', Trace_PopLocalFrame), (''AllocObject'', Trace_AllocObject), (''NewObjectV'',
       Trace_NewObjectV), (''GetMethodID'', Trace_GetMethodID), (''GetStaticMethodID'', Trace_GetStaticMethodID)] @
     call_methods @
     [(''CallVoidMethodV'', Trace_CallVoidMethodV)] @
     call_static_methods @
     [(''CallStaticVoidMethodV'', Trace_CallStaticVoidMethodV)] @
     call_nonvirtual_methods @
     [(''CallNonvirtualVoidMethodV'', Trace_CallNonvirtualVoidMethodV), (''GetFieldID'', Trace_GetFieldID),
       (''GetStaticFieldID'', Trace_GetStaticFieldID)] @
     get_fields @
     set_fields @
     get_static_fields @
     set_static_fields @
     [(''NewString'', Trace_NewString), (''GetStringLength'', Trace_GetStringLength), (''GetStringChars'',
       Trace_GetStringChars), (''ReleaseStringChars'', Trace_ReleaseStringChars), (''NewStringUTF'',
       Trace_NewStringUTF), (''GetStringUTFLength'', Trace_GetStringUTFLength), (''GetStringUTFChars'',
       Trace_GetStringUTFChars), (''ReleaseStringUTFChars'', Trace_ReleaseStringUTFChars), (''GetStringCritical'',
       Trace_GetStringCritical), (''ReleaseStringCritical'', Trace_ReleaseStringCritical), (''GetStringRegion'',
       Trace_GetStringRegion), (''GetStringUTFRegion'', Trace_GetStringUTFRegion), (''GetArrayLength'',
       Trace_GetArrayLength), (''NewObjectArray'', Trace_NewObjectArray), (''GetObjectArrayElement'',
       Trace_GetObjectArrayElement), (''SetObjectArrayElement'', Trace_SetObjectArrayElement)] @
     new_arrays @
     array_elements @
     release_elements @
     get_array_regions @
     set_array_regions @
     [(''RegisterNatives'', Trace_RegisterNatives), (''MonitorEnter'', Trace_MonitorEnter), (''MonitorExit'',
       Trace_MonitorExit), (''GetJavaVM'', Trace_GetJavaVM), (''ToReflectedMethod'', Trace_ToReflectedMethod),
       (''ToReflectedField'', Trace_ToReflectedField), (''FromReflectedMethod'', Trace_FromReflectedMethod),
       (''FromReflectedField'', Trace_FromReflectedField), (''NewDirectByteBuffer'', Trace_NewDirectByteBuffer),
       (''GetDirectBufferAddress'', Trace_GetDirectBufferAddress), (''GetDirectBufferCapacity'',
       Trace_GetDirectBufferCapacity), (''GetObjectRefType'', Trace_GetObjectRefType),
       (''GetPrimitiveArrayCritical'', Trace_GetPrimitiveArrayCritical), (''ReleasePrimitiveArrayCritical'',
       Trace_ReleasePrimitiveArrayCritical), (''FatalError'', Trace_FatalError), (''UnregisterNatives'',
       Trace_UnregisterNatives)]"

type_synonym jni_table = "(u64 \<times> jni_fn) list"

text \<open>
  \<open>jniTraceTable[f->FIELD] = HANDLER\<close> for every field, whose address is \<open>F\<close> of its name, then the addresses found for
  \<open>ArtMethod::RegisterNative\<close>; a later entry for an address replaces an earlier one.
\<close>

definition tableInit :: "(string \<Rightarrow> u64) \<Rightarrow> u64 list \<Rightarrow> jni_table \<Rightarrow> jni_table" where
  "tableInit F arts t =
     fold (\<lambda>fn t. if fn \<noteq> 0 then (fn, Trace_Art_RegisterNative) # t else t) arts
       (fold (\<lambda>(n, f) t. (F n, f) # t) jni_handlers t)"

text \<open>
  Building the table, once: the VM is looked up through a symbol of libart, the thread is attached when it has no
  environment, the table is filled, and the range of libart's code is taken from the address of any entry. What the dynamic
  linker lists, what the created VM, \<open>GetEnv\<close> and \<open>AttachCurrentThread\<close> answer, the addresses in the function table and
  which entry comes first are arguments.
\<close>

record jni_globals =
  jg_table :: jni_table
  jg_vm :: u64
  jg_start :: u64
  jg_end :: u64

record vm_env =
  ve_objs :: "(string option \<times> u64) list"
  ve_created :: "u64 \<Rightarrow> u64 \<times> u64"
  ve_getenv :: "u64 \<Rightarrow> int"
  ve_attach :: "u64 \<Rightarrow> int"
  ve_field :: "string \<Rightarrow> u64"
  ve_first :: "jni_table \<Rightarrow> u64"

definition JNI_EDETACHED :: int where "JNI_EDETACHED = - 2"

definition get_vm :: "os_env \<Rightarrow> vm_env \<Rightarrow> jni_globals \<Rightarrow> sym_cache \<Rightarrow> ((bool \<times> jni_globals) \<times> sym_cache) option" where
  "get_vm os ve g c =
     (if jg_vm g \<noteq> 0 then Some ((True, g), c)
      else do { (fn, c) \<leftarrow> resolveSymbolInSo os (ve_objs ve) ''/libart.so'' (text_bytes ''JNI_GetCreatedJavaVMs'') c;
                if fn = 0 then Some ((False, g), c)
                else (case ve_created ve fn of (n, vm) \<Rightarrow> Some ((n \<noteq> 0 \<and> vm \<noteq> 0, g\<lparr>jg_vm := vm\<rparr>), c)) })"

definition art_range :: "mem \<Rightarrow> os_env \<Rightarrow> map_line list option \<Rightarrow> vm_env \<Rightarrow> jni_globals \<Rightarrow> library_info list
    \<Rightarrow> (jni_globals \<times> library_info list) option" where
  "art_range m os lines ve g libs =
     (if jg_start g = 0 \<and> jg_table g \<noteq> []
      then map_option (\<lambda>(i, libs).
             (if li_segments_start i \<noteq> 0 then g\<lparr>jg_start := li_segments_start i, jg_end := li_segments_end i\<rparr> else g, libs))
             (findModuleByAddressExact m os lines (ve_first ve (jg_table g)) libs)
      else Some (g, libs))"

definition jni_ensure_table :: "mem \<Rightarrow> os_env \<Rightarrow> map_line list option \<Rightarrow> vm_env \<Rightarrow> jni_globals \<Rightarrow> sym_cache \<Rightarrow> library_info list
    \<Rightarrow> ((jni_globals \<times> library_info list) \<times> sym_cache) option" where
  "jni_ensure_table m os lines ve g c libs =
     (if jg_table g \<noteq> [] then Some ((g, libs), c)
      else do {
        ((ok, g), c) \<leftarrow> get_vm os ve g c;
        if \<not> ok \<or> ve_getenv ve (jg_vm g) = JNI_EDETACHED \<and> ve_attach ve (jg_vm g) \<noteq> 0 then Some ((g, libs), c)
        else do {
          (a1, c) \<leftarrow> resolveSymbolInSo os (ve_objs ve) ''/libart.so'' (text_bytes ''_ZN3art9ArtMethod14RegisterNativeEPKv'') c;
          (a2, c) \<leftarrow> resolveSymbolInSo os (ve_objs ve) ''/libart.so'' (text_bytes ''_ZN3art9ArtMethod14RegisterNativeEPKvb'') c;
          r \<leftarrow> art_range m os lines ve (g\<lparr>jg_table := tableInit (ve_field ve) [a1, a2] []\<rparr>) libs;
          Some (r, c) } })"

text \<open>Handlers whose two halves are not seen.\<close>

definition inert_entry :: "jni_entry \<Rightarrow> bool" where
  "inert_entry e \<longleftrightarrow> (\<forall>J x v h. jvm_ok J \<longrightarrow> unseen J h (e J x v h))"

definition inert_result :: "jni_result \<Rightarrow> bool" where
  "inert_result r \<longleftrightarrow> (\<forall>J x v h. jvm_ok J \<longrightarrow> unseen J h (r J x v h))"

definition inert_fmt :: "value_fmt \<Rightarrow> bool" where
  "inert_fmt f \<longleftrightarrow> (\<forall>J v h. jvm_ok J \<longrightarrow> unseen J h (f J v h))"

definition inert_fn :: "jni_fn \<Rightarrow> bool" where
  "inert_fn f \<longleftrightarrow> (\<forall>J ph env addr lr x v h. jvm_ok J \<longrightarrow> unseen J h (f J ph env addr lr x v h))"

lemma inert_fmts:
  "inert_fmt fmt_object" "inert_fmt fmt_bool" "inert_fmt fmt_byte" "inert_fmt fmt_char" "inert_fmt fmt_short" "inert_fmt fmt_int"
  "inert_fmt fmt_long" "inert_fmt fmt_float" "inert_fmt fmt_double" "inert_fmt fmt_nonzero" "inert_fmt class_text"
  "inert_fmt print_jobject_safe" "inert_fmt print_jstring"
  by (simp_all add: inert_fmt_def unseen_formats unseen_printers)

lemma inert_object: "inert_fmt (\<lambda>J v h. if v \<noteq> 0 then print_jobject_safe J v h else Some (''null'', h))"
  unfolding inert_fmt_def using unseen_printers by simp

lemma inert_two:
  assumes "inert_entry e" "inert_result r"
  shows "inert_fn (two_halves e r)"
  unfolding inert_fn_def
proof (intro allI impI)
  fix J ph env addr lr x v h assume J: "jvm_ok J"
  then have "unseen J h (e J x v h)" "unseen J h (r J (x 0) v h)" using assms by (simp_all add: inert_entry_def inert_result_def)
  then show "unseen J h (two_halves e r J ph env addr lr x v h)"
    unfolding two_halves_def Let_def by (cases ph) (simp_all add: unseen_bind split_beta)
qed

lemma inert_plain: "inert_entry (plain_entry t)" "inert_result no_result" "inert_result (plain_result u)"
  by (simp_all add: inert_entry_def plain_entry_def inert_result_def no_result_def plain_result_def)

lemma inert_printed: "inert_fmt f \<Longrightarrow> inert_entry (printed_entry f t)" "inert_fmt f \<Longrightarrow> inert_result (printed_result f c)"
  unfolding inert_entry_def inert_result_def inert_fmt_def printed_entry_def printed_result_def by (auto intro!: unseen_bind)

lemma inert_two_printed: "inert_fmt f \<Longrightarrow> inert_fmt g \<Longrightarrow> inert_entry (two_printed f g n)"
  unfolding inert_entry_def inert_fmt_def two_printed_def by (auto intro!: unseen_bind)

lemma inert_results: "inert_result hex_result" "inert_result int_result" "inert_result bool_result" "inert_result object_result"
  by (simp_all add: hex_result_def int_result_def bool_result_def object_result_def inert_plain inert_printed inert_object)

lemma inert_calls: "inert_entry (object_call n)" "inert_entry (string_call n)" "inert_entry (class_call n)" "inert_entry (no_args n)"
  "inert_entry (region_call n)" "inert_entry (release_call n)"
  by (simp_all add: object_call_def string_call_def class_call_def no_args_def region_call_def release_call_def inert_plain
      inert_printed inert_fmts)

lemma inert_fmtD: "inert_fmt f \<Longrightarrow> jvm_ok J \<Longrightarrow> unseen J h (f J v h)"
  by (simp add: inert_fmt_def)

lemmas unseen_steps = unseen_formats(11) unseen_printers unseen_method_of unseen_field_of unseen_va_args

lemma inert_args: "inert_entry (instance_args n c)" "inert_entry (static_args n c)" "inert_entry (nonvirtual_args n c)"
proof -
  show "inert_entry (instance_args n c)"
    unfolding inert_entry_def instance_args_def
    by (intro allI impI, rule unseen_bind [OF unseen_method_of], assumption, clarsimp,
      rule unseen_bind [OF unseen_printers(3)], assumption, clarsimp, rule unseen_bind [OF unseen_va_args], assumption, clarsimp)
  show "inert_entry (static_args n c)"
    unfolding inert_entry_def static_args_def
    by (intro allI impI, rule unseen_bind [OF unseen_formats(11)], assumption, clarsimp,
      rule unseen_bind [OF unseen_method_of], assumption, clarsimp, rule unseen_bind [OF unseen_va_args], assumption, clarsimp)
  show "inert_entry (nonvirtual_args n c)"
    unfolding inert_entry_def nonvirtual_args_def
    by (intro allI impI, rule unseen_bind [OF unseen_formats(11)], assumption, clarsimp,
      rule unseen_bind [OF unseen_method_of], assumption, clarsimp,
      rule unseen_bind [OF unseen_printers(3)], assumption, clarsimp, rule unseen_bind [OF unseen_va_args], assumption, clarsimp)
qed

lemma unseen_shown:
  "inert_fmt f \<Longrightarrow> jvm_ok J \<Longrightarrow> unseen J h (if w then map_option (\<lambda>(s, h). ('', '' @ s @ '')'', h)) (f J v h) else Some ([], h))"
  by (cases w, simp, rule unseen_map, rule inert_fmtD) simp_all

lemma inert_fields:
  assumes "inert_fmt f"
  shows "inert_entry (instance_field n w f)" "inert_entry (static_field n w f)"
proof -
  show "inert_entry (instance_field n w f)"
    unfolding inert_entry_def instance_field_def
    by (intro allI impI, rule unseen_bind [OF unseen_field_of], assumption, simp only: split_paired_all prod.case,
      rule unseen_bind [OF unseen_printers(3)], assumption, simp only: prod.case,
      rule unseen_bind [OF unseen_shown [OF assms]], assumption, simp)
  show "inert_entry (static_field n w f)"
    unfolding inert_entry_def static_field_def
    by (intro allI impI, rule unseen_bind [OF unseen_formats(11)], assumption, simp only: prod.case,
      rule unseen_bind [OF unseen_field_of], assumption, simp only: split_paired_all prod.case,
      rule unseen_bind [OF unseen_shown [OF assms]], assumption, simp)
qed

lemma inert_ids: "inert_entry (id_entry f s)" "inert_result (method_id_result f)" "inert_result (field_id_result f)"
proof -
  show "inert_entry (id_entry f s)"
    unfolding inert_entry_def id_entry_def
    by (intro allI impI, rule unseen_bind [OF unseen_formats(11)], assumption, clarsimp, rule unseen_pure, rule unseen_pure, simp)
qed (simp_all add: inert_result_def method_id_result_def field_id_result_def Let_def)

lemma inert_families:
  assumes "inert_fmt f"
  shows "inert_fn (call_method_v n f)" "inert_fn (call_static_method_v n f)" "inert_fn (call_nonvirtual_method_v n f)"
    "inert_fn (get_field n f)" "inert_fn (set_field n f)" "inert_fn (get_static_field n f)" "inert_fn (set_static_field n f)"
  by (simp_all add: call_method_v_def call_static_method_v_def call_nonvirtual_method_v_def get_field_def set_field_def
      get_static_field_def set_static_field_def inert_two inert_args inert_fields inert_printed inert_plain assms)

lemma inert_arrays: "inert_fn (new_array n)" "inert_fn (array_region n)" "inert_fn (get_array_elements n)" "inert_fn (release_array_elements n)"
  by (simp_all add: new_array_def array_region_def get_array_elements_def release_array_elements_def inert_two inert_plain
      inert_printed inert_results inert_calls inert_fmts)

lemma inert_lists:
  "list_all (\<lambda>p. inert_fn (snd p)) call_methods" "list_all (\<lambda>p. inert_fn (snd p)) call_static_methods"
  "list_all (\<lambda>p. inert_fn (snd p)) call_nonvirtual_methods" "list_all (\<lambda>p. inert_fn (snd p)) get_fields"
  "list_all (\<lambda>p. inert_fn (snd p)) set_fields" "list_all (\<lambda>p. inert_fn (snd p)) get_static_fields"
  "list_all (\<lambda>p. inert_fn (snd p)) set_static_fields" "list_all (\<lambda>p. inert_fn (snd p)) new_arrays"
  "list_all (\<lambda>p. inert_fn (snd p)) array_elements" "list_all (\<lambda>p. inert_fn (snd p)) release_elements"
  "list_all (\<lambda>p. inert_fn (snd p)) get_array_regions" "list_all (\<lambda>p. inert_fn (snd p)) set_array_regions"
  by (simp_all add: call_methods_def call_static_methods_def call_nonvirtual_methods_def get_fields_def set_fields_def
      get_static_fields_def set_static_fields_def new_arrays_def array_elements_def release_elements_def get_array_regions_def
      set_array_regions_def array_family_def array_types_def inert_families inert_arrays inert_fmts)

text \<open>The single handlers whose entry reads memory or prints several things.\<close>

lemma inert_reads:
  "inert_entry (\<lambda>J x v h. do { s \<leftarrow> read_cstr J h (x 1); Some ((g s, v), h) })"
  by (simp add: inert_entry_def unseen_pure)

lemma inert_read_after_class:
  "inert_entry (\<lambda>J x v h. do { (cls, h) \<leftarrow> class_text J (x 1) h; msg \<leftarrow> read_cstr J h (x 2); Some ((g cls msg, v), h) })"
  unfolding inert_entry_def
  by (intro allI impI, rule unseen_bind [OF unseen_formats(11)], assumption, simp only: prod.case, rule unseen_pure, simp)

lemma inert_class_method:
  "inert_entry (\<lambda>J x v h. do { (cls, h) \<leftarrow> class_text J (x 1) h; ((mi, v), h) \<leftarrow> method_of J (x 1) (x 2) (st x) v h;
     Some ((g cls mi x, v), h) })"
  unfolding inert_entry_def
  by (intro allI impI, rule unseen_bind [OF unseen_formats(11)], assumption, simp only: prod.case,
    rule unseen_bind [OF unseen_method_of], assumption, simp only: split_paired_all prod.case, simp)

lemma inert_class_field:
  "inert_entry (\<lambda>J x v h. do { (cls, h) \<leftarrow> class_text J (x 1) h; ((fi, v), h) \<leftarrow> field_of J (x 1) (x 2) (st x) v h;
     Some ((g cls fi x, v), h) })"
  unfolding inert_entry_def
  by (intro allI impI, rule unseen_bind [OF unseen_formats(11)], assumption, simp only: prod.case,
    rule unseen_bind [OF unseen_field_of], assumption, simp only: split_paired_all prod.case, simp)

lemma inert_two_of:
  assumes "inert_fmt f" "inert_fmt g"
  shows "inert_entry (\<lambda>J x v h. do { (a, h) \<leftarrow> f J (x i) h; (b, h) \<leftarrow> g J (x k) h; Some ((t a b x, v), h) })"
  unfolding inert_entry_def
  by (intro allI impI, rule unseen_bind [OF inert_fmtD [OF assms(1)]], assumption, simp only: prod.case,
    rule unseen_bind [OF inert_fmtD [OF assms(2)]], assumption, simp)

lemmas inert_rules = inert_two inert_plain inert_printed inert_two_printed inert_results inert_calls inert_fmts inert_ids inert_args
  inert_reads inert_read_after_class inert_class_method inert_class_field inert_two_of

lemma inert_special: "inert_fn Trace_RegisterNatives" "inert_fn Trace_Art_RegisterNative" "inert_fn Trace_FatalError"
  "inert_fn Trace_FromReflectedMethod" "inert_fn Trace_FromReflectedField"
proof -
  show "inert_fn Trace_RegisterNatives"
    unfolding inert_fn_def Trace_RegisterNatives_def
    by (simp, intro allI impI conjI, rule unseen_bind [OF unseen_formats(11)], assumption, simp only: prod.case, rule unseen_pure, simp)
  show "inert_fn Trace_Art_RegisterNative"
    unfolding Trace_Art_RegisterNative_def
    by (rule inert_two [OF _ inert_plain(2)]) (simp add: inert_entry_def unseen_pure)
  show "inert_fn Trace_FatalError"
    by (simp add: inert_fn_def Trace_FatalError_def Let_def unseen_pure)
  show "inert_fn Trace_FromReflectedMethod" "inert_fn Trace_FromReflectedField"
    unfolding Trace_FromReflectedMethod_def Trace_FromReflectedField_def
    by (rule inert_two [OF inert_calls(1)], simp add: inert_result_def split_beta)+
qed

lemma inert_singles:
  shows "inert_fn Trace_FindClass" "inert_fn Trace_GetSuperclass" "inert_fn Trace_GetObjectClass" "inert_fn
    Trace_IsAssignableFrom" "inert_fn Trace_IsInstanceOf" "inert_fn Trace_IsSameObject" "inert_fn Trace_NewGlobalRef"
    "inert_fn Trace_DeleteGlobalRef" "inert_fn Trace_NewLocalRef" "inert_fn Trace_DeleteLocalRef" "inert_fn
    Trace_NewWeakGlobalRef" "inert_fn Trace_DeleteWeakGlobalRef" "inert_fn Trace_GetMethodID" "inert_fn
    Trace_GetStaticMethodID" "inert_fn Trace_GetFieldID" "inert_fn Trace_GetStaticFieldID" "inert_fn Trace_NewStringUTF"
    "inert_fn Trace_GetStringUTFChars" "inert_fn Trace_ReleaseStringUTFChars" "inert_fn Trace_GetStringLength" "inert_fn
    Trace_GetStringUTFLength" "inert_fn Trace_NewString" "inert_fn Trace_GetStringChars" "inert_fn Trace_ReleaseStringChars"
    "inert_fn Trace_GetStringCritical" "inert_fn Trace_ReleaseStringCritical" "inert_fn Trace_GetStringRegion" "inert_fn
    Trace_GetStringUTFRegion" "inert_fn Trace_NewObjectV" "inert_fn Trace_AllocObject" "inert_fn Trace_CallVoidMethodV"
    "inert_fn Trace_CallStaticVoidMethodV" "inert_fn Trace_CallNonvirtualVoidMethodV" "inert_fn Trace_GetArrayLength"
    "inert_fn Trace_NewObjectArray" "inert_fn Trace_GetObjectArrayElement" "inert_fn Trace_SetObjectArrayElement" "inert_fn
    Trace_GetPrimitiveArrayCritical" "inert_fn Trace_ReleasePrimitiveArrayCritical" "inert_fn Trace_ExceptionCheck"
    "inert_fn Trace_ExceptionClear" "inert_fn Trace_ExceptionOccurred" "inert_fn Trace_ExceptionDescribe" "inert_fn
    Trace_Throw" "inert_fn Trace_ThrowNew" "inert_fn Trace_ToReflectedMethod" "inert_fn Trace_ToReflectedField" "inert_fn
    Trace_MonitorEnter" "inert_fn Trace_MonitorExit" "inert_fn Trace_GetJavaVM" "inert_fn Trace_GetVersion" "inert_fn
    Trace_DefineClass" "inert_fn Trace_EnsureLocalCapacity" "inert_fn Trace_PushLocalFrame" "inert_fn Trace_PopLocalFrame"
    "inert_fn Trace_NewDirectByteBuffer" "inert_fn Trace_GetDirectBufferAddress" "inert_fn Trace_GetDirectBufferCapacity"
    "inert_fn Trace_GetObjectRefType" "inert_fn Trace_UnregisterNatives"
  unfolding Trace_FindClass_def Trace_GetSuperclass_def Trace_GetObjectClass_def Trace_IsAssignableFrom_def Trace_IsInstanceOf_def
      Trace_IsSameObject_def Trace_NewGlobalRef_def Trace_DeleteGlobalRef_def Trace_NewLocalRef_def Trace_DeleteLocalRef_def
      Trace_NewWeakGlobalRef_def Trace_DeleteWeakGlobalRef_def Trace_GetMethodID_def Trace_GetStaticMethodID_def
      Trace_GetFieldID_def Trace_GetStaticFieldID_def Trace_NewStringUTF_def Trace_GetStringUTFChars_def
      Trace_ReleaseStringUTFChars_def Trace_GetStringLength_def Trace_GetStringUTFLength_def Trace_NewString_def
      Trace_GetStringChars_def Trace_ReleaseStringChars_def Trace_GetStringCritical_def Trace_ReleaseStringCritical_def
      Trace_GetStringRegion_def Trace_GetStringUTFRegion_def Trace_NewObjectV_def Trace_AllocObject_def
      Trace_CallVoidMethodV_def Trace_CallStaticVoidMethodV_def Trace_CallNonvirtualVoidMethodV_def Trace_GetArrayLength_def
      Trace_NewObjectArray_def Trace_GetObjectArrayElement_def Trace_SetObjectArrayElement_def
      Trace_GetPrimitiveArrayCritical_def Trace_ReleasePrimitiveArrayCritical_def Trace_ExceptionCheck_def
      Trace_ExceptionClear_def Trace_ExceptionOccurred_def Trace_ExceptionDescribe_def Trace_Throw_def Trace_ThrowNew_def
      Trace_ToReflectedMethod_def Trace_ToReflectedField_def Trace_MonitorEnter_def Trace_MonitorExit_def Trace_GetJavaVM_def
      Trace_GetVersion_def Trace_DefineClass_def Trace_EnsureLocalCapacity_def Trace_PushLocalFrame_def
      Trace_PopLocalFrame_def Trace_NewDirectByteBuffer_def Trace_GetDirectBufferAddress_def Trace_GetDirectBufferCapacity_def
      Trace_GetObjectRefType_def Trace_UnregisterNatives_def
  by (rule inert_rules; (rule inert_rules)?)+

lemma inert_handlers: "list_all (\<lambda>p. inert_fn (snd p)) jni_handlers"
  unfolding jni_handlers_def list_all_append list.pred_inject snd_conv
  by (intro conjI inert_lists inert_singles inert_special) simp_all

lemma table_arts:
  "snd ` set (fold (\<lambda>fn t. if fn \<noteq> 0 then (fn, Trace_Art_RegisterNative) # t else t) arts t) \<subseteq> insert Trace_Art_RegisterNative (snd ` set t)"
proof (induction arts arbitrary: t)
  case (Cons a arts)
  show ?case using Cons.IH [of "if a \<noteq> 0 then (a, Trace_Art_RegisterNative) # t else t"] by (cases "a = 0") simp_all
qed auto

lemma table_fields: "snd ` set (fold (\<lambda>(n, f) t. (F n, f) # t) hs t) \<subseteq> snd ` set hs \<union> snd ` set t"
proof (induction hs arbitrary: t)
  case (Cons p hs)
  show ?case using Cons.IH [of "(F (fst p), snd p) # t"] by (auto simp: split_beta)
qed simp

lemma table_inert:
  assumes "map_of (tableInit F arts []) a = Some f"
  shows "inert_fn f"
proof -
  have "snd ` set (tableInit F arts []) \<subseteq> insert Trace_Art_RegisterNative (snd ` set jni_handlers)"
    unfolding tableInit_def using table_fields [of F jni_handlers "[]"] by (intro order_trans [OF table_arts]) auto
  moreover have "(a, f) \<in> set (tableInit F arts [])" using assms by (rule map_of_SomeD)
  then have "f \<in> snd ` set (tableInit F arts [])" by (metis image_eqI snd_conv)
  ultimately consider "f = Trace_Art_RegisterNative" | p where "p \<in> set jni_handlers" "f = snd p" by blast
  then show ?thesis
  proof cases
    case 2
    then show ?thesis using inert_handlers unfolding list_all_iff by blast
  qed (simp add: inert_special)
qed

text \<open>However often the table is asked for, it is empty or has handlers that are not seen, and it is built once.\<close>

lemma ensure_table:
  assumes "jni_ensure_table m os lines ve g c libs = Some ((g', libs'), c')" and "jg_table g = []"
  shows "\<forall>a f. map_of (jg_table g') a = Some f \<longrightarrow> inert_fn f"
proof -
  have table: "jg_table g2 = jg_table g1" if "art_range m os lines ve g1 l = Some (g2, l2)" for g1 g2 l l2
    using that by (auto simp: art_range_def split: if_splits)
  have "jg_table g1 = jg_table g" if "get_vm os ve g c = Some ((ok, g1), c1)" for ok g1 c1
    using that by (auto simp: get_vm_def bind_eq_Some_conv split: if_splits prod.splits)
  then have "jg_table g' = [] \<or> (\<exists>arts. jg_table g' = tableInit (ve_field ve) arts [])"
    using assms by (auto simp: jni_ensure_table_def bind_eq_Some_conv dest!: table split: if_splits)
  then show ?thesis using table_inert by auto
qed

lemma ensure_table_once: "jg_table g \<noteq> [] \<Longrightarrow> jni_ensure_table m os lines ve g c libs = Some ((g, libs), c)"
  by (simp add: jni_ensure_table_def)

text \<open>C12 (the traced program does not notice). Whatever table \<open>tableInit\<close> builds and whichever handler is found in it: when the first or
  the second half of a traced JNI call returns, the pending exception, the local references and the objects behind them are what they
  were, for every VM that keeps the rules of JNI.\<close>

theorem handlers_neutral:
  assumes "jvm_ok J" and "map_of (tableInit F arts []) a = Some f"
    and "f J at_return env addr lr x v h = Some (r, h')"
  shows "neutral J h h'"
proof -
  have "unseen J h (f J at_return env addr lr x v h)" using table_inert [OF assms(2)] assms(1) unfolding inert_fn_def by blast
  then show ?thesis by (simp add: unseen_def par_def assms(3))
qed

text \<open>The last entry of the table, called with class 9 while the exception is pending.\<close>

lemma demo_table: "map_of (tableInit (\<lambda>n. if n = ''UnregisterNatives'' then 8 else 10) [] []) 8 = Some Trace_UnregisterNatives"
  by (simp add: tableInit_def jni_handlers_def fold_append)

lemma handlers_neutral_witness:
  "\<exists>r h'. Trace_UnregisterNatives demo_jvm False 0 8 0 (\<lambda>i. 9)
     \<lparr>jn_oss = [], jn_methods = Map.empty, jn_fields = Map.empty, jn_bridge = (\<lambda>f. ([], [], []))\<rparr> [] = Some (r, h') \<and>
     jv_exc demo_jvm h' = Some 7 \<and> jv_refs demo_jvm h' = [{#}]"
proof -
  obtain s h' where "class_text demo_jvm 9 [] = Some (s, h')"
    using getJClassName_runs [OF demo_jvm_ok, of "[]" 9] by (auto simp: tot_def class_text_def)
  then obtain r where r: "Trace_UnregisterNatives demo_jvm False 0 8 0 (\<lambda>i. 9)
     \<lparr>jn_oss = [], jn_methods = Map.empty, jn_fields = Map.empty, jn_bridge = (\<lambda>f. ([], [], []))\<rparr> [] = Some (r, h')"
    by (simp add: Trace_UnregisterNatives_def two_halves_def class_call_def printed_entry_def)
  from handlers_neutral [OF demo_jvm_ok demo_table r] show ?thesis using r by (auto simp: neutral_def demo_jvm_def)
qed

end
