(* ===== verification/Jni_Lines.thy ===== *)
theory Jni_Lines
  imports Jni_Table
begin

text \<open>
  What the lines of JNI calls say (\<open>trace/src/JniTrace.cpp\<close>): the arguments of a call are those of its \<open>va_list\<close> as
  long as none is floating point, and a method whose id was asked for under the trace is known by name from then on,
  with no call into the VM. Two errors follow: a floating point argument shifts the ones behind it, and reflection
  under a failing class lookup makes a call that ART answers with an abort.
\<close>

subsection \<open>Arguments\<close>

text \<open>
  The specification: with \<open>g\<close> general registers left below \<open>gtop\<close>, the \<open>k\<close>-th argument lies in them or on the stack.
\<close>

definition slot :: "nat \<Rightarrow> u64 \<Rightarrow> u64 \<Rightarrow> nat \<Rightarrow> u64" where
  "slot g gtop stack k = (if k < g then gtop - 8 * of_nat (g - k) else stack + 8 * of_nat (k - g))"

definition prim_text :: "char \<Rightarrow> u64 \<Rightarrow> string" where
  "prim_text c v =
     (if c = CHR ''Z'' then bool_text ((ucast v :: u32) \<noteq> 0)
      else if c = CHR ''B'' then sdec8 v
      else if c = CHR ''C'' then char_text v
      else if c = CHR ''S'' then sdec16 v
      else if c = CHR ''I'' then sdec32 v
      else appendSignedDecVal v)"

definition va_at :: "nat \<Rightarrow> u64 \<Rightarrow> u64 \<Rightarrow> va_state" where
  "va_at g gtop stack = \<lparr>va_offs = - 8 * int g, va_top = gtop, va_stack = stack\<rparr>"

lemma slot_0: "slot g gtop stack 0 = (if g = 0 then stack else gtop + word_of_int (- 8 * int g))"
  by (simp add: slot_def wi_hom_mult [symmetric] wi_hom_neg [symmetric])

lemma next_gp_arg_at:
  assumes "load64 m (slot g gtop stack 0) = Some v"
  shows "next_gp_arg m (va_at g gtop stack) =
    Some (v, va_at (g - 1) gtop (if g = 0 then stack + 8 else stack))"
  using assms unfolding next_gp_arg_def slot_0 va_at_def by (cases g) auto

lemma slot_Suc: "slot g gtop stack (Suc k) = slot (g - 1) gtop (if g = 0 then stack + 8 else stack) k"
  by (cases g) (auto simp: slot_def algebra_simps)

lemma va_prim_text: "c \<in> set ''ZBCSIJ'' \<Longrightarrow> va_arg_text J c v h = Some (prim_text c v, h)"
  by (auto simp: va_arg_text_def prim_text_def)

lemma skip_prim: "c \<in> set ''ZBCSIJ'' \<Longrightarrow> skip_descriptor (c # p) = p"
  by (auto simp: skip_descriptor_def)

lemma va_loop_prims:
  assumes "set ts \<subseteq> set ''ZBCSIJ''" and "length vs = length ts"
    and "\<And>k. k < length ts \<Longrightarrow> load64 (jv_mem J h) (slot g gtop stack k) = Some (vs ! k)"
  shows "va_loop J (ts @ CHR '')'' # r) first (va_at g gtop stack) h =
    Some ((if first \<or> ts = [] then [] else '', '') @ join_comma (map2 prim_text ts vs), h)"
  using assms
proof (induction ts arbitrary: vs g stack first)
  case Nil
  then show ?case by (subst va_loop.simps) simp
next
  case (Cons c ts)
  then obtain v ws where vs: "vs = v # ws" "length ws = length ts" by (cases vs) auto
  let ?g = "g - 1" and ?s = "if g = 0 then stack + 8 else stack"
  have c: "c \<in> set ''ZBCSIJ''" "set ts \<subseteq> set ''ZBCSIJ''" using Cons.prems(1) by auto
  then have ne: "c \<noteq> CHR '')''" by auto
  have "load64 (jv_mem J h) (slot g gtop stack 0) = Some v" using Cons.prems(3) [of 0] vs by simp
  note next1 = next_gp_arg_at [OF this]
  have "load64 (jv_mem J h) (slot ?g gtop ?s k) = Some (ws ! k)" if "k < length ts" for k
    using Cons.prems(3) [of "Suc k"] that vs(1) unfolding slot_Suc by simp
  from Cons.IH [OF c(2) vs(2) this, of "False"] next1
  obtain st where next_arg: "next_gp_arg (jv_mem J h) (va_at g gtop stack) = Some (v, st)"
    and rest: "va_loop J (ts @ CHR '')'' # r) False st h =
      Some ((if ts = [] then [] else '', '') @ join_comma (map2 prim_text ts ws), h)" by simp
  have joined: "join_comma (map2 prim_text (c # ts) (v # ws)) =
      prim_text c v @ (if ts = [] then [] else '', '') @ join_comma (map2 prim_text ts ws)"
    using vs(2) by (cases ts; cases ws) auto
  have "va_loop J (c # ts @ CHR '')'' # r) first (va_at g gtop stack) h =
      Some ((if first then [] else '', '') @ prim_text c v @ (if ts = [] then [] else '', '') @ join_comma (map2 prim_text ts ws), h)"
    by (subst va_loop.simps) (simp add: ne next_arg va_prim_text [OF c(1)] skip_prim [OF c(1)] rest)
  then show ?case unfolding vs(1) joined by simp
qed

lemma guard_value:
  assumes J: "jvm_ok J" and f: "\<And>h. f h = Some (a, h)"
  shows "\<exists>h'. with_guard J f h0 = Some (a, h') \<and> neutral J h0 h'"
proof -
  obtain h2 where "\<And>a h3. f h2 = Some (a, h3) \<Longrightarrow> grown J h2 {#} h3 \<Longrightarrow> tot (\<lambda>(b, h'). b = a \<and> neutral J h0 h') (with_guard J f h0)"
    by (rule guard_body [OF J, of f h0]) blast
  from this [OF f grown_refl] show ?thesis by (auto simp: tot_def)
qed

lemma printed_args:
  assumes J: "jvm_ok J" and mem: "\<And>h. jv_mem J h = m" and va: "va \<noteq> 0" "va_start m va = Some st"
    and loop: "\<And>h. va_loop J (c_str ts) True st h = Some (s, h)"
  shows "\<exists>h'. print_va_args_from_sig J (CHR ''('' # ts) va h = Some (s, h') \<and> neutral J h h'"
proof -
  have paren: "str_find CHR ''('' (CHR ''('' # ts) = Some 0" using str_find_first [of "CHR ''(''" "[]" ts] by simp
  show ?thesis
    unfolding print_va_args_from_sig_def using va(1)
    by (simp add: paren) (rule guard_value [OF J], simp add: mem va(2) loop)
qed

text \<open>C20 (arguments of JNI calls). For a descriptor of integral parameters the printer shows the arguments that the calling
  convention put into the \<open>va_list\<close>, registers first, in order and separated by commas, and the traced program sees nothing of it.\<close>

theorem va_args_in_order:
  assumes "jvm_ok J" and "\<And>h. jv_mem J h = m" and "va \<noteq> 0" and "va_start m va = Some (va_at g gtop stack)"
    and "set ts \<subseteq> set ''ZBCSIJ''" and "length vs = length ts"
    and "\<And>k. k < length ts \<Longrightarrow> load64 m (slot g gtop stack k) = Some (vs ! k)"
  shows "\<exists>h'. print_va_args_from_sig J (''('' @ ts @ '')'' @ r) va h = Some (join_comma (map2 prim_text ts vs), h') \<and> neutral J h h'"
proof -
  have "\<forall>c \<in> set ts. c \<noteq> CHR 0x00" using assms(5) by auto
  then have c: "c_str (ts @ CHR '')'' # r) = ts @ CHR '')'' # c_str r" by (simp add: c_str_def)
  show ?thesis
    using printed_args [OF assms(1-4), of "ts @ CHR '')'' # r"] va_loop_prims [OF assms(5,6), of J _ g gtop stack "c_str r" True]
      assms(2,7) by (simp add: c)
qed

text \<open>C37 (a float in front shifts the others). \<open>float\<close> and \<open>double\<close> are passed in vector registers, so the integral arguments
  behind a leading \<open>float\<close> lie in the slots from the first on; the printer takes a slot for the \<open>float\<close>, and shows for each
  argument behind it the content of the next slot.\<close>

theorem va_float_shifts:
  assumes "jvm_ok J" and "\<And>h. jv_mem J h = m" and "va \<noteq> 0" and "va_start m va = Some (va_at g gtop stack)"
    and "set ts \<subseteq> set ''ZBCSIJ''" and "length vs = Suc (length ts)"
    and "\<And>k. k \<le> length ts \<Longrightarrow> load64 m (slot g gtop stack k) = Some (vs ! k)"
  shows "\<exists>h'. print_va_args_from_sig J (''(F'' @ ts @ '')'' @ r) va h =
    Some (''float'' @ (if ts = [] then [] else '', '') @ join_comma (map2 prim_text ts (tl vs)), h')"
proof -
  obtain v ws where vs: "vs = v # ws" "length ws = length ts" using assms(6) by (cases vs) auto
  have "\<forall>c \<in> set ts. c \<noteq> CHR 0x00" using assms(5) by auto
  then have c: "c_str (CHR ''F'' # ts @ CHR '')'' # r) = CHR ''F'' # ts @ CHR '')'' # c_str r" by (simp add: c_str_def)
  have "load64 m (slot g gtop stack 0) = Some v" using assms(7) [of 0] vs by simp
  note next1 = next_gp_arg_at [OF this]
  have slots: "load64 m (slot (g - 1) gtop (if g = 0 then stack + 8 else stack) k) = Some (ws ! k)" if "k < length ts" for k
    using assms(7) [of "Suc k"] that vs(1) unfolding slot_Suc by simp
  have rest: "va_loop J (ts @ CHR '')'' # c_str r) False (va_at (g - 1) gtop (if g = 0 then stack + 8 else stack)) h =
      Some ((if ts = [] then [] else '', '') @ join_comma (map2 prim_text ts ws), h)" for h
    using va_loop_prims [OF assms(5) vs(2), of J h "g - 1" gtop "if g = 0 then stack + 8 else stack" "c_str r" False] slots assms(2)
    by simp
  have "va_loop J (CHR ''F'' # ts @ CHR '')'' # c_str r) True (va_at g gtop stack) h =
      Some (''float'' @ (if ts = [] then [] else '', '') @ join_comma (map2 prim_text ts ws), h)" for h
    by (subst va_loop.simps) (simp add: assms(2) next1 rest [simplified] va_arg_text_def skip_descriptor_def)
  from printed_args [OF assms(1-4), of "CHR ''F'' # ts @ CHR '')'' # r", where h = h, unfolded c, OF this]
  show ?thesis unfolding vs(1) by auto
qed

text \<open>The VM of before with a \<open>va_list\<close> at 8192: one register slot at 8704 that holds 7, and -2 and 9 on the stack at 8448.\<close>

definition word_bytes :: "nat \<Rightarrow> u64 \<Rightarrow> mem" where
  "word_bytes a v n = (if a \<le> n \<and> n < a + 8 then Some (word_of_nat (unat v div 256 ^ (n - a))) else None)"

definition demo_va_mem :: mem where
  "demo_va_mem =
     (word_bytes 8192 8448 ++ word_bytes 8200 8712 ++ word_bytes 8216 0xFFFFFFF8 ++ word_bytes 8704 7 ++
      word_bytes 8448 0xFFFFFFFFFFFFFFFE ++ word_bytes 8456 9) ++
     [4096 \<mapsto> 0x61, 4097 \<mapsto> 0x2E, 4098 \<mapsto> 0x42, 4099 \<mapsto> 0]"

definition demo_va_jvm :: jvm where
  "demo_va_jvm = demo_jvm\<lparr>jv_mem := (\<lambda>h. demo_va_mem)\<rparr>"

lemma demo_va_jvm_ok: "jvm_ok demo_va_jvm"
proof -
  have "cstr_from demo_va_mem 4096 = Some ''a.B''"
    by (simp add: cstr_from.simps demo_va_mem_def) code_simp
  then have "call_law demo_va_jvm h c (demo_ans h c) (c # h)" if "demo_exc h = None \<or> exc_safe c" for h c
    using that
    by (cases c) (auto simp: demo_va_jvm_def demo_jvm_def same_refs_def adds_ref_def split: option.splits dest: demo_exc_nonzero)
  then show ?thesis unfolding jvm_ok_def by (simp add: demo_va_jvm_def demo_jvm_def demo_refs_nonempty)
qed

lemma demo_va_words:
  "load64 demo_va_mem 8192 = Some 8448" "load64 demo_va_mem 8200 = Some 8712" "load32 demo_va_mem 8216 = Some 0xFFFFFFF8"
  "load64 demo_va_mem 8704 = Some 7" "load64 demo_va_mem 8448 = Some 0xFFFFFFFFFFFFFFFE" "load64 demo_va_mem 8456 = Some 9"
  by (simp_all add: load64_def load32_def read_range_def demo_va_mem_def word_bytes_def map_add_def upt_rec_numeral)

lemma demo_va_start: "va_start demo_va_mem 8192 = Some (va_at 1 8712 8448)"
  by (simp add: va_start_def va_at_def demo_va_words)

lemma demo_va_slots:
  "load64 demo_va_mem (slot 1 8712 8448 0) = Some 7" "load64 demo_va_mem (slot 1 8712 8448 1) = Some 0xFFFFFFFFFFFFFFFE"
  by (simp_all add: slot_def demo_va_words)

lemma va_args_in_order_witness:
  "\<exists>h'. print_va_args_from_sig demo_va_jvm ''(ZI)V'' 8192 [] = Some (''true, -2'', h') \<and> jv_exc demo_va_jvm h' = Some 7"
proof -
  have slots: "load64 demo_va_mem (slot 1 8712 8448 k) = Some ([7, 0xFFFFFFFFFFFFFFFE] ! k)" if "k < length ''ZI''" for k
    using that demo_va_slots by (cases k) auto
  have mem: "jv_mem demo_va_jvm h = demo_va_mem" for h by (simp add: demo_va_jvm_def)
  have shown: "join_comma (map2 prim_text ''ZI'' [7, 0xFFFFFFFFFFFFFFFE]) = ''true, -2''" by code_simp
  have "\<exists>h'. print_va_args_from_sig demo_va_jvm (''('' @ ''ZI'' @ '')'' @ ''V'') 8192 [] =
      Some (join_comma (map2 prim_text ''ZI'' [7, 0xFFFFFFFFFFFFFFFE]), h') \<and> neutral demo_va_jvm [] h'"
    by (rule va_args_in_order [OF demo_va_jvm_ok mem _ demo_va_start _ _ slots]) simp_all
  then show ?thesis unfolding shown by (auto simp: neutral_def demo_va_jvm_def demo_jvm_def)
qed

text \<open>For a \<open>float\<close> and an \<open>int\<close> parameter the argument 7 of the register slot is shown as -2.\<close>

lemma va_float_shifts_witness:
  "\<exists>h'. print_va_args_from_sig demo_va_jvm ''(FI)V'' 8192 [] = Some (''float, -2'', h')"
proof -
  have slots: "load64 demo_va_mem (slot 1 8712 8448 k) = Some ([7, 0xFFFFFFFFFFFFFFFE] ! k)" if "k \<le> length ''I''" for k
    using that demo_va_slots by (cases k) auto
  have mem: "jv_mem demo_va_jvm h = demo_va_mem" for h by (simp add: demo_va_jvm_def)
  have shown: "join_comma (map2 prim_text ''I'' (tl [7, 0xFFFFFFFFFFFFFFFE])) = ''-2''" by code_simp
  have "\<exists>h'. print_va_args_from_sig demo_va_jvm (''(F'' @ ''I'' @ '')'' @ ''V'') 8192 [] =
      Some (''float'' @ (if ''I'' = [] then [] else '', '') @ join_comma (map2 prim_text ''I'' (tl [7, 0xFFFFFFFFFFFFFFFE])), h')"
    by (rule va_float_shifts [OF demo_va_jvm_ok mem _ demo_va_start _ _ slots]) simp_all
  then show ?thesis unfolding shown by simp
qed

subsection \<open>A method that is known by name\<close>

lemma id_entry_Some:
  assumes "id_entry f sep J x v h = Some (((s, v'), h'))"
  shows "\<exists>cls name sig h1. class_text J (x 1) h = Some (cls, h1) \<and> read_cstr J h1 (x 2) = Some name \<and> read_cstr J h1 (x 3) = Some sig
    \<and> s = jni_call f (cls @ ''.'' @ name @ sep @ sig) \<and> v' = v\<lparr>jn_bridge := (jn_bridge v)(f := (cls, name, sig))\<rparr>"
  using assms by (auto simp: id_entry_def bind_eq_Some_conv)

text \<open>C19 (methods are known by name). A traced \<open>GetMethodID\<close> that gives an id logs one line, at its return, with the class, the name and
  the descriptor that the program passed at the call; in the state right after it a call with that id is resolved to them from the
  cache, whatever the object, with no call into the VM.\<close>

theorem method_known:
  assumes "js_table j a = Some Trace_GetMethodID" and "jni_on_call J x a ret j = Some (ls, j1)"
    and "jni_on_return J' y j1 = Some (ls', j2)" and "y 0 \<noteq> 0"
  shows "\<exists>cls name sig h1. class_text J (x 1) [] = Some (cls, h1) \<and> read_cstr J h1 (x 2) = Some name \<and> read_cstr J h1 (x 3) = Some sig
    \<and> ls = [] \<and> ls' = [jni_logf (jni_call ''GetMethodID'' (cls @ ''.'' @ name @ sig) @ '' => 0x'' @ hex64 (y 0) @ format_lr J' ret)]
    \<and> (name \<noteq> [] \<longrightarrow> getMethodInfoResolved K ob (y 0) st (jn_methods (js_vars j2)) h =
         Some ((\<lparr>mi_class = cls, mi_name = name, mi_sig = sig\<rparr>, jn_methods (js_vars j2)), h))"
proof -
  obtain s v' h' where e: "id_entry ''GetMethodID'' [] J x (js_vars j) [] = Some ((s, v'), h')" and
    j1: "ls = []" "js_handler j1 = Some Trace_GetMethodID" "js_vars j1 = v'\<lparr>jn_oss := s\<rparr>" "js_lr j1 = ret"
    using assms(1,2) by (auto simp: jni_on_call_def Trace_GetMethodID_def two_halves_def bind_eq_Some_conv)
  obtain cls name sig h1 where n: "class_text J (x 1) [] = Some (cls, h1)" "read_cstr J h1 (x 2) = Some name"
    "read_cstr J h1 (x 3) = Some sig" "s = jni_call ''GetMethodID'' (cls @ ''.'' @ name @ [] @ sig)"
    "jn_bridge v' ''GetMethodID'' = (cls, name, sig)"
    using id_entry_Some [OF e] by auto
  have j2: "ls' = [jni_logf (s @ '' => 0x'' @ hex64 (y 0) @ format_lr J' ret)]"
    "jn_methods (js_vars j2) = cacheMethod (y 0) cls name sig (jn_methods v')"
    using assms(3,4) j1 n(5) by (auto simp: jni_on_return_def Trace_GetMethodID_def two_halves_def method_id_result_def Let_def)
  have "getMethodInfoResolved K ob (y 0) st (jn_methods (js_vars j2)) h =
      Some ((\<lparr>mi_class = cls, mi_name = name, mi_sig = sig\<rparr>, jn_methods (js_vars j2)), h)" if "name \<noteq> []"
    using that by (simp add: getMethodInfoResolved_def getCachedMethod_def j2 cacheMethod_def Let_def)
  then show ?thesis using n j1(1) j2(1) by auto
qed

text \<open>A program that asks for the id of the method whose name is at 4098 and whose descriptor is at 4096, and gets 32.\<close>

definition demo_vars :: jni_vars where
  "demo_vars = \<lparr>jn_oss = [], jn_methods = Map.empty, jn_fields = Map.empty, jn_bridge = (\<lambda>f. ([], [], []))\<rparr>"

definition demo_jni :: jni_state where
  "demo_jni = \<lparr>js_table = [8 \<mapsto> Trace_GetMethodID], js_pending_ret = 0, js_handler = None, js_addr = 0, js_env = 0, js_lr = 0,
     js_vars = demo_vars\<rparr>"

definition demo_args :: "int \<Rightarrow> u64" where
  "demo_args i = (if i = 1 then 16 else if i = 2 then 4098 else if i = 3 then 4096 else 0)"

lemma demo_class: "map_option fst (class_text demo_jvm 16 h) = Some ''a/B''"
  by (simp add: class_text_def getJClassName_def with_guard_def proxy_Jni_def exec_Jni_def jni_delete_local_ref_def demo_jvm_def
      demo_chars dotToSlash_def split: option.split)
    (use demo_exc_nonzero in blast)

lemma demo_reads: "read_cstr demo_jvm h 4096 = Some ''a.B''" "read_cstr demo_jvm h 4098 = Some ''B''"
  by (simp_all add: read_cstr_def demo_jvm_def demo_chars) (simp add: cstr_from.simps, code_simp)

lemma method_known_witness:
  "\<exists>ls' j1 j2. jni_on_call demo_jvm demo_args 8 0x7100 demo_jni = Some ([], j1) \<and> jni_on_return demo_jvm (\<lambda>i. 32) j1 = Some (ls', j2) \<and>
     getMethodInfoResolved demo_jvm 5 32 False (jn_methods (js_vars j2)) [] =
       Some ((\<lparr>mi_class = ''a/B'', mi_name = ''B'', mi_sig = ''a.B''\<rparr>, jn_methods (js_vars j2)), [])"
proof -
  obtain h where "class_text demo_jvm 16 [] = Some (''a/B'', h)" using demo_class [of "[]"] by auto
  then have "\<exists>v. id_entry ''GetMethodID'' [] demo_jvm demo_args demo_vars [] = Some v"
    by (simp add: id_entry_def demo_args_def demo_reads)
  then obtain ls j1 where c: "jni_on_call demo_jvm demo_args 8 0x7100 demo_jni = Some (ls, j1)" "js_handler j1 = Some Trace_GetMethodID"
    by (auto simp: jni_on_call_def demo_jni_def Trace_GetMethodID_def two_halves_def split_beta)
  obtain ls' j2 where r: "jni_on_return demo_jvm (\<lambda>i. 32) j1 = Some (ls', j2)"
    using c(2) by (auto simp: jni_on_return_def Trace_GetMethodID_def two_halves_def method_id_result_def Let_def)
  have t: "js_table demo_jni 8 = Some Trace_GetMethodID" by (simp add: demo_jni_def)
  obtain cls name sig h1 where k: "class_text demo_jvm (demo_args 1) [] = Some (cls, h1)"
    "read_cstr demo_jvm h1 (demo_args 2) = Some name" "read_cstr demo_jvm h1 (demo_args 3) = Some sig" "ls = []"
    "name \<noteq> [] \<longrightarrow> getMethodInfoResolved demo_jvm 5 32 False (jn_methods (js_vars j2)) [] =
       Some ((\<lparr>mi_class = cls, mi_name = name, mi_sig = sig\<rparr>, jn_methods (js_vars j2)), [])"
    using method_known [OF t c(1) r, where K = demo_jvm and ob = 5 and st = False and h = "[]"] by auto
  have "cls = ''a/B''" "name = ''B''" "sig = ''a.B''"
    using k(1-3) demo_class [of "[]"] by (simp_all add: demo_args_def demo_reads)
  then show ?thesis using c(1) r k(4,5) by auto
qed

end
