(* ===== verification/Memory_Watch.thy ===== *)
theory Memory_Watch
  imports Library_Utils "HOL-Library.Monad_Syntax"
begin

text \<open>
  \<open>trace/src/TraceMemoryHook.cpp\<close> and \<open>trace/Utils/TimeUtil.cpp\<close>: the hooks on reads and writes of a memory range. Each access
  is one line, put together with \<open>snprintf\<close> in a stack buffer of 520 bytes and handed to the trace buffer of the thread or
  to a file. The clock, the registers, the maps file, \<open>dladdr\<close> and the filters that the user gives are arguments. \<open>None\<close> is a store
  or a read outside the stack buffer.
\<close>

subsection \<open>The time of day\<close>

record wall_time =
  wt_hour :: nat
  wt_min :: nat
  wt_sec :: nat
  wt_usec :: nat

definition write2digit :: "nat \<Rightarrow> string" where
  "write2digit v = [char_of (48 + v div 10), char_of (48 + v mod 10)]"

definition write3digit :: "nat \<Rightarrow> string" where
  "write3digit v = [char_of (48 + v div 100), char_of (48 + v div 10 mod 10), char_of (48 + v mod 10)]"

definition getCurrentTimeWithMilliseconds :: "wall_time \<Rightarrow> string" where
  "getCurrentTimeWithMilliseconds t =
     ''['' @ write2digit (wt_hour t) @ '':'' @ write2digit (wt_min t) @ '':'' @ write2digit (wt_sec t) @ ''.'' @
     write3digit (wt_usec t div 1000) @ '']''"

text \<open>\<open>strcat\<close> into an array of \<open>cap\<close> bytes.\<close>

definition strcat :: "nat \<Rightarrow> string \<Rightarrow> string \<Rightarrow> string option" where
  "strcat cap s t = (if length s + length t < cap then Some (s @ t) else None)"

subsection \<open>One line\<close>

text \<open>
  The buffer is what was stored before the last NUL, with the offset that the code keeps. The room \<open>sizeof(buffer) - offset\<close>
  is unsigned: once the offset is beyond the buffer, \<open>snprintf\<close> gets a huge room and stores outside.
\<close>

definition MSG_BUF :: nat where "MSG_BUF = 520"

definition snp :: "string \<Rightarrow> string \<times> nat \<Rightarrow> (string \<times> nat) option" where
  "snp t b = (case b of (buf, off) \<Rightarrow>
     if MSG_BUF < off then None else Some (buf @ take (MSG_BUF - off - 1) t, off + length t))"

definition emitted :: "string \<times> nat \<Rightarrow> string option" where
  "emitted b = (case b of (buf, off) \<Rightarrow> if MSG_BUF < off then None else Some (take off (buf @ [CHR 0x00])))"

datatype watch_out = To_trace | To_file u64

record watch_env =
  we_mem :: mem
  we_time :: wall_time
  we_pc :: u64
  we_lr :: u64
  we_maps :: "map_line list option"
  we_dladdr :: "u64 \<Rightarrow> dl_info option"
  we_dwbuf :: bool

text \<open>What the calls change: the list of libraries and the static buffer of the permissions.\<close>

record watch_state =
  ws_libs :: "library_info list"
  ws_perms :: string

definition hex_text :: "u64 \<Rightarrow> string" where
  "hex_text v = uint64ToHex v"

definition alt_hex :: "u64 \<Rightarrow> string" where
  "alt_hex v = (if v = 0 then ''0'' else ''0x'' @ uint64ToHex v)"

definition head_text :: "string \<Rightarrow> u64 \<Rightarrow> string" where
  "head_text ty a = ty @ hex_text a"

definition data_text :: "nat \<Rightarrow> string \<Rightarrow> string" where
  "data_text sz v = '', data size=0x'' @ hex_text (of_nat sz) @ '', data value='' @ v"

definition pc_text :: "u64 \<Rightarrow> library_info \<Rightarrow> string" where
  "pc_text pc m = '', PC=0x'' @ hex_text pc @ ''@['' @ getPathFileName (Some (li_name m)) @ '']'' @ alt_hex (pc - li_base_address m)"

definition lr_text :: "string \<Rightarrow> u64 \<Rightarrow> dl_info \<Rightarrow> string" where
  "lr_text perms lr i = '', LR='' @ perms @ ''0x'' @ hex_text lr @ ''@['' @ getPathFileName (dli_fname i) @ '']'' @
     alt_hex (lr - dli_fbase i) @ [CHR 0x0A]"

definition printMsg :: "watch_env \<Rightarrow> string \<Rightarrow> u64 \<Rightarrow> nat \<Rightarrow> string \<Rightarrow> u64 \<Rightarrow> watch_state
    \<Rightarrow> ((watch_out \<times> string) list \<times> watch_state) option" where
  "printMsg e ty a sz v fallback w =
     (if \<not> we_dwbuf e \<and> fallback = 0 then Some ([], w)
      else do {
        b \<leftarrow> snp (head_text ty a) ([], 0);
        b \<leftarrow> (if sz \<noteq> 0 then snp (data_text sz v) b else Some b);
        (let (m, libs) = findModuleByAddress (we_maps e) (we_pc e) (ws_libs w);
             i = findAddressDlInfo (we_dladdr e) (we_lr e);
             (perms, pbuf) = get_permissions_string (li_permissions m) (ws_perms w) in
         do {
           b \<leftarrow> snp (pc_text (we_pc e) m) b;
           b \<leftarrow> snp (lr_text perms (we_lr e) i) b;
           out \<leftarrow> emitted b;
           Some ([(if we_dwbuf e then To_trace else To_file fallback, out)], w\<lparr>ws_libs := libs, ws_perms := pbuf\<rparr>) }) })"

subsection \<open>The hooks\<close>

record watch_hook =
  wh_file :: u64
  wh_listener :: "(u64 \<Rightarrow> nat \<Rightarrow> u64 \<Rightarrow> bool) option"

definition hex_pad :: "nat \<Rightarrow> u64 \<Rightarrow> string" where
  "hex_pad n v = replicate (n - length (uint64ToHex v)) (CHR ''0'') @ uint64ToHex v"

definition value_text :: "nat \<Rightarrow> u64 \<Rightarrow> string" where
  "value_text sz v = ''0x'' @
     (if sz = 1 then hex_pad 2 (v AND 0xFF) else if sz = 2 then hex_pad 4 (v AND 0xFFFF)
      else if sz = 4 then hex_pad 8 (v AND 0xFFFFFFFF) else if sz = 8 then hex_pad 16 v else hex_text v)"

definition read_text :: "mem \<Rightarrow> u64 \<Rightarrow> nat \<Rightarrow> string" where
  "read_text m a sz =
     (case safe_host_read m (unat a) (if sz \<le> 8 then sz else 8) of
        Some bs \<Rightarrow> value_text sz (word_of_nat (le_nat bs))
      | None \<Rightarrow> ''<unreadable>'')"

definition hook_read :: "watch_env \<Rightarrow> u64 \<Rightarrow> nat \<Rightarrow> watch_hook \<Rightarrow> watch_state \<Rightarrow> ((watch_out \<times> string) list \<times> watch_state) option" where
  "hook_read e a sz h w =
     (let buffer = read_text (we_mem e) a sz in
      if (case wh_listener h of None \<Rightarrow> True | Some f \<Rightarrow> f a sz 0)
      then do { t \<leftarrow> strcat 38 (getCurrentTimeWithMilliseconds (we_time e)) (CHR 0x0A # '' Memory READ at 0x'');
                printMsg e t a sz buffer (wh_file h) w }
      else Some ([], w))"

definition hook_write :: "watch_env \<Rightarrow> u64 \<Rightarrow> nat \<Rightarrow> u64 \<Rightarrow> watch_hook \<Rightarrow> watch_state \<Rightarrow> ((watch_out \<times> string) list \<times> watch_state) option" where
  "hook_write e a sz v h w =
     (if (case wh_listener h of None \<Rightarrow> True | Some f \<Rightarrow> f a sz v)
      then do { t \<leftarrow> strcat 38 (getCurrentTimeWithMilliseconds (we_time e)) '' Memory WRITE at 0x'';
                printMsg e t a sz (value_text sz v) (wh_file h) w }
      else Some ([], w))"

subsection \<open>Registration\<close>

text \<open>The two tables of contexts, and the hooks given to the engine: the context, the kind, the range and the data.\<close>

record watch_regs =
  wr_read :: "u64 set"
  wr_write :: "u64 set"
  wr_hooks :: "(u64 \<times> bool \<times> u64 \<times> u64 \<times> watch_hook) list"

definition trace_read :: "u64 \<Rightarrow> u64 \<Rightarrow> u64 \<Rightarrow> watch_hook \<Rightarrow> watch_regs \<Rightarrow> watch_regs" where
  "trace_read ctx lo hi h r =
     (if ctx = 0 \<or> ctx \<in> wr_read r then r
      else r\<lparr>wr_read := insert ctx (wr_read r), wr_hooks := wr_hooks r @ [(ctx, False, lo, hi, h)]\<rparr>)"

definition trace_write :: "u64 \<Rightarrow> u64 \<Rightarrow> u64 \<Rightarrow> watch_hook \<Rightarrow> watch_regs \<Rightarrow> watch_regs" where
  "trace_write ctx lo hi h r =
     (if ctx = 0 \<or> ctx \<in> wr_write r then r
      else r\<lparr>wr_write := insert ctx (wr_write r), wr_hooks := wr_hooks r @ [(ctx, True, lo, hi, h)]\<rparr>)"

text \<open>The three forms of each: a file, a filter, neither.\<close>

definition file_hook :: "u64 \<Rightarrow> watch_hook" where
  "file_hook f = \<lparr>wh_file = f, wh_listener = None\<rparr>"

definition listener_hook :: "(u64 \<Rightarrow> nat \<Rightarrow> u64 \<Rightarrow> bool) option \<Rightarrow> watch_hook" where
  "listener_hook l = \<lparr>wh_file = 0, wh_listener = l\<rparr>"

definition plain_hook :: watch_hook where
  "plain_hook = file_hook 0"

definition stopTrace :: "watch_regs \<Rightarrow> watch_regs" where
  "stopTrace r = r"

subsection \<open>The line\<close>

lemma length_hex_text: "length (hex_text v) \<le> 16"
  using uint64ToHex_length [of v] by (simp add: hex_text_def)

lemma length_time: "length (getCurrentTimeWithMilliseconds t) = 14"
  by (simp add: getCurrentTimeWithMilliseconds_def write2digit_def write3digit_def)

lemma strcat_time:
  "strcat 38 (getCurrentTimeWithMilliseconds t) (CHR 0x0A # '' Memory READ at 0x'') =
     Some (getCurrentTimeWithMilliseconds t @ CHR 0x0A # '' Memory READ at 0x'')"
  "strcat 38 (getCurrentTimeWithMilliseconds t) '' Memory WRITE at 0x'' =
     Some (getCurrentTimeWithMilliseconds t @ '' Memory WRITE at 0x'')"
  by (simp_all add: strcat_def length_time)

text \<open>The line that the code means to build.\<close>

definition watch_line :: "watch_env \<Rightarrow> string \<Rightarrow> u64 \<Rightarrow> nat \<Rightarrow> string \<Rightarrow> watch_state \<Rightarrow> string" where
  "watch_line e ty a sz v w =
     (let m = fst (findModuleByAddress (we_maps e) (we_pc e) (ws_libs w)) in
      head_text ty a @ (if sz \<noteq> 0 then data_text sz v else []) @ pc_text (we_pc e) m @
      lr_text (fst (get_permissions_string (li_permissions m) (ws_perms w))) (we_lr e) (findAddressDlInfo (we_dladdr e) (we_lr e)))"

text \<open>A buffer that holds the beginning of a text \<open>s\<close>.\<close>

definition holds_text :: "string \<Rightarrow> string \<times> nat \<Rightarrow> bool" where
  "holds_text s b \<longleftrightarrow> b = (take (MSG_BUF - 1) s, length s)"

lemma snp_holds:
  "holds_text s b \<Longrightarrow> snp t b = (if MSG_BUF < length s then None else Some (take (MSG_BUF - 1) (s @ t), length (s @ t)))"
  by (auto simp: holds_text_def snp_def MSG_BUF_def)

lemma emitted_holds:
  "holds_text s b \<Longrightarrow> emitted b =
     (if length s < MSG_BUF then Some s else if length s = MSG_BUF then Some (take (MSG_BUF - 1) s @ [CHR 0x00]) else None)"
  by (auto simp: holds_text_def emitted_def MSG_BUF_def)


lemma holds_empty: "holds_text [] ([], 0)"
  by (simp add: holds_text_def)

lemma snp_step:
  "holds_text s b \<Longrightarrow> length (s @ t) \<le> MSG_BUF \<Longrightarrow> \<exists>b'. snp t b = Some b' \<and> holds_text (s @ t) b'"
  by (auto simp: holds_text_def snp_def MSG_BUF_def)

text \<open>Parts after each other: the result is that of the whole text, faults included.\<close>

definition msg :: "string list \<Rightarrow> string option" where
  "msg ts = do { b \<leftarrow> foldl (\<lambda>b t. Option.bind b (snp t)) (Some ([], 0)) ts; emitted b }"

lemma msg_steps: "holds_text s b \<Longrightarrow>
  Option.bind (foldl (\<lambda>b t. Option.bind b (snp t)) (Some b) ts) emitted =
    (if length (s @ concat ts) < MSG_BUF then Some (s @ concat ts)
     else if length (s @ concat ts) = MSG_BUF then Some (take (MSG_BUF - 1) (s @ concat ts) @ [CHR 0x00]) else None)"
proof (induction ts arbitrary: s b)
  case Nil
  then show ?case by (simp add: emitted_holds)
next
  case (Cons t ts)
  show ?case
  proof (cases "MSG_BUF < length s")
    case True
    have "foldl (\<lambda>b t. Option.bind b (snp t)) None ts = None" by (induction ts) auto
    with True show ?thesis by (simp add: snp_holds [OF Cons.prems])
  next
    case False
    then obtain b' where "snp t b = Some b'" "holds_text (s @ t) b'"
      by (simp add: snp_holds [OF Cons.prems] holds_text_def)
    then show ?thesis using Cons.IH [of "s @ t" b'] by simp
  qed
qed

lemma msg_concat: "msg ts = (let s = concat ts in
    if length s < MSG_BUF then Some s else if length s = MSG_BUF then Some (take (MSG_BUF - 1) s @ [CHR 0x00]) else None)"
  using msg_steps [OF holds_empty, of ts] by (simp add: msg_def Let_def)

lemma printMsg_msg:
  "printMsg e ty a sz v fallback w =
    (if \<not> we_dwbuf e \<and> fallback = 0 then Some ([], w)
     else (let m = fst (findModuleByAddress (we_maps e) (we_pc e) (ws_libs w));
               p = get_permissions_string (li_permissions m) (ws_perms w) in
       map_option (\<lambda>s. ([(if we_dwbuf e then To_trace else To_file fallback, s)],
           w\<lparr>ws_libs := snd (findModuleByAddress (we_maps e) (we_pc e) (ws_libs w)), ws_perms := snd p\<rparr>))
         (msg ([head_text ty a] @ (if sz \<noteq> 0 then [data_text sz v] else []) @
           [pc_text (we_pc e) m, lr_text (fst p) (we_lr e) (findAddressDlInfo (we_dladdr e) (we_lr e))]))))"
  by (auto simp: printMsg_def msg_def Let_def split_beta map_option_case split: option.splits bind_split)

text \<open>A line that is at most 519 bytes long is written whole, in a trace to the trace and otherwise to
  the file of the hook; with 520 bytes its last one is lost; with more the code stores or reads outside its buffer.\<close>

lemma printMsg_line:
  "printMsg e ty a sz v fallback w =
    (if \<not> we_dwbuf e \<and> fallback = 0 then Some ([], w)
     else (let m = findModuleByAddress (we_maps e) (we_pc e) (ws_libs w);
               s = watch_line e ty a sz v w;
               w' = w\<lparr>ws_libs := snd m, ws_perms := snd (get_permissions_string (li_permissions (fst m)) (ws_perms w))\<rparr>;
               to = (if we_dwbuf e then To_trace else To_file fallback) in
       if length s < MSG_BUF then Some ([(to, s)], w')
       else if length s = MSG_BUF then Some ([(to, take (MSG_BUF - 1) s @ [CHR 0x00])], w')
       else None))"
proof -
  have "concat ([head_text ty a] @ (if sz \<noteq> 0 then [data_text sz v] else []) @
     [pc_text (we_pc e) m, lr_text p (we_lr e) i]) =
     head_text ty a @ (if sz \<noteq> 0 then data_text sz v else []) @ pc_text (we_pc e) m @ lr_text p (we_lr e) i" for m p i
    by simp
  then show ?thesis unfolding printMsg_msg msg_concat watch_line_def by (simp add: Let_def)
qed

text \<open>How long a line can be: the texts between the names have bounded length.\<close>

lemma perms_length: "length b = 4 \<Longrightarrow> length (fst (get_permissions_string p b)) \<le> 3 \<and> length (snd (get_permissions_string p b)) = 4"
proof -
  assume b: "length b = 4"
  then obtain b0 b1 b2 b3 where "b = [b0, b1, b2, b3]"
    by (auto simp: numeral_eq_Suc length_Suc_conv)
  then show ?thesis
    using length_takeWhile_le [of "\<lambda>c. c \<noteq> CHR 0x00"] by (auto simp: get_permissions_string_def Let_def c_str_def)
qed


lemma length_alt_hex: "0 < length (alt_hex v)" "length (alt_hex v) \<le> 18"
  using uint64ToHex_length [of v] by (simp_all add: alt_hex_def)

lemma length_hex_pad: "n \<le> 16 \<Longrightarrow> length (hex_pad n v) \<le> 16"
  using uint64ToHex_length [of v] unfolding hex_pad_def length_append length_replicate by linarith

lemma length_value_text: "length (value_text sz v) \<le> 18"
  using length_hex_pad [of 2] length_hex_pad [of 4] length_hex_pad [of 8] length_hex_pad [of 16] length_hex_text [of v]
  by (simp add: value_text_def)

lemma length_read_text: "length (read_text m a sz) \<le> 18"
  using length_value_text by (simp add: read_text_def split: option.split)

definition names_length :: "watch_env \<Rightarrow> watch_state \<Rightarrow> nat" where
  "names_length e w =
     length (getPathFileName (Some (li_name (fst (findModuleByAddress (we_maps e) (we_pc e) (ws_libs w)))))) +
     length (getPathFileName (dli_fname (findAddressDlInfo (we_dladdr e) (we_lr e))))"

lemma watch_line_length:
  assumes "length (ws_perms w) = 4" and "length v \<le> 18"
  shows "length (watch_line e ty a sz v w) \<le> length ty + 169 + names_length e w"
    and "length ty + names_length e w + 26 \<le> length (watch_line e ty a sz v w)"
proof -
  note bounds = perms_length [OF assms(1)] length_hex_text length_alt_hex assms(2)
  let ?m = "fst (findModuleByAddress (we_maps e) (we_pc e) (ws_libs w))"
  let ?i = "findAddressDlInfo (we_dladdr e) (we_lr e)"
  have d: "length (data_text sz v) \<le> 61"
    using length_hex_text [of "of_nat sz"] assms(2) by (simp add: data_text_def)
  have p: "length (pc_text (we_pc e) ?m) \<le> 44 + length (getPathFileName (Some (li_name ?m)))"
    "11 + length (getPathFileName (Some (li_name ?m))) < length (pc_text (we_pc e) ?m)"
    using length_hex_text [of "we_pc e"] uint64ToHex_length [of "we_pc e"] length_alt_hex [of "we_pc e - li_base_address ?m"]
    by (simp_all add: pc_text_def hex_text_def del: length_greater_0_conv)
  have "length (fst (get_permissions_string (li_permissions ?m) (ws_perms w))) \<le> 3" using bounds by blast
  then have l: "length (lr_text (fst (get_permissions_string (li_permissions ?m) (ws_perms w))) (we_lr e) ?i) \<le>
      48 + length (getPathFileName (dli_fname ?i))"
    "12 + length (getPathFileName (dli_fname ?i)) <
      length (lr_text (fst (get_permissions_string (li_permissions ?m) (ws_perms w))) (we_lr e) ?i)"
    using length_hex_text [of "we_lr e"] uint64ToHex_length [of "we_lr e"] length_alt_hex [of "we_lr e - dli_fbase ?i"]
    by (simp_all add: lr_text_def hex_text_def del: length_greater_0_conv)
  have h: "length (head_text ty a) \<le> length ty + 16" "length ty < length (head_text ty a)"
    using length_hex_text [of a] uint64ToHex_length [of a] by (simp_all add: head_text_def hex_text_def del: length_greater_0_conv)
  show "length (watch_line e ty a sz v w) \<le> length ty + 169 + names_length e w"
    using d p(1) l(1) h(1) by (simp add: watch_line_def names_length_def Let_def)
  show "length ty + names_length e w + 26 \<le> length (watch_line e ty a sz v w)"
    using p(2) l(2) h(2) by (simp add: watch_line_def names_length_def Let_def)
qed

lemma hook_read_prints:
  assumes "wh_listener h = None" and "we_dwbuf e"
  shows "\<exists>ty. length ty = 33 \<and> hook_read e a sz h w = printMsg e ty a sz (read_text (we_mem e) a sz) (wh_file h) w"
  using assms by (auto simp: hook_read_def strcat_time length_time intro!: exI [of _ "getCurrentTimeWithMilliseconds (we_time e) @ CHR 0x0A # '' Memory READ at 0x''"])

lemma hook_write_prints:
  assumes "wh_listener h = None" and "we_dwbuf e"
  shows "\<exists>ty. length ty = 33 \<and> hook_write e a sz v h w = printMsg e ty a sz (value_text sz v) (wh_file h) w"
  using assms by (auto simp: hook_write_def strcat_time length_time intro!: exI [of _ "getCurrentTimeWithMilliseconds (we_time e) @ '' Memory WRITE at 0x''"])

text \<open>C35 (names that fit). In a trace without a filter the two hooks write one line, of a length that fits and with its line feed, when the file names of the two modules have at most 317 characters
  together; with 462, which two names of the length that file systems allow can have, both overrun the stack buffer.\<close>

theorem watch_names_fit:
  assumes "wh_listener h = None" and "we_dwbuf e" and "length (ws_perms w) = 4"
  shows "(names_length e w \<le> 317 \<longrightarrow> (\<exists>s w'. hook_read e a sz h w = Some ([(To_trace, s)], w') \<and> length s < MSG_BUF \<and> last s = CHR 0x0A))
    \<and> (names_length e w \<le> 317 \<longrightarrow> (\<exists>s w'. hook_write e a sz v h w = Some ([(To_trace, s)], w') \<and> length s < MSG_BUF \<and> last s = CHR 0x0A))
    \<and> (462 \<le> names_length e w \<longrightarrow> hook_read e a sz h w = None \<and> hook_write e a sz v h w = None)"
proof -
  have nl: "last (watch_line e ty a sz t w) = CHR 0x0A" for ty t by (simp add: watch_line_def lr_text_def Let_def)
  have fits: "length ty = 33 \<Longrightarrow> length t \<le> 18 \<Longrightarrow> names_length e w \<le> 317 \<Longrightarrow> length (watch_line e ty a sz t w) < MSG_BUF"
    and over: "length ty = 33 \<Longrightarrow> length t \<le> 18 \<Longrightarrow> 462 \<le> names_length e w \<Longrightarrow> MSG_BUF < length (watch_line e ty a sz t w)" for ty t
    using watch_line_length [OF assms(3), where v = t and e = e and ty = ty and a = a and sz = sz] by (simp_all add: MSG_BUF_def)
  obtain t1 t2 where t: "length t1 = 33" "hook_read e a sz h w = printMsg e t1 a sz (read_text (we_mem e) a sz) (wh_file h) w"
    "length t2 = 33" "hook_write e a sz v h w = printMsg e t2 a sz (value_text sz v) (wh_file h) w"
    using hook_read_prints [OF assms(1,2), of a sz w] hook_write_prints [OF assms(1,2), of a sz v w] by blast
  note r = fits [OF t(1) length_read_text [of "we_mem e" a sz]] over [OF t(1) length_read_text [of "we_mem e" a sz]]
    fits [OF t(3) length_value_text [of sz v]] over [OF t(3) length_value_text [of sz v]]
  show ?thesis
  proof (intro conjI impI)
    assume "names_length e w \<le> 317"
    from r(1) [OF this] r(3) [OF this]
    show "\<exists>s w'. hook_read e a sz h w = Some ([(To_trace, s)], w') \<and> length s < MSG_BUF \<and> last s = CHR 0x0A"
      and "\<exists>s w'. hook_write e a sz v h w = Some ([(To_trace, s)], w') \<and> length s < MSG_BUF \<and> last s = CHR 0x0A"
      using nl assms(2) by (auto simp: t(2,4) printMsg_line Let_def)
  next
    assume "462 \<le> names_length e w"
    from r(2) [OF this] r(4) [OF this] show "hook_read e a sz h w = None" and "hook_write e a sz v h w = None"
      using assms(2) by (auto simp: t(2,4) printMsg_line Let_def)
  qed
qed


text \<open>A process with one library, whose short name fits, and one whose long name does not.\<close>

definition demo_watch_env :: "string \<Rightarrow> watch_env" where
  "demo_watch_env name = \<lparr>we_mem = (\<lambda>a. Some 0x2A), we_time = \<lparr>wt_hour = 12, wt_min = 34, wt_sec = 56, wt_usec = 789012\<rparr>,
     we_pc = 0x7010, we_lr = 0x7020,
     we_maps = Some [\<lparr>ml_n = 7, ml_start = 0x7000, ml_end = 0x8000, ml_perms = ''r-xp'', ml_path = CHR 0x2F # name\<rparr>],
     we_dladdr = (\<lambda>a. Some \<lparr>dli_fname = Some (CHR 0x2F # name), dli_fbase = 0x7000, dli_sname = None, dli_saddr = 0\<rparr>),
     we_dwbuf = True\<rparr>"

definition demo_watch_state :: watch_state where
  "demo_watch_state = \<lparr>ws_libs = [], ws_perms = replicate 4 (CHR 0x00)\<rparr>"

lemma demo_names:
  assumes "CHR 0x2F \<notin> set name"
  shows "names_length (demo_watch_env name) demo_watch_state = 2 * length name"
proof -
  have "takeWhile (\<lambda>c. c \<noteq> CHR 0x2F) (rev name @ [CHR 0x2F]) = rev name"
    using assms by (subst takeWhile_append2) auto
  then show ?thesis
    by (simp add: names_length_def demo_watch_env_def demo_watch_state_def findModuleByAddress_def getLoadedLibraries_def
        library_of_def holds_address_def findAddressDlInfo_def getPathFileName_def after_slash_def Let_def)
qed

lemma watch_names_fit_witness:
  "(\<exists>s w'. hook_read (demo_watch_env ''liba.so'') 0x9000 4 plain_hook demo_watch_state = Some ([(To_trace, s)], w') \<and> last s = CHR 0x0A) \<and>
   hook_write (demo_watch_env (replicate 231 (CHR ''a''))) 0x9000 4 1 plain_hook demo_watch_state = None"
proof -
  have h: "wh_listener plain_hook = None" "we_dwbuf (demo_watch_env n)" "length (ws_perms demo_watch_state) = 4" for n
    by (simp_all add: plain_hook_def file_hook_def demo_watch_env_def demo_watch_state_def)
  have "names_length (demo_watch_env ''liba.so'') demo_watch_state = 14"
    "names_length (demo_watch_env (replicate 231 (CHR ''a''))) demo_watch_state = 462"
    by (simp_all add: demo_names)
  with watch_names_fit [OF h, of "''liba.so''", where a = "0x9000" and sz = "4" and v = "0"]
    watch_names_fit [OF h, of "replicate 231 (CHR ''a'')", where a = "0x9000" and sz = "4" and v = "1"]
  show ?thesis by simp blast
qed

subsection \<open>Registration\<close>

text \<open>Operations in any order: hooks of either kind, and the end of a context, whose hooks the engine drops.\<close>

datatype watch_op = Watch_read u64 u64 u64 watch_hook | Watch_write u64 u64 u64 watch_hook | Context_freed u64

fun watch_step :: "watch_op \<Rightarrow> watch_regs \<Rightarrow> watch_regs" where
  "watch_step (Watch_read ctx lo hi h) r = trace_read ctx lo hi h r"
| "watch_step (Watch_write ctx lo hi h) r = trace_write ctx lo hi h r"
| "watch_step (Context_freed ctx) r = r\<lparr>wr_hooks := filter (\<lambda>k. fst k \<noteq> ctx) (wr_hooks r)\<rparr>"

definition no_watch :: watch_regs where
  "no_watch = \<lparr>wr_read = {}, wr_write = {}, wr_hooks = []\<rparr>"

definition kinds :: "watch_regs \<Rightarrow> (u64 \<times> bool) list" where
  "kinds r = map (\<lambda>(ctx, k, _). (ctx, k)) (wr_hooks r)"

lemma watch_once_step:
  assumes "distinct (kinds r) \<and> set (kinds r) \<subseteq> wr_read r \<times> {False} \<union> wr_write r \<times> {True}"
  shows "distinct (kinds (watch_step x r)) \<and>
    set (kinds (watch_step x r)) \<subseteq> wr_read (watch_step x r) \<times> {False} \<union> wr_write (watch_step x r) \<times> {True}"
proof (cases x)
  case (Context_freed c)
  have "distinct (map f xs) \<Longrightarrow> distinct (map f (filter P xs))" for f :: "_ \<Rightarrow> u64 \<times> bool" and P xs
    by (rule distinct_map_filter)
  then show ?thesis using assms Context_freed by (fastforce simp: kinds_def)
qed (use assms in \<open>auto simp: kinds_def trace_read_def trace_write_def\<close>)

text \<open>A context has at most one hook of each kind, whatever is registered and freed. The tables are never emptied: a context at an address
  that an earlier one with a hook had gets none.\<close>

lemma watch_once: "distinct (kinds (foldr watch_step xs no_watch))"
proof -
  have "distinct (kinds (foldr watch_step xs no_watch)) \<and> set (kinds (foldr watch_step xs no_watch)) \<subseteq>
      wr_read (foldr watch_step xs no_watch) \<times> {False} \<union> wr_write (foldr watch_step xs no_watch) \<times> {True}"
    by (induction xs) (simp add: kinds_def no_watch_def, simp only: foldr.simps comp_apply watch_once_step)
  then show ?thesis by blast
qed

lemma watch_reused_context:
  "wr_hooks (watch_step (Watch_read 64 0 0 h') (watch_step (Context_freed 64) (watch_step (Watch_read 64 0 0 h) no_watch))) = []"
  by (simp add: no_watch_def trace_read_def)

end
