(* ===== verification/Dump_Pages.thy ===== *)
theory Dump_Pages
  imports Safe_Mem "HOL-Library.Monad_Syntax"
begin

text \<open>
  The page arithmetic of \<open>trace/src/TraceUnidbgDump.cpp\<close>: the pages an access touches, merging pages into ranges, growing them to
  whole segments, and leaving out those of earlier dumps. A page is its number (address shifted by 12). The loop over the pages of a
  range compares 64-bit addresses and would not end at the top of the address space, so it is a partial function.
\<close>

definition PAGE :: u64 where "PAGE = 0x1000"

definition page_of :: "u64 \<Rightarrow> u64" where
  "page_of a = drop_bit 12 a"

definition page_addr :: "u64 \<Rightarrow> u64" where
  "page_addr p = push_bit 12 p"

text \<open>\<open>for (p = lo; p < hi; p++)\<close> over page numbers, which are below \<open>2 ^ 52\<close>.\<close>

definition page_seq :: "u64 \<Rightarrow> u64 \<Rightarrow> u64 list" where
  "page_seq lo hi = map word_of_nat [unat lo..<unat hi]"

definition touched_pages :: "u64 \<Rightarrow> nat \<Rightarrow> u64 list" where
  "touched_pages a sz = page_seq (page_of a) (page_of (a + of_nat (sz - 1)) + 1)"

text \<open>\<open>for (a = lo; a < hi; a += PAGE)\<close>.\<close>

partial_function (option) addr_loop :: "u64 \<Rightarrow> u64 \<Rightarrow> u64 list option" where
  "addr_loop a hi = (if a < hi then do { r \<leftarrow> addr_loop (a + PAGE) hi; Some (a # r) } else Some [])"

declare addr_loop.simps [code]

subsection \<open>Ranges\<close>

definition coalesce_step :: "(u64 \<times> u64) list \<Rightarrow> u64 \<Rightarrow> (u64 \<times> u64) list" where
  "coalesce_step ranges p =
     (let start = page_addr p; end' = page_addr (p + 1) in
      if ranges \<noteq> [] \<and> start \<le> snd (last ranges)
      then (if snd (last ranges) < end' then butlast ranges @ [(fst (last ranges), end')] else ranges)
      else ranges @ [(start, end')])"

definition coalesce :: "u64 list \<Rightarrow> (u64 \<times> u64) list" where
  "coalesce pages = foldl coalesce_step [] (sort pages)"

subsection \<open>Segments\<close>

record vma =
  vma_start :: u64
  vma_end :: u64
  vma_file :: bool

definition VMA_EXPAND_CAP :: u64 where "VMA_EXPAND_CAP = 64 * 1024 * 1024"

definition in_vma :: "u64 \<Rightarrow> vma \<Rightarrow> bool" where
  "in_vma a v \<longleftrightarrow> vma_start v \<le> a \<and> a < vma_end v"

text \<open>The state of the loop: the segment of the page before, the starts of the segments that were expanded, and the pages.\<close>

fun expand_loop :: "vma list \<Rightarrow> u64 list \<Rightarrow> vma option \<Rightarrow> u64 set \<Rightarrow> u64 list \<Rightarrow> u64 list option" where
  "expand_loop vmas [] last' done' pages = Some pages"
| "expand_loop vmas (p # ps) last' done' pages =
     (let a = page_addr p in
      if (case last' of None \<Rightarrow> False | Some v \<Rightarrow> in_vma a v) then expand_loop vmas ps last' done' pages
      else case find (in_vma a) vmas of
        None \<Rightarrow> expand_loop vmas ps None done' pages
      | Some v \<Rightarrow>
          if vma_end v - vma_start v \<le> VMA_EXPAND_CAP \<and> vma_start v \<notin> done'
          then do { as \<leftarrow> addr_loop (vma_start v) (vma_end v);
                    expand_loop vmas ps (Some v) (insert (vma_start v) done') (pages @ map page_of as) }
          else expand_loop vmas ps (Some v) done' pages)"

subsection \<open>Pages of earlier dumps\<close>

fun fresh_pages :: "u64 set \<Rightarrow> u64 list \<Rightarrow> u64 list \<times> u64 set" where
  "fresh_pages d [] = ([], d)"
| "fresh_pages d (p # ps) =
     (if p \<in> d then fresh_pages d ps
      else (case fresh_pages (insert p d) ps of (fs, d') \<Rightarrow> (p # fs, d')))"

subsection \<open>Lemmas\<close>

lemma fresh_pages_set: "fresh_pages d ps = (fs, d') \<Longrightarrow> set fs = set ps - d \<and> d' = d \<union> set ps \<and> distinct fs"
  by (induction ps arbitrary: d fs d') (auto split: if_splits prod.splits)

lemma unat_page: "unat (page_of a) = unat a div 4096"
  by (simp add: page_of_def drop_bit_eq_div unat_div)

lemma page_less: "unat (page_of a) < 2 ^ 52"
  using unsigned_less [of a, where 'a = nat] by (simp add: unat_page)

lemma unat_page_addr: "unat p < 2 ^ 52 \<Longrightarrow> unat (page_addr p) = 4096 * unat p"
  by (simp add: page_addr_def push_bit_eq_mult unat_word_ariths)

lemma set_page_seq: "set (page_seq lo hi) = {p. lo \<le> p \<and> p < hi}"
proof (intro set_eqI iffI)
  fix p
  assume "p \<in> set (page_seq lo hi)"
  then obtain n where "unat lo \<le> n" "n < unat hi" "p = word_of_nat n" by (auto simp: page_seq_def)
  moreover from this have "unat p = n" using unsigned_less [of hi, where 'a = nat] by (simp add: unat_of_nat)
  ultimately show "p \<in> {p. lo \<le> p \<and> p < hi}" by (simp add: word_le_nat_alt word_less_nat_alt)
next
  fix p
  assume "p \<in> {p. lo \<le> p \<and> p < hi}"
  then have "unat lo \<le> unat p" "unat p < unat hi" by (simp_all add: word_le_nat_alt word_less_nat_alt)
  then have "word_of_nat (unat p) \<in> set (page_seq lo hi)" unfolding page_seq_def by force
  then show "p \<in> set (page_seq lo hi)" by simp
qed


text \<open>The loop over addresses ends when the range does not reach the last page.\<close>

lemma addr_loop_steps:
  assumes "unat hi \<le> 2 ^ 64 - 4096"
  shows "addr_loop a hi = Some (map (\<lambda>k. a + of_nat (4096 * k)) [0..<(unat hi - unat a + 4095) div 4096])"
proof (induction "unat hi - unat a" arbitrary: a rule: less_induct)
  case less
  show ?case
  proof (cases "a < hi")
    case True
    then have lt: "unat a < unat hi" by (simp add: word_less_nat_alt)
    then have u: "unat (a + PAGE) = unat a + 4096"
      using assms by (simp add: PAGE_def unat_word_ariths)
    then have n: "(unat hi - unat a + 4095) div 4096 = Suc ((unat hi - unat (a + PAGE) + 4095) div 4096)"
      using lt by (cases "unat hi \<le> unat a + 4096") (simp_all add: le_div_geq)
    have "addr_loop (a + PAGE) hi = Some (map (\<lambda>k. a + PAGE + of_nat (4096 * k)) [0..<(unat hi - unat (a + PAGE) + 4095) div 4096])"
      using less [of "a + PAGE"] u lt by simp
    then have "addr_loop a hi = Some (a # map (\<lambda>k. a + PAGE + of_nat (4096 * k)) [0..<(unat hi - unat (a + PAGE) + 4095) div 4096])"
      using True by (subst addr_loop.simps) simp
    moreover have "map f [0..<Suc m] = f 0 # map (\<lambda>k. f (Suc k)) [0..<m]" for f :: "nat \<Rightarrow> u64" and m
      by (simp only: upt_conv_Cons zero_less_Suc list.map map_Suc_upt [symmetric] map_map comp_def)
    moreover have "a + PAGE + of_nat (4096 * k) = a + of_nat (4096 * Suc k)" "a + of_nat (4096 * 0) = a" for k
      by (simp_all add: PAGE_def)
    ultimately show ?thesis unfolding n by (simp only:)
  next
    case False
    then show ?thesis by (subst addr_loop.simps) (simp add: word_less_nat_alt)
  qed
qed

text \<open>A range of whole pages: its addresses are those of its pages in order.\<close>

lemma addr_loop_pages:
  assumes "lo \<le> hi" and "unat hi < 2 ^ 52"
  shows "addr_loop (page_addr lo) (page_addr hi) = Some (map page_addr (page_seq lo hi))"
proof -
  have u: "unat (page_addr lo) = 4096 * unat lo" "unat (page_addr hi) = 4096 * unat hi"
    using assms by (simp_all add: unat_page_addr word_le_nat_alt)
  have "map (\<lambda>k. page_addr lo + of_nat (4096 * k)) [0..<unat hi - unat lo] = map page_addr (page_seq lo hi)"
    by (rule nth_equalityI) (simp_all add: page_seq_def page_addr_def push_bit_eq_mult algebra_simps)
  moreover have "(4096 * unat hi - 4096 * unat lo + 4095) div 4096 = unat hi - unat lo"
    by (simp flip: right_diff_distrib')
  ultimately show ?thesis using assms(2) by (simp add: addr_loop_steps u)
qed


subsection \<open>Merging\<close>

text \<open>The same loop on page numbers.\<close>

definition merge_page :: "(u64 \<times> u64) list \<Rightarrow> u64 \<Rightarrow> (u64 \<times> u64) list" where
  "merge_page Q p =
     (if Q \<noteq> [] \<and> p \<le> snd (last Q)
      then (if snd (last Q) < p + 1 then butlast Q @ [(fst (last Q), p + 1)] else Q)
      else Q @ [(p, p + 1)])"

definition small_page :: "u64 \<Rightarrow> bool" where
  "small_page p \<longleftrightarrow> unat p < 2 ^ 52 - 1"

lemma small_page_Suc: "small_page p \<Longrightarrow> unat (p + 1) = Suc (unat p) \<and> unat p < 2 ^ 52 \<and> unat (p + 1) < 2 ^ 52"
  by (simp add: small_page_def unat_word_ariths)

lemma page_addr_order:
  assumes "unat p < 2 ^ 52" and "unat q < 2 ^ 52"
  shows "page_addr p \<le> page_addr q \<longleftrightarrow> p \<le> q" and "page_addr p < page_addr q \<longleftrightarrow> p < q"
  using assms by (simp_all add: word_le_nat_alt word_less_nat_alt unat_page_addr)

lemma page_of_addr: "unat p < 2 ^ 52 \<Longrightarrow> page_of (page_addr p) = p"
  by (simp add: word_unat_eq_iff unat_page unat_page_addr)

definition addr_range :: "u64 \<times> u64 \<Rightarrow> u64 \<times> u64" where
  "addr_range q = (page_addr (fst q), page_addr (snd q))"

lemma coalesce_step_pages:
  assumes "small_page p" and "\<forall>q \<in> set Q. unat (snd q) < 2 ^ 52"
  shows "coalesce_step (map addr_range Q) p = map addr_range (merge_page Q p)"
proof (cases "Q = []")
  case False
  then have "unat (snd (last Q)) < 2 ^ 52" using assms(2) by simp
  then show ?thesis
    using False small_page_Suc [OF assms(1)]
    by (auto simp: coalesce_step_def merge_page_def addr_range_def last_map page_addr_order Let_def simp flip: map_butlast)
qed (simp add: coalesce_step_def merge_page_def addr_range_def Let_def)

definition apart :: "(u64 \<times> u64) list \<Rightarrow> bool" where
  "apart Q \<longleftrightarrow> sorted_wrt (\<lambda>q r. snd q < fst r) Q \<and> (\<forall>q \<in> set Q. fst q < snd q \<and> unat (snd q) < 2 ^ 52)"

definition pages_in :: "(u64 \<times> u64) list \<Rightarrow> u64 set" where
  "pages_in Q = (\<Union>q \<in> set Q. {fst q..<snd q})"

lemma apart_snoc: "apart (Q @ [q]) \<longleftrightarrow>
    apart Q \<and> (\<forall>r \<in> set Q. snd r < fst q) \<and> fst q < snd q \<and> unat (snd q) < 2 ^ 52"
  by (auto simp: apart_def sorted_wrt_append)

text \<open>What the loop has built after the pages \<open>xs\<close> in ascending order.\<close>

definition merged :: "u64 list \<Rightarrow> (u64 \<times> u64) list \<Rightarrow> bool" where
  "merged xs Q \<longleftrightarrow> apart Q \<and> pages_in Q = set xs \<and> (xs \<noteq> [] \<longrightarrow> Q \<noteq> [] \<and> snd (last Q) = last xs + 1)"

lemma merged_snoc:
  assumes m: "merged xs Q" and p: "small_page p" and le: "xs \<noteq> [] \<Longrightarrow> last xs \<le> p" and sm: "\<forall>x \<in> set xs. small_page x"
  shows "merged (xs @ [p]) (merge_page Q p)"
proof -
  have s: "unat (p + 1) = Suc (unat p)" "unat (p + 1) < 2 ^ 52" using small_page_Suc [OF p] by auto
  have one: "{p..<p + 1} = {p}" using s(1) by (auto simp: word_le_nat_alt word_less_nat_alt word_unat_eq_iff)
  have lt: "p < p + 1" using s(1) by (simp add: word_less_nat_alt)
  show ?thesis
  proof (cases "xs = []")
    case True
    then have "pages_in Q = {}" "apart Q" using m by (auto simp: merged_def)
    then have "Q = []" by (cases Q) (auto simp: pages_in_def apart_def)
    then show ?thesis using True s one lt by (simp add: merged_def merge_page_def apart_def pages_in_def)
  next
    case False
    then obtain Q' a b where Q: "Q = Q' @ [(a, b)]" and b: "b = last xs + 1"
      using m by (cases Q rule: rev_cases) (auto simp: merged_def)
    have ap: "apart Q'" "\<forall>r \<in> set Q'. snd r < a" "a < b" using m Q by (auto simp: merged_def apart_snoc)
    have st: "pages_in Q' \<union> {a..<b} = set xs" using m Q by (auto simp: merged_def pages_in_def)
    have l: "unat b = Suc (unat (last xs))" "unat (last xs) \<le> unat p"
      using small_page_Suc [of "last xs"] sm False le b by (auto simp: word_le_nat_alt)
    consider "p = last xs" | "p = b" | "b < p"
      using l by (cases "unat p = unat (last xs)"; cases "unat p = unat b") (auto simp: word_unat_eq_iff word_less_nat_alt)
    then show ?thesis
    proof cases
      case 1
      then have "b = p + 1" "p \<in> set xs" using b last_in_set [OF False] by simp_all
      then have "merge_page Q p = Q" "set (xs @ [p]) = set xs" using lt by (auto simp: merge_page_def Q)
      then show ?thesis using m Q \<open>b = p + 1\<close> by (simp add: merged_def)
    next
      case 2
      then have "{a..<p + 1} = insert p {a..<b}"
        using ap(3) s(1) by (auto simp: word_le_nat_alt word_less_nat_alt word_unat_eq_iff)
      moreover have "a < p + 1" using ap(3) lt 2 by (meson less_trans)
      ultimately show ?thesis
        using 2 Q ap st s lt by (auto simp: merge_page_def merged_def apart_snoc pages_in_def)
    next
      case 3
      then have e: "merge_page Q p = Q @ [(p, p + 1)]" "\<forall>r \<in> set Q. snd r < p" using Q ap by (auto simp: merge_page_def)
      then have "apart (Q @ [(p, p + 1)])" using m s lt by (simp add: merged_def apart_snoc)
      moreover have "pages_in (Q @ [(p, p + 1)]) = set (xs @ [p])" using m one by (auto simp: merged_def pages_in_def)
      ultimately show ?thesis by (simp add: merged_def e(1))
    qed
  qed
qed

lemma merged_sorted:
  assumes "sorted xs" and "\<forall>x \<in> set xs. small_page x"
  shows "\<exists>Q. foldl coalesce_step [] xs = map addr_range Q \<and> merged xs Q"
  using assms
proof (induction xs rule: rev_induct)
  case Nil
  then show ?case by (simp add: merged_def apart_def pages_in_def)
next
  case (snoc p xs)
  then obtain Q where Q: "foldl coalesce_step [] xs = map addr_range Q" "merged xs Q" by (auto simp: sorted_append)
  then have "foldl coalesce_step [] (xs @ [p]) = map addr_range (merge_page Q p)"
    using snoc.prems by (simp add: coalesce_step_pages merged_def apart_def)
  moreover have "merged (xs @ [p]) (merge_page Q p)"
    using snoc.prems Q(2) by (intro merged_snoc) (auto simp: sorted_append)
  ultimately show ?case by blast
qed

definition range_pages :: "u64 \<times> u64 \<Rightarrow> u64 list" where
  "range_pages r = page_seq (page_of (fst r)) (page_of (snd r))"

lemma sorted_page_seq: "sorted_wrt (<) (page_seq lo hi)"
proof -
  have "sorted_wrt (\<lambda>i j. (word_of_nat i :: u64) < word_of_nat j) [unat lo..<unat hi]"
    using unsigned_less [of hi, where 'a = nat]
    by (intro sorted_wrt_mono_rel [OF _ sorted_wrt_upt]) (simp add: word_less_nat_alt unat_of_nat)
  then show ?thesis by (simp add: page_seq_def sorted_wrt_map)
qed

lemma apart_pages:
  "apart Q \<Longrightarrow> sorted_wrt (<) (concat (map range_pages (map addr_range Q))) \<and>
    set (concat (map range_pages (map addr_range Q))) = pages_in Q"
proof (induction Q rule: rev_induct)
  case (snoc q Q)
  have q: "unat (fst q) < 2 ^ 52" "unat (snd q) < 2 ^ 52"
    using snoc.prems by (auto simp: apart_snoc word_less_nat_alt)
  have r: "range_pages (addr_range q) = page_seq (fst q) (snd q)"
    using q by (simp add: range_pages_def addr_range_def page_of_addr)
  have "x < y" if "x \<in> pages_in Q" "y \<in> {fst q..<snd q}" for x y
    using that snoc.prems by (fastforce simp: apart_snoc pages_in_def)
  then show ?case
    using snoc sorted_page_seq by (auto simp: apart_snoc r sorted_wrt_append set_page_seq pages_in_def)
qed (simp add: pages_in_def)

lemma coalesce_ranges:
  assumes "\<forall>p \<in> set ps. small_page p" and "r \<in> set (coalesce ps)"
  shows "\<exists>q. r = addr_range q \<and> fst q < snd q \<and> unat (snd q) < 2 ^ 52"
proof -
  obtain Q where "coalesce ps = map addr_range Q" "apart Q"
    using merged_sorted [of "sort ps"] assms(1) by (auto simp: coalesce_def merged_def)
  then show ?thesis using assms(2) unfolding apart_def by fastforce
qed

lemma coalesce_ok:
  assumes "\<forall>p \<in> set ps. small_page p"
  shows "set (concat (map range_pages (coalesce ps))) = set ps" and "sorted_wrt (<) (concat (map range_pages (coalesce ps)))"
proof -
  obtain Q where Q: "coalesce ps = map addr_range Q" "merged (sort ps) Q"
    using merged_sorted [of "sort ps"] assms by (auto simp: coalesce_def)
  then show "set (concat (map range_pages (coalesce ps))) = set ps" "sorted_wrt (<) (concat (map range_pages (coalesce ps)))"
    using apart_pages [of Q] by (simp_all add: merged_def)
qed

text \<open>Merging pages: The ranges hold exactly the pages that were given, each once and in ascending order, and no two of them touch:
  there are as few as possible.\<close>

lemma coalesce_exact:
  assumes "\<forall>p \<in> set ps. small_page p"
  shows "concat (map range_pages (coalesce ps)) = sorted_list_of_set (set ps) \<and> sorted_wrt (\<lambda>q r. snd q < fst r) (coalesce ps)"
proof
  obtain Q where Q: "coalesce ps = map addr_range Q" "merged (sort ps) Q"
    using merged_sorted [of "sort ps"] assms by (auto simp: coalesce_def)
  show "concat (map range_pages (coalesce ps)) = sorted_list_of_set (set ps)"
    using coalesce_ok [OF assms] strict_sorted_equal sorted_list_of_set.strict_sorted_key_list_of_set [of "set ps"] by (metis List.finite_set set_sorted_list_of_set)
  have ap: "apart Q" using Q(2) by (simp add: merged_def)
  have "unat (fst q) < 2 ^ 52 \<and> unat (snd q) < 2 ^ 52" if "q \<in> set Q" for q
  proof -
    from that ap have "unat (fst q) < unat (snd q)" "unat (snd q) < 2 ^ 52" by (auto simp: apart_def word_less_nat_alt)
    then show ?thesis by linarith
  qed
  then have lt: "snd (addr_range q) < fst (addr_range r)" if "q \<in> set Q" "r \<in> set Q" "snd q < fst r" for q r
    using that by (simp add: addr_range_def page_addr_order)
  have "sorted_wrt (\<lambda>q r. snd q < fst r) Q" using ap by (simp add: apart_def)
  then have "sorted_wrt (\<lambda>q r. snd (addr_range q) < fst (addr_range r)) Q"
    by (rule sorted_wrt_mono_rel [rotated]) (rule lt)
  then show "sorted_wrt (\<lambda>q r. snd q < fst r) (coalesce ps)" by (simp add: Q(1) sorted_wrt_map)
qed

lemma coalesce_exact_witness:
  "concat (map range_pages (coalesce [7, 2, 3, 2, 5])) = [2, 3, 5, 7] \<and> coalesce [7, 2, 3, 2, 5] = [(0x2000, 0x4000), (0x5000, 0x6000), (0x7000, 0x8000)]"
proof -
  have "\<forall>p \<in> set [7, 2, 3, 2, 5]. small_page p" by (simp add: small_page_def)
  moreover have "sorted_list_of_set (set [7, 2, 3, 2, 5 :: u64]) = [2, 3, 5, 7]" by (simp only: sorted_list_of_set_sort_remdups) code_simp
  moreover have "coalesce [7, 2, 3, 2, 5] = [(0x2000, 0x4000), (0x5000, 0x6000), (0x7000, 0x8000)]" by code_simp
  ultimately show ?thesis using coalesce_exact [of "[7, 2, 3, 2, 5]"] by simp
qed

end
