(* ===== verification/Dump_Session.thy ===== *)
theory Dump_Session
  imports Dump_Pages Library_Utils
begin

text \<open>
  The sampling half of \<open>trace/src/TraceUnidbgDump.cpp\<close>: the session of a traced function, the copy of it that every thread makes for itself,
  and the hooks that record the entry registers, the touched pages with their content before the first write, the symbols
  jumped to and the files opened. Guest addresses are host addresses, so the hooks read memory directly: an unmapped byte is a fault
  (\<open>None\<close>), and so is a session that was deleted. An unordered set is a list in the order of insertion; the ordered
  ones are sorted lists.
\<close>

record dump_session =
  du_ctx :: u64
  du_handle :: u64
  du_dir :: string
  du_target :: u64
  du_entry :: bool
  du_xregs :: "u64 list"
  du_sp :: u64
  du_pc :: u64
  du_nzcv :: u64
  du_fpcr :: u64
  du_fpsr :: u64
  du_qregs :: "byte list list"
  du_pages :: "u64 list"
  du_written :: "u64 \<Rightarrow> byte list option"
  du_symbols :: "(u64 \<times> string) list"
  du_opened :: "string list"
  du_dumped :: "u64 set"
  du_finalized :: bool
  du_trace :: bool
  du_tid :: u32
  du_master :: u64

definition new_session :: "u64 \<Rightarrow> u64 \<Rightarrow> string \<Rightarrow> u64 \<Rightarrow> bool \<Rightarrow> u32 \<Rightarrow> u64 \<Rightarrow> dump_session" where
  "new_session ctx handle dir target tr tid master =
     \<lparr>du_ctx = ctx, du_handle = handle, du_dir = dir, du_target = target, du_entry = False, du_xregs = replicate 31 0, du_sp = 0,
      du_pc = 0, du_nzcv = 0, du_fpcr = 0, du_fpsr = 0, du_qregs = replicate 32 (replicate 16 0), du_pages = [],
      du_written = Map.empty, du_symbols = [], du_opened = [], du_dumped = {}, du_finalized = False, du_trace = tr,
      du_tid = tid, du_master = master\<rparr>"

subsection \<open>The hooks on a session\<close>

record entry_regs =
  er_x :: "nat \<Rightarrow> u64"
  er_sp :: u64
  er_nzcv :: u64
  er_fpcr :: u64
  er_fpsr :: u64
  er_q :: "nat \<Rightarrow> byte list"

definition on_entry :: "entry_regs \<Rightarrow> u64 \<Rightarrow> dump_session \<Rightarrow> dump_session" where
  "on_entry r address s =
     (if du_entry s then s
      else s\<lparr>du_entry := True, du_xregs := map (er_x r) [0..<31], du_sp := er_sp r, du_nzcv := er_nzcv r, du_fpcr := er_fpcr r,
             du_fpsr := er_fpsr r, du_qregs := map (er_q r) [0..<32], du_pc := address\<rparr>)"

datatype access = Mem_read | Mem_write

text \<open>The memory is that before the access; a page is copied whole before its first write.\<close>

fun mem_loop :: "mem \<Rightarrow> access \<Rightarrow> u64 list \<Rightarrow> dump_session \<Rightarrow> dump_session option" where
  "mem_loop m k [] s = Some s"
| "mem_loop m k (p # ps) s =
     (let s1 = s\<lparr>du_pages := (if p \<in> set (du_pages s) then du_pages s else du_pages s @ [p])\<rparr> in
      if k = Mem_write \<and> du_written s1 p = None
      then do { snap \<leftarrow> read_range m (unat (page_addr p)) 4096;
                mem_loop m k ps (s1\<lparr>du_written := (du_written s1)(p \<mapsto> snap)\<rparr>) }
      else mem_loop m k ps s1)"

definition on_mem :: "mem \<Rightarrow> access \<Rightarrow> u64 \<Rightarrow> nat \<Rightarrow> dump_session \<Rightarrow> dump_session option" where
  "on_mem m k a sz s = mem_loop m k (touched_pages a sz) s"

text \<open>\<open>std::map::emplace\<close> keeps the first name; \<open>std::set\<close> orders strings by their bytes.\<close>

fun emplace :: "u64 \<Rightarrow> string \<Rightarrow> (u64 \<times> string) list \<Rightarrow> (u64 \<times> string) list" where
  "emplace k v [] = [(k, v)]"
| "emplace k v (x # xs) =
     (if k < fst x then (k, v) # x # xs else if k = fst x then x # xs else x # emplace k v xs)"

fun str_less :: "string \<Rightarrow> string \<Rightarrow> bool" where
  "str_less s [] = False"
| "str_less [] (d # t) = True"
| "str_less (c # s) (d # t) = (c < d \<or> c = d \<and> str_less s t)"

fun set_insert :: "string \<Rightarrow> string list \<Rightarrow> string list" where
  "set_insert s [] = [s]"
| "set_insert s (t # ts) = (if str_less s t then s # t # ts else if s = t then t # ts else t # set_insert s ts)"

text \<open>The path at \<open>p\<close>: at most \<open>n\<close> characters, up to the NUL.\<close>

fun path_chars :: "mem \<Rightarrow> nat \<Rightarrow> nat \<Rightarrow> string option" where
  "path_chars m a 0 = Some []"
| "path_chars m a (Suc n) =
     (case m a of
        None \<Rightarrow> None
      | Some b \<Rightarrow> if b = 0 then Some [] else map_option (Cons (char_of (unat b))) (path_chars m (a + 1) n))"

declare path_chars.simps [simp del]

definition note_path :: "mem \<Rightarrow> u64 \<Rightarrow> dump_session \<Rightarrow> dump_session option" where
  "note_path m p s =
     (if p = 0 then Some s
      else do { b \<leftarrow> m (unat p);
                if b \<noteq> 0x2F then Some s
                else do { path \<leftarrow> path_chars m (unat p) 255;
                          Some (if 1 < length path then s\<lparr>du_opened := set_insert path (du_opened s)\<rparr> else s) } })"

definition on_jump :: "mem \<Rightarrow> (nat \<Rightarrow> u64) \<Rightarrow> u64 \<Rightarrow> string option \<Rightarrow> dump_session \<Rightarrow> dump_session option" where
  "on_jump m x address name s =
     (let s1 = s\<lparr>du_symbols := emplace address (case name of None \<Rightarrow> [] | Some n \<Rightarrow> take 255 n) (du_symbols s)\<rparr> in
      case name of
        None \<Rightarrow> Some s1
      | Some n \<Rightarrow>
          if contains_substring n ''open'' \<and> \<not> contains_substring n ''opendir''
          then note_path m (x (if contains_substring n ''openat'' then 1 else 0)) s1 else Some s1)"

text \<open>The numbers of \<open>openat\<close> and \<open>openat2\<close> come from the kernel headers.\<close>

definition on_svc :: "(u32 \<Rightarrow> bool) \<Rightarrow> mem \<Rightarrow> (nat \<Rightarrow> u64) \<Rightarrow> u32 \<Rightarrow> dump_session \<Rightarrow> dump_session option" where
  "on_svc is_openat m x nr s = (if is_openat nr then note_path m (x 1) s else Some s)"

subsection \<open>Sessions and threads\<close>

text \<open>The objects, the table of handles, the table of each thread, and the list of all the threads' sessions.\<close>

type_synonym dump_thread = nat

record dump_state =
  dm_heap :: "u64 \<Rightarrow> dump_session option"
  dm_sessions :: "u64 \<Rightarrow> u64 option"
  dm_tls :: "dump_thread \<Rightarrow> u64 \<Rightarrow> u64 option"
  dm_all :: "u64 list"

text \<open>\<open>new_addr\<close> is what \<open>operator new\<close> returns and \<open>tid\<close> the kernel's number of the thread.\<close>

definition getOrCreatePerThreadSession :: "dump_thread \<Rightarrow> u32 \<Rightarrow> u64 \<Rightarrow> u64 \<Rightarrow> dump_state \<Rightarrow> (u64 \<times> dump_state) option" where
  "getOrCreatePerThreadSession t tid new_addr master st =
     (case dm_tls st t master of
        Some a \<Rightarrow> Some (a, st)
      | None \<Rightarrow>
          do { m \<leftarrow> dm_heap st master;
               Some (new_addr,
                 st\<lparr>dm_heap := (dm_heap st)(new_addr \<mapsto>
                      new_session (du_ctx m) (du_handle m) (du_dir m) (du_target m) (du_trace m) tid master),
                    dm_tls := (dm_tls st)(t := (dm_tls st t)(master \<mapsto> new_addr)),
                    dm_all := dm_all st @ [new_addr]\<rparr>) })"

text \<open>What every hook does first: it takes the session of its thread.\<close>

definition with_session :: "dump_thread \<Rightarrow> u32 \<Rightarrow> u64 \<Rightarrow> u64 \<Rightarrow> (dump_session \<Rightarrow> dump_session option) \<Rightarrow> dump_state \<Rightarrow> dump_state option" where
  "with_session t tid new_addr ud f st =
     do { (a, st) \<leftarrow> getOrCreatePerThreadSession t tid new_addr ud st;
          s \<leftarrow> dm_heap st a;
          s \<leftarrow> f s;
          Some (st\<lparr>dm_heap := (dm_heap st)(a \<mapsto> s)\<rparr>) }"

datatype dump_hook = Hook_block | Hook_mem | Hook_jump | Hook_svc | Hook_stop

text \<open>\<open>made\<close> is the handle and the context from \<open>trace\<close> or \<open>vc_make_handle\<close>; the results are the handle (0 for a failure), the
  state, the directories created for the trace, and the hooks with their ranges.\<close>

definition trace_unidbg_dump :: "u64 \<Rightarrow> string option \<Rightarrow> bool \<Rightarrow> u64 \<times> u64 \<Rightarrow> u64 \<Rightarrow> dump_state
    \<Rightarrow> (u64 \<times> dump_state) \<times> string list \<times> (dump_hook \<times> u64 \<times> u64) list" where
  "trace_unidbg_dump func dir withTrace made new_addr st =
     (let d = (case dir of None \<Rightarrow> [] | Some d \<Rightarrow> d);
          dirs = (if withTrace then [d, d @ ''/trace''] else []) in
      if fst made = 0 \<or> snd made = 0 then ((0, st), dirs, [])
      else ((fst made,
             st\<lparr>dm_heap := (dm_heap st)(new_addr \<mapsto> new_session (snd made) (fst made) d func withTrace 0 0),
                dm_sessions := (dm_sessions st)(fst made \<mapsto> new_addr)\<rparr>),
            dirs,
            [(Hook_block, func, func + 4), (Hook_mem, 0, 0), (Hook_jump, 0, 0), (Hook_svc, 0, 0), (Hook_stop, 0, 0)]))"

subsection \<open>What the hooks keep\<close>

lemma set_insert_set [simp]: "set (set_insert s ts) = insert s (set ts)"
  by (induction ts) auto

text \<open>Symbols: ascending addresses, and the name of the first jump to an address.\<close>

lemma emplace_sorted:
  "sorted_wrt (<) (map fst xs) \<Longrightarrow> sorted_wrt (<) (map fst (emplace k v xs)) \<and> set (map fst (emplace k v xs)) = insert k (set (map fst xs))"
  by (induction xs) (auto simp: not_less_iff_gr_or_eq)

lemma emplace_lookup: "sorted_wrt (<) (map fst xs) \<Longrightarrow>
    map_of (emplace k v xs) = (case map_of xs k of None \<Rightarrow> (map_of xs)(k \<mapsto> v) | Some w \<Rightarrow> map_of xs)"
proof (induction xs)
  case (Cons x xs)
  have "k < fst x \<Longrightarrow> map_of xs k = None"
    using Cons.prems by (auto simp: map_of_eq_None_iff)
  then show ?case
    using Cons by (auto split: option.splits simp: fun_eq_iff)
qed (simp add: fun_eq_iff)

lemma mem_loop_pages: "mem_loop m k ps s = Some s' \<Longrightarrow> set (du_pages s') = set (du_pages s) \<union> set ps"
  by (induction ps arbitrary: s) (fastforce simp: Let_def bind_eq_Some_conv split: if_splits)+

lemma mem_loop_rest: "mem_loop m k ps s = Some s' \<Longrightarrow> du_dumped s' = du_dumped s \<and> du_dir s' = du_dir s \<and> du_tid s' = du_tid s
    \<and> du_target s' = du_target s \<and> du_sp s' = du_sp s \<and> du_master s' = du_master s"
  by (induction ps arbitrary: s) (fastforce simp: Let_def bind_eq_Some_conv split: if_splits)+

text \<open>The content before the first write is kept: pages already written stay, others get what they hold now.\<close>

lemma mem_loop_written: "mem_loop m k ps s = Some s' \<Longrightarrow>
    du_written s' p = (if k = Mem_write \<and> p \<in> set ps \<and> du_written s p = None then read_range m (unat (page_addr p)) 4096
       else du_written s p)"
  by (induction ps arbitrary: s) (fastforce simp: Let_def bind_eq_Some_conv split: if_splits)+

lemma mem_loop_reads: "mem_loop m Mem_write ps s = Some s' \<Longrightarrow> p \<in> set ps \<Longrightarrow> du_written s p = None \<Longrightarrow>
    \<exists>snap. read_range m (unat (page_addr p)) 4096 = Some snap"
proof (induction ps arbitrary: s)
  case (Cons q ps)
  then show ?case
  proof (cases "q = p")
    case False
    with Cons.prems have "\<exists>t. mem_loop m Mem_write ps t = Some s' \<and> du_written t p = None"
      by (fastforce simp: Let_def bind_eq_Some_conv split: if_splits)
    with False Cons show ?thesis by auto
  qed (auto simp: Let_def bind_eq_Some_conv split: if_splits)
qed simp

end
