(* ===== verification/Dump_Files.thy ===== *)
theory Dump_Files
  imports Dump_Session Symbol_Table
begin

text \<open>
  The other half of \<open>trace/src/TraceUnidbgDump.cpp\<close>: \<open>do_finalize\<close>, which writes the files of one thread's dump when the traced function has
  returned. What it does to the file system is a list of actions in order. The memory, the maps file, the files that the program had
  opened, \<open>dladdr\<close>, the VM and which files can be created are fields of an environment; \<open>sscanf\<close> on a line of the maps file is a function.
  Writes are taken whole: the code does not look at their results.
\<close>

datatype fs_act = Mkdir string | Put string "byte list"

datatype file_state = Not_regular | Locked | Regular "byte list list"

record dump_env =
  de_mem :: mem
  de_memfd :: bool
  de_os :: os_env
  de_lines :: "map_line list option"
  de_maps :: "string option"
  de_scan :: "string \<Rightarrow> (u64 \<times> u64) option"
  de_open_w :: "string \<Rightarrow> bool"
  de_file :: "string \<Rightarrow> file_state"
  de_objs :: "(string option \<times> u64) list"
  de_getvms :: "u64 \<Rightarrow> u64"
  de_getenv :: "u64 \<Rightarrow> u64"
  de_slot :: "string \<Rightarrow> u64"

text \<open>What outlives a call: the caches of libraries and symbols, the VM and its function table.\<close>

record dump_globals =
  dg_libs :: "library_info list"
  dg_cache :: sym_cache
  dg_vm :: u64
  dg_ftbl :: u64

definition write_file :: "dump_env \<Rightarrow> string \<Rightarrow> byte list \<Rightarrow> fs_act list" where
  "write_file e path data = (if de_open_w e path then [Put path data] else [])"

text \<open>\<open>snprintf\<close> into an array of \<open>n\<close> bytes.\<close>

definition fmt :: "nat \<Rightarrow> string \<Rightarrow> string" where
  "fmt n t = take (n - 1) t"

definition dec_text :: "nat \<Rightarrow> string" where
  "dec_text n = uint64ToDec (of_nat n)"

definition hex_field :: "string \<Rightarrow> u64 \<Rightarrow> string" where
  "hex_field label v = label @ ''=0x'' @ uint64ToHex v @ [CHR 0x0A]"

subsection \<open>Directories\<close>

definition dir_part :: "string \<Rightarrow> string" where
  "dir_part path = rev (drop 1 (dropWhile (\<lambda>c. c \<noteq> CHR 0x2F) (rev path)))"

definition mkdir_p :: "string \<Rightarrow> fs_act list" where
  "mkdir_p path = map (\<lambda>i. Mkdir (take i path)) (filter (\<lambda>i. path ! i = CHR 0x2F) [1..<length path]) @ [Mkdir path]"

definition thread_dir :: "dump_session \<Rightarrow> string" where
  "thread_dir s = du_dir s @ ''/tid'' @ uint64ToDec (ucast (du_tid s))"

subsection \<open>The maps file\<close>

function maps_loop :: "(string \<Rightarrow> (u64 \<times> u64) option) \<Rightarrow> string \<Rightarrow> vma list \<times> string list" where
  "maps_loop scan rest =
     (if rest = [] then ([], [])
      else (let line = takeWhile (\<lambda>c. c \<noteq> CHR 0x0A) rest;
                path = dropWhile (\<lambda>c. c \<noteq> CHR 0x2F) line in
            case maps_loop scan (drop (length line + 1) rest) of (vmas, paths) \<Rightarrow>
              (case scan rest of
                 None \<Rightarrow> (vmas, paths)
               | Some (st, en) \<Rightarrow>
                   if st < en
                   then (\<lparr>vma_start = st, vma_end = en, vma_file = path \<noteq> []\<rparr> # vmas, if path \<noteq> [] then path # paths else paths)
                   else (vmas, paths))))"
  by pat_completeness auto
termination
  by (relation "measure (\<lambda>(scan, rest). length rest)") auto

declare maps_loop.simps [simp del]

subsection \<open>The pages and their content\<close>

definition STACK_BELOW :: u64 where "STACK_BELOW = 0x10000"
definition STACK_ABOVE :: u64 where "STACK_ABOVE = 0x2000"

definition stack_pages :: "u64 \<Rightarrow> u64 list" where
  "stack_pages sp = (if sp \<noteq> 0 then page_seq (page_of (sp - STACK_BELOW)) (page_of (sp + STACK_ABOVE) + 1) else [])"

definition module_pages :: "u64 \<Rightarrow> u64 \<Rightarrow> u64 list" where
  "module_pages so_base so_end =
     (if so_base \<noteq> 0 \<and> so_base < so_end then page_seq (page_of so_base) (page_of (so_end + PAGE - 1)) else [])"

definition dump_pages :: "dump_session \<Rightarrow> library_info \<Rightarrow> vma list \<Rightarrow> u64 list option" where
  "dump_pages s m vmas =
     expand_loop vmas (du_pages s) None {}
       (du_pages s @ stack_pages (du_sp s) @ module_pages (li_segments_start m) (li_segments_end m))"

definition read_page_safe :: "dump_env \<Rightarrow> u64 \<Rightarrow> byte list option" where
  "read_page_safe e a = (if de_memfd e then read_range (de_mem e) (unat a) 4096 else None)"

definition page_bytes :: "dump_env \<Rightarrow> dump_session \<Rightarrow> u64 \<Rightarrow> byte list" where
  "page_bytes e s a =
     (case du_written s (page_of a) of
        Some snap \<Rightarrow> snap
      | None \<Rightarrow> (case read_page_safe e a of Some bs \<Rightarrow> bs | None \<Rightarrow> replicate 4096 0))"

definition bin_name :: "u64 \<times> u64 \<Rightarrow> string" where
  "bin_name r = fmt 64 (uint64ToHex (fst r) @ ''_'' @ uint64ToHex (snd r) @ ''.bin'')"

fun bin_files :: "dump_env \<Rightarrow> dump_session \<Rightarrow> (u64 \<times> u64) list \<Rightarrow> fs_act list option" where
  "bin_files e s [] = Some []"
| "bin_files e s (r # rs) =
     (if \<not> de_open_w e (thread_dir s @ ''/'' @ bin_name r) then bin_files e s rs
      else do { as \<leftarrow> addr_loop (fst r) (snd r);
                acts \<leftarrow> bin_files e s rs;
                Some (Put (thread_dir s @ ''/'' @ bin_name r) (concat (map (page_bytes e s) as)) # acts) })"

subsection \<open>The texts\<close>

definition regs_text :: "dump_session \<Rightarrow> string" where
  "regs_text s =
     concat (map (\<lambda>i. fmt 256 (hex_field (CHR ''X'' # dec_text i) (du_xregs s ! i))) [0..<31]) @
     fmt 256 (hex_field ''SP'' (du_sp s) @ hex_field ''PC'' (du_pc s) @ hex_field ''NZCV'' (du_nzcv s) @
              hex_field ''FPCR'' (du_fpcr s) @ hex_field ''FPSR'' (du_fpsr s)) @
     concat (map (\<lambda>i. fmt 256 (CHR ''Q'' # dec_text i @ ''='' @ concat (map byteToHex (du_qregs s ! i)) @ [CHR 0x0A])) [0..<32])"

definition args_text :: "dump_session \<Rightarrow> string" where
  "args_text s =
     concat (map (\<lambda>i. fmt 256 (hex_field (''arg'' @ dec_text i @ ''(X'' @ dec_text i @ '')'') (du_xregs s ! i))) [0..<8]) @
     fmt 256 (hex_field ''SP'' (du_sp s))"

definition symbols_text :: "dump_session \<Rightarrow> string" where
  "symbols_text s =
     concat (map (\<lambda>(a, n). fmt 256 (''0x'' @ uint64ToHex a @ '' '') @ (if n = [] then ''<unresolved>'' else n) @ [CHR 0x0A]) (du_symbols s))"

definition info_text :: "dump_session \<Rightarrow> library_info \<Rightarrow> string" where
  "info_text s m =
     fmt 256 (hex_field ''target_addr'' (du_target s)) @ fmt 256 (hex_field ''module_base'' (li_segments_start m)) @
     fmt 256 (hex_field ''module_end'' (li_segments_end m)) @
     fmt 256 (hex_field ''module_offset'' (du_target s - li_segments_start m)) @ ''module_path='' @ li_name m @ [CHR 0x0A]"

subsection \<open>The JNI table\<close>

definition kJniFns :: "string list" where
  "kJniFns = [
     ''GetVersion'', ''DefineClass'', ''FindClass'', ''FromReflectedMethod'',
     ''FromReflectedField'', ''ToReflectedMethod'', ''GetSuperclass'', ''IsAssignableFrom'',
     ''ToReflectedField'', ''Throw'', ''ThrowNew'', ''ExceptionOccurred'',
     ''ExceptionDescribe'', ''ExceptionClear'', ''FatalError'', ''PushLocalFrame'',
     ''PopLocalFrame'', ''NewGlobalRef'', ''DeleteGlobalRef'', ''DeleteLocalRef'',
     ''IsSameObject'', ''NewLocalRef'', ''EnsureLocalCapacity'', ''AllocObject'',
     ''NewObject'', ''NewObjectV'', ''NewObjectA'', ''GetObjectClass'',
     ''IsInstanceOf'', ''GetMethodID'', ''CallObjectMethod'', ''CallObjectMethodV'',
     ''CallObjectMethodA'', ''CallBooleanMethod'', ''CallBooleanMethodV'', ''CallBooleanMethodA'',
     ''CallByteMethod'', ''CallByteMethodV'', ''CallByteMethodA'', ''CallCharMethod'',
     ''CallCharMethodV'', ''CallCharMethodA'', ''CallShortMethod'', ''CallShortMethodV'',
     ''CallShortMethodA'', ''CallIntMethod'', ''CallIntMethodV'', ''CallIntMethodA'',
     ''CallLongMethod'', ''CallLongMethodV'', ''CallLongMethodA'', ''CallFloatMethod'',
     ''CallFloatMethodV'', ''CallFloatMethodA'', ''CallDoubleMethod'', ''CallDoubleMethodV'',
     ''CallDoubleMethodA'', ''CallVoidMethod'', ''CallVoidMethodV'', ''CallVoidMethodA'',
     ''CallNonvirtualObjectMethod'', ''CallNonvirtualObjectMethodV'', ''CallNonvirtualObjectMethodA'', ''CallNonvirtualBooleanMethod'',
     ''CallNonvirtualBooleanMethodV'', ''CallNonvirtualBooleanMethodA'', ''CallNonvirtualByteMethod'', ''CallNonvirtualByteMethodV'',
     ''CallNonvirtualByteMethodA'', ''CallNonvirtualCharMethod'', ''CallNonvirtualCharMethodV'', ''CallNonvirtualCharMethodA'',
     ''CallNonvirtualShortMethod'', ''CallNonvirtualShortMethodV'', ''CallNonvirtualShortMethodA'', ''CallNonvirtualIntMethod'',
     ''CallNonvirtualIntMethodV'', ''CallNonvirtualIntMethodA'', ''CallNonvirtualLongMethod'', ''CallNonvirtualLongMethodV'',
     ''CallNonvirtualLongMethodA'', ''CallNonvirtualFloatMethod'', ''CallNonvirtualFloatMethodV'', ''CallNonvirtualFloatMethodA'',
     ''CallNonvirtualDoubleMethod'', ''CallNonvirtualDoubleMethodV'', ''CallNonvirtualDoubleMethodA'', ''CallNonvirtualVoidMethod'',
     ''CallNonvirtualVoidMethodV'', ''CallNonvirtualVoidMethodA'', ''GetFieldID'', ''GetObjectField'',
     ''GetBooleanField'', ''GetByteField'', ''GetCharField'', ''GetShortField'',
     ''GetIntField'', ''GetLongField'', ''GetFloatField'', ''GetDoubleField'',
     ''SetObjectField'', ''SetBooleanField'', ''SetByteField'', ''SetCharField'',
     ''SetShortField'', ''SetIntField'', ''SetLongField'', ''SetFloatField'',
     ''SetDoubleField'', ''GetStaticMethodID'', ''CallStaticObjectMethod'', ''CallStaticObjectMethodV'',
     ''CallStaticObjectMethodA'', ''CallStaticBooleanMethod'', ''CallStaticBooleanMethodV'', ''CallStaticBooleanMethodA'',
     ''CallStaticByteMethod'', ''CallStaticByteMethodV'', ''CallStaticByteMethodA'', ''CallStaticCharMethod'',
     ''CallStaticCharMethodV'', ''CallStaticCharMethodA'', ''CallStaticShortMethod'', ''CallStaticShortMethodV'',
     ''CallStaticShortMethodA'', ''CallStaticIntMethod'', ''CallStaticIntMethodV'', ''CallStaticIntMethodA'',
     ''CallStaticLongMethod'', ''CallStaticLongMethodV'', ''CallStaticLongMethodA'', ''CallStaticFloatMethod'',
     ''CallStaticFloatMethodV'', ''CallStaticFloatMethodA'', ''CallStaticDoubleMethod'', ''CallStaticDoubleMethodV'',
     ''CallStaticDoubleMethodA'', ''CallStaticVoidMethod'', ''CallStaticVoidMethodV'', ''CallStaticVoidMethodA'',
     ''GetStaticFieldID'', ''GetStaticObjectField'', ''GetStaticBooleanField'', ''GetStaticByteField'',
     ''GetStaticCharField'', ''GetStaticShortField'', ''GetStaticIntField'', ''GetStaticLongField'',
     ''GetStaticFloatField'', ''GetStaticDoubleField'', ''SetStaticObjectField'', ''SetStaticBooleanField'',
     ''SetStaticByteField'', ''SetStaticCharField'', ''SetStaticShortField'', ''SetStaticIntField'',
     ''SetStaticLongField'', ''SetStaticFloatField'', ''SetStaticDoubleField'', ''NewString'',
     ''GetStringLength'', ''GetStringChars'', ''ReleaseStringChars'', ''NewStringUTF'',
     ''GetStringUTFLength'', ''GetStringUTFChars'', ''ReleaseStringUTFChars'', ''GetArrayLength'',
     ''NewObjectArray'', ''GetObjectArrayElement'', ''SetObjectArrayElement'', ''NewBooleanArray'',
     ''NewByteArray'', ''NewCharArray'', ''NewShortArray'', ''NewIntArray'',
     ''NewLongArray'', ''NewFloatArray'', ''NewDoubleArray'', ''GetBooleanArrayElements'',
     ''GetByteArrayElements'', ''GetCharArrayElements'', ''GetShortArrayElements'', ''GetIntArrayElements'',
     ''GetLongArrayElements'', ''GetFloatArrayElements'', ''GetDoubleArrayElements'', ''ReleaseBooleanArrayElements'',
     ''ReleaseByteArrayElements'', ''ReleaseCharArrayElements'', ''ReleaseShortArrayElements'', ''ReleaseIntArrayElements'',
     ''ReleaseLongArrayElements'', ''ReleaseFloatArrayElements'', ''ReleaseDoubleArrayElements'', ''GetBooleanArrayRegion'',
     ''GetByteArrayRegion'', ''GetCharArrayRegion'', ''GetShortArrayRegion'', ''GetIntArrayRegion'',
     ''GetLongArrayRegion'', ''GetFloatArrayRegion'', ''GetDoubleArrayRegion'', ''SetBooleanArrayRegion'',
     ''SetByteArrayRegion'', ''SetCharArrayRegion'', ''SetShortArrayRegion'', ''SetIntArrayRegion'',
     ''SetLongArrayRegion'', ''SetFloatArrayRegion'', ''SetDoubleArrayRegion'', ''RegisterNatives'',
     ''UnregisterNatives'', ''MonitorEnter'', ''MonitorExit'', ''GetJavaVM'',
     ''GetStringRegion'', ''GetStringUTFRegion'', ''GetPrimitiveArrayCritical'', ''ReleasePrimitiveArrayCritical'',
     ''GetStringCritical'', ''ReleaseStringCritical'', ''NewWeakGlobalRef'', ''DeleteWeakGlobalRef'',
     ''ExceptionCheck'', ''NewDirectByteBuffer'', ''GetDirectBufferAddress'', ''GetDirectBufferCapacity'',
     ''GetObjectRefType'']"

text \<open>The parts of the title that are not ASCII are given by their bytes.\<close>

definition utf8 :: "nat list \<Rightarrow> string" where
  "utf8 bs = map char_of bs"

definition jni_title :: "u64 \<Rightarrow> string" where
  "jni_title ftbl =
     fmt 256 (''# functions=0x'' @ uint64ToHex ftbl @ '' (libart '' @ utf8 [0xE5, 0x85, 0xA8, 0xE5, 0xB1, 0x80] @ '' JNINativeInterface'' @
       utf8 [0xEF, 0xBC, 0x8C] @ dec_text (length kJniFns) @ '' '' @ utf8 [0xE9, 0xA1, 0xB9] @ '')'' @ [CHR 0x0A])"

fun jni_lines :: "mem \<Rightarrow> (string \<Rightarrow> u64) \<Rightarrow> u64 \<Rightarrow> string list \<Rightarrow> string option" where
  "jni_lines m slot ftbl [] = Some []"
| "jni_lines m slot ftbl (n # ns) =
     do { bs \<leftarrow> read_range m (unat (ftbl + slot n)) 8;
          rest \<leftarrow> jni_lines m slot ftbl ns;
          Some (fmt 256 (''env->functions->'' @ n @ '' -> 0x'' @ uint64ToHex (word_of_nat (le_nat bs)) @ [CHR 0x0A]) @ rest) }"

text \<open>The table is found once and kept. The VM comes from libart, the table from \<open>GetEnv\<close>, which gives none to a thread that is not attached.\<close>

definition find_vm :: "dump_env \<Rightarrow> dump_globals \<Rightarrow> dump_globals option" where
  "find_vm e g =
     (if dg_vm g \<noteq> 0 then Some g
      else do { (fn, c) \<leftarrow> resolveSymbolInSo (de_os e) (de_objs e) ''/libart.so'' (text_bytes ''JNI_GetCreatedJavaVMs'') (dg_cache g);
                Some (g\<lparr>dg_cache := c, dg_vm := (if fn \<noteq> 0 then de_getvms e fn else 0)\<rparr>) })"

definition find_table :: "dump_env \<Rightarrow> dump_globals \<Rightarrow> dump_globals option" where
  "find_table e g =
     (if dg_ftbl g \<noteq> 0 then Some g
      else do { g \<leftarrow> find_vm e g;
                Some (if dg_vm g \<noteq> 0 then g\<lparr>dg_ftbl := de_getenv e (dg_vm g)\<rparr> else g) })"

definition jni_file :: "dump_env \<Rightarrow> string \<Rightarrow> dump_globals \<Rightarrow> (dump_globals \<times> fs_act list) option" where
  "jni_file e dir g =
     do { g \<leftarrow> find_table e g;
          if dg_ftbl g = 0 then Some (g, [])
          else do { t \<leftarrow> jni_lines (de_mem e) (de_slot e) (dg_ftbl g) kJniFns;
                    Some (g, write_file e (dir @ ''/jni_table.log'') (text_bytes (jni_title (dg_ftbl g) @ t))) } }"

subsection \<open>Copies of the opened files\<close>

definition COPY_CAP :: nat where "COPY_CAP = 64 * 1024 * 1024"

text \<open>The chunks are what successive calls of \<open>read\<close> give.\<close>

fun copy_chunks :: "nat \<Rightarrow> byte list list \<Rightarrow> byte list" where
  "copy_chunks total' [] = []"
| "copy_chunks total' (c # cs) = (if total' < COPY_CAP \<and> c \<noteq> [] then c @ copy_chunks (total' + length c) cs else [])"

definition skip_line :: "string \<Rightarrow> string \<Rightarrow> string" where
  "skip_line path why = fmt 600 (path @ [CHR 0x09] @ ''SKIP('' @ why @ '')'' @ [CHR 0x0A])"

definition mapped_text :: string where
  "mapped_text = utf8 [0xE5, 0xB7, 0xB2, 0xE6, 0x98, 0xA0, 0xE5, 0xB0, 0x84, 0xE7, 0x9A, 0x84, 0xE7, 0xB3, 0xBB, 0xE7, 0xBB, 0x9F, 0xE5, 0xBA, 0x93] @ ''/SO''"

definition irregular_text :: string where
  "irregular_text = utf8 [0xE9, 0x9D, 0x9E, 0xE5, 0xB8, 0xB8, 0xE8, 0xA7, 0x84, 0xE6, 0x96, 0x87, 0xE4, 0xBB, 0xB6] @ ''/'' @ utf8 [0xE8, 0xAE, 0xBE, 0xE5, 0xA4, 0x87]"

definition locked_text :: string where
  "locked_text = utf8 [0xE6, 0x89, 0x93, 0xE4, 0xB8, 0x8D, 0xE5, 0xBC, 0x80]"

definition rootfs_file :: "dump_env \<Rightarrow> string \<Rightarrow> string list \<Rightarrow> string \<Rightarrow> string \<times> fs_act list" where
  "rootfs_file e rootfs mapped path =
     (if path \<in> set mapped then (skip_line path mapped_text, [])
      else case de_file e path of
        Not_regular \<Rightarrow> (skip_line path irregular_text, [])
      | Locked \<Rightarrow> (skip_line path locked_text, [])
      | Regular chunks \<Rightarrow>
          (let out = rootfs @ path; data = copy_chunks 0 chunks; dirs = mkdir_p (dir_part out) in
           if de_open_w e out
           then (fmt 600 (path @ [CHR 0x09] @ ''rootfs'' @ path @ [CHR 0x09] @ dec_text (length data) @ [CHR 0x0A]),
                 dirs @ [Put out data])
           else ([], dirs)))"

definition rootfs_files :: "dump_env \<Rightarrow> string \<Rightarrow> string list \<Rightarrow> string list \<Rightarrow> fs_act list" where
  "rootfs_files e dir mapped opened =
     (let rs = map (rootfs_file e (dir @ ''/rootfs'') mapped) opened in
      Mkdir (dir @ ''/rootfs'') # concat (map snd rs) @
      write_file e (dir @ ''/files_manifest.txt'') (text_bytes (concat (map fst rs))))"

subsection \<open>The whole dump\<close>

definition do_finalize :: "dump_env \<Rightarrow> dump_session \<Rightarrow> dump_globals \<Rightarrow> ((dump_session \<times> dump_globals) \<times> fs_act list) option" where
  "do_finalize e s g =
     (let dir = thread_dir s;
          maps = (case de_maps e of None \<Rightarrow> ([], []) | Some t \<Rightarrow> maps_loop (de_scan e) t);
          maps_log = (case de_maps e of None \<Rightarrow> [] | Some t \<Rightarrow> write_file e (dir @ ''/maps.log'') (text_bytes t)) in
      do {
        (m, libs) \<leftarrow> findModuleByAddressExact (de_mem e) (de_os e) (de_lines e) (du_target s) (dg_libs g);
        pages \<leftarrow> dump_pages s m (fst maps);
        (let (fresh, dumped) = fresh_pages (du_dumped s) pages in
         do {
           bins \<leftarrow> bin_files e s (coalesce fresh);
           (g, jni) \<leftarrow> jni_file e dir (g\<lparr>dg_libs := libs\<rparr>);
           Some ((s\<lparr>du_finalized := True, du_dumped := dumped\<rparr>, g),
             [Mkdir (du_dir s), Mkdir dir] @ maps_log @ bins @
             write_file e (dir @ ''/regs.txt'') (text_bytes (regs_text s)) @
             write_file e (dir @ ''/args.txt'') (text_bytes (args_text s)) @
             write_file e (dir @ ''/symbols.log'') (text_bytes (symbols_text s)) @
             jni @ rootfs_files e dir (snd maps) (du_opened s) @
             write_file e (dir @ ''/info.txt'') (text_bytes (info_text s m))) }) })"

text \<open>The callback at the end of a run, and the release of a handle.\<close>

definition on_emu_stop :: "dump_env \<Rightarrow> dump_thread \<Rightarrow> u32 \<Rightarrow> u64 \<Rightarrow> u64 \<Rightarrow> dump_state \<Rightarrow> dump_globals
    \<Rightarrow> ((dump_state \<times> dump_globals) \<times> fs_act list) option" where
  "on_emu_stop e t tid new_addr ud st g =
     do { (a, st) \<leftarrow> getOrCreatePerThreadSession t tid new_addr ud st;
          s \<leftarrow> dm_heap st a;
          ((s, g), acts) \<leftarrow> do_finalize e s g;
          Some ((st\<lparr>dm_heap := (dm_heap st)(a \<mapsto> s)\<rparr>, g), acts) }"

text \<open>The sessions of a master, one after the other: the files that are missing, then \<open>delete\<close>.\<close>

fun finish_loop :: "dump_env \<Rightarrow> u64 list \<Rightarrow> dump_state \<Rightarrow> dump_globals \<Rightarrow> ((dump_state \<times> dump_globals) \<times> fs_act list) option" where
  "finish_loop e [] st g = Some ((st, g), [])"
| "finish_loop e (a # as) st g =
     do { s \<leftarrow> dm_heap st a;
          ((s, g), acts) \<leftarrow> (if du_finalized s then Some ((s, g), []) else do_finalize e s g);
          ((st, g), acts') \<leftarrow> finish_loop e as (st\<lparr>dm_heap := (dm_heap st)(a := None)\<rparr>) g;
          Some ((st, g), acts @ acts') }"

fun masters_of :: "dump_state \<Rightarrow> u64 list \<Rightarrow> u64 list option" where
  "masters_of st [] = Some []"
| "masters_of st (a # as) = do { s \<leftarrow> dm_heap st a; ms \<leftarrow> masters_of st as; Some (du_master s # ms) }"

text \<open>The last component says how the handle is released: by \<open>freeTrace\<close> (\<open>True\<close>) or by \<open>vc_free\<close>.\<close>

definition trace_unidbg_dump_finish :: "dump_env \<Rightarrow> dump_thread \<Rightarrow> u64 \<Rightarrow> dump_state \<Rightarrow> dump_globals
    \<Rightarrow> (((dump_state \<times> dump_globals) \<times> fs_act list) \<times> bool option) option" where
  "trace_unidbg_dump_finish e t wrapper st g =
     (case dm_sessions st wrapper of
        None \<Rightarrow> Some (((st, g), []), None)
      | Some master \<Rightarrow>
          do { ms \<leftarrow> masters_of st (dm_all st);
               (let tagged = zip (dm_all st) ms;
                    mine = map fst (filter (\<lambda>(a, m). m = master) tagged);
                    st1 = st\<lparr>dm_sessions := (dm_sessions st)(wrapper := None), dm_all := map fst (filter (\<lambda>(a, m). m \<noteq> master) tagged)\<rparr> in
                do { ((st, g), acts) \<leftarrow> finish_loop e mine st1 g;
                     s \<leftarrow> dm_heap st master;
                     Some (((st\<lparr>dm_heap := (dm_heap st)(master := None),
                               dm_tls := (dm_tls st)(t := (dm_tls st t)(master := None))\<rparr>, g), acts), Some (du_trace s)) }) })"

end
