(* ===== verification/Dump_Runs.thy ===== *)
theory Dump_Runs
  imports Dump_Files
begin

text \<open>
  Runs of a dumped function on one thread: the hooks in the order the engine calls them, with the memory after each access, and the dump at
  the end of every call. Between the hooks the memory may change in any way (\<open>Outside\<close>): external functions run outside the engine, and
  other threads run too. \<open>outside_pages\<close> collects the pages that were changed so before the engine had shown a write to them; the dump
  does not know what they held at the entry.
\<close>

datatype dump_ev =
  Entry entry_regs u64
| Access access u64 nat mem
| Jump "nat \<Rightarrow> u64" u64 "string option"
| Svc "u32 \<Rightarrow> bool" "nat \<Rightarrow> u64" u32
| Outside mem
| Stop dump_env

definition env_at :: "mem \<Rightarrow> dump_env \<Rightarrow> dump_env" where
  "env_at m e = e\<lparr>de_mem := m\<rparr>"

text \<open>The log has, for every dump, the session before and after it, the environment, and what it did.\<close>

type_synonym dump_log = "(dump_session \<times> dump_session \<times> dump_env \<times> fs_act list) list"

fun dump_run :: "mem \<Rightarrow> dump_ev list \<Rightarrow> dump_session \<Rightarrow> dump_globals \<Rightarrow> ((dump_session \<times> mem) \<times> dump_log) option" where
  "dump_run m [] s g = Some ((s, m), [])"
| "dump_run m (Entry r a # es) s g = dump_run m es (on_entry r a s) g"
| "dump_run m (Access k a sz m' # es) s g = do { s \<leftarrow> on_mem m k a sz s; dump_run m' es s g }"
| "dump_run m (Jump x a n # es) s g = do { s \<leftarrow> on_jump m x a n s; dump_run m es s g }"
| "dump_run m (Svc is_openat x nr # es) s g = do { s \<leftarrow> on_svc is_openat m x nr s; dump_run m es s g }"
| "dump_run m (Outside m' # es) s g = dump_run m' es s g"
| "dump_run m (Stop e # es) s g =
     do { ((s', g'), acts) \<leftarrow> do_finalize (env_at m e) s g;
          (r, log) \<leftarrow> dump_run m es s' g';
          Some (r, (s, s', env_at m e, acts) # log) }"

text \<open>The laws: addresses in the lower half of the address space, as on Android; an access of the engine changes no more than the bytes it
  writes; the files of the dump and \<open>/proc/self/mem\<close> can be opened.\<close>

definition user_space :: "nat \<Rightarrow> bool" where
  "user_space n \<longleftrightarrow> n \<le> 2 ^ 63"

definition env_ok :: "dump_env \<Rightarrow> bool" where
  "env_ok e \<longleftrightarrow> de_memfd e \<and> (\<forall>path. de_open_w e path) \<and>
     (\<forall>t v. de_maps e = Some t \<longrightarrow> v \<in> set (fst (maps_loop (de_scan e) t)) \<longrightarrow> user_space (unat (vma_end v)))"

fun lawful :: "mem \<Rightarrow> dump_ev list \<Rightarrow> bool" where
  "lawful m [] = True"
| "lawful m (Entry r a # es) = (user_space (unat (er_sp r)) \<and> lawful m es)"
| "lawful m (Access k a sz m' # es) =
     (user_space (unat a + sz) \<and> (\<forall>x. k = Mem_read \<or> x < unat a \<or> unat a + sz \<le> x \<longrightarrow> m' x = m x) \<and> lawful m' es)"
| "lawful m (Jump x a n # es) = lawful m es"
| "lawful m (Svc f x nr # es) = lawful m es"
| "lawful m (Outside m' # es) = lawful m' es"
| "lawful m (Stop e # es) = (env_ok e \<and> lawful m es)"

text \<open>The pages that something outside the engine changes, apart from those in \<open>W\<close> and those that the engine has shown a write to before.\<close>

fun outside_pages :: "u64 set \<Rightarrow> mem \<Rightarrow> dump_ev list \<Rightarrow> u64 set" where
  "outside_pages W m [] = {}"
| "outside_pages W m (Access k a sz m' # es) =
     outside_pages (if k = Mem_write then W \<union> set (touched_pages a sz) else W) m' es"
| "outside_pages W m (Outside m' # es) =
     {p. p \<notin> W \<and> (\<exists>x. x div 4096 = unat p \<and> m' x \<noteq> m x)} \<union> outside_pages W m' es"
| "outside_pages W m (_ # es) = outside_pages W m es"

definition entry_bytes :: "mem \<Rightarrow> u64 \<Rightarrow> byte list" where
  "entry_bytes m p = (case read_range m (unat (page_addr p)) 4096 of Some bs \<Rightarrow> bs | None \<Rightarrow> replicate 4096 0)"

subsection \<open>Snapshots\<close>

definition snapshots :: "u64 set \<Rightarrow> mem \<Rightarrow> mem \<Rightarrow> dump_session \<Rightarrow> bool" where
  "snapshots X m0 m s \<longleftrightarrow> (\<forall>p. unat p < 2 ^ 52 \<longrightarrow> p \<notin> X \<longrightarrow>
     (case du_written s p of
        None \<Rightarrow> \<forall>x. x div 4096 = unat p \<longrightarrow> m x = m0 x
      | Some snap \<Rightarrow> read_range m0 (unat (page_addr p)) 4096 = Some snap))"

lemma read_range_cong: "(\<And>x. a \<le> x \<Longrightarrow> x < a + n \<Longrightarrow> m x = m' x) \<Longrightarrow> read_range m a n = read_range m' a n"
  by (auto simp: read_range_def list_all_iff)

lemma read_page_cong:
  assumes "unat p < 2 ^ 52" and "\<And>x. x div 4096 = unat p \<Longrightarrow> m x = m' x"
  shows "read_range m (unat (page_addr p)) 4096 = read_range m' (unat (page_addr p)) 4096"
  using assms by (intro read_range_cong) (auto simp: unat_page_addr intro!: div_nat_eqI)

lemma touched_covers:
  assumes "user_space (unat a + sz)" and "unat a \<le> x" and "x < unat a + sz" and "x div 4096 = unat p"
  shows "p \<in> set (touched_pages a sz)"
proof -
  have u: "unat (a + of_nat (sz - 1)) = unat a + (sz - 1)"
  proof -
    have "unat (word_of_nat (sz - 1) :: u64) = sz - 1"
      using assms(1) by (simp only: unat_of_nat) (simp add: user_space_def)
    then show ?thesis
      using assms(1,2,3) by (simp only: unat_word_ariths(1)) (simp add: user_space_def)
  qed
  then have l: "unat (page_of (a + of_nat (sz - 1))) = (unat a + (sz - 1)) div 4096" by (simp add: unat_page)
  moreover have "(unat a + (sz - 1)) div 4096 \<le> 2 ^ 51"
    using assms(1,2,3) by (simp add: user_space_def)
  ultimately have "unat (page_of (a + of_nat (sz - 1)) + 1) = Suc ((unat a + (sz - 1)) div 4096)"
    by (simp add: unat_word_ariths)
  moreover have "unat a div 4096 \<le> x div 4096" "x div 4096 \<le> (unat a + (sz - 1)) div 4096"
    using assms(2,3) by (simp_all add: div_le_mono)
  ultimately show ?thesis
    using assms(4) by (simp add: touched_pages_def set_page_seq word_le_nat_alt word_less_nat_alt unat_page)
qed

lemma on_mem_snapshots:
  assumes sn: "snapshots X m0 m s" and st: "on_mem m k a sz s = Some s'" and us: "user_space (unat a + sz)"
    and fr: "\<forall>x. k = Mem_read \<or> x < unat a \<or> unat a + sz \<le> x \<longrightarrow> m' x = m x"
  shows "snapshots X m0 m' s'"
  unfolding snapshots_def
proof (intro allI impI)
  fix p :: u64
  assume p: "unat p < 2 ^ 52" and X: "p \<notin> X"
  have w: "du_written s' p = (if k = Mem_write \<and> p \<in> set (touched_pages a sz) \<and> du_written s p = None
      then read_range m (unat (page_addr p)) 4096 else du_written s p)"
    using st by (simp add: on_mem_def mem_loop_written)
  show "case du_written s' p of None \<Rightarrow> \<forall>x. x div 4096 = unat p \<longrightarrow> m' x = m0 x
    | Some snap \<Rightarrow> read_range m0 (unat (page_addr p)) 4096 = Some snap"
  proof (cases "du_written s p")
    case (Some snap)
    then show ?thesis using sn p X w by (auto simp: snapshots_def)
  next
    case None
    then have eq: "x div 4096 = unat p \<Longrightarrow> m x = m0 x" for x
      using sn [unfolded snapshots_def, rule_format, OF p X] by simp
    show ?thesis
    proof (cases "k = Mem_write \<and> p \<in> set (touched_pages a sz)")
      case True
      then have "\<exists>snap. read_range m (unat (page_addr p)) 4096 = Some snap"
        using st None by (auto simp: on_mem_def dest: mem_loop_reads)
      then show ?thesis using w None True read_page_cong [OF p eq] by auto
    next
      case False
      have "m' x = m x" if "x div 4096 = unat p" for x
      proof (cases k)
        case Mem_write
        then have "x < unat a \<or> unat a + sz \<le> x" using False touched_covers [OF us _ _ that] by fastforce
        then show ?thesis using fr by blast
      qed (use fr in blast)
      then show ?thesis using w None False eq by simp
    qed
  qed
qed

text \<open>A page that the engine has shown a write to has its copy.\<close>

definition copied :: "u64 set \<Rightarrow> dump_session \<Rightarrow> bool" where
  "copied W s \<longleftrightarrow> (\<forall>p \<in> W. du_written s p \<noteq> None)"

lemma on_mem_copied:
  assumes "copied W s" and "on_mem m k a sz s = Some s'"
  shows "copied (if k = Mem_write then W \<union> set (touched_pages a sz) else W) s'"
  unfolding copied_def
proof
  fix p
  assume p: "p \<in> (if k = Mem_write then W \<union> set (touched_pages a sz) else W)"
  have w: "du_written s' p = (if k = Mem_write \<and> p \<in> set (touched_pages a sz) \<and> du_written s p = None
      then read_range m (unat (page_addr p)) 4096 else du_written s p)"
    using assms(2) by (simp add: on_mem_def mem_loop_written)
  show "du_written s' p \<noteq> None"
  proof (cases "k = Mem_write \<and> p \<in> set (touched_pages a sz) \<and> du_written s p = None")
    case True
    then have "\<exists>snap. read_range m (unat (page_addr p)) 4096 = Some snap"
      using assms(2) by (auto simp: on_mem_def dest: mem_loop_reads)
    then show ?thesis using w True by auto
  next
    case False
    then show ?thesis using w p assms(1) by (auto simp: copied_def split: if_splits)
  qed
qed

lemma outside_snapshots:
  assumes "snapshots X m0 m s" and "copied W s" and "{p. p \<notin> W \<and> (\<exists>x. x div 4096 = unat p \<and> m' x \<noteq> m x)} \<subseteq> X"
  shows "snapshots X m0 m' s"
  unfolding snapshots_def
proof (intro allI impI)
  fix p :: u64
  assume p: "unat p < 2 ^ 52" and X: "p \<notin> X"
  have "m' x = m x" if "du_written s p = None" "x div 4096 = unat p" for x
    using assms(2,3) X that by (force simp: copied_def)
  then show "case du_written s p of None \<Rightarrow> \<forall>x. x div 4096 = unat p \<longrightarrow> m' x = m0 x
    | Some snap \<Rightarrow> read_range m0 (unat (page_addr p)) 4096 = Some snap"
    using assms(1) [unfolded snapshots_def, rule_format, OF p X] by (auto split: option.splits)
qed

text \<open>The other hooks leave pages and snapshots alone.\<close>

lemma note_path_rest: "note_path m p s = Some s' \<Longrightarrow>
    du_written s' = du_written s \<and> du_pages s' = du_pages s \<and> du_dumped s' = du_dumped s \<and> du_sp s' = du_sp s \<and>
    du_master s' = du_master s"
  by (auto simp: note_path_def bind_eq_Some_conv split: if_splits)

lemma on_jump_rest: "on_jump m x a n s = Some s' \<Longrightarrow>
    du_written s' = du_written s \<and> du_pages s' = du_pages s \<and> du_dumped s' = du_dumped s \<and> du_sp s' = du_sp s \<and>
    du_master s' = du_master s"
proof -
  let ?s = "s\<lparr>du_symbols := emplace a (case n of None \<Rightarrow> [] | Some n \<Rightarrow> take 255 n) (du_symbols s)\<rparr>"
  assume "on_jump m x a n s = Some s'"
  then have "s' = ?s \<or> (\<exists>p. note_path m p ?s = Some s')"
    unfolding on_jump_def Let_def by (cases n) (auto simp only: option.simps split: if_splits)
  then show ?thesis by (auto dest: note_path_rest)
qed

lemma on_svc_rest: "on_svc f m x nr s = Some s' \<Longrightarrow>
    du_written s' = du_written s \<and> du_pages s' = du_pages s \<and> du_dumped s' = du_dumped s \<and> du_sp s' = du_sp s \<and>
    du_master s' = du_master s"
  by (auto simp: on_svc_def dest: note_path_rest split: if_splits)

lemma snapshots_written: "du_written s' = du_written s \<Longrightarrow> snapshots X m0 m s' = snapshots X m0 m s"
  by (simp add: snapshots_def)

subsection \<open>Pages\<close>

text \<open>What is true of the pages of a session: they are small, and so is the stack pointer.\<close>

definition pages_ok :: "dump_session \<Rightarrow> bool" where
  "pages_ok s \<longleftrightarrow> (\<forall>p \<in> set (du_pages s). small_page p) \<and> user_space (unat (du_sp s))"

lemma small_below: "p < page_of a \<Longrightarrow> small_page p"
  using page_less [of a] by (simp add: small_page_def word_less_nat_alt)

lemma small_of: "unat a < 2 ^ 64 - 4096 \<Longrightarrow> small_page (page_of a)"
  by (simp add: small_page_def unat_page)

lemma small_touched:
  assumes "user_space (unat a + sz)" and "p \<in> set (touched_pages a sz)"
  shows "small_page p"
proof -
  have "unat (a + of_nat (sz - 1)) \<le> 2 ^ 63"
  proof -
    have "unat (word_of_nat (sz - 1) :: u64) = sz - 1"
      using assms(1) by (simp only: unat_of_nat) (simp add: user_space_def)
    then show ?thesis
      using assms(1) by (simp only: unat_word_ariths(1)) (simp add: user_space_def)
  qed
  then have "unat (page_of (a + of_nat (sz - 1))) \<le> 2 ^ 51" by (simp add: unat_page)
  then show ?thesis
    using assms(2) by (simp add: touched_pages_def set_page_seq small_page_def word_less_nat_alt unat_word_ariths)
qed

lemma small_stack:
  assumes "user_space (unat sp)" and "p \<in> set (stack_pages sp)"
  shows "small_page p"
proof -
  have "unat (sp + STACK_ABOVE) \<le> 2 ^ 63 + 2 ^ 13"
    using assms(1) by (simp add: STACK_ABOVE_def user_space_def unat_word_ariths)
  then have "unat (page_of (sp + STACK_ABOVE)) \<le> 2 ^ 51 + 2" by (simp add: unat_page)
  then show ?thesis
    using assms(2) by (simp add: stack_pages_def set_page_seq small_page_def word_less_nat_alt unat_word_ariths split: if_splits)
qed

lemma small_module: "p \<in> set (module_pages b e) \<Longrightarrow> small_page p"
  by (auto simp: module_pages_def set_page_seq dest: small_below split: if_splits)

text \<open>Growing to segments ends, keeps the pages and adds small ones.\<close>

lemma addr_loop_small:
  assumes "user_space (unat hi)"
  shows "\<exists>as. addr_loop lo hi = Some as \<and> (\<forall>p \<in> set (map page_of as). small_page p)"
proof -
  have h: "unat hi \<le> 2 ^ 64 - 4096" using assms by (simp add: user_space_def)
  have "small_page (page_of (lo + of_nat (4096 * k)))" if "k < (unat hi - unat lo + 4095) div 4096" for k
  proof -
    have "Suc k * 4096 \<le> unat hi - unat lo + 4095"
      using that by (simp only: Suc_le_eq [symmetric] less_eq_div_iff_mult_less_eq zero_less_numeral)
    then have lt: "unat lo + 4096 * k < unat hi" by simp
    then have "unat (word_of_nat (4096 * k) :: u64) = 4096 * k" using h by (simp only: unat_of_nat) simp
    then have "unat (lo + of_nat (4096 * k)) < unat hi" using h lt by (simp only: unat_word_ariths(1)) simp
    then show ?thesis using h by (intro small_of) simp
  qed
  then show ?thesis using addr_loop_steps [OF h, of lo] by auto
qed

lemma expand_loop_runs:
  assumes "\<forall>v \<in> set vmas. user_space (unat (vma_end v))"
  shows "\<exists>r. expand_loop vmas ps l d pages = Some r \<and> set pages \<subseteq> set r \<and> (\<forall>p \<in> set r. p \<in> set pages \<or> small_page p)"
proof (induction ps arbitrary: l d pages)
  case (Cons p ps)
  show ?case
  proof (cases "find (in_vma (page_addr p)) vmas")
    case None
    then show ?thesis using Cons by (simp add: Let_def)
  next
    case (Some v)
    then have "v \<in> set vmas" by (auto simp: find_Some_iff)
    then obtain as where as: "addr_loop (vma_start v) (vma_end v) = Some as" "\<forall>p \<in> set (map page_of as). small_page p"
      using addr_loop_small assms by blast
    obtain r where r: "expand_loop vmas ps (Some v) (insert (vma_start v) d) (pages @ map page_of as) = Some r"
      "set (pages @ map page_of as) \<subseteq> set r" "\<forall>p \<in> set r. p \<in> set (pages @ map page_of as) \<or> small_page p"
      using Cons by blast
    then have "set pages \<subseteq> set r \<and> (\<forall>p \<in> set r. p \<in> set pages \<or> small_page p)"
      using as(2) by auto
    with r(1) Cons [of l d pages] Cons [of "Some v" d pages] show ?thesis
      by (simp only: expand_loop.simps Let_def Some as(1) option.simps bind.bind_lunit split: if_split) blast
  qed
qed simp

subsection \<open>One dump\<close>

lemma range_addrs:
  assumes "\<forall>p \<in> set ps. small_page p" and "r \<in> set (coalesce ps)"
  shows "addr_loop (fst r) (snd r) = Some (map page_addr (range_pages r))"
proof -
  obtain q where q: "r = addr_range q" "fst q < snd q" "unat (snd q) < 2 ^ 52"
    using coalesce_ranges [OF assms] by blast
  then have "unat (fst q) < 2 ^ 52" by (simp add: word_less_nat_alt)
  with q show ?thesis by (simp add: addr_range_def range_pages_def page_of_addr addr_loop_pages)
qed

definition bin_file :: "dump_session \<Rightarrow> (u64 \<Rightarrow> byte list) \<Rightarrow> u64 \<times> u64 \<Rightarrow> fs_act" where
  "bin_file s content r = Put (thread_dir s @ ''/'' @ bin_name r) (concat (map content (range_pages r)))"

lemma bin_files_all:
  assumes "\<forall>path. de_open_w e path"
    and "\<forall>r \<in> set rs. addr_loop (fst r) (snd r) = Some (map page_addr (range_pages r))"
  shows "bin_files e s rs = Some (map (bin_file s (\<lambda>p. page_bytes e s (page_addr p))) rs)"
  using assms(2) by (induction rs) (simp_all add: assms(1) bin_file_def comp_def)

lemma dump_pages_runs:
  assumes "\<forall>v \<in> set vmas. user_space (unat (vma_end v))" and "pages_ok s" and "dump_pages s m vmas = Some ps"
  shows "set (du_pages s) \<subseteq> set ps \<and> set (stack_pages (du_sp s)) \<subseteq> set ps \<and>
    set (module_pages (li_segments_start m) (li_segments_end m)) \<subseteq> set ps \<and> (\<forall>p \<in> set ps. small_page p)"
proof -
  have "\<forall>p \<in> set (du_pages s @ stack_pages (du_sp s) @ module_pages (li_segments_start m) (li_segments_end m)). small_page p"
    using assms(2) small_stack small_module by (auto simp: pages_ok_def)
  then show ?thesis
    using expand_loop_runs [OF assms(1), of "du_pages s" None "{}"
        "du_pages s @ stack_pages (du_sp s) @ module_pages (li_segments_start m) (li_segments_end m)"] assms(3)
    by (auto simp: dump_pages_def)
qed

text \<open>The bytes of a dumped page are those it had at the entry.\<close>

lemma page_bytes_entry:
  assumes "snapshots X m0 (de_mem e) s" and "de_memfd e" and "small_page p" and "p \<notin> X"
  shows "page_bytes e s (page_addr p) = entry_bytes m0 p"
proof -
  have p: "unat p < 2 ^ 52" using assms(3) by (simp add: small_page_def)
  show ?thesis
    using assms(1) [unfolded snapshots_def, rule_format, OF p assms(4)] assms(2) read_page_cong [OF p, of "de_mem e" m0]
    by (auto simp: page_bytes_def page_of_addr [OF p] entry_bytes_def read_page_safe_def split: option.splits)
qed

text \<open>What a dump has written: the pages that it is the first to dump, and what is in their files.\<close>

definition dumped_bytes :: "dump_env \<Rightarrow> dump_session \<Rightarrow> u64 \<Rightarrow> byte list" where
  "dumped_bytes e s p = page_bytes e s (page_addr p)"

definition files_cover :: "dump_session \<Rightarrow> dump_session \<Rightarrow> dump_env \<Rightarrow> fs_act list \<Rightarrow> bool" where
  "files_cover s s' e acts \<longleftrightarrow> (\<forall>p \<in> du_dumped s' - du_dumped s.
     small_page p \<and> (\<exists>rg. p \<in> set (range_pages rg) \<and> set (range_pages rg) \<subseteq> du_dumped s' - du_dumped s \<and>
       bin_file s (dumped_bytes e s) rg \<in> set acts))"

definition dump_good :: "u64 set \<Rightarrow> mem \<Rightarrow> dump_session \<Rightarrow> dump_session \<Rightarrow> dump_env \<Rightarrow> fs_act list \<Rightarrow> bool" where
  "dump_good X m0 s s' e acts \<longleftrightarrow> files_cover s s' e acts \<and>
     (\<forall>p \<in> du_dumped s' - du_dumped s. p \<notin> X \<longrightarrow> dumped_bytes e s p = entry_bytes m0 p)"

lemma maps_of_ok: "env_ok e \<Longrightarrow>
    \<forall>v \<in> set (fst (case de_maps e of None \<Rightarrow> ([], []) | Some t \<Rightarrow> maps_loop (de_scan e) t)). user_space (unat (vma_end v))"
  by (auto simp: env_ok_def split: option.splits)

lemma do_finalize_parts:
  assumes d: "do_finalize e s g = Some ((s', g'), acts)"
  shows "\<exists>m pages bins. dump_pages s m (fst (case de_maps e of None \<Rightarrow> ([], []) | Some t \<Rightarrow> maps_loop (de_scan e) t)) = Some pages \<and>
    bin_files e s (coalesce (fst (fresh_pages (du_dumped s) pages))) = Some bins \<and> set bins \<subseteq> set acts \<and>
    s' = s\<lparr>du_finalized := True, du_dumped := snd (fresh_pages (du_dumped s) pages)\<rparr>"
proof -
  let ?maps = "case de_maps e of None \<Rightarrow> ([], []) | Some t \<Rightarrow> maps_loop (de_scan e) t"
  obtain m libs where f: "findModuleByAddressExact (de_mem e) (de_os e) (de_lines e) (du_target s) (dg_libs g) = Some (m, libs)"
    using d by (cases "findModuleByAddressExact (de_mem e) (de_os e) (de_lines e) (du_target s) (dg_libs g)") (auto simp: do_finalize_def Let_def)
  obtain pages where p: "dump_pages s m (fst ?maps) = Some pages"
    using d f by (cases "dump_pages s m (fst ?maps)") (auto simp: do_finalize_def Let_def)
  obtain bins where b: "bin_files e s (coalesce (fst (fresh_pages (du_dumped s) pages))) = Some bins"
    using d f p by (cases "bin_files e s (coalesce (fst (fresh_pages (du_dumped s) pages)))") (auto simp: do_finalize_def Let_def split_beta)
  obtain g2 jni where j: "jni_file e (thread_dir s) (g\<lparr>dg_libs := libs\<rparr>) = Some (g2, jni)"
    using d f p b by (cases "jni_file e (thread_dir s) (g\<lparr>dg_libs := libs\<rparr>)") (auto simp: do_finalize_def Let_def split_beta)
  have "set bins \<subseteq> set acts" "s' = s\<lparr>du_finalized := True, du_dumped := snd (fresh_pages (du_dumped s) pages)\<rparr>"
    using d f p b j by (auto simp: do_finalize_def Let_def split_beta)
  with p b show ?thesis by blast
qed

lemma do_finalize_files:
  assumes d: "do_finalize e s g = Some ((s', g'), acts)" and e: "\<forall>path. de_open_w e path" and ok: "pages_ok s"
    and v: "\<forall>v \<in> set (fst (case de_maps e of None \<Rightarrow> ([], []) | Some t \<Rightarrow> maps_loop (de_scan e) t)). user_space (unat (vma_end v))"
  shows "files_cover s s' e acts \<and> s' = s\<lparr>du_finalized := True, du_dumped := du_dumped s'\<rparr> \<and>
    du_dumped s \<union> set (du_pages s) \<subseteq> du_dumped s'"
proof -
  let ?maps = "case de_maps e of None \<Rightarrow> ([], []) | Some t \<Rightarrow> maps_loop (de_scan e) t"
  obtain m pages bins where q: "dump_pages s m (fst ?maps) = Some pages"
    "bin_files e s (coalesce (fst (fresh_pages (du_dumped s) pages))) = Some bins" "set bins \<subseteq> set acts"
    "s' = s\<lparr>du_finalized := True, du_dumped := snd (fresh_pages (du_dumped s) pages)\<rparr>"
    using do_finalize_parts [OF d] by blast
  obtain fresh dumped where "fresh_pages (du_dumped s) pages = (fresh, dumped)" by fastforce
  note r = q(1) this q(2-4) [unfolded this fst_conv snd_conv]
  have p: "set (du_pages s) \<subseteq> set pages" "\<forall>p \<in> set pages. small_page p"
    using dump_pages_runs [OF v ok r(1)] by auto
  have f: "set fresh = set pages - du_dumped s" "dumped = du_dumped s \<union> set pages"
    using fresh_pages_set [OF r(2)] by auto
  then have small: "\<forall>p \<in> set fresh. small_page p" and new: "du_dumped s' - du_dumped s = set fresh" using p(2) r(5) by auto
  have b: "bins = map (bin_file s (dumped_bytes e s)) (coalesce fresh)"
    using bin_files_all [OF e, of "coalesce fresh" s] range_addrs [OF small] r(3) by (auto simp: dumped_bytes_def [abs_def])
  have all: "set (concat (map range_pages (coalesce fresh))) = set fresh" using coalesce_ok(1) [OF small] by simp
  have "\<exists>rg. p \<in> set (range_pages rg) \<and> set (range_pages rg) \<subseteq> set fresh \<and> bin_file s (dumped_bytes e s) rg \<in> set acts"
    if "p \<in> set fresh" for p
  proof -
    have "p \<in> set (concat (map range_pages (coalesce fresh)))" using that all by simp
    then obtain rg where rg: "rg \<in> set (coalesce fresh)" "p \<in> set (range_pages rg)" unfolding set_concat set_map by blast
    moreover have "set (range_pages rg) \<subseteq> set fresh" using all rg(1) by auto
    moreover have "bin_file s (dumped_bytes e s) rg \<in> set acts" using b r(4) rg(1) by auto
    ultimately show ?thesis by blast
  qed
  then show ?thesis using f p small new r(5) by (auto simp: files_cover_def)
qed

lemma do_finalize_good:
  assumes d: "do_finalize e s g = Some ((s', g'), acts)" and e: "env_ok e" and ok: "pages_ok s" and sn: "snapshots X m0 (de_mem e) s"
  shows "dump_good X m0 s s' e acts \<and> s' = s\<lparr>du_finalized := True, du_dumped := du_dumped s'\<rparr> \<and>
    du_dumped s \<union> set (du_pages s) \<subseteq> du_dumped s'"
proof -
  have m: "de_memfd e" "\<forall>path. de_open_w e path" using e by (simp_all add: env_ok_def)
  note f = do_finalize_files [OF d m(2) ok maps_of_ok [OF e]]
  then have "dumped_bytes e s p = entry_bytes m0 p" if "p \<in> du_dumped s' - du_dumped s" "p \<notin> X" for p
    using page_bytes_entry [OF sn m(1) _ that(2)] that(1) by (simp add: files_cover_def dumped_bytes_def)
  then show ?thesis using f by (simp add: dump_good_def)
qed

subsection \<open>A run\<close>

definition dump_inv :: "u64 set \<Rightarrow> mem \<Rightarrow> mem \<Rightarrow> dump_session \<Rightarrow> bool" where
  "dump_inv X m0 m s \<longleftrightarrow> snapshots X m0 m s \<and> pages_ok s"

lemma dump_inv_same:
  "dump_inv X m0 m s \<Longrightarrow> du_written s' = du_written s \<and> du_pages s' = du_pages s \<and> du_dumped s' = du_dumped s \<and> du_sp s' = du_sp s \<Longrightarrow>
   dump_inv X m0 m s'"
  by (simp add: dump_inv_def snapshots_def pages_ok_def)

lemma dump_inv_entry: "dump_inv X m0 m s \<Longrightarrow> user_space (unat (er_sp r)) \<Longrightarrow> dump_inv X m0 m (on_entry r a s)"
  by (simp add: dump_inv_def snapshots_def pages_ok_def on_entry_def)

lemma dump_inv_access:
  assumes "dump_inv X m0 m s" and "on_mem m k a sz s = Some s'" and "user_space (unat a + sz)"
    and "\<forall>x. k = Mem_read \<or> x < unat a \<or> unat a + sz \<le> x \<longrightarrow> m' x = m x"
  shows "dump_inv X m0 m' s'"
proof -
  have "pages_ok s'"
    using assms(1,2) small_touched [OF assms(3)]
    by (auto simp: dump_inv_def pages_ok_def on_mem_def dest: mem_loop_pages mem_loop_rest)
  then show ?thesis using on_mem_snapshots [OF _ assms(2,3,4)] assms(1) by (simp add: dump_inv_def)
qed

definition log_good :: "u64 set \<Rightarrow> mem \<Rightarrow> dump_session \<Rightarrow> dump_session \<Rightarrow> dump_log \<Rightarrow> bool" where
  "log_good X m0 s s' log \<longleftrightarrow> (\<forall>(a, b, e, acts) \<in> set log. dump_good X m0 a b e acts \<and> set (du_pages a) \<subseteq> du_dumped b \<and> du_dumped b \<subseteq> du_dumped s') \<and>
     du_dumped s' = du_dumped s \<union> (\<Union>(a, b, e, acts) \<in> set log. du_dumped b - du_dumped a)"

lemma log_good_start: "du_dumped t = du_dumped s \<Longrightarrow> log_good X m0 t s' log = log_good X m0 s s' log"
  by (simp add: log_good_def)

lemma log_good_Cons:
  assumes g: "log_good X m0 t s' log" and d: "dump_good X m0 s t e acts" and t: "du_dumped s \<union> set (du_pages s) \<subseteq> du_dumped t"
  shows "log_good X m0 s s' ((s, t, e, acts) # log)"
proof -
  have all: "\<forall>(a, b, e, acts) \<in> set log. dump_good X m0 a b e acts \<and> set (du_pages a) \<subseteq> du_dumped b \<and> du_dumped b \<subseteq> du_dumped s'"
    and eq: "du_dumped s' = du_dumped t \<union> (\<Union>(a, b, e, acts) \<in> set log. du_dumped b - du_dumped a)"
    using g unfolding log_good_def by (rule conjunct1, rule conjunct2)
  have "du_dumped t \<subseteq> du_dumped s'" unfolding eq by (rule Un_upper1)
  moreover have "du_dumped s' = du_dumped s \<union> (\<Union>(a, b, e, acts) \<in> set ((s, t, e, acts) # log). du_dumped b - du_dumped a)"
    unfolding eq using t by auto
  ultimately show ?thesis unfolding log_good_def using all d t by (intro conjI) simp_all
qed

lemma log_goodD:
  assumes "log_good X m0 s s' log" and "(a, b, e, acts) \<in> set log"
  shows "dump_good X m0 a b e acts" and "set (du_pages a) \<subseteq> du_dumped b" and "du_dumped b \<subseteq> du_dumped s'"
proof -
  have "\<forall>(a, b, e, acts) \<in> set log. dump_good X m0 a b e acts \<and> set (du_pages a) \<subseteq> du_dumped b \<and> du_dumped b \<subseteq> du_dumped s'"
    using assms(1) unfolding log_good_def by (rule conjunct1)
  from bspec [OF this assms(2)] show "dump_good X m0 a b e acts" "set (du_pages a) \<subseteq> du_dumped b" "du_dumped b \<subseteq> du_dumped s'"
    by simp_all
qed

lemma copied_same: "copied W s \<Longrightarrow> du_written s' = du_written s \<Longrightarrow> copied W s'"
  by (simp add: copied_def)

lemma dump_run_ok:
  assumes "lawful m evs" and "dump_run m evs s g = Some ((s', m'), log)" and "dump_inv X m0 m s"
    and "copied W s" and "outside_pages W m evs \<subseteq> X"
  shows "dump_inv X m0 m' s' \<and> log_good X m0 s s' log"
  using assms
proof (induction evs arbitrary: m s g log W)
  case Nil
  then show ?case by (simp add: log_good_def)
next
  case (Cons ev evs)
  note IH = Cons.IH and prems = Cons.prems
  show ?case
  proof (cases ev)
    case (Entry r a)
    moreover have "du_dumped (on_entry r a s) = du_dumped s" "copied W (on_entry r a s)"
      using prems(4) by (simp_all add: on_entry_def copied_def)
    ultimately show ?thesis
      using prems IH [of m "on_entry r a s" g log W] dump_inv_entry log_good_start [of "on_entry r a s" s] by simp
  next
    case (Access k a sz m1)
    then obtain t where t: "on_mem m k a sz s = Some t" "dump_run m1 evs t g = Some ((s', m'), log)"
      using prems(2) by (auto simp: bind_eq_Some_conv)
    have "dump_inv X m0 m1 t" using prems(1,3) Access by (intro dump_inv_access [OF prems(3) t(1)]) simp_all
    moreover have "du_dumped t = du_dumped s" using t(1) by (auto simp: on_mem_def dest: mem_loop_rest)
    ultimately show ?thesis
      using IH [OF _ t(2) _ on_mem_copied [OF prems(4) t(1)]] prems(1,5) Access log_good_start [of t s] by simp
  next
    case (Jump x a n)
    then obtain t where t: "on_jump m x a n s = Some t" "dump_run m evs t g = Some ((s', m'), log)"
      using prems(2) by (auto simp: bind_eq_Some_conv)
    note r = on_jump_rest [OF t(1)]
    with IH [OF _ t(2) _ copied_same [OF prems(4)]] prems(1,5) Jump dump_inv_same [OF prems(3)] log_good_start [of t s]
    show ?thesis by simp
  next
    case (Svc f x nr)
    then obtain t where t: "on_svc f m x nr s = Some t" "dump_run m evs t g = Some ((s', m'), log)"
      using prems(2) by (auto simp: bind_eq_Some_conv)
    note r = on_svc_rest [OF t(1)]
    with IH [OF _ t(2) _ copied_same [OF prems(4)]] prems(1,5) Svc dump_inv_same [OF prems(3)] log_good_start [of t s]
    show ?thesis by simp
  next
    case (Outside m1)
    then have sub: "{p. p \<notin> W \<and> (\<exists>x. x div 4096 = unat p \<and> m1 x \<noteq> m x)} \<subseteq> X" "outside_pages W m1 evs \<subseteq> X"
      using prems(5) by simp_all
    have "dump_inv X m0 m1 s" using outside_snapshots [OF _ prems(4) sub(1)] prems(3) by (simp add: dump_inv_def)
    then show ?thesis using IH [OF _ _ _ prems(4) sub(2)] prems(1,2) Outside by simp
  next
    case (Stop e)
    then obtain t g1 acts log1 where t: "do_finalize (env_at m e) s g = Some ((t, g1), acts)"
      "dump_run m evs t g1 = Some ((s', m'), log1)" "log = (s, t, env_at m e, acts) # log1"
      using prems(2) by (auto simp: bind_eq_Some_conv)
    have "env_ok (env_at m e)" "de_mem (env_at m e) = m"
      using prems(1) Stop by (auto simp: env_ok_def env_at_def)
    then have d: "dump_good X m0 s t (env_at m e) acts" "t = s\<lparr>du_finalized := True, du_dumped := du_dumped t\<rparr>"
      "du_dumped s \<union> set (du_pages s) \<subseteq> du_dumped t"
      using do_finalize_good [OF t(1), of X m0] prems(3) by (simp_all add: dump_inv_def)
    have "snapshots X m0 m t = snapshots X m0 m s" "pages_ok t = pages_ok s" "copied W t = copied W s"
      by (subst d(2), simp add: snapshots_def pages_ok_def copied_def)+
    then have "dump_inv X m0 m t" "copied W t" using prems(3,4) by (simp_all add: dump_inv_def)
    then have "dump_inv X m0 m' s' \<and> log_good X m0 t s' log1" using IH [OF _ t(2)] prems(1,5) Stop by simp
    then show ?thesis unfolding t(3) using log_good_Cons [OF _ d(1,3)] by blast
  qed
qed

text \<open>A session that a thread has just made.\<close>

lemma dump_inv_new: "dump_inv X m m (new_session ctx h dir f tr tid master)"
  by (simp add: dump_inv_def snapshots_def pages_ok_def new_session_def user_space_def)

text \<open>C11 (the dump is the memory at the entry). Take a run of one thread from a new session, with any number of calls and returns, in
  which the files of the dumps can be created. Every page that was touched before a return is in the file of a range written then or at
  an earlier return. In that file, every page of the range that nothing outside the engine had changed before the engine's first
  write to it has the bytes that it held when the run began, also where the run has changed them since.\<close>

theorem dump_is_entry_memory:
  assumes "lawful m0 evs" and "dump_run m0 evs (new_session ctx h dir f tr tid master) g = Some (r, log)"
    and "(a, b, e, acts) \<in> set log" and "p \<in> set (du_pages a)"
  shows "\<exists>a' b' e' acts' rg. (a', b', e', acts') \<in> set log \<and> p \<in> set (range_pages rg) \<and>
    bin_file a' (dumped_bytes e' a') rg \<in> set acts' \<and>
    (\<forall>q \<in> set (range_pages rg). q \<notin> outside_pages {} m0 evs \<longrightarrow> dumped_bytes e' a' q = entry_bytes m0 q)"
proof -
  let ?X = "outside_pages {} m0 evs"
  obtain s m where r: "r = (s, m)" by (cases r)
  have g: "log_good ?X m0 (new_session ctx h dir f tr tid master) s log"
    using dump_run_ok [OF assms(1) assms(2) [unfolded r] dump_inv_new, of "{}" ?X] by (simp add: copied_def)
  then have "p \<in> du_dumped s" using log_goodD(2,3) [OF g assms(3)] assms(4) by blast
  then obtain a' b' e' acts' where l: "(a', b', e', acts') \<in> set log" "p \<in> du_dumped b' - du_dumped a'"
    using g by (auto simp: log_good_def new_session_def)
  have "dump_good ?X m0 a' b' e' acts'" by (rule log_goodD(1) [OF g l(1)])
  then show ?thesis using l unfolding dump_good_def files_cover_def by blast
qed

end
