(* ===== verification/Thread_Clones.thy ===== *)
theory Thread_Clones
  imports Prelude
begin

text \<open>
  The interface of objects that every thread clones for itself from a master object: a table per thread from masters to clones, a hit that
  finds the clone, a miss that makes it, and a release of the master that deletes the clones but clears only the table of the thread that
  calls it. The library calls and the dumps both do it this way. Objects live at addresses.
\<close>

definition clones_ok ::
  "('s \<Rightarrow> u64 \<Rightarrow> 'o option) \<Rightarrow> ('s \<Rightarrow> nat \<Rightarrow> u64 \<Rightarrow> u64 option) \<Rightarrow> ('o \<Rightarrow> u64) \<Rightarrow> 's \<Rightarrow> bool" where
  "clones_ok heap tls owner s \<longleftrightarrow> (\<forall>t m a. tls s t m = Some a \<longrightarrow> (\<exists>c. heap s a = Some c \<and> owner c = m) \<and>
     (\<forall>t' m'. tls s t' m' = Some a \<longrightarrow> t' = t \<and> m' = m))"

definition unused_addr :: "('s \<Rightarrow> u64 \<Rightarrow> 'o option) \<Rightarrow> ('s \<Rightarrow> nat \<Rightarrow> u64 \<Rightarrow> u64 option) \<Rightarrow> 's \<Rightarrow> u64 \<Rightarrow> bool" where
  "unused_addr heap tls s a \<longleftrightarrow> heap s a = None \<and> (\<forall>t m. tls s t m \<noteq> Some a)"

lemma clones_okD:
  assumes "clones_ok heap tls owner s" and "tls s t m = Some a"
  shows "\<exists>c. heap s a = Some c \<and> owner c = m" and "tls s t' m' = Some a \<Longrightarrow> t' = t \<and> m' = m"
  using assms unfolding clones_ok_def by blast+

lemma clones_ok_hit:
  assumes "clones_ok heap tls owner s" and "heap s a = Some c" and "owner c' = owner c"
    and "heap s' = (heap s)(a \<mapsto> c')" and "tls s' = tls s"
  shows "clones_ok heap tls owner s'"
  unfolding clones_ok_def
proof (intro allI impI)
  fix t m b
  assume "tls s' t m = Some b"
  then have b: "tls s t m = Some b" using assms(5) by simp
  show "(\<exists>c. heap s' b = Some c \<and> owner c = m) \<and> (\<forall>t' m'. tls s' t' m' = Some b \<longrightarrow> t' = t \<and> m' = m)"
    using clones_okD [OF assms(1) b] assms(2-5) by (cases "b = a") auto
qed

lemma clones_ok_miss:
  assumes "clones_ok heap tls owner s" and "unused_addr heap tls s n" and "owner c = m"
    and "heap s' = (heap s)(n \<mapsto> c)" and "tls s' = (tls s)(t := (tls s t)(m \<mapsto> n))"
  shows "clones_ok heap tls owner s'"
  unfolding clones_ok_def
proof (intro allI impI)
  fix u k b
  assume b: "tls s' u k = Some b"
  show "(\<exists>c. heap s' b = Some c \<and> owner c = k) \<and> (\<forall>t' m'. tls s' t' m' = Some b \<longrightarrow> t' = u \<and> m' = k)"
  proof (cases "b = n")
    case True
    then show ?thesis using b assms(2-5) by (auto simp: unused_addr_def split: if_splits)
  next
    case False
    then have "tls s u k = Some b" using b assms(5) by (auto split: if_splits)
    from clones_okD [OF assms(1) this] show ?thesis using False assms(4,5) by (auto split: if_splits)
  qed
qed

locale thread_clones =
  fixes heap :: "'s \<Rightarrow> u64 \<Rightarrow> 'o option"
    and tls :: "'s \<Rightarrow> nat \<Rightarrow> u64 \<Rightarrow> u64 option"
    and listed :: "'s \<Rightarrow> u64 set"
    and owner :: "'o \<Rightarrow> u64"
    and get_clone :: "'e \<Rightarrow> nat \<Rightarrow> u64 \<Rightarrow> u64 \<Rightarrow> 's \<Rightarrow> (u64 \<times> 's) option"
    and release :: "'r \<Rightarrow> nat \<Rightarrow> u64 \<Rightarrow> 's \<Rightarrow> 's option"
  assumes get_hit: "tls s t m = Some a \<Longrightarrow> heap s a = Some c \<Longrightarrow>
      \<exists>c' s'. get_clone e t n m s = Some (a, s') \<and> owner c' = owner c \<and> heap s' = (heap s)(a \<mapsto> c') \<and> tls s' = tls s"
    and get_freed: "tls s t m = Some a \<Longrightarrow> heap s a = None \<Longrightarrow> get_clone e t n m s = Some (b, s') \<Longrightarrow> b = a \<and> heap s' a = None"
    and get_miss: "tls s t m = None \<Longrightarrow> heap s m = Some x \<Longrightarrow>
      \<exists>c s'. get_clone e t n m s = Some (n, s') \<and> owner c = m \<and> heap s' = (heap s)(n \<mapsto> c) \<and>
        tls s' = (tls s)(t := (tls s t)(m \<mapsto> n))"
    and release_tls: "release r t m s = Some s' \<Longrightarrow> tls s' = (tls s)(t := (tls s t)(m := None))"
    and release_frees: "release r t m s = Some s' \<Longrightarrow> heap s a = Some c \<Longrightarrow> owner c = m \<Longrightarrow> a \<in> listed s \<Longrightarrow> heap s' a = None"
begin

text \<open>While addresses are not used twice, a thread gets a clone of its own and the others keep theirs.\<close>

lemma get_ok:
  assumes ok: "clones_ok heap tls owner s" and fr: "unused_addr heap tls s n" and m: "heap s m \<noteq> None"
  shows "\<exists>a s'. get_clone e t n m s = Some (a, s') \<and> clones_ok heap tls owner s' \<and> tls s' t m = Some a \<and>
    (\<forall>b. b \<noteq> a \<longrightarrow> heap s' b = heap s b) \<and> (\<forall>u. u \<noteq> t \<longrightarrow> tls s' u = tls s u)"
proof (cases "tls s t m")
  case None
  then obtain c s' where g: "get_clone e t n m s = Some (n, s')" "owner c = m" "heap s' = (heap s)(n \<mapsto> c)"
    "tls s' = (tls s)(t := (tls s t)(m \<mapsto> n))" using get_miss m by blast
  then show ?thesis using clones_ok_miss [OF ok fr g(2-4)] by auto
next
  case (Some a)
  then obtain c where c: "heap s a = Some c" using clones_okD(1) [OF ok Some] by blast
  from get_hit [OF Some c] obtain c' s' where g: "get_clone e t n m s = Some (a, s')" "owner c' = owner c"
    "heap s' = (heap s)(a \<mapsto> c')" "tls s' = tls s" by blast
  then show ?thesis using clones_ok_hit [OF ok c g(2-4)] Some by auto
qed

lemma others_kept:
  assumes "clones_ok heap tls owner s'" and "tls s' t m = Some a" and "u \<noteq> t" and "tls s' u k = Some b"
  shows "b \<noteq> a"
  using clones_okD(2) [OF assms(1,2), of u k] assms(3,4) by blast

text \<open>A release leaves the tables of the other threads with the deleted clones.\<close>

lemma release_stale:
  assumes "clones_ok heap tls owner s" and "u \<noteq> t" and "tls s u m = Some a" and "a \<in> listed s" and "release r t m s = Some s'"
  shows "tls s' u m = Some a" and "heap s' a = None"
  using release_tls [OF assms(5)] clones_okD(1) [OF assms(1,3)] release_frees [OF assms(5)] assms(2-4) by auto

end

end
