(* ===== verification/Dump_Cover.thy ===== *)
theory Dump_Cover
  imports Dump_Runs Thread_Clones
begin

text \<open>
  What else the dump promises: whole segments, and one session per thread. At the end, where it does not keep its promises: the
  sessions that other threads remember after the release, copies outside of the dump directory, and memory changed behind the engine's back.
\<close>

subsection \<open>Segments\<close>











subsection \<open>One session per thread\<close>

text \<open>The tables of the sessions are of the kind of \<open>Thread_Clones\<close>.\<close>

abbreviation sessions_ok :: "dump_state \<Rightarrow> bool" where
  "sessions_ok \<equiv> clones_ok dm_heap dm_tls du_master"

abbreviation fresh_addr :: "dump_state \<Rightarrow> u64 \<Rightarrow> bool" where
  "fresh_addr \<equiv> unused_addr dm_heap dm_tls"

lemma masters_of_live: "masters_of st as = Some ms \<Longrightarrow> length ms = length as \<and>
    (\<forall>i < length as. \<exists>s. dm_heap st (as ! i) = Some s \<and> ms ! i = du_master s)"
  by (induction as arbitrary: ms) (auto simp: bind_eq_Some_conv nth_Cons split: nat.split)

lemma finish_loop_frees: "finish_loop e as st g = Some ((st', g'), acts) \<Longrightarrow>
    (\<forall>b. dm_heap st' b = (if b \<in> set as then None else dm_heap st b)) \<and> dm_tls st' = dm_tls st"
proof (induction as arbitrary: st g acts)
  case (Cons a as)
  then obtain s1 g1 acts1 where "finish_loop e as (s1\<lparr>dm_heap := (dm_heap s1)(a := None)\<rparr>) g1 = Some ((st', g'), acts1)" "s1 = st"
    by (auto simp: bind_eq_Some_conv)
  then show ?case using Cons.IH by auto
qed simp

lemma finish_frees:
  assumes fin: "trace_unidbg_dump_finish e t h st g = Some (((st', g'), acts), how)" and m: "dm_sessions st h = Some master"
  shows "dm_tls st' = (dm_tls st)(t := (dm_tls st t)(master := None))"
    and "dm_heap st a = Some s \<Longrightarrow> du_master s = master \<Longrightarrow> a \<in> set (dm_all st) \<Longrightarrow> dm_heap st' a = None"
proof -
  obtain ml where ml: "masters_of st (dm_all st) = Some ml"
    using fin m by (cases "masters_of st (dm_all st)") (auto simp: trace_unidbg_dump_finish_def)
  let ?mine = "map fst (filter (\<lambda>(a, m). m = master) (zip (dm_all st) ml))"
  obtain st2 acts2 where st2: "finish_loop e ?mine (st\<lparr>dm_sessions := (dm_sessions st)(h := None),
      dm_all := map fst (filter (\<lambda>(a, m). m \<noteq> master) (zip (dm_all st) ml))\<rparr>) g = Some ((st2, g'), acts2)"
    "st' = st2\<lparr>dm_heap := (dm_heap st2)(master := None), dm_tls := (dm_tls st2)(t := (dm_tls st2 t)(master := None))\<rparr>"
    using fin m ml by (auto simp: trace_unidbg_dump_finish_def bind_eq_Some_conv Let_def)
  from finish_loop_frees [OF st2(1)] st2(2) show "dm_tls st' = (dm_tls st)(t := (dm_tls st t)(master := None))" by auto
  assume s: "dm_heap st a = Some s" "du_master s = master" "a \<in> set (dm_all st)"
  then obtain i where i: "i < length (dm_all st)" "dm_all st ! i = a" by (auto simp: in_set_conv_nth)
  then have "ml ! i = master" "i < length ml" using masters_of_live [OF ml] s by auto
  then have "(a, master) \<in> set (zip (dm_all st) ml)" using i by (auto simp: set_zip)
  then have "a \<in> set ?mine" by force
  then show "dm_heap st' a = None" using finish_loop_frees [OF st2(1)] st2(2) by auto
qed

text \<open>The release of a master through its handle.\<close>

definition dump_release :: "dump_env \<times> u64 \<times> dump_globals \<Rightarrow> dump_thread \<Rightarrow> u64 \<Rightarrow> dump_state \<Rightarrow> dump_state option" where
  "dump_release r t master st = (case r of (e, h, g) \<Rightarrow>
     if dm_sessions st h = Some master then map_option (\<lambda>x. fst (fst (fst x))) (trace_unidbg_dump_finish e t h st g) else None)"

interpretation dumps: thread_clones dm_heap dm_tls "\<lambda>st. set (dm_all st)" du_master
  "\<lambda>tid t n m st. getOrCreatePerThreadSession t tid n m st" dump_release
proof unfold_locales
  fix st :: dump_state and t m a c and tid :: u32 and n :: u64
  assume "dm_tls st t m = Some a" "dm_heap st a = Some c"
  then show "\<exists>c' s'. getOrCreatePerThreadSession t tid n m st = Some (a, s') \<and> du_master c' = du_master c \<and>
      dm_heap s' = (dm_heap st)(a \<mapsto> c') \<and> dm_tls s' = dm_tls st"
    by (auto simp: getOrCreatePerThreadSession_def intro!: exI [of _ c])
next
  fix st s' :: dump_state and t m a b and tid :: u32 and n :: u64
  assume "dm_tls st t m = Some a" "dm_heap st a = None" "getOrCreatePerThreadSession t tid n m st = Some (b, s')"
  then show "b = a \<and> dm_heap s' a = None" by (simp add: getOrCreatePerThreadSession_def)
next
  fix st :: dump_state and t m x and tid :: u32 and n :: u64
  assume a: "dm_tls st t m = None" "dm_heap st m = Some x"
  show "\<exists>c s'. getOrCreatePerThreadSession t tid n m st = Some (n, s') \<and> du_master c = m \<and> dm_heap s' = (dm_heap st)(n \<mapsto> c) \<and>
      dm_tls s' = (dm_tls st)(t := (dm_tls st t)(m \<mapsto> n))"
    by (rule exI [of _ "new_session (du_ctx x) (du_handle x) (du_dir x) (du_target x) (du_trace x) tid m"])
      (simp add: a getOrCreatePerThreadSession_def new_session_def)
next
  fix st s' :: dump_state and t m r
  assume "dump_release r t m st = Some s'"
  then show "dm_tls s' = (dm_tls st)(t := (dm_tls st t)(m := None))"
    by (auto simp: dump_release_def dest: finish_frees(1) split: prod.splits if_splits)
next
  fix st s' :: dump_state and t m r a c
  assume "dump_release r t m st = Some s'" "dm_heap st a = Some c" "du_master c = m" "a \<in> set (dm_all st)"
  then show "dm_heap s' a = None"
    by (auto simp: dump_release_def dest: finish_frees(2) split: prod.splits if_splits)
qed

text \<open>The hooks as functions on a session.\<close>

fun hook_of :: "mem \<Rightarrow> dump_ev \<Rightarrow> dump_session \<Rightarrow> dump_session option" where
  "hook_of m (Entry r a) s = Some (on_entry r a s)"
| "hook_of m (Access k a sz m') s = on_mem m k a sz s"
| "hook_of m (Jump x a n) s = on_jump m x a n s"
| "hook_of m (Svc f x nr) s = on_svc f m x nr s"
| "hook_of m (Outside m') s = Some s"
| "hook_of m (Stop e) s = None"

lemma hook_of_master: "hook_of m ev s = Some s' \<Longrightarrow> du_master s' = du_master s"
  by (cases ev) (auto simp: on_entry_def on_mem_def dest: mem_loop_rest on_jump_rest on_svc_rest)

text \<open>C18 (threads do not mix). A hook that runs on one thread leaves the sessions that the other threads have as they are, and the tables
  stay in order, when the object that it may have to make is at an unused address.\<close>

theorem dump_threads_isolated:
  assumes ok: "sessions_ok st" and fr: "fresh_addr st n" and m: "dm_heap st master \<noteq> None"
    and run: "with_session t tid n master (hook_of mm ev) st = Some st'"
  shows "sessions_ok st' \<and>
    (\<forall>t' m a. t' \<noteq> t \<longrightarrow> dm_tls st t' m = Some a \<longrightarrow> dm_tls st' t' m = Some a \<and> dm_heap st' a = dm_heap st a)"
proof -
  obtain a st1 where g: "getOrCreatePerThreadSession t tid n master st = Some (a, st1)" "sessions_ok st1" "dm_tls st1 t master = Some a"
    "\<And>b. b \<noteq> a \<Longrightarrow> dm_heap st1 b = dm_heap st b" "\<And>t'. t' \<noteq> t \<Longrightarrow> dm_tls st1 t' = dm_tls st t'"
    using dumps.get_ok [OF ok fr m, of t tid] by blast
  then obtain s s' where s: "dm_heap st1 a = Some s" "hook_of mm ev s = Some s'" "st' = st1\<lparr>dm_heap := (dm_heap st1)(a \<mapsto> s')\<rparr>"
    using run by (auto simp: with_session_def bind_eq_Some_conv)
  have "sessions_ok st'"
    by (rule clones_ok_hit [OF g(2) s(1) hook_of_master [OF s(2)]]) (auto simp: s(3))
  moreover have "b \<noteq> a" if "t' \<noteq> t" "dm_tls st t' m' = Some b" for t' m' b
    using dumps.others_kept [OF g(2,3) that(1), of m' b] g(5) [OF that(1)] that(2) by simp
  ultimately show ?thesis using g(4,5) s(3) by auto
qed

subsection \<open>After the release\<close>

text \<open>A released session is used again: The release clears the table of the thread that calls it and of no other. When the next
  master is allocated where the old one was, a hook on another thread finds the old session there and uses it after its deletion.\<close>

lemma stale_dump_session:
  assumes ok: "sessions_ok st" and u: "u \<noteq> t" "dm_tls st u master = Some a" "a \<in> set (dm_all st)"
    and m: "dm_sessions st h = Some master" "master \<noteq> 0" "dm_heap st master = Some ms" "du_master ms = 0"
    and fin: "trace_unidbg_dump_finish e t h st g = Some (((st', g'), acts), how)"
    and new: "made = (h', ctx)" "h' \<noteq> 0" "ctx \<noteq> 0"
  shows "with_session u tid n master f (snd (fst (trace_unidbg_dump func dir withTrace made master st'))) = None"
proof -
  obtain s where s: "dm_heap st a = Some s" "du_master s = master" using clones_okD(1) [OF ok u(2)] by blast
  then have ne: "a \<noteq> master" using m by auto
  have "dump_release (e, h, g) t master st = Some st'" using fin m(1) by (simp add: dump_release_def)
  from dumps.release_stale [OF ok u(1,2,3) this] ne new show ?thesis
    by (auto simp: with_session_def getOrCreatePerThreadSession_def trace_unidbg_dump_def Let_def)
qed

subsection \<open>Other limits\<close>

text \<open>A page that the engine has shown no write to is dumped as it is at the end, with what code outside the engine has written to it.\<close>

lemma unwritten_page_is_current:
  "du_written s p = None \<Longrightarrow> small_page p \<Longrightarrow> de_memfd e \<Longrightarrow> read_range (de_mem e) (unat (page_addr p)) 4096 = Some bs \<Longrightarrow>
   page_bytes e s (page_addr p) = bs"
  by (simp add: page_bytes_def read_page_safe_def page_of_addr small_page_def)

text \<open>The path of an opened file is put behind the directory as it is, with its dots.\<close>

lemma rootfs_keeps_dots:
  "de_file e path = Regular chunks \<Longrightarrow> path \<notin> set mapped \<Longrightarrow> de_open_w e (rootfs @ path) \<Longrightarrow>
   Put (rootfs @ path) (copy_chunks 0 chunks) \<in> set (snd (rootfs_file e rootfs mapped path))"
  by (simp add: rootfs_file_def Let_def)

subsection \<open>Examples\<close>

definition demo_dump_env :: dump_env where
  "demo_dump_env = \<lparr>de_mem = (\<lambda>a. Some 0),
     de_memfd = True, de_os = \<lparr>os_magic = (\<lambda>a. False), os_dladdr = (\<lambda>a. None), os_open = (\<lambda>p. None), os_malloc = (\<lambda>n. True), os_sort = id\<rparr>,
     de_lines = None, de_maps = Some ''5000-7000'', de_scan = (\<lambda>t. if t = ''5000-7000'' then Some (0x5000, 0x7000) else None),
     de_open_w = (\<lambda>p. True), de_file = (\<lambda>p. Not_regular), de_objs = [], de_getvms = (\<lambda>f. 0), de_getenv = (\<lambda>v. 0), de_slot = (\<lambda>n. 0)\<rparr>"

definition demo_dump_globals :: dump_globals where
  "demo_dump_globals = \<lparr>dg_libs = [], dg_cache = Map.empty, dg_vm = 0, dg_ftbl = 0\<rparr>"

definition demo_dump_session :: dump_session where
  "demo_dump_session = new_session 1 8 ''/d'' 0x5000 False 7 16"

lemma demo_maps: "maps_loop (de_scan demo_dump_env) ''5000-7000'' = ([\<lparr>vma_start = 0x5000, vma_end = 0x7000, vma_file = False\<rparr>], [])"
  by (simp add: maps_loop.simps [of _ "''5000-7000''"] maps_loop.simps [of _ "[]"] demo_dump_env_def)

lemma demo_env_ok: "env_ok (demo_dump_env\<lparr>de_mem := m\<rparr>)"
proof -
  have "de_scan (demo_dump_env\<lparr>de_mem := m\<rparr>) = de_scan demo_dump_env" "de_maps (demo_dump_env\<lparr>de_mem := m\<rparr>) = Some ''5000-7000''"
    "de_memfd (demo_dump_env\<lparr>de_mem := m\<rparr>)" "de_open_w (demo_dump_env\<lparr>de_mem := m\<rparr>) p" for p by (simp_all add: demo_dump_env_def)
  then show ?thesis by (simp add: env_ok_def demo_maps user_space_def)
qed

lemma demo_finalize:
  assumes "pages_ok s"
  shows "\<exists>s' g' acts. do_finalize (demo_dump_env\<lparr>de_mem := m\<rparr>) s demo_dump_globals = Some ((s', g'), acts)"
proof -
  let ?e = "demo_dump_env\<lparr>de_mem := m\<rparr>"
  have f: "findModuleByAddressExact (de_mem ?e) (de_os ?e) (de_lines ?e) (du_target s) (dg_libs demo_dump_globals) = Some (no_library, [])"
    by (simp add: findModuleByAddressExact_def findModuleByAddress_def refreshLibraryCache_def getLoadedLibraries_def demo_dump_env_def
        demo_dump_globals_def no_library_def)
  have j: "jni_file ?e dir (demo_dump_globals\<lparr>dg_libs := []\<rparr>) = Some (demo_dump_globals, [])" for dir
    by (simp add: jni_file_def find_table_def find_vm_def resolveSymbolInSo_def so_base_of_def demo_dump_env_def demo_dump_globals_def)
  obtain pages where p: "dump_pages s no_library (fst (case de_maps ?e of None \<Rightarrow> ([], []) | Some t \<Rightarrow> maps_loop (de_scan ?e) t)) = Some pages"
    using expand_loop_runs [OF maps_of_ok [OF demo_env_ok [of m]]] unfolding dump_pages_def by blast
  have "\<forall>p \<in> set (fst (fresh_pages (du_dumped s) pages)). small_page p"
    using dump_pages_runs [OF maps_of_ok [OF demo_env_ok [of m]] assms p] fresh_pages_set [of "du_dumped s" pages]
    by (cases "fresh_pages (du_dumped s) pages") auto
  from bin_files_all [of ?e "coalesce (fst (fresh_pages (du_dumped s) pages))" s] range_addrs [OF this] demo_env_ok [of m]
  have "\<exists>bins. bin_files ?e s (coalesce (fst (fresh_pages (du_dumped s) pages))) = Some bins" by (auto simp: env_ok_def)
  then show ?thesis using f j p by (auto simp: do_finalize_def Let_def split_beta)
qed

text \<open>A write to page 5, writes outside of the engine to pages 5 and 9, and a return: the file has page 5 as it was.\<close>

definition demo_dump_mem :: mem where
  "demo_dump_mem = (\<lambda>a. Some 0)"

definition demo_dump_run :: "dump_ev list" where
  "demo_dump_run = [Access Mem_write 0x5008 4 (demo_dump_mem(0x5008 \<mapsto> 1)),
     Outside (demo_dump_mem(0x5008 \<mapsto> 2, 0x9000 \<mapsto> 3)), Stop demo_dump_env]"

lemma demo_read: "\<exists>bs. read_range demo_dump_mem a n = Some bs"
  by (simp add: read_range_def demo_dump_mem_def list_all_iff)

lemma demo_touched: "touched_pages 0x5008 4 = [5]"
  by (simp add: touched_pages_def page_seq_def page_of_def drop_bit_eq_div unat_div)

lemma demo_dump_runs:
  "\<exists>r s b acts. dump_run demo_dump_mem demo_dump_run demo_dump_session demo_dump_globals =
     Some (r, [(s, b, env_at (demo_dump_mem(0x5008 \<mapsto> 2, 0x9000 \<mapsto> 3)) demo_dump_env, acts)]) \<and> du_pages s = [5]"
proof -
  obtain bs where bs: "read_range demo_dump_mem (unat (page_addr 5)) 4096 = Some bs" using demo_read by blast
  then obtain s where s: "on_mem demo_dump_mem Mem_write 0x5008 4 demo_dump_session = Some s" "du_pages s = [5]" "du_sp s = 0"
    by (simp add: on_mem_def demo_touched demo_dump_session_def new_session_def)
  then have "pages_ok s" by (simp add: pages_ok_def small_page_def user_space_def)
  from demo_finalize [OF this, of "demo_dump_mem(0x5008 \<mapsto> 2, 0x9000 \<mapsto> 3)"] s(1,2) show ?thesis
    by (auto simp: demo_dump_run_def env_at_def)
qed

lemma demo_dump_lawful: "lawful demo_dump_mem demo_dump_run"
  using demo_env_ok [of "de_mem demo_dump_env"] by (auto simp: demo_dump_run_def user_space_def)

lemma demo_outside: "5 \<notin> outside_pages {} demo_dump_mem demo_dump_run"
  by (simp add: demo_dump_run_def demo_touched)

lemma dump_is_entry_memory_witness:
  "\<exists>r log a b e acts rg. dump_run demo_dump_mem demo_dump_run demo_dump_session demo_dump_globals = Some (r, log) \<and>
     (a, b, e, acts) \<in> set log \<and> 5 \<in> set (range_pages rg) \<and> bin_file a (dumped_bytes e a) rg \<in> set acts \<and>
     dumped_bytes e a 5 = entry_bytes demo_dump_mem 5"
proof -
  obtain r s b e acts where run: "dump_run demo_dump_mem demo_dump_run demo_dump_session demo_dump_globals = Some (r, [(s, b, e, acts)])"
    "du_pages s = [5]"
    using demo_dump_runs by blast
  from dump_is_entry_memory [OF demo_dump_lawful run(1) [unfolded demo_dump_session_def], of s b e acts 5] run demo_outside
  show ?thesis by auto
qed


text \<open>Two threads, a release by the first, and a new master at the old address.\<close>

definition demo_dump_state :: dump_state where
  "demo_dump_state = \<lparr>dm_heap = [16 \<mapsto> new_session 1 8 ''/d'' 0x5000 False 0 0, 32 \<mapsto> demo_dump_session\<lparr>du_finalized := True\<rparr>],
     dm_sessions = [8 \<mapsto> 16], dm_tls = (\<lambda>t. if t = 2 then [16 \<mapsto> 32] else Map.empty), dm_all = [32]\<rparr>"

lemma demo_state_ok: "sessions_ok demo_dump_state"
  by (auto simp: clones_ok_def demo_dump_state_def demo_dump_session_def new_session_def split: if_splits)

lemma demo_released: "\<exists>st' acts how. trace_unidbg_dump_finish demo_dump_env 1 8 demo_dump_state demo_dump_globals =
    Some (((st', demo_dump_globals), acts), how)"
  by (simp add: trace_unidbg_dump_finish_def demo_dump_state_def demo_dump_session_def new_session_def)

lemma stale_dump_session_witness:
  "\<exists>st' acts how. trace_unidbg_dump_finish demo_dump_env 1 8 demo_dump_state demo_dump_globals = Some (((st', demo_dump_globals), acts), how) \<and>
     with_session 2 9 48 16 (hook_of demo_dump_mem (Access Mem_read 0x5008 4 demo_dump_mem))
       (snd (fst (trace_unidbg_dump 0x5000 (Some ''/d'') False (8, 1) 16 st'))) = None"
proof -
  obtain st' acts how where f: "trace_unidbg_dump_finish demo_dump_env 1 8 demo_dump_state demo_dump_globals =
    Some (((st', demo_dump_globals), acts), how)" using demo_released by blast
  show ?thesis
    using f stale_dump_session [OF demo_state_ok _ _ _ _ _ _ _ f, of 2 16 32 "new_session 1 8 ''/d'' 0x5000 False 0 0" "(8, 1)" 8 1]
    by (auto simp: demo_dump_state_def new_session_def)
qed

lemma dump_threads_isolated_witness:
  "\<exists>st'. with_session 3 9 48 16 (hook_of demo_dump_mem (Access Mem_read 0x5008 4 demo_dump_mem)) demo_dump_state = Some st' \<and>
     sessions_ok st' \<and> dm_heap st' 32 = dm_heap demo_dump_state 32"
proof -
  have "\<exists>st'. with_session 3 9 48 16 (hook_of demo_dump_mem (Access Mem_read 0x5008 4 demo_dump_mem)) demo_dump_state = Some st'"
    by (simp add: with_session_def getOrCreatePerThreadSession_def demo_dump_state_def on_mem_def demo_touched new_session_def)
  then obtain st' where run: "with_session 3 9 48 16 (hook_of demo_dump_mem (Access Mem_read 0x5008 4 demo_dump_mem)) demo_dump_state = Some st'"
    by blast
  have d: "fresh_addr demo_dump_state 48" "dm_heap demo_dump_state 16 \<noteq> None" "dm_tls demo_dump_state 2 16 = Some 32"
    by (auto simp: unused_addr_def demo_dump_state_def split: if_splits)
  note iso = dump_threads_isolated [OF demo_state_ok d(1,2) run]
  have "dm_heap st' 32 = dm_heap demo_dump_state 32" using iso [THEN conjunct2, rule_format, of 2 16 32] d(3) by simp
  then show ?thesis using iso run by blast
qed

end
