(* ===== verification/Call_Clones.thy ===== *)
theory Call_Clones
  imports Func_Call Thread_Clones
begin

text \<open>
  The contexts of \<open>trace/src/FuncCallTrace.cpp\<close> as objects: the master of a trace, the clone that every thread gets when the master has
  no buffer of its own, and the release when the trace ends. \<open>Func_Call\<close> has what an event does with the context it is given.
\<close>

record fct_ctx =
  fx_vm :: u64
  fx_sb :: "string_builder option"
  fx_fds :: u64
  fx_dwbuf :: u64
  fx_pending :: pending_call
  fx_master :: u64

record fct_state =
  fs_heap :: "u64 \<Rightarrow> fct_ctx option"
  fs_tls :: "thread \<Rightarrow> u64 \<Rightarrow> u64 option"
  fs_all :: "u64 list"

definition getOrCreatePerThreadFCT :: "u64 \<Rightarrow> thread \<Rightarrow> u64 \<Rightarrow> u64 \<Rightarrow> fct_state \<Rightarrow> (u64 \<times> fct_state) option" where
  "getOrCreatePerThreadFCT active t n master st =
     (case fs_tls st t master of
        Some a \<Rightarrow>
          (case fs_heap st a of
             None \<Rightarrow> None
           | Some c \<Rightarrow> Some (a, st\<lparr>fs_heap := (fs_heap st)(a \<mapsto> c\<lparr>fx_dwbuf := active\<rparr>)\<rparr>))
      | None \<Rightarrow>
          (case fs_heap st master of
             None \<Rightarrow> None
           | Some m \<Rightarrow>
               Some (n, st\<lparr>fs_heap := (fs_heap st)(n \<mapsto> \<lparr>fx_vm = fx_vm m, fx_sb = None, fx_fds = fx_fds m, fx_dwbuf = active,
                              fx_pending = pending_initial, fx_master = master\<rparr>),
                           fs_tls := (fs_tls st)(t := (fs_tls st t)(master \<mapsto> n)),
                           fs_all := fs_all st @ [n]\<rparr>)))"

text \<open>The context of an event: the master, unless it has no buffer and the thread has one.\<close>

definition event_ctx :: "u64 \<Rightarrow> thread \<Rightarrow> u64 \<Rightarrow> u64 \<Rightarrow> fct_state \<Rightarrow> (u64 \<times> fct_state) option" where
  "event_ctx active t n master st =
     (case fs_heap st master of
        None \<Rightarrow> None
      | Some m \<Rightarrow> if fx_dwbuf m = 0 \<and> active \<noteq> 0 then getOrCreatePerThreadFCT active t n master st else Some (master, st))"

definition new_fct :: "u64 \<Rightarrow> u64 \<Rightarrow> u64 \<Rightarrow> u64 \<Rightarrow> fct_state \<Rightarrow> fct_state" where
  "new_fct n vm fds dwbuf st = st\<lparr>fs_heap := (fs_heap st)(n \<mapsto>
     \<lparr>fx_vm = vm, fx_sb = None, fx_fds = fds, fx_dwbuf = dwbuf, fx_pending = pending_initial, fx_master = 0\<rparr>)\<rparr>"

text \<open>The loop reads the master of every clone in the list; the clones of this one are deleted with their builders.\<close>

fun free_clones_loop :: "u64 \<Rightarrow> u64 list \<Rightarrow> (u64 \<Rightarrow> fct_ctx option) \<Rightarrow> ((u64 \<Rightarrow> fct_ctx option) \<times> u64 list) option" where
  "free_clones_loop ctx [] h = Some (h, [])"
| "free_clones_loop ctx (a # as) h =
     (case h a of
        None \<Rightarrow> None
      | Some c \<Rightarrow>
          if fx_master c = ctx then free_clones_loop ctx as (h(a := None))
          else map_option (\<lambda>(h, rest). (h, a # rest)) (free_clones_loop ctx as h))"

definition freeFuncCallTraceCtx :: "thread \<Rightarrow> u64 \<Rightarrow> fct_state \<Rightarrow> fct_state option" where
  "freeFuncCallTraceCtx t ctx st =
     (if ctx = 0 then Some st
      else (case free_clones_loop ctx (fs_all st) (fs_heap st) of
              None \<Rightarrow> None
            | Some (h, rest) \<Rightarrow>
                if h ctx = None then None
                else Some (st\<lparr>fs_heap := h(ctx := None), fs_all := rest,
                              fs_tls := (fs_tls st)(t := (fs_tls st t)(ctx := None))\<rparr>)))"

subsection \<open>The interface\<close>

lemma free_clones_loop_frees:
  "free_clones_loop ctx as h = Some (h', rest) \<Longrightarrow>
   (\<forall>b. h' b = h b \<or> h' b = None) \<and> (\<forall>a c. h a = Some c \<longrightarrow> fx_master c = ctx \<longrightarrow> a \<in> set as \<longrightarrow> h' a = None)"
proof (induction as arbitrary: h rest)
  case (Cons a as)
  then obtain c where c: "h a = Some c" by (auto split: option.splits)
  show ?case
  proof (cases "fx_master c = ctx")
    case True
    then have "free_clones_loop ctx as (h(a := None)) = Some (h', rest)" using Cons.prems c by simp
    from Cons.IH [OF this] show ?thesis by (metis fun_upd_apply set_ConsD)
  next
    case False
    then obtain rest' where "free_clones_loop ctx as h = Some (h', rest')" using Cons.prems c by auto
    from Cons.IH [OF this] show ?thesis using False c by auto
  qed
qed simp

definition fct_release :: "unit \<Rightarrow> thread \<Rightarrow> u64 \<Rightarrow> fct_state \<Rightarrow> fct_state option" where
  "fct_release r t ctx st = (if ctx = 0 then None else freeFuncCallTraceCtx t ctx st)"

interpretation fct: thread_clones fs_heap fs_tls "\<lambda>st. set (fs_all st)" fx_master getOrCreatePerThreadFCT fct_release
proof unfold_locales
  fix st :: fct_state and t m a c and e n :: u64
  assume "fs_tls st t m = Some a" "fs_heap st a = Some c"
  then show "\<exists>c' s'. getOrCreatePerThreadFCT e t n m st = Some (a, s') \<and> fx_master c' = fx_master c \<and>
      fs_heap s' = (fs_heap st)(a \<mapsto> c') \<and> fs_tls s' = fs_tls st"
    by (auto simp: getOrCreatePerThreadFCT_def intro!: exI [of _ "c\<lparr>fx_dwbuf := e\<rparr>"])
next
  fix st s' :: fct_state and t m a b and e n :: u64
  assume "fs_tls st t m = Some a" "fs_heap st a = None" "getOrCreatePerThreadFCT e t n m st = Some (b, s')"
  then show "b = a \<and> fs_heap s' a = None" by (simp add: getOrCreatePerThreadFCT_def)
next
  fix st :: fct_state and t m x and e n :: u64
  assume "fs_tls st t m = None" "fs_heap st m = Some x"
  then show "\<exists>c s'. getOrCreatePerThreadFCT e t n m st = Some (n, s') \<and> fx_master c = m \<and> fs_heap s' = (fs_heap st)(n \<mapsto> c) \<and>
      fs_tls s' = (fs_tls st)(t := (fs_tls st t)(m \<mapsto> n))"
    by (simp add: getOrCreatePerThreadFCT_def) (metis fct_ctx.select_convs(6))
next
  fix st s' :: fct_state and t m r
  assume "fct_release r t m st = Some s'"
  then show "fs_tls s' = (fs_tls st)(t := (fs_tls st t)(m := None))"
    by (auto simp: fct_release_def freeFuncCallTraceCtx_def split: if_splits option.splits)
next
  fix st s' :: fct_state and t m r a c
  assume "fct_release r t m st = Some s'" "fs_heap st a = Some c" "fx_master c = m" "a \<in> set (fs_all st)"
  moreover from this obtain h rest where l: "free_clones_loop m (fs_all st) (fs_heap st) = Some (h, rest)" "fs_heap s' = h(m := None)"
    by (auto simp: fct_release_def freeFuncCallTraceCtx_def split: if_splits option.splits)
  ultimately show "fs_heap s' a = None" using free_clones_loop_frees [OF l(1)] by auto
qed

subsection \<open>Events\<close>

text \<open>C39 (a released context is used again). The release clears the table of the thread that calls it and of no other. When the context of
  the next trace is allocated where the old one was, the first call that another thread reports uses its old, deleted clone.\<close>

theorem stale_call_context:
  assumes ok: "clones_ok fs_heap fs_tls fx_master st" and u: "u \<noteq> t" "fs_tls st u ctx = Some a" "a \<in> set (fs_all st)" "a \<noteq> ctx"
    and free: "ctx \<noteq> 0" "freeFuncCallTraceCtx t ctx st = Some st'" and active: "active \<noteq> 0"
  shows "event_ctx active u n ctx (new_fct ctx vm fds 0 st') = None"
proof -
  have r: "fct_release () t ctx st = Some st'" using free by (simp add: fct_release_def)
  show ?thesis
    using fct.release_stale [OF ok u(1,2,3) r] u(4) active by (simp add: event_ctx_def new_fct_def getOrCreatePerThreadFCT_def)
qed

text \<open>While no address is used twice, every thread has a context of its own.\<close>

lemma event_ctx_own:
  assumes "clones_ok fs_heap fs_tls fx_master st" and "unused_addr fs_heap fs_tls st n" and "fs_heap st master = Some m"
    and "fx_dwbuf m = 0" and "active \<noteq> 0"
  shows "\<exists>a st'. event_ctx active t n master st = Some (a, st') \<and> clones_ok fs_heap fs_tls fx_master st' \<and> fs_tls st' t master = Some a \<and>
    (\<forall>b. b \<noteq> a \<longrightarrow> fs_heap st' b = fs_heap st b)"
  using fct.get_ok [OF assms(1,2), of master active t] assms(3-5) by (auto simp: event_ctx_def)

definition demo_fct :: fct_state where
  "demo_fct = \<lparr>fs_heap = [16 \<mapsto> \<lparr>fx_vm = 1, fx_sb = None, fx_fds = 2, fx_dwbuf = 0, fx_pending = pending_initial, fx_master = 0\<rparr>,
                          32 \<mapsto> \<lparr>fx_vm = 1, fx_sb = None, fx_fds = 2, fx_dwbuf = 5, fx_pending = pending_initial, fx_master = 16\<rparr>],
     fs_tls = (\<lambda>t. if t = 2 then [16 \<mapsto> 32] else Map.empty), fs_all = [32]\<rparr>"

lemma stale_call_context_witness:
  "\<exists>st'. freeFuncCallTraceCtx 1 16 demo_fct = Some st' \<and> event_ctx 7 2 48 16 (new_fct 16 1 2 0 st') = None"
proof -
  have "\<exists>st'. freeFuncCallTraceCtx 1 16 demo_fct = Some st'" by (simp add: freeFuncCallTraceCtx_def demo_fct_def)
  then obtain st' where f: "freeFuncCallTraceCtx 1 16 demo_fct = Some st'" by blast
  have "clones_ok fs_heap fs_tls fx_master demo_fct" by (auto simp: clones_ok_def demo_fct_def split: if_splits)
  from stale_call_context [OF this _ _ _ _ _ f, of 2 32 7] f show ?thesis by (auto simp: demo_fct_def)
qed

end
