(* ===== verification/Tools.thy ===== *)
theory Tools
  imports Safe_Mem "HOL-Library.Monad_Syntax"
begin

text \<open>
  Two tools beside the tracer: the hex dump into a buffer (\<open>trace/Utils/hexdump.cpp\<close>) and the disassembly of a range
  (\<open>vc_disasm\<close> and the capstone wrapper of \<open>trace/src/Disassembly.cpp\<close>). Capstone is an argument: what it decodes at an address with so many bytes left.
\<close>

subsection \<open>Hex dump\<close>

definition hexUpper :: "nat \<Rightarrow> char" where
  "hexUpper d = (if d < 10 then char_of (48 + d) else char_of (55 + d))"

definition upper_byte :: "byte \<Rightarrow> string" where
  "upper_byte b = [hexUpper (unat b div 16), hexUpper (unat b mod 16)]"

definition hexdump_chunk :: "nat \<Rightarrow> nat \<Rightarrow> nat" where
  "hexdump_chunk n off = (if 16 < n - off then 16 else n - off)"

text \<open>One line: the low 32 bits of the offset, the bytes, and the bytes as characters.\<close>

definition hexdump_line :: "byte list \<Rightarrow> nat \<Rightarrow> string" where
  "hexdump_line data off =
     (let cells = take (hexdump_chunk (length data) off) (drop off data) in
      map (\<lambda>k. hexUpper (off div 16 ^ (7 - k) mod 16)) [0..<8] @ '':  '' @
      concat (map (\<lambda>b. upper_byte b @ '' '') cells) @ concat (replicate (16 - length cells) ''   '') @ '' |'' @
      map (\<lambda>b. if 32 \<le> unat b \<and> unat b < 127 then char_of (unat b) else CHR ''.'') cells @ ''|'' @ [CHR 0x0A])"

text \<open>\<open>out\<close> is the text before the NUL. A buffer without room for the NUL would make the room wrap around: \<open>None\<close>.\<close>

function hexdump_loop :: "byte list \<Rightarrow> nat \<Rightarrow> nat \<Rightarrow> string \<Rightarrow> string option" where
  "hexdump_loop data cap off out =
     (if off < length data
      then (let line = hexdump_line data off in
            if cap < length out + length line + 1
            then (if cap < length out + 1 then None else Some (out @ take (cap - length out - 1) line))
            else hexdump_loop data cap (off + hexdump_chunk (length data) off) (out @ line))
      else Some out)"
  by pat_completeness auto
termination
  by (relation "measure (\<lambda>(data, cap, off, out). length data - off)") (auto simp: hexdump_chunk_def)

declare hexdump_loop.simps [simp del]

definition hexdump_to_buffer :: "nat \<Rightarrow> byte list \<Rightarrow> nat \<Rightarrow> string option" where
  "hexdump_to_buffer addr data cap = (if cap = 0 then Some [] else hexdump_loop data cap addr [])"

text \<open>The whole dump, without a limit.\<close>

function hexdump_all :: "byte list \<Rightarrow> nat \<Rightarrow> string" where
  "hexdump_all data off =
     (if off < length data then hexdump_line data off @ hexdump_all data (off + hexdump_chunk (length data) off) else [])"
  by pat_completeness auto
termination
  by (relation "measure (\<lambda>(data, off). length data - off)") (auto simp: hexdump_chunk_def)

declare hexdump_all.simps [simp del]

lemma hexdump_loop_prefix:
  "length out < cap \<Longrightarrow> hexdump_loop data cap off out = Some (take (cap - 1) (out @ hexdump_all data off))"
proof (induction data cap off out rule: hexdump_loop.induct)
  case (1 data cap off out)
  show ?case
  proof (cases "off < length data")
    case True
    let ?l = "hexdump_line data off"
    have all: "hexdump_all data off = ?l @ hexdump_all data (off + hexdump_chunk (length data) off)"
      using True by (simp add: hexdump_all.simps [of data off])
    show ?thesis
    proof (cases "cap < length out + length ?l + 1")
      case True
      then show ?thesis
        using \<open>off < length data\<close> "1.prems" by (subst hexdump_loop.simps) (simp add: all Let_def)
    next
      case False
      then show ?thesis
        using \<open>off < length data\<close> "1.IH" [OF \<open>off < length data\<close> refl False]
        by (subst hexdump_loop.simps) (simp add: all Let_def)
    qed
  next
    case False
    then show ?thesis using "1.prems" by (subst hexdump_loop.simps) (simp add: hexdump_all.simps [of data off])
  qed
qed

text \<open>The hex dump: The buffer gets the longest beginning of the whole dump that leaves room for the NUL, and nothing outside it is
  written, whatever its capacity. The address is also where reading begins, so a dump labelled with an address behind the
  data is empty.\<close>

lemma hexdump_prefix:
  "hexdump_to_buffer addr data cap = Some (take (cap - 1) (hexdump_all data addr)) \<and>
   hexdump_to_buffer (length data + k) data cap = Some []"
  using hexdump_loop_prefix [of "[]" cap data addr] hexdump_loop.simps [of data cap "length data + k" "[]"]
  by (cases cap) (simp_all add: hexdump_to_buffer_def)

subsection \<open>Disassembly\<close>

record vc_insn =
  vi_address :: u64
  vi_size :: u8
  vi_bytes :: "byte list"
  vi_mnemonic :: string
  vi_op_str :: string

type_synonym decoder = "u64 \<Rightarrow> nat \<Rightarrow> (nat \<times> string \<times> string) option"

text \<open>The loop advances address and remaining size by the size of the instruction; \<open>strncpy\<close> leaves room for a NUL.\<close>

fun disasm_loop :: "mem \<Rightarrow> decoder \<Rightarrow> nat \<Rightarrow> u64 \<Rightarrow> nat \<Rightarrow> vc_insn list option" where
  "disasm_loop m dec 0 pc left = Some []"
| "disasm_loop m dec (Suc n) pc left =
     (case dec pc left of
        None \<Rightarrow> Some []
      | Some (sz, mn, ops) \<Rightarrow>
          do { bs \<leftarrow> read_range m (unat pc) 4;
               rest \<leftarrow> disasm_loop m dec n (pc + of_nat sz) (left - sz);
               Some (\<lparr>vi_address = pc, vi_size = of_nat sz, vi_bytes = bs, vi_mnemonic = take 31 mn, vi_op_str = take 159 ops\<rparr> # rest) })"

definition vc_disasm :: "mem \<Rightarrow> decoder option \<Rightarrow> u64 \<Rightarrow> int \<Rightarrow> bool \<Rightarrow> vc_insn list option" where
  "vc_disasm m dec addr max_count has_out =
     (if addr = 0 \<or> addr < 0x1000 \<or> max_count \<le> 0 \<or> \<not> has_out then Some []
      else (case dec of
              None \<Rightarrow> Some []
            | Some d \<Rightarrow> disasm_loop m d (nat max_count) addr (4 * nat max_count)))"

text \<open>At most so many as the array holds, one behind the other.\<close>

lemma disasm_loop_chain:
  "disasm_loop m dec n pc left = Some is \<Longrightarrow> (\<And>p l. case dec p l of None \<Rightarrow> True | Some (sz, _) \<Rightarrow> sz < 256) \<Longrightarrow>
   length is \<le> n \<and> (is \<noteq> [] \<longrightarrow> vi_address (hd is) = pc) \<and>
   (\<forall>i. Suc i < length is \<longrightarrow> vi_address (is ! Suc i) = vi_address (is ! i) + ucast (vi_size (is ! i)))"
proof (induction n arbitrary: pc left "is")
  case (Suc n)
  show ?case
  proof (cases "dec pc left")
    case (Some d)
    then obtain sz mn ops bs rest where d: "d = (sz, mn, ops)" "read_range m (unat pc) 4 = Some bs"
      "disasm_loop m dec n (pc + of_nat sz) (left - sz) = Some rest"
      "is = \<lparr>vi_address = pc, vi_size = of_nat sz, vi_bytes = bs, vi_mnemonic = take 31 mn, vi_op_str = take 159 ops\<rparr> # rest"
      using Suc.prems(1) by (cases d) (auto simp: bind_eq_Some_conv)
    have "sz < 256" using Suc.prems(2) [of pc left] Some d(1) by simp
    then have u: "ucast (of_nat sz :: u8) = (of_nat sz :: u64)"
      by (simp add: word_unat_eq_iff unat_of_nat unsigned_ucast_eq take_bit_eq_mod)
    note ih = Suc.IH [OF d(3) Suc.prems(2)]
    have "vi_address (is ! Suc i) = vi_address (is ! i) + ucast (vi_size (is ! i))" if "Suc i < length is" for i
      using ih that u by (cases i) (auto simp: d(4) hd_conv_nth)
    then show ?thesis using ih by (simp add: d(4))
  qed (use Suc.prems in simp)
qed simp

end
