(* ===== verification/Tcp_Server.thy ===== *)
theory Tcp_Server
  imports Trace_Session
begin

text \<open>
  The connection of a trace over TCP: \<open>setup_tcp_server\<close> of \<open>trace/include/DirectWriteBuf.h\<close> opens a listening socket, waits for one
  client and closes the listening socket again. The results of the socket calls are arguments; the calls are recorded, and a
  replay of the record says which descriptors are open. \<open>Trace_Session\<close> takes the result as the answer of its environment.
\<close>

datatype sock_call =
    Sock_socket int
  | Sock_option int string int
  | Sock_bind int int
  | Sock_listen int int
  | Sock_accept int int
  | Sock_close int

record sock_env =
  so_socket :: int
  so_bind :: "int \<Rightarrow> int"
  so_listen :: int
  so_accept :: int

definition setup_tcp_server :: "(string \<Rightarrow> int) \<Rightarrow> sock_env \<Rightarrow> string option \<Rightarrow> int \<times> sock_call list" where
  "setup_tcp_server atoi k spec =
     (let port = setup_tcp_port atoi spec; sfd = so_socket k in
      if sfd < 0 then (-1, [Sock_socket sfd])
      else (let opened = [Sock_socket sfd, Sock_option sfd ''SO_REUSEADDR'' 1, Sock_bind sfd port] in
            if so_bind k port < 0 then (-1, opened @ [Sock_close sfd])
            else if so_listen k < 0 then (-1, opened @ [Sock_listen sfd 1, Sock_close sfd])
            else (let cfd = so_accept k;
                      accepted = opened @ [Sock_listen sfd 1, Sock_accept sfd cfd, Sock_close sfd] in
                  if cfd < 0 then (-1, accepted)
                  else (cfd, accepted @ [Sock_option cfd ''SO_SNDBUF'' (4 * 1024 * 1024), Sock_option cfd ''TCP_NODELAY'' 1]))))"

text \<open>Replay: \<open>None\<close> when a descriptor is used that is not open.\<close>

fun open_fds :: "sock_call list \<Rightarrow> int set \<Rightarrow> int set option" where
  "open_fds [] A = Some A"
| "open_fds (Sock_socket fd # cs) A = open_fds cs (if 0 \<le> fd then insert fd A else A)"
| "open_fds (Sock_option fd _ _ # cs) A = (if fd \<in> A then open_fds cs A else None)"
| "open_fds (Sock_bind fd _ # cs) A = (if fd \<in> A then open_fds cs A else None)"
| "open_fds (Sock_listen fd _ # cs) A = (if fd \<in> A then open_fds cs A else None)"
| "open_fds (Sock_accept fd c # cs) A = (if fd \<in> A then open_fds cs (if 0 \<le> c then insert c A else A) else None)"
| "open_fds (Sock_close fd # cs) A = (if fd \<in> A then open_fds cs (A - {fd}) else None)"

text \<open>On every path only open descriptors are used and the listening socket is closed: what stays open is the result.\<close>

lemma setup_tcp_server_fds:
  assumes "so_socket k \<notin> A" and "so_accept k \<notin> insert (so_socket k) A"
    and "setup_tcp_server atoi k spec = (r, cs)"
  shows "open_fds cs A = Some (if 0 \<le> r then insert r A else A)"
  using assms by (auto simp: setup_tcp_server_def Let_def split: if_splits)

lemma setup_tcp_port_range: "1 \<le> setup_tcp_port atoi spec \<and> setup_tcp_port atoi spec \<le> 65535"
  by (simp add: setup_tcp_port_def DW_DEFAULT_PORT_def Let_def)

text \<open>It gives a connection exactly when all four calls succeed.\<close>

lemma setup_tcp_server_connects:
  "0 \<le> fst (setup_tcp_server atoi k spec) \<longleftrightarrow>
     0 \<le> so_socket k \<and> 0 \<le> so_bind k (setup_tcp_port atoi spec) \<and> 0 \<le> so_listen k \<and> 0 \<le> so_accept k"
  by (simp add: setup_tcp_server_def Let_def)

text \<open>A session waits for a client once: while the shared connection is open, another session takes it and makes no socket call.\<close>

lemma connect_tcp_waits_once:
  assumes "\<And>spec. se_server e spec = fst (setup_tcp_server atoi k (Some spec))"
    and "is_tcp_path path" and "is_tcp_path path'" and "ss_tcp_fd s < 0" and "connect_tcp e path s = (fd, s')" and "0 \<le> fd"
  shows "fd = so_accept k \<and> connect_tcp e' path' s' = (fd, s'\<lparr>ss_tcp_count := ss_tcp_count s' + 1\<rparr>)"
  using assms by (auto simp: connect_tcp_def setup_tcp_server_def log_sys_def Let_def split: if_splits)

end
