(* ===== verification/Art_Symbols.thy ===== *)
theory Art_Symbols
  imports Jni_Resolve
begin

text \<open>
  \<open>initArtSymbols\<close> of \<open>trace/src/JniTrace.cpp\<close>: the addresses of libart's \<open>PrettyMethod\<close> and \<open>PrettyField\<close>, looked up once. The dynamic
  linker is an argument: what \<open>dlopen\<close> of libart gives (0 for a failure) and \<open>dlsym\<close> for a symbol. \<open>Jni_Resolve\<close> has the functions behind
  the addresses as fields of the VM; \<open>art_vm\<close> puts the two together.
\<close>

record art_linker =
  al_handle :: u64
  al_sym :: "u64 \<Rightarrow> string \<Rightarrow> u64"

record art_symbols =
  as_initialized :: bool
  as_method :: u64
  as_field :: u64

definition art_initial :: art_symbols where
  "art_initial = \<lparr>as_initialized = False, as_method = 0, as_field = 0\<rparr>"

definition initArtSymbols :: "art_linker \<Rightarrow> art_symbols \<Rightarrow> art_symbols" where
  "initArtSymbols l s =
     (if as_initialized s then s
      else (let s1 = s\<lparr>as_initialized := True\<rparr> in
            if al_handle l = 0 then s1
            else s1\<lparr>as_method := al_sym l (al_handle l) ''_ZN3art9ArtMethod12PrettyMethodEb'',
                    as_field := al_sym l (al_handle l) ''_ZN3art8ArtField11PrettyFieldEb''\<rparr>))"

text \<open>What the resolution sees: the printer at an address, none at 0.\<close>

definition art_vm :: "(u64 \<Rightarrow> u64 \<Rightarrow> string option) \<Rightarrow> art_symbols \<Rightarrow> jvm \<Rightarrow> jvm" where
  "art_vm code s J = J\<lparr>jv_art_method := (if as_method s = 0 then None else Some (code (as_method s))),
                      jv_art_field := (if as_field s = 0 then None else Some (code (as_field s)))\<rparr>"

text \<open>The lookup is done once, whatever the linker says later: a libart that could not be opened is not tried again.\<close>

lemma initArtSymbols_once: "initArtSymbols l' (initArtSymbols l s) = initArtSymbols l s"
  by (simp add: initArtSymbols_def Let_def)

lemma art_open_failed:
  "al_handle l = 0 \<Longrightarrow> resolveMethodByArt (art_vm code (initArtSymbols l' (initArtSymbols l art_initial)) J) mid t = (no_method, t)"
  by (simp add: initArtSymbols_def art_initial_def art_vm_def resolveMethodByArt_def Let_def)

text \<open>The two symbols are independent: a libart without the printer of methods still resolves fields.\<close>

lemma art_field_without_method:
  assumes "al_handle l \<noteq> 0" and "al_sym l (al_handle l) ''_ZN3art9ArtMethod12PrettyMethodEb'' = 0"
    and "al_sym l (al_handle l) ''_ZN3art8ArtField11PrettyFieldEb'' = f" and "f \<noteq> 0" and "fid \<noteq> 0"
    and "code f fid = Some pretty" and "pretty \<noteq> []"
  shows "resolveMethodByArt (art_vm code (initArtSymbols l art_initial) J) mid t = (no_method, t) \<and>
    fst (resolveFieldByArt (art_vm code (initArtSymbols l art_initial) J) fid t') = parsePrettyField pretty"
  using assms by (simp add: initArtSymbols_def art_initial_def art_vm_def resolveMethodByArt_def resolveFieldByArt_def Let_def)

end
