(* ===== verification/Spec2Isabelle.thy ===== *)
theory Spec2Isabelle
  imports Direct_Write_Bg Trace_Objects Session_Text Jni_Lines Memory_Watch Dump_Cover Call_Clones Tools Tcp_Server Art_Symbols
begin

text \<open>
  AndroidPrybar: the tracer under \<open>src/trace\<close>.

  \<^bold>\<open>The program.\<close> A library that runs inside an Android process. A function to be traced is replaced by a stub;
  when it is called, its instructions run in an emulating engine that calls a hook before each of them. The hook
  (\<open>trace_code\<close> in \<open>trace/src/EastTrace.cpp\<close>) prints one line for every instruction: its address and text, the
  registers it read and wrote, the memory it accessed, and comments for system calls, library calls and JNI calls.
  Lines go through a text builder into an output buffer that compresses blocks and writes frames to a file or a
  socket; \<open>tools/trace_receiver.py\<close> reads the frames back. Beside the trace the library has hooks that report the accesses to a
  memory range, and a recorder that saves the memory and registers at the entry of a function for another emulator.

  \<^bold>\<open>Theories, from the bottom up.\<close>
  \<^item> \<open>Prelude\<close>: machine integers as words, little-endian views, text as bytes; the collections \<open>len_simps\<close> and
    \<open>le_simps\<close>. \<open>Memo\<close>: the locale \<open>memo_cache\<close> of tables that remember a computation.
  \<^item> \<open>Text_Builder\<close> (\<open>Utils/StringUtil\<close>): the growing buffer with its capacity and checked stores, and the number
    formatters; the locale \<open>text_sink\<close> is what the printers use of it.
  \<^item> \<open>Lz4_Block\<close>, \<open>Lz4_Extend\<close>, \<open>Lz4_Format\<close>, \<open>Lz4_Encode\<close>, \<open>Lz4_Roundtrip\<close> (\<open>include/lz4_block.h\<close> and the block decoder
    of the receiver): the compressor with every read and store checked, its fast path, the block format, and the
    round trip, kept as the locale \<open>block_codec\<close>. \<open>Frames\<close>: frame headers and the receiver's frame loop.
  \<^item> \<open>Direct_Write\<close>, \<open>Direct_Write_File\<close>, \<open>Direct_Write_Bg\<close> (\<open>include/DirectWriteBuf.h\<close>): the state of a buffer and
    what runs on the tracing thread; file mode, with the crash handler's flush and close and the locale
    \<open>byte_sink\<close>; TCP mode, where a worker thread compresses one buffer while the other is filled. There the two
    threads, the mutexes, the condition variable with its sleeping threads and notifications, sends that are split or fail, and
    the other senders on the socket are the step relation \<open>bg_step\<close>.
  \<^item> \<open>Disasm_Cache\<close>: the 4-way cache of disassembled instructions and the capstone objects it frees, against a
    specification of one list of four addresses per set (locale \<open>address_cache\<close>).
  \<^item> \<open>Reg_Access\<close> (\<open>include/vcpu.h\<close>, \<open>ARM.cpp\<close>, \<open>RegAccessPrinter.cpp\<close>), \<open>Safe_Mem\<close> (\<open>SafeMemRead.h\<close>),
    \<open>Mem_Printer\<close> (\<open>MemPrinter.cpp\<close>), \<open>Plt_Stub\<close> (branch targets and the section table): the parts of a line.
  \<^item> \<open>Elf_File\<close>, \<open>Symbol_Table\<close> (\<open>Utils/SymbolTable.cpp\<close>), \<open>Ptr_Regions\<close> (the address annotations of
    \<open>FuncCallTrace.cpp\<close>), \<open>Library_Utils\<close> (\<open>Utils/LibraryUtils.cpp\<close>): names for addresses and their caches.
  \<^item> \<open>Svc_Handler\<close> (\<open>svc_handler.cpp\<close>), \<open>Func_Call\<close> (\<open>FuncCallTrace.cpp\<close>), \<open>Jni_Flight\<close> (\<open>JniTrace.cpp\<close>): the comments for
    system calls, library calls and JNI calls, with the results that wait for the return.
  \<^item> \<open>Jni_Names\<close>, \<open>Jni_Env\<close>, \<open>Jni_Print\<close>, \<open>Jni_Resolve\<close>, \<open>Jni_Args\<close>, \<open>Jni_Handlers\<close>, \<open>Jni_Table\<close>, \<open>Jni_Lines\<close> (\<open>JniTrace.cpp\<close>): parsing
    what libart prints (\<open>Art_Symbols\<close>: how its printers are found), the calls the tracer makes into the VM with the exception guard and local frames, the printers, the
    resolution of ids, the walk of a \<open>va_list\<close>, one handler for each JNI function and the table of all of them; then what
    holds of every handler and of the lines.
  \<^item> \<open>Thread_Clones\<close>: the locale \<open>thread_clones\<close> of objects that every thread clones for itself from a master, interpreted in
    \<open>Call_Clones\<close> (the contexts of \<open>FuncCallTrace.cpp\<close>) and \<open>Dump_Cover\<close>.
  \<^item> \<open>Trace_Line\<close>, \<open>Trace_Code\<close>: one line and the hook around it; \<open>Trace_Text\<close> and \<open>Trace_Objects\<close> are about any run
    of hooks of one thread: where the text goes, and that the instruction object of the line before is never a freed one, unless another
    thread uses the shared cache.
  \<^item> \<open>Session_Files\<close>, \<open>Trace_Session\<close>, \<open>Session_Tcp\<close>, \<open>Session_Text\<close>: starting and ending traces, the clones of the
    other threads, the files, the shared connection, thread wrapping and the crash handler; then the sessions over
    any sequence of operations, and sessions composed with hooks, buffers and the receiver. \<open>Tcp_Server\<close>: how the shared connection is set up.
  \<^item> \<open>Dump_Pages\<close>, \<open>Dump_Session\<close>, \<open>Dump_Files\<close>, \<open>Dump_Runs\<close>, \<open>Dump_Cover\<close> (\<open>TraceUnidbgDump.cpp\<close>): page arithmetic, the sampling hooks and
    the sessions of the threads, the files of a dump as a list of actions, runs of a dumped function in which
    memory may also change outside of the engine, and what the files of a dump cover.
  \<^item> \<open>Memory_Watch\<close> (\<open>TraceMemoryHook.cpp\<close>, \<open>Utils/TimeUtil.cpp\<close>): the hooks on memory ranges with the stack buffer of their line.
    \<open>Tools\<close>: the hex dump of \<open>Utils/hexdump.cpp\<close> and \<open>vc_disasm\<close> of \<open>Disassembly.cpp\<close>.

  \<^bold>\<open>State and operations.\<close> A C++ class is a record and a method a function that returns the updated record:
  \<open>string_builder\<close>, \<open>dwbuf\<close>, \<open>disasm_cache\<close>, \<open>symbol_table\<close>, \<open>region_state\<close>, \<open>call_state\<close>, \<open>trace_info\<close> (the fields of
  \<open>TraceInfo\<close> that the hook uses), \<open>session_obj\<close> (a \<open>TraceInfo\<close> with its buffer), \<open>session_state\<close> (the file-level
  variables of \<open>EastTrace.cpp\<close>: the session, the clones of each thread, the shared socket and its count), \<open>jni_state\<close>, \<open>fct_state\<close> and
  \<open>dump_state\<close> (heaps of objects by address, with the table of each thread). Integers have
  the width of the source. A read or store outside its object, a use after \<open>delete\<close> and a call through a null
  pointer are the result None, so a theorem whose conclusion says Some excludes them. Functions keep the
  names of the source where HOL has not taken them.

  \<^bold>\<open>What is a parameter.\<close> The engine (registers, the code it runs), capstone (the decoded instruction), the demangler,
  \<open>dladdr\<close> and \<open>dlsym\<close>, the kernel (file contents, results of \<open>open\<close>, \<open>accept\<close> and \<open>write\<close>, short writes included), the
  ELF files on disk, \<open>/proc/self/maps\<close> at a generation. They are functions or lists that the definitions take, or
  fields of an environment record (\<open>dw_env\<close>, \<open>os_env\<close>, \<open>call_env\<close>, \<open>session_env\<close>, \<open>dump_env\<close>, \<open>watch_env\<close>). The Java VM is the record \<open>jvm\<close>: what a
  call returns and what is pending and referenced after a history of calls, under the laws \<open>jvm_ok\<close> that the JNI specification
  gives for exceptions and local references; a call that JNI forbids aborts (None). The hypotheses on them are what their documentation
  promises, and each property that has one has a witness with a concrete function.

  \<^bold>\<open>Loops.\<close> Structural recursion where the loop counts; otherwise a \<open>function\<close> with its termination proof (the write
  loop of the buffer, the match loops of the compressor, the scan of dynamic entries, the searches, the search for a
  free file name, the receiver's loops, the lines of the maps file). The builder's growth doubles a capacity that may be 0, and the
  loop over the addresses of a dumped segment would wrap around at the top of the address space; both are
  \<open>partial_function (option)\<close>, with lemmas that they return. No definition has fuel. The interleavings
  of the worker thread are \<open>inductive\<close>, and the theorems on them hold for every reachable state; that the two threads come to an
  end is shown by a lexicographic order that each of their steps lowers.

  \<^bold>\<open>What the lemmas show.\<close> The properties carry the ids C1 to C40 in the texts before them. In short: what
  is written to a trace is what the receiver decodes, in file mode, over the socket under every interleaving as long as no send
  fails (and a beginning of it when the connection breaks), after a crash, for a truncated file, and for a session as a whole while no
  cleanup or late result meets a line held back; the compressor neither faults nor gives up and its blocks
  decode; the handshake of the two threads has no race, no deadlock and no lost wake-up, and it ends; the caches (instructions, symbols,
  regions) give what a fresh computation gives; the ELF loader leaves its blocks in one case only; the descriptor tables follow the
  calls; the shared connection is closed exactly once and not before its last user; addresses, branch targets and
  register items are computed right; no JNI handler changes the pending exception or the local references of the program,
  and an id that was looked up under the trace is resolved without the VM; a dump holds the memory at the entry of the function, for the
  pages that nothing outside of the engine has changed first, its files cover whole segments, and it is taken for each thread alone.
  What a property assumes stands in the text before it. Properties of kind error state, as theorems about the model, places where
  the code does not do what it means to; they are listed with their source lines among the findings of the manifest.

  \<^bold>\<open>Not modelled.\<close>
  \<^item> \<open>JniTrace.cpp\<close>: the switch of stacks in \<open>proxy_Jni\<close>, which is assembly, and the locks around the caches and the table.
  \<^item> Spin locks and mutexes outside of the TCP buffer: \<open>Call_Clones\<close>, the dump sessions and the memory hooks take each operation as
    one step. The hook of one thread is not interleaved with those of others, which share the disassembly cache and the region snapshot.
  \<^item> The three functions of \<open>Disassembly.cpp\<close> that pass their arguments to capstone, and \<open>logging.h\<close>, macros around the Android log.
  \<^item> \<open>Utils/dlfc\<close> and \<open>Utils/fakeDlopen\<close>: third-party loaders. The engine itself and Dobby are libraries without sources
    here: \<open>replace_trace\<close> and \<open>restore_function\<close> only call them, and \<open>include/vcpu.h\<close> and \<open>include/trace.h\<close> declare them.
  \<^item> \<open>aarch64OpTypeName\<close>, a table of names that nothing prints, and \<open>demo/main.cpp\<close>, a program that calls the library.
  \<^item> \<open>printAssemble\<close>, an older copy of \<open>printAssemble2\<close> that nothing calls.
\<close>

end
